(* ===== verification/BulbPrelude.thy ===== *)
theory BulbPrelude
  imports Main "HOL-Library.Word"
begin

text \<open>
  Shared vocabulary of the bulbOS development: the machine integer types of the i386 target,
  the ways a piece of kernel code can fail to return normally, C arrays whose out-of-range
  accesses are faults, and the byte-addressed memory.  The lemmas here are the generic ones
  on results, arrays, lists and words that the component theories share.
\<close>

unbundle bit_operations_syntax

section \<open>Machine types\<close>

type_synonym u8 = "8 word"
type_synonym u16 = "16 word"
type_synonym u32 = "32 word"
type_synonym u64 = "64 word"

type_synonym ptr = "32 word"
type_synonym mem = "u32 \<Rightarrow> u8"

abbreviation (input) NULL :: ptr where "NULL \<equiv> 0"

section \<open>Results\<close>

text \<open>
  A kernel function either returns, or it panics (\<open>abort\<close>), or it accesses memory outside the
  object it works on (including through a null pointer), or one of its loops never ends.
\<close>

datatype fault = Abort | BadAccess | Hang

type_synonym 'a res = "fault + 'a"

definition rbind :: "'a res \<Rightarrow> ('a \<Rightarrow> 'b res) \<Rightarrow> 'b res" where
  "rbind m f = (case m of Inl e \<Rightarrow> Inl e | Inr x \<Rightarrow> f x)"

named_theorems res_simps \<open>rewriting of results\<close>
named_theorems word_facts \<open>bounds and values of machine words\<close>

lemma rbind_Inl [simp, res_simps]: "rbind (Inl e) f = Inl e"
  by (simp add: rbind_def)

lemma rbind_Inr [simp, res_simps]: "rbind (Inr x) f = f x"
  by (simp add: rbind_def)

lemma rbind_eq_Inr: "rbind m f = Inr y \<longleftrightarrow> (\<exists>x. m = Inr x \<and> f x = Inr y)"
  by (cases m) simp_all

lemma rbind_InrE:
  assumes "rbind m f = Inr y" and "\<And>x. m = Inr x \<Longrightarrow> f x = Inr y \<Longrightarrow> P"
  shows P
  using assms by (cases m) simp_all

lemma rbind_eq_Inl: "rbind m f = Inl e \<longleftrightarrow> m = Inl e \<or> (\<exists>x. m = Inr x \<and> f x = Inl e)"
  by (cases m) simp_all

lemma rbind_assoc: "rbind (rbind m f) g = rbind m (\<lambda>x. rbind (f x) g)"
  by (cases m) simp_all

lemma rbind_cong [fundef_cong]:
  assumes "m = m'" and "\<And>x. m' = Inr x \<Longrightarrow> f x = f' x"
  shows "rbind m f = rbind m' f'"
  using assms by (cases m') simp_all

text \<open>A loop that counts from 0: an invariant indexed by the counter.\<close>

lemma foldl_rbind_upto:
  assumes "P 0 s" and "\<And>k s. k < n \<Longrightarrow> P k s \<Longrightarrow> \<exists>s'. f k s = Inr s' \<and> P (Suc k) s'"
  shows "\<exists>s'. foldl (\<lambda>r k. rbind r (f k)) (Inr s) [0..<n] = Inr s' \<and> P n s'"
  using assms
proof (induction n)
  case (Suc n)
  then obtain s1 where s1: "foldl (\<lambda>r k. rbind r (f k)) (Inr s) [0..<n] = Inr s1" "P n s1"
    by (metis less_Suc_eq)
  then show ?case
    using Suc.prems(2) [of n s1] by auto
qed simp

section \<open>C arrays\<close>

definition array_get :: "'a list \<Rightarrow> nat \<Rightarrow> 'a res" where
  "array_get xs i = (if i < length xs then Inr (xs ! i) else Inl BadAccess)"

definition array_set :: "'a list \<Rightarrow> nat \<Rightarrow> 'a \<Rightarrow> 'a list res" where
  "array_set xs i v = (if i < length xs then Inr (xs[i := v]) else Inl BadAccess)"

text \<open>Indices that the code keeps in a signed variable.\<close>

definition array_seti :: "'a list \<Rightarrow> int \<Rightarrow> 'a \<Rightarrow> 'a list res" where
  "array_seti xs i v = (if i < 0 then Inl BadAccess else array_set xs (nat i) v)"

lemma array_seti_nat [simp]: "array_seti xs (int i) v = array_set xs i v"
  by (simp add: array_seti_def)

lemma array_get_in [simp]: "i < length xs \<Longrightarrow> array_get xs i = Inr (xs ! i)"
  by (simp add: array_get_def)

lemma array_set_in [simp]: "i < length xs \<Longrightarrow> array_set xs i v = Inr (xs[i := v])"
  by (simp add: array_set_def)

lemma array_get_out [simp]: "length xs \<le> i \<Longrightarrow> array_get xs i = Inl BadAccess"
  by (simp add: array_get_def)

lemma array_set_out [simp]: "length xs \<le> i \<Longrightarrow> array_set xs i v = Inl BadAccess"
  by (simp add: array_set_def)

lemma array_get_eq_Inr: "array_get xs i = Inr v \<longleftrightarrow> i < length xs \<and> xs ! i = v"
  by (auto simp: array_get_def)

lemma array_set_eq_Inr: "array_set xs i v = Inr ys \<longleftrightarrow> i < length xs \<and> ys = xs[i := v]"
  by (auto simp: array_set_def)

lemma nth_update_if: "i < length xs \<Longrightarrow> xs[s := e] ! i = (if i = s then e else xs ! i)"
  by auto

section \<open>Ring buffers\<close>

text \<open>
  The elements of a ring buffer, oldest first: \<open>n\<close> elements starting at index \<open>h\<close>, indices taken
  modulo the buffer's length.
\<close>

definition ring_list :: "'a list \<Rightarrow> nat \<Rightarrow> nat \<Rightarrow> 'a list" where
  "ring_list buf h n = map (\<lambda>i. buf ! ((h + i) mod length buf)) [0..<n]"

lemma length_ring_list [simp]: "length (ring_list buf h n) = n"
  by (simp add: ring_list_def)

lemma ring_list_0 [simp]: "ring_list buf h 0 = []"
  by (simp add: ring_list_def)

lemma ring_list_mod_start: "ring_list buf (h mod length buf) n = ring_list buf h n"
  by (simp add: ring_list_def mod_add_left_eq)

lemma ring_index_distinct:
  assumes "i < n" "n < L"
  shows "(h + i) mod L \<noteq> (h + n) mod (L :: nat)"
proof
  assume eq: "(h + i) mod L = (h + n) mod L"
  have "h + i \<le> h + n"
    using assms by simp
  then have "L dvd (h + n) - (h + i)"
    using eq by (metis mod_eq_dvd_iff_nat)
  then have "L dvd n - i"
    by simp
  then show False
    using assms by (auto dest: dvd_imp_le)
qed

lemma ring_list_push:
  assumes "n < length buf"
  shows "ring_list (buf[(h + n) mod length buf := v]) h (Suc n) = ring_list buf h n @ [v]"
proof -
  have "buf[(h + n) mod length buf := v] ! ((h + i) mod length buf) = buf ! ((h + i) mod length buf)"
    if "i < n" for i
    using ring_index_distinct [OF that assms, of h] by simp
  moreover have "(h + n) mod length buf < length buf"
    using assms by (intro mod_less_divisor) linarith
  ultimately show ?thesis
    by (simp add: ring_list_def)
qed

lemma ring_list_Suc:
  "ring_list buf h (Suc n) = buf ! (h mod length buf) # ring_list buf (Suc h) n"
proof -
  have "[0..<Suc n] = 0 # map Suc [0..<n]"
    by (simp add: map_Suc_upt upt_conv_Cons del: upt_Suc)
  then show ?thesis
    by (simp add: ring_list_def del: upt_Suc)
qed

lemma ring_list_pop:
  "0 < n \<Longrightarrow> ring_list buf (Suc h mod length buf) (n - 1) = tl (ring_list buf h n)"
  by (cases n) (simp_all add: ring_list_Suc ring_list_mod_start)

lemma hd_ring_list: "0 < n \<Longrightarrow> hd (ring_list buf h n) = buf ! (h mod length buf)"
  by (cases n) (simp_all add: ring_list_Suc)

text \<open>Slots of a ring of length \<open>L\<close>, counted from \<open>h\<close>.\<close>

definition slot :: "nat \<Rightarrow> nat \<Rightarrow> nat \<Rightarrow> nat" where
  "slot L h j = (h + j) mod L"

lemma slot_lt [simp]: "0 < L \<Longrightarrow> slot L h j < L"
  by (simp add: slot_def)

lemma slot_inj: "slot L h i = slot L h j \<Longrightarrow> i < L \<Longrightarrow> j < L \<Longrightarrow> i = j"
  using ring_index_distinct [of i j L h] ring_index_distinct [of j i L h]
  by (cases i j rule: linorder_cases) (auto simp: slot_def)

lemma slot_surj:
  assumes "i < L"
  obtains j where "j < L" "i = slot L h j"
proof -
  let ?j = "(i + (L - h mod L)) mod L"
  have "(h + ?j) mod L = (h mod L + (i + (L - h mod L))) mod L"
    by (simp add: mod_simps)
  also have "h mod L + (i + (L - h mod L)) = i + L"
    using assms mod_less_divisor [of L h] by linarith
  finally have "slot L h ?j = i"
    using assms by (simp add: slot_def)
  then show ?thesis
    using that [of ?j] assms by simp
qed

lemma slot_Suc: "slot L h (Suc j) = Suc (slot L h j) mod L"
  by (simp add: slot_def mod_Suc_eq)

text \<open>The first index at which a predicate holds.\<close>

definition first_at :: "(nat \<Rightarrow> bool) \<Rightarrow> nat \<Rightarrow> bool" where
  "first_at P j \<longleftrightarrow> P j \<and> (\<forall>i<j. \<not> P i)"

lemma first_at_ex: "P j \<Longrightarrow> \<exists>i\<le>j. first_at P i"
  unfolding first_at_def by (metis LeastI Least_le not_less_Least)

lemma first_at_below: "P i \<Longrightarrow> i < n \<Longrightarrow> \<exists>j<n. first_at P j"
  using first_at_ex [of P i] by (meson order.strict_trans1)

lemma first_at_unique: "first_at P i \<Longrightarrow> first_at P j \<Longrightarrow> i = j"
  unfolding first_at_def by (metis linorder_neqE_nat)

section \<open>Words\<close>

lemma unat_u32_lt [word_facts]: "unat (x :: u32) < 4294967296"
  using unsigned_less [of x, where ?'a = nat] by simp

lemma unat_u8_lt [word_facts]: "unat (x :: u8) < 256"
  using unsigned_less [of x, where ?'a = nat] by simp

lemma unat_u32_add:
  "unat (a :: u32) + unat b < 4294967296 \<Longrightarrow> unat (a + b) = unat a + unat b"
  by (simp add: unat_word_ariths)

lemma unat_u32_plus_mod: "unat ((a :: u32) + b) = (unat a + unat b) mod 4294967296"
  by (simp add: unat_word_ariths)

lemma unat_u32_mult_mod: "unat ((a :: u32) * b) = unat a * unat b mod 4294967296"
  by (simp add: unat_word_ariths)

lemma unat_u32_no_wrap:
  assumes "(a :: u32) < a + b"
  shows "unat (a + b) = unat a + unat b"
proof (rule ccontr)
  note u = unat_u32_plus_mod [of a b] and lt = unat_u32_lt [of a] unat_u32_lt [of b]
  assume "unat (a + b) \<noteq> unat a + unat b"
  then have ge: "4294967296 \<le> unat a + unat b"
    using u by (metis mod_less not_le)
  then have "(unat a + unat b) mod 4294967296 = (unat a + unat b - 4294967296) mod 4294967296"
    by (rule le_mod_geq)
  also have "\<dots> = unat a + unat b - 4294967296"
    using lt by (intro mod_less) linarith
  finally show False
    using assms u lt ge by (simp add: word_less_nat_alt)
qed

lemma unat_u32_Suc: "unat (a :: u32) < 4294967295 \<Longrightarrow> unat (a + 1) = Suc (unat a)"
  by (simp add: unat_word_ariths)

lemma unat_u32_mod: "unat ((a :: u32) mod b) = unat a mod unat b"
  by (simp add: unat_mod)

lemma unat_u32_of_nat: "n < 4294967296 \<Longrightarrow> unat (of_nat n :: u32) = n"
  by (simp add: unat_of_nat take_bit_nat_eq_self)

lemma unat_ucast_u64 [simp]: "unat (ucast (x :: u32) :: u64) = unat x"
  using unat_u32_lt [of x] by (simp add: unsigned_ucast_eq take_bit_nat_eq_self)

lemma unat_u32_minus_1: "unat (- 1 :: u32) = 4294967295"
  by (simp add: unsigned_minus_1_eq_mask mask_eq_exp_minus_1)

lemma unat_u8_of_u32: "unat (x :: u32) < 256 \<Longrightarrow> unat (ucast x :: u8) = unat x"
  by (simp add: unsigned_ucast_eq take_bit_nat_eq_self)

lemma unat_u16_of_u8: "unat (ucast (x :: u8) :: u16) = unat x"
  using unat_u8_lt [of x] by (simp add: unsigned_ucast_eq take_bit_nat_eq_self)

lemma ucast_u32_of_u8: "(ucast (x :: u8) :: u32) = of_nat (unat x)"
  by simp

text \<open>The keys of the caches: two 32-bit numbers side by side.\<close>

lemma pair_key_inj:
  "(push_bit 32 (ucast (a :: u32)) OR ucast (b :: u32) :: u64) = push_bit 32 (ucast c) OR ucast d \<longleftrightarrow> a = c \<and> b = d"
proof -
  have "ucast (push_bit 32 (ucast a) OR ucast b :: u64) = b" for a b :: u32
    by (rule bit_word_eqI) (auto simp: bit_simps)
  moreover have "ucast (drop_bit 32 (push_bit 32 (ucast a) OR ucast b :: u64)) = a" for a b :: u32
    by (rule bit_word_eqI) (auto simp: bit_simps dest: bit_imp_le_length)
  ultimately show ?thesis
    by metis
qed

lemma unat_u32_eq_iff: "(a :: u32) = b \<longleftrightarrow> unat a = unat b"
  by (simp add: word_unat_eq_iff)

lemma bit_above:
  assumes "drop_bit k (x :: 'a :: len word) = 0" and "k \<le> n"
  shows "\<not> bit x n"
proof -
  have "bit (drop_bit k x) (n - k) = bit x n"
    using assms(2) by (simp add: bit_simps)
  with assms(1) show ?thesis
    by simp
qed

end
