(* ===== verification/RingQueue.thy ===== *)
theory RingQueue
  imports BulbPrelude
begin

text \<open>
  The bounded ring queue of \<open>src/utils/queue.c\<close>, which the keyboard driver uses for its pending
  controller commands.  A queue is the record of \<open>queue_t\<close>; its buffer is a C array of
  pointer-sized values.  Shown here: under the well-formedness invariant no operation leaves the
  buffer, and push, pop and top implement a bounded first-in first-out list.
\<close>

section \<open>The queue\<close>

record queue_t =
  q_queue :: "ptr list"
  q_capacity :: u32
  q_size :: u32
  q_head :: u32

text \<open>
  \<open>queue_init\<close> gets the contents of the block the allocator returned for the buffer: its bytes are
  not initialised.
\<close>

definition queue_init :: "ptr list \<Rightarrow> u32 \<Rightarrow> queue_t" where
  "queue_init block cap =
     \<lparr>q_queue = block, q_capacity = cap, q_size = 0, q_head = 0\<rparr>"

definition queue_push :: "queue_t \<Rightarrow> ptr \<Rightarrow> (int \<times> queue_t) res" where
  "queue_push q value =
     (if q_size q + 1 > q_capacity q then Inr (-1, q)
      else let idx = (q_head q + q_size q) mod q_capacity q;
               q1 = q\<lparr>q_size := q_size q + 1\<rparr>
           in rbind (array_set (q_queue q1) (unat idx) value)
                (\<lambda>buf. Inr (0, q1\<lparr>q_queue := buf\<rparr>)))"

definition queue_pop :: "queue_t \<Rightarrow> queue_t" where
  "queue_pop q =
     (if q_size q = 0 then q
      else q\<lparr>q_size := q_size q - 1, q_head := (q_head q + 1) mod q_capacity q\<rparr>)"

definition queue_top :: "queue_t \<Rightarrow> ptr res" where
  "queue_top q = array_get (q_queue q) (unat (q_head q))"

section \<open>Well-formed queues and their contents\<close>

definition queue_inv :: "queue_t \<Rightarrow> bool" where
  "queue_inv q \<longleftrightarrow>
     length (q_queue q) = unat (q_capacity q) \<and> unat (q_capacity q) < 2 ^ 30 \<and>
     q_size q \<le> q_capacity q \<and> (q_capacity q = 0 \<or> q_head q < q_capacity q)"

definition queue_list :: "queue_t \<Rightarrow> ptr list" where
  "queue_list q = ring_list (q_queue q) (unat (q_head q)) (unat (q_size q))"

lemma queue_init_inv:
  "length block = unat cap \<Longrightarrow> unat cap < 2 ^ 30 \<Longrightarrow> queue_inv (queue_init block cap)"
  by (auto simp: queue_inv_def queue_init_def word_less_nat_alt unat_eq_zero)

lemma queue_list_init [simp]: "queue_list (queue_init block cap) = []"
  by (simp add: queue_list_def queue_init_def)

lemma queue_inv_nat:
  assumes "queue_inv q"
  shows "unat (q_size q) \<le> length (q_queue q)"
    and "unat (q_size q + 1) = Suc (unat (q_size q))"
    and "unat (q_head q + q_size q) = unat (q_head q) + unat (q_size q) \<or> length (q_queue q) = 0"
    and "unat (q_head q + 1) = Suc (unat (q_head q)) \<or> length (q_queue q) = 0"
    and "q_size q + 1 > q_capacity q \<longleftrightarrow> length (q_queue q) \<le> unat (q_size q)"
proof -
  have len: "length (q_queue q) = unat (q_capacity q)" and cap: "unat (q_capacity q) < 1073741824"
    and sz: "unat (q_size q) \<le> unat (q_capacity q)"
    and hd: "unat (q_capacity q) = 0 \<or> unat (q_head q) < unat (q_capacity q)"
    using assms by (auto simp: queue_inv_def word_le_nat_alt word_less_nat_alt)
  show "unat (q_size q) \<le> length (q_queue q)"
    using len sz by simp
  show suc: "unat (q_size q + 1) = Suc (unat (q_size q))"
    using cap sz by (intro unat_u32_Suc) linarith
  show "unat (q_head q + q_size q) = unat (q_head q) + unat (q_size q) \<or> length (q_queue q) = 0"
    using cap sz hd len unat_u32_add [of "q_head q" "q_size q"] by linarith
  show "unat (q_head q + 1) = Suc (unat (q_head q)) \<or> length (q_queue q) = 0"
    using cap hd len unat_u32_Suc [of "q_head q"] by linarith
  show "q_size q + 1 > q_capacity q \<longleftrightarrow> length (q_queue q) \<le> unat (q_size q)"
    using suc sz len by (simp add: word_less_nat_alt) linarith
qed

lemma queue_push_full:
  assumes "queue_inv q" and "unat (q_capacity q) \<le> length (queue_list q)"
  shows "queue_push q v = Inr (-1, q)"
  using assms queue_inv_nat (5) [OF assms(1)]
  by (simp add: queue_push_def queue_list_def queue_inv_def)

lemma queue_push_room:
  assumes inv: "queue_inv q" and room: "length (queue_list q) < unat (q_capacity q)"
  shows "\<exists>q'. queue_push q v = Inr (0, q') \<and> queue_inv q' \<and> q_capacity q' = q_capacity q \<and>
           queue_list q' = queue_list q @ [v]"
proof -
  note nat = queue_inv_nat [OF inv]
  let ?i = "(unat (q_head q) + unat (q_size q)) mod length (q_queue q)"
  have len: "length (q_queue q) = unat (q_capacity q)"
    using inv by (simp add: queue_inv_def)
  have lt: "unat (q_size q) < length (q_queue q)"
    using room len by (simp add: queue_list_def)
  then have idx: "unat ((q_head q + q_size q) mod q_capacity q) = ?i"
    using nat(3) len by (auto simp: unat_u32_mod)
  have "?i < length (q_queue q)"
    using lt by (intro mod_less_divisor) linarith
  then have "queue_push q v =
      Inr (0, q\<lparr>q_size := q_size q + 1, q_queue := (q_queue q)[?i := v]\<rparr>)"
    using nat(5) lt idx by (simp add: queue_push_def Let_def)
  moreover have "queue_inv (q\<lparr>q_size := q_size q + 1, q_queue := (q_queue q)[?i := v]\<rparr>)"
    using inv nat(2) lt len by (simp add: queue_inv_def word_le_nat_alt)
  moreover have "queue_list (q\<lparr>q_size := q_size q + 1, q_queue := (q_queue q)[?i := v]\<rparr>)
      = queue_list q @ [v]"
    using ring_list_push [OF lt, of "unat (q_head q)" v] nat(2) by (simp add: queue_list_def)
  ultimately show ?thesis by simp
qed

lemma queue_pop_list:
  assumes inv: "queue_inv q"
  shows "queue_inv (queue_pop q)" and "queue_list (queue_pop q) = tl (queue_list q)"
    and "q_capacity (queue_pop q) = q_capacity q"
proof -
  note nat = queue_inv_nat [OF inv]
  have len: "length (q_queue q) = unat (q_capacity q)"
    using inv by (simp add: queue_inv_def)
  have step: "unat ((q_head q + 1) mod q_capacity q) = Suc (unat (q_head q)) mod length (q_queue q)"
    and dec: "unat (q_size q - 1) = unat (q_size q) - 1" if "q_size q \<noteq> 0"
  proof -
    have "0 < unat (q_size q)"
      using that by (simp add: unat_gt_0)
    then show "unat ((q_head q + 1) mod q_capacity q) = Suc (unat (q_head q)) mod length (q_queue q)"
      using nat(1,4) len by (auto simp: unat_u32_mod)
    show "unat (q_size q - 1) = unat (q_size q) - 1"
      using that by (simp add: unat_minus_one)
  qed
  show "queue_inv (queue_pop q)"
  proof (cases "q_size q = 0")
    case False
    then have "0 < unat (q_capacity q)"
      using nat(1) len by (metis gr0I le_zero_eq unat_eq_zero)
    then show ?thesis
      using inv dec [OF False] step [OF False] len False
      by (auto simp: queue_inv_def queue_pop_def word_le_nat_alt word_less_nat_alt)
  qed (use inv in \<open>simp add: queue_pop_def\<close>)
  show "queue_list (queue_pop q) = tl (queue_list q)"
    using step dec ring_list_pop [of "unat (q_size q)" "q_queue q" "unat (q_head q)"]
    by (auto simp: queue_pop_def queue_list_def unat_gt_0)
  show "q_capacity (queue_pop q) = q_capacity q"
    by (simp add: queue_pop_def)
qed

lemma queue_top_hd:
  assumes inv: "queue_inv q" and ne: "queue_list q \<noteq> []"
  shows "queue_top q = Inr (hd (queue_list q))"
proof -
  have pos: "0 < unat (q_size q)"
    using ne by (auto simp: queue_list_def intro: gr0I)
  then have "unat (q_head q) < length (q_queue q)"
    using inv queue_inv_nat(1) [OF inv] by (auto simp: queue_inv_def word_less_nat_alt)
  then show ?thesis
    using hd_ring_list [OF pos, of "q_queue q" "unat (q_head q)"]
    by (simp add: queue_top_def queue_list_def)
qed

section \<open>The interface: a bounded first-in first-out queue\<close>

locale bounded_fifo =
  fixes push :: "'q \<Rightarrow> 'a \<Rightarrow> (int \<times> 'q) res"
    and pop :: "'q \<Rightarrow> 'q"
    and top :: "'q \<Rightarrow> 'a res"
    and cap :: "'q \<Rightarrow> nat"
    and list :: "'q \<Rightarrow> 'a list"
    and invar :: "'q \<Rightarrow> bool"
  assumes bounded: "invar q \<Longrightarrow> length (list q) \<le> cap q"
    and push_full: "invar q \<Longrightarrow> cap q \<le> length (list q) \<Longrightarrow> push q x = Inr (-1, q)"
    and push_room: "invar q \<Longrightarrow> length (list q) < cap q \<Longrightarrow>
          \<exists>q'. push q x = Inr (0, q') \<and> invar q' \<and> cap q' = cap q \<and> list q' = list q @ [x]"
    and pop_invar: "invar q \<Longrightarrow> invar (pop q)"
    and pop_list: "invar q \<Longrightarrow> list (pop q) = tl (list q)"
    and pop_cap: "invar q \<Longrightarrow> cap (pop q) = cap q"
    and top_hd: "invar q \<Longrightarrow> list q \<noteq> [] \<Longrightarrow> top q = Inr (hd (list q))"
begin

lemma push_list:
  assumes "invar q"
  shows "\<exists>r q'. push q x = Inr (r, q') \<and> invar q' \<and> cap q' = cap q \<and>
           (r, list q') = (if length (list q) < cap q then (0, list q @ [x]) else (-1, list q))"
  using assms push_room [of q x] push_full [of q x] by (cases "length (list q) < cap q") auto

text \<open>Any program of pushes and pops acts on the contents as on a bounded list.\<close>

fun run :: "'a option list \<Rightarrow> 'q \<Rightarrow> 'q res" where
  "run [] q = Inr q"
| "run (Some x # ops) q = rbind (push q x) (\<lambda>(r, q'). run ops q')"
| "run (None # ops) q = run ops (pop q)"

fun fifo :: "nat \<Rightarrow> 'a option list \<Rightarrow> 'a list \<Rightarrow> 'a list" where
  "fifo n [] xs = xs"
| "fifo n (Some x # ops) xs = fifo n ops (if length xs < n then xs @ [x] else xs)"
| "fifo n (None # ops) xs = fifo n ops (tl xs)"

lemma run_fifo:
  assumes "invar q"
  shows "\<exists>q'. run ops q = Inr q' \<and> invar q' \<and> cap q' = cap q \<and>
           list q' = fifo (cap q) ops (list q)"
  using assms
proof (induction ops q rule: run.induct)
  case (2 x ops q)
  from push_list [OF "2.prems", of x] obtain r q1 where
    "push q x = Inr (r, q1)" "invar q1" "cap q1 = cap q"
    "list q1 = (if length (list q) < cap q then list q @ [x] else list q)"
    by (auto split: if_splits)
  then show ?case
    using "2.IH" [of "(r, q1)" r q1] by (auto split: if_splits)
qed (simp_all add: pop_invar pop_cap pop_list)

end

interpretation rq: bounded_fifo queue_push queue_pop queue_top
  "\<lambda>q. unat (q_capacity q)" queue_list queue_inv
proof
  fix q x
  assume inv: "queue_inv q"
  show "length (queue_list q) \<le> unat (q_capacity q)"
    using inv by (simp add: queue_inv_def queue_list_def word_le_nat_alt)
  show "unat (q_capacity q) \<le> length (queue_list q) \<Longrightarrow> queue_push q x = Inr (-1, q)"
    by (rule queue_push_full [OF inv])
  show "length (queue_list q) < unat (q_capacity q) \<Longrightarrow>
      \<exists>q'. queue_push q x = Inr (0, q') \<and> queue_inv q' \<and> unat (q_capacity q') = unat (q_capacity q) \<and>
        queue_list q' = queue_list q @ [x]"
    using queue_push_room [OF inv, of x] by auto
  show "queue_inv (queue_pop q)" "queue_list (queue_pop q) = tl (queue_list q)"
    "unat (q_capacity (queue_pop q)) = unat (q_capacity q)"
    by (simp_all add: queue_pop_list [OF inv])
  show "queue_list q \<noteq> [] \<Longrightarrow> queue_top q = Inr (hd (queue_list q))"
    by (rule queue_top_hd [OF inv])
qed

section \<open>Every program of queue operations is a bounded list\<close>

text \<open>A program: \<open>Some v\<close> is \<open>queue_push(q, v)\<close>, \<open>None\<close> is \<open>queue_pop(q)\<close>.\<close>

fun queue_run :: "ptr option list \<Rightarrow> queue_t \<Rightarrow> queue_t res" where
  "queue_run [] q = Inr q"
| "queue_run (Some v # ops) q = rbind (queue_push q v) (\<lambda>(r, q'). queue_run ops q')"
| "queue_run (None # ops) q = queue_run ops (queue_pop q)"

fun fifo_run :: "nat \<Rightarrow> ptr option list \<Rightarrow> ptr list \<Rightarrow> ptr list" where
  "fifo_run n [] xs = xs"
| "fifo_run n (Some v # ops) xs = fifo_run n ops (if length xs < n then xs @ [v] else xs)"
| "fifo_run n (None # ops) xs = fifo_run n ops (tl xs)"

lemma queue_run_eq: "queue_run ops q = rq.run ops q"
  by (induction ops q rule: queue_run.induct) (auto intro!: rbind_cong)

lemma fifo_run_eq: "fifo_run n ops xs = rq.fifo n ops xs"
  by (induction n ops xs rule: fifo_run.induct) simp_all

text \<open>C28 [queue_refines_fifo]: from a well-formed queue every sequence of pushes and pops returns
  (no access leaves the buffer), keeps the queue well-formed and its capacity, and changes its
  contents as the same sequence changes a list of at most \<open>capacity\<close> elements: a push appends when
  there is room and is refused otherwise, a pop removes the oldest element.\<close>

theorem queue_refines_fifo:
  assumes "queue_inv q"
  shows "\<exists>q'. queue_run ops q = Inr q' \<and> queue_inv q' \<and> q_capacity q' = q_capacity q \<and>
           queue_list q' = fifo_run (unat (q_capacity q)) ops (queue_list q)"
  using rq.run_fifo [OF assms, of ops] unfolding queue_run_eq fifo_run_eq by (auto simp: word_unat_eq_iff)

theorem queue_refines_fifo_witness:
  "\<exists>q'. queue_run [Some 7, Some 8, None, Some 9, Some 10] (queue_init [1, 2] 2) = Inr q' \<and>
     queue_inv q' \<and> q_capacity q' = 2 \<and> queue_list q' = [8, 9]"
proof -
  have "queue_inv (queue_init [1, 2] 2)"
    by (rule queue_init_inv) simp_all
  from queue_refines_fifo [OF this, of "[Some 7, Some 8, None, Some 9, Some 10]"] show ?thesis
    by (simp add: queue_init_def queue_list_def)
qed

end
