(* ===== verification/LibcString.thy ===== *)
theory LibcString
  imports BulbPrelude "HOL-Library.Signed_Division"
begin

text \<open>
  The string and memory routines of \<open>libc-src/string\<close>: \<open>memcmp\<close>, \<open>strcmp\<close>, \<open>strlen\<close> on byte
  arrays, \<open>memcpy\<close>, \<open>memmove\<close>, \<open>memset\<close> on the byte-addressed memory, and the number printers
  \<open>itoa\<close> and \<open>uitoa\<close>.  Shown here: \<open>strcmp\<close> decides equality of strings, \<open>memmove\<close> copies
  overlapping regions correctly, \<open>memcpy\<close> copies disjoint ones, and \<open>uitoa\<close> prints the digits of
  its argument, which read back to it.
\<close>

section \<open>Byte arrays\<close>

text \<open>A byte array is a list; reading past its end is an access outside the object.\<close>

fun strlen :: "u8 list \<Rightarrow> nat res" where
  "strlen [] = Inl BadAccess"
| "strlen (c # cs) = (if c = 0 then Inr 0 else rbind (strlen cs) (\<lambda>n. Inr (Suc n)))"

fun memcmp :: "u8 list \<Rightarrow> u8 list \<Rightarrow> nat \<Rightarrow> int res" where
  "memcmp a b 0 = Inr 0"
| "memcmp (x # a) (y # b) (Suc n) =
     (if x < y then Inr (-1) else if y < x then Inr 1 else memcmp a b n)"
| "memcmp [] b (Suc n) = Inl BadAccess"
| "memcmp a [] (Suc n) = Inl BadAccess"

text \<open>The loop of \<open>strcmp\<close>, which runs while the first string has not ended.\<close>

fun strcmp_loop :: "u8 list \<Rightarrow> u8 list \<Rightarrow> int res" where
  "strcmp_loop [] b = Inl BadAccess"
| "strcmp_loop (x # a) b =
     (if x = 0 then Inr 0
      else case b of [] \<Rightarrow> Inl BadAccess
           | y # b' \<Rightarrow> if x < y then Inr (-1) else if y < x then Inr 1 else strcmp_loop a b')"

definition strcmp :: "u8 list \<Rightarrow> u8 list \<Rightarrow> int res" where
  "strcmp a b =
     rbind (strlen a) (\<lambda>la. rbind (strlen b) (\<lambda>lb.
       if la \<noteq> lb then Inr 1 else strcmp_loop a b))"

text \<open>The string an array holds: its bytes before the first zero.\<close>

definition cstring :: "u8 list \<Rightarrow> u8 list" where
  "cstring a = takeWhile (\<lambda>c. c \<noteq> 0) a"

definition terminated :: "u8 list \<Rightarrow> bool" where
  "terminated a \<longleftrightarrow> 0 \<in> set a"

lemma strlen_cstring: "terminated a \<Longrightarrow> strlen a = Inr (length (cstring a))"
  by (induction a rule: strlen.induct) (auto simp: terminated_def cstring_def)

lemma strlen_unterminated: "\<not> terminated a \<Longrightarrow> strlen a = Inl BadAccess"
  by (induction a rule: strlen.induct) (auto simp: terminated_def)

lemma memcmp_take:
  "n \<le> length a \<Longrightarrow> n \<le> length b \<Longrightarrow>
   \<exists>r. memcmp a b n = Inr r \<and> (r = 0 \<longleftrightarrow> take n a = take n b)"
  by (induction a b n rule: memcmp.induct) auto

lemma strcmp_loop_cstring:
  assumes "terminated a" "terminated b" "length (cstring a) = length (cstring b)"
  shows "\<exists>r. strcmp_loop a b = Inr r \<and> (r = 0 \<longleftrightarrow> cstring a = cstring b)"
  using assms
proof (induction a b rule: strcmp_loop.induct)
  case (2 x a b)
  then show ?case
    by (cases b) (auto simp: terminated_def cstring_def split: if_splits)
qed (simp add: terminated_def)

lemma strcmp_cstring:
  assumes "terminated a" "terminated b"
  shows "\<exists>r. strcmp a b = Inr r \<and> (r = 0 \<longleftrightarrow> cstring a = cstring b)"
proof (cases "length (cstring a) = length (cstring b)")
  case True
  then show ?thesis
    using strcmp_loop_cstring [OF assms] assms by (simp add: strcmp_def strlen_cstring)
next
  case False
  then show ?thesis
    using assms by (auto simp: strcmp_def strlen_cstring)
qed

section \<open>Memory\<close>

fun memset_loop :: "mem \<Rightarrow> ptr \<Rightarrow> u8 \<Rightarrow> u32 \<Rightarrow> nat \<Rightarrow> mem" where
  "memset_loop m buf v i 0 = m"
| "memset_loop m buf v i (Suc k) = memset_loop (m(buf + i := v)) buf v (i + 1) k"

definition memset :: "mem \<Rightarrow> ptr \<Rightarrow> u32 \<Rightarrow> u32 \<Rightarrow> mem" where
  "memset m buf value sz = memset_loop m buf (ucast value) 0 (unat sz)"

fun memcpy_loop :: "mem \<Rightarrow> ptr \<Rightarrow> ptr \<Rightarrow> u32 \<Rightarrow> nat \<Rightarrow> mem" where
  "memcpy_loop m dst src i 0 = m"
| "memcpy_loop m dst src i (Suc k) = memcpy_loop (m(dst + i := m (src + i))) dst src (i + 1) k"

definition memcpy :: "mem \<Rightarrow> ptr \<Rightarrow> ptr \<Rightarrow> u32 \<Rightarrow> mem" where
  "memcpy m dst src sz = memcpy_loop m dst src 0 (unat sz)"

fun memmove_down :: "mem \<Rightarrow> ptr \<Rightarrow> ptr \<Rightarrow> nat \<Rightarrow> mem" where
  "memmove_down m dst src 0 = m"
| "memmove_down m dst src (Suc i) =
     memmove_down (m(dst + of_nat i := m (src + of_nat i))) dst src i"

definition memmove :: "mem \<Rightarrow> ptr \<Rightarrow> ptr \<Rightarrow> u32 \<Rightarrow> mem" where
  "memmove m dst src sz =
     (if dst < src then memcpy_loop m dst src 0 (unat sz)
      else memmove_down m dst src (unat sz))"

text \<open>A region of \<open>n\<close> bytes at \<open>p\<close> that does not wrap around the address space.\<close>

definition fits :: "ptr \<Rightarrow> nat \<Rightarrow> bool" where
  "fits p n \<longleftrightarrow> unat p + n \<le> 2 ^ 32"

lemma region_offset:
  assumes "fits p n" "i < n"
  shows "unat (p + of_nat i) = unat p + i"
proof -
  have "i < 4294967296"
    using assms by (simp add: fits_def)
  then show ?thesis
    using assms by (simp add: fits_def unat_word_ariths unat_u32_of_nat)
qed

lemma region_diff: "unat ((a :: u32) - p) < n \<Longrightarrow> a = p + of_nat (unat (a - p))"
  by simp

lemma region_member:
  assumes "fits p n"
  shows "unat (a - p) < n \<longleftrightarrow> unat p \<le> unat a \<and> unat a < unat p + n"
  using assms unat_u32_lt [of a] unat_u32_lt [of p]
  by (auto simp: fits_def unat_sub_if')

definition in_region :: "ptr \<Rightarrow> nat \<Rightarrow> ptr \<Rightarrow> bool" where
  "in_region p n a \<longleftrightarrow> unat (a - p) < n"

lemma in_region_bounds:
  "fits p n \<Longrightarrow> in_region p n a \<longleftrightarrow> unat p \<le> unat a \<and> unat a < unat p + n"
  by (simp add: in_region_def region_member)

lemma memset_loop_eq:
  "memset_loop m buf v i k a = (if \<exists>j<k. a = buf + i + of_nat j then v else m a)"
proof (induction k arbitrary: m i)
  case (Suc k)
  have ex_eq: "(\<exists>j<Suc k. a = buf + i + of_nat j) \<longleftrightarrow>
      a = buf + i \<or> (\<exists>j<k. a = buf + (i + 1) + of_nat j)"
    by (simp add: Ex_less_Suc2 add.assoc)
  show ?case
    unfolding memset_loop.simps Suc.IH ex_eq by auto
qed simp

lemma region_ex:
  assumes "n \<le> 4294967296"
  shows "(\<exists>j<n. a = p + of_nat j) \<longleftrightarrow> in_region p n (a :: u32)"
proof
  assume "\<exists>j<n. a = p + of_nat j"
  then obtain j where "j < n" "a - p = of_nat j"
    by auto
  then show "in_region p n a"
    using assms by (simp add: in_region_def unat_u32_of_nat)
next
  assume "in_region p n a"
  then show "\<exists>j<n. a = p + of_nat j"
    unfolding in_region_def by (intro exI [of _ "unat (a - p)"]) simp
qed

text \<open>The forward loop is right when the destination is below the source, or above all of it.\<close>

lemma memcpy_loop_eq:
  assumes "fits dst (unat i + k)" "fits src (unat i + k)" "unat i + k < 2 ^ 32"
    and "unat dst \<le> unat src \<or> unat src + unat i + k \<le> unat dst"
  shows "memcpy_loop m dst src i k a =
    (if unat dst + unat i \<le> unat a \<and> unat a < unat dst + unat i + k
     then m (src + (a - dst)) else m a)"
  using assms
proof (induction k arbitrary: m i)
  case (Suc k)
  let ?m = "m(dst + i := m (src + i))"
  have i1: "unat (i + 1) = Suc (unat i)"
    using Suc.prems by (intro unat_u32_Suc) simp
  have di: "unat (dst + i) = unat dst + unat i"
    using Suc.prems by (intro unat_u32_add) (simp add: fits_def)
  have IH: "memcpy_loop ?m dst src (i + 1) k a =
      (if Suc (unat dst + unat i) \<le> unat a \<and> unat a < Suc (unat dst + unat i) + k
       then ?m (src + (a - dst)) else ?m a)"
    using Suc.prems by (subst Suc.IH) (simp_all add: i1 del: fun_upd_apply)
  have other: "src + (a - dst) \<noteq> dst + i"
    if "Suc (unat dst + unat i) \<le> unat a" "unat a < Suc (unat dst + unat i) + k"
  proof -
    have "unat (a - dst) = unat a - unat dst"
      using that by (simp add: unat_sub_if')
    then have "unat (src + (a - dst)) = unat src + (unat a - unat dst)"
      using that Suc.prems by (subst unat_u32_add) (simp_all add: fits_def)
    then show ?thesis
      using that Suc.prems di by (auto simp: unat_u32_eq_iff)
  qed
  have "a = dst + i \<longleftrightarrow> unat a = unat dst + unat i"
    by (simp add: unat_u32_eq_iff di)
  then show ?case
    using IH other by (auto simp: add.commute)
qed auto

lemma memmove_down_eq:
  assumes "fits dst n" "fits src n" "unat src \<le> unat dst"
  shows "memmove_down m dst src n a =
    (if unat dst \<le> unat a \<and> unat a < unat dst + n then m (src + (a - dst)) else m a)"
  using assms
proof (induction n arbitrary: m)
  case (Suc n)
  let ?m = "m(dst + of_nat n := m (src + of_nat n))"
  have dn: "unat (dst + of_nat n) = unat dst + n"
    using region_offset [OF Suc.prems(1), of n] by simp
  have IH: "memmove_down ?m dst src n a =
      (if unat dst \<le> unat a \<and> unat a < unat dst + n then ?m (src + (a - dst)) else ?m a)"
    by (rule Suc.IH) (use Suc.prems in \<open>simp_all add: fits_def\<close>)
  have other: "src + (a - dst) \<noteq> dst + of_nat n" if "unat dst \<le> unat a" "unat a < unat dst + n"
  proof -
    have "unat (a - dst) = unat a - unat dst"
      using that by (simp add: unat_sub_if')
    then have "unat (src + (a - dst)) = unat src + (unat a - unat dst)"
      using that Suc.prems by (subst unat_u32_add) (simp_all add: fits_def)
    then show ?thesis
      using that Suc.prems dn by (auto simp: unat_u32_eq_iff)
  qed
  have "a = dst + of_nat n \<longleftrightarrow> unat a = unat dst + n"
    by (simp add: unat_u32_eq_iff dn)
  then show ?case
    using IH other by auto
qed auto

section \<open>Printing numbers\<close>

text \<open>The digit characters, in the code's arithmetic on \<open>int\<close> truncated to \<open>char\<close>.\<close>

definition digit_char :: "u32 \<Rightarrow> u8" where
  "digit_char digit = (if digit > 9 then ucast (digit - 10 + 0x61) else ucast (digit + 0x30))"

text \<open>
  The first loop of \<open>uitoa\<close> counts the digits.  A zero base is a divide error, which the exception
  handler turns into a panic; base one never ends.
\<close>

function uitoa_len :: "u32 \<Rightarrow> u32 \<Rightarrow> nat \<Rightarrow> nat res" where
  "uitoa_len tmp base n =
     (if tmp = 0 then Inr n
      else if base = 0 then Inl Abort
      else if base = 1 then Inl Hang
      else uitoa_len (tmp div base) base (Suc n))"
  by pat_completeness auto

lemma udiv_less:
  assumes "(v :: u32) \<noteq> 0" "b \<noteq> 0" "b \<noteq> 1"
  shows "unat (v div b) < unat v"
proof -
  have "0 < unat v"
    using assms(1) by (simp add: unat_gt_0)
  moreover have "unat b \<noteq> 0" "unat b \<noteq> 1"
    using assms(2,3) unat_u32_eq_iff [of b 1] by (auto simp: unat_eq_zero)
  ultimately show ?thesis
    by (simp add: unat_div)
qed

termination uitoa_len
  by (relation "measure (\<lambda>(v, b, n). unat v)") (auto simp: udiv_less)

text \<open>The second loop stores the digits from the last one backwards.\<close>

function uitoa_fill :: "u32 \<Rightarrow> u32 \<Rightarrow> int \<Rightarrow> u8 list \<Rightarrow> u8 list res" where
  "uitoa_fill value base index str =
     (if value = 0 then Inr str
      else if base = 0 then Inl Abort
      else rbind (array_seti str index (digit_char (value mod base)))
             (\<lambda>str'. if base = 1 then Inl Hang
                     else uitoa_fill (value div base) base (index - 1) str'))"
  by pat_completeness auto

termination uitoa_fill
  by (relation "measure (\<lambda>(v, b, i, s). unat v)") (auto simp: udiv_less)

declare uitoa_len.simps [simp del] uitoa_fill.simps [simp del]

definition uitoa :: "u32 \<Rightarrow> u8 list \<Rightarrow> u32 \<Rightarrow> (nat \<times> u8 list) res" where
  "uitoa value str base =
     (if value = 0 then
        rbind (array_set str 0 0x30) (\<lambda>s. rbind (array_set s 1 0) (\<lambda>s'. Inr (1, s')))
      else
        rbind (uitoa_len value base 0) (\<lambda>len.
        rbind (uitoa_fill value base (int len - 1) str) (\<lambda>s.
        rbind (array_set s len 0) (\<lambda>s'. Inr (len, s')))))"

text \<open>
  \<open>itoa\<close> computes on \<open>int\<close>: division truncates towards zero and a remainder has the sign of the dividend.  The
  negation of a negative number wraps around as on the machine.  Dividing by zero and dividing the smallest number by
  minus one are divide errors.
\<close>

definition wrap32 :: "int \<Rightarrow> int" where
  "wrap32 x = sint (of_int x :: u32)"

definition idigit_char :: "int \<Rightarrow> u8" where
  "idigit_char digit = (if digit > 9 then of_int (digit - 10 + 0x61) else of_int (digit + 0x30))"

lemma sdiv_shrinks: "tmp \<noteq> 0 \<Longrightarrow> base \<noteq> 0 \<Longrightarrow> \<bar>base\<bar> \<noteq> 1 \<Longrightarrow> nat \<bar>tmp sdiv (base :: int)\<bar> < nat \<bar>tmp\<bar>"
proof -
  assume nz: "tmp \<noteq> 0" "base \<noteq> 0" "\<bar>base\<bar> \<noteq> 1"
  have "\<bar>tmp\<bar> div \<bar>base\<bar> < \<bar>tmp\<bar>" "0 \<le> \<bar>tmp\<bar> div \<bar>base\<bar>"
    using nz int_div_less_self [of "\<bar>tmp\<bar>" "\<bar>base\<bar>"] by (auto simp: pos_imp_zdiv_nonneg_iff)
  moreover have "\<bar>tmp sdiv base\<bar> = \<bar>\<bar>tmp\<bar> div \<bar>base\<bar>\<bar>"
    using nz by (simp add: signed_divide_int_def abs_mult abs_sgn_eq)
  ultimately show ?thesis
    by simp
qed

function itoa_len :: "int \<Rightarrow> int \<Rightarrow> nat \<Rightarrow> nat res" where
  "itoa_len tmp base n =
     (if tmp = 0 then Inr n
      else if base = 0 \<or> tmp = - (2 ^ 31) \<and> base = - 1 then Inl Abort
      else if \<bar>base\<bar> = 1 then Inl Hang
      else itoa_len (tmp sdiv base) base (Suc n))"
  by pat_completeness auto

termination itoa_len
  by (relation "measure (\<lambda>(v, b, n). nat \<bar>v\<bar>)") (use sdiv_shrinks in auto)

function itoa_fill :: "int \<Rightarrow> int \<Rightarrow> int \<Rightarrow> u8 list \<Rightarrow> u8 list res" where
  "itoa_fill value base index str =
     (if value = 0 then Inr str
      else if base = 0 \<or> value = - (2 ^ 31) \<and> base = - 1 then Inl Abort
      else rbind (array_seti str index (idigit_char (value smod base)))
             (\<lambda>str'. if \<bar>base\<bar> = 1 then Inl Hang
                     else itoa_fill (value sdiv base) base (index - 1) str'))"
  by pat_completeness auto

termination itoa_fill
  by (relation "measure (\<lambda>(v, b, i, s). nat \<bar>v\<bar>)") (use sdiv_shrinks in auto)

declare itoa_len.simps [simp del] itoa_fill.simps [simp del]

definition itoa :: "int \<Rightarrow> u8 list \<Rightarrow> int \<Rightarrow> (nat \<times> u8 list) res" where
  "itoa value str base =
     (if value = 0 then
        rbind (array_set str 0 0x30) (\<lambda>s. rbind (array_set s 1 0) (\<lambda>s'. Inr (1, s')))
      else
        rbind (if value < 0 then rbind (array_set str 0 0x2D) (\<lambda>s. Inr (1, s, wrap32 (value - wrap32 (value * 2))))
               else Inr (0, str, value)) (\<lambda>(len, s, value).
        rbind (if base = 16 then rbind (array_set s len 0x30) (\<lambda>s. rbind (array_set s (len + 1) 0x78) (\<lambda>s. Inr (len + 2, s)))
               else Inr (len, s)) (\<lambda>(len, s).
        rbind (itoa_len value base len) (\<lambda>len.
        rbind (itoa_fill value base (int len - 1) s) (\<lambda>s.
        rbind (array_set s len 0) (\<lambda>s. Inr (len, s)))))))"

text \<open>The digits of a number, most significant first, and reading them back.\<close>

fun digits_of :: "nat \<Rightarrow> nat \<Rightarrow> nat list" where
  "digits_of b n = (if n = 0 \<or> b < 2 then [] else digits_of b (n div b) @ [n mod b])"

declare digits_of.simps [simp del]

definition digit_val :: "u8 \<Rightarrow> nat" where
  "digit_val c = (if 0x61 \<le> c then unat c - 0x61 + 10 else unat c - 0x30)"

definition read_number :: "nat \<Rightarrow> u8 list \<Rightarrow> nat" where
  "read_number b cs = foldl (\<lambda>a c. a * b + digit_val c) 0 cs"

lemma digits_of_0 [simp]: "digits_of b 0 = []"
  by (simp add: digits_of.simps)

lemma digits_of_step: "2 \<le> b \<Longrightarrow> n \<noteq> 0 \<Longrightarrow> digits_of b n = digits_of b (n div b) @ [n mod b]"
  by (subst digits_of.simps) simp

lemma digits_of_lt: "d \<in> set (digits_of b n) \<Longrightarrow> d < b"
proof (induction b n rule: digits_of.induct)
  case (1 b n)
  show ?case
  proof (cases "n = 0 \<or> b < 2")
    case True
    then show ?thesis
      using 1 by (auto simp: digits_of.simps [of b n])
  next
    case False
    then have "d = n mod b \<or> d \<in> set (digits_of b (n div b))"
      using "1.prems" by (auto simp: digits_of.simps [of b n])
    then show ?thesis
      using "1.IH" [OF False] False by auto
  qed
qed

lemma digits_of_length: "2 \<le> b \<Longrightarrow> n < b ^ k \<Longrightarrow> length (digits_of b n) \<le> k"
proof (induction k arbitrary: n)
  case (Suc k)
  have "n div b < b ^ k"
    using Suc.prems by (simp add: div_less_iff_less_mult mult.commute)
  then show ?case
    using Suc.IH [of "n div b"] Suc.prems by (cases "n = 0") (simp_all add: digits_of_step)
qed simp

lemma digit_char_table:
  "\<forall>d\<in>set [0..<36]. digit_val (digit_char (of_nat d)) = d \<and> digit_char (of_nat d) \<noteq> 0"
  by code_simp

lemma digit_char_36:
  "d < 36 \<Longrightarrow> digit_val (digit_char (of_nat d)) = d" "d < 36 \<Longrightarrow> digit_char (of_nat d) \<noteq> 0"
  using digit_char_table by auto

lemma read_number_digits:
  assumes "2 \<le> b" "b \<le> 36"
  shows "read_number b (map (\<lambda>d. digit_char (of_nat d)) (digits_of b n)) = n"
proof (induction n rule: less_induct)
  case (less n)
  show ?case
  proof (cases "n = 0")
    case False
    then have "n div b < n" and "n mod b < 36"
      using assms by (auto intro: order.strict_trans2 [OF mod_less_divisor])
    then show ?thesis
      using False assms less.IH [of "n div b"]
      by (simp add: digits_of_step read_number_def digit_char_36)
  qed (simp add: read_number_def)
qed

lemma uitoa_len_digits:
  "2 \<le> unat b \<Longrightarrow> uitoa_len v b n = Inr (n + length (digits_of (unat b) (unat v)))"
proof (induction v b n rule: uitoa_len.induct)
  case (1 v b n)
  have b: "b \<noteq> 0" "b \<noteq> 1"
    using "1.prems" by auto
  show ?case
  proof (cases "v = 0")
    case False
    then show ?thesis
      using "1.IH" [OF False b] "1.prems" b
      by (simp add: uitoa_len.simps [of v b n] unat_div digits_of_step unat_eq_zero)
  qed (simp add: uitoa_len.simps)
qed

lemma uitoa_fill_digits:
  assumes "2 \<le> unat b" "length (digits_of (unat b) (unat v)) \<le> length str"
    and "index = int (length (digits_of (unat b) (unat v))) - 1"
  shows "uitoa_fill v b index str = Inr (map (\<lambda>d. digit_char (of_nat d)) (digits_of (unat b) (unat v))
           @ drop (length (digits_of (unat b) (unat v))) str)"
  using assms
proof (induction v b index str rule: uitoa_fill.induct)
  case (1 v b index str)
  have b: "b \<noteq> 0" "b \<noteq> 1"
    using "1.prems"(1) by auto
  show ?case
  proof (cases "v = 0")
    case False
    let ?ds = "digits_of (unat b) (unat (v div b))" and ?c = "digit_char (v mod b)"
    have ds: "digits_of (unat b) (unat v) = ?ds @ [unat (v mod b)]"
      using False "1.prems"(1) by (simp add: digits_of_step unat_eq_zero unat_div unat_mod)
    have set: "array_seti str index ?c = Inr (str[length ?ds := ?c])"
      using "1.prems" by (simp add: ds)
    have IH: "uitoa_fill (v div b) b (index - 1) (str[length ?ds := ?c]) =
        Inr (map (\<lambda>d. digit_char (of_nat d)) ?ds @ drop (length ?ds) (str[length ?ds := ?c]))"
      using "1.IH" [OF False b(1) set b(2)] "1.prems" by (simp add: ds)
    have "drop (length ?ds) (str[length ?ds := ?c]) = ?c # drop (Suc (length ?ds)) str"
      using "1.prems"(2) by (simp add: ds drop_update_swap Cons_nth_drop_Suc [symmetric])
    then show ?thesis
      using IH set False b by (simp add: uitoa_fill.simps [of v b index str] ds)
  qed (simp add: uitoa_fill.simps)
qed

lemma uitoa_digits:
  assumes "2 \<le> unat base" "unat value < unat base ^ k" "k < length str" "value \<noteq> 0"
  defines "cs \<equiv> map (\<lambda>d. digit_char (of_nat d)) (digits_of (unat base) (unat value))"
  shows "uitoa value str base = Inr (length cs, cs @ 0 # drop (Suc (length cs)) str)"
    and "length cs \<le> k"
proof -
  show le: "length cs \<le> k"
    using digits_of_length assms by (simp add: cs_def)
  have "uitoa_fill value base (int (length cs) - 1) str = Inr (cs @ drop (length cs) str)"
    using assms le by (subst uitoa_fill_digits) (simp_all add: cs_def)
  moreover have "(cs @ drop (length cs) str)[length cs := 0] = cs @ 0 # drop (Suc (length cs)) str"
    using le assms(3) by (simp add: list_update_append Cons_nth_drop_Suc [symmetric])
  ultimately show "uitoa value str base = Inr (length cs, cs @ 0 # drop (Suc (length cs)) str)"
    using assms le by (simp add: uitoa_def uitoa_len_digits [OF assms(1)] cs_def)
qed

lemma nat_sdiv: "0 \<le> v \<Longrightarrow> 0 < b \<Longrightarrow> v sdiv b = v div b" "0 \<le> v \<Longrightarrow> 0 < b \<Longrightarrow> v smod b = v mod (b :: int)"
  by (auto simp: signed_divide_int_def signed_modulo_int_def sgn_if minus_mult_div_eq_mod [symmetric])

lemma digits_of_int: "2 \<le> b \<Longrightarrow> 0 < v \<Longrightarrow> digits_of (nat b) (nat v) = digits_of (nat b) (nat (v div b)) @ [nat (v mod b)]"
  by (simp add: digits_of_step nat_div_distrib nat_mod_distrib)

lemma itoa_len_digits:
  "2 \<le> b \<Longrightarrow> 0 \<le> v \<Longrightarrow> itoa_len v b n = Inr (n + length (digits_of (nat b) (nat v)))"
proof (induction v b n rule: itoa_len.induct)
  case (1 v b n)
  show ?case
  proof (cases "v = 0")
    case False
    then show ?thesis
      using 1 by (simp add: itoa_len.simps [of v b n] nat_sdiv digits_of_int pos_imp_zdiv_nonneg_iff)
  qed (simp add: itoa_len.simps)
qed

text \<open>The digits are stored behind the first \<open>k\<close> characters.\<close>

lemma itoa_fill_digits:
  assumes "2 \<le> b" "0 \<le> v" "k + length (digits_of (nat b) (nat v)) \<le> length str"
    and "index = int (k + length (digits_of (nat b) (nat v))) - 1"
  shows "itoa_fill v b index str = Inr (take k str @ map (\<lambda>d. idigit_char (int d)) (digits_of (nat b) (nat v))
           @ drop (k + length (digits_of (nat b) (nat v))) str)"
  using assms
proof (induction v b index str rule: itoa_fill.induct)
  case (1 v b index str)
  show ?case
  proof (cases "v = 0")
    case False
    let ?ds = "digits_of (nat b) (nat (v div b))" and ?c = "idigit_char (v mod b)"
    have b: "\<not> (b = 0 \<or> v = - (2 ^ 31) \<and> b = - 1)" "\<bar>b\<bar> \<noteq> 1"
      using "1.prems" by auto
    have ds: "digits_of (nat b) (nat v) = ?ds @ [nat (v mod b)]"
      using False "1.prems" by (simp add: digits_of_int)
    have q: "v sdiv b = v div b" "v smod b = v mod b"
      using "1.prems" by (simp_all add: nat_sdiv)
    have set: "array_seti str index (idigit_char (v smod b)) = Inr (str[k + length ?ds := ?c])"
      using "1.prems" by (simp add: ds q flip: of_nat_add)
    have IH: "itoa_fill (v div b) b (index - 1) (str[k + length ?ds := ?c]) =
        Inr (take k str @ map (\<lambda>d. idigit_char (int d)) ?ds @ drop (k + length ?ds) (str[k + length ?ds := ?c]))"
      using "1.IH" [OF False b(1) set b(2)] "1.prems" by (simp add: ds q pos_imp_zdiv_nonneg_iff)
    have step: "itoa_fill v b index str = itoa_fill (v div b) b (index - 1) (str[k + length ?ds := ?c])"
      using set False b "1.prems"(1) by (simp add: itoa_fill.simps [of v b index str] q)
    have "drop (k + length ?ds) (str[k + length ?ds := ?c]) = ?c # drop (Suc (k + length ?ds)) str"
      using "1.prems"(3) by (simp add: ds drop_update_swap Cons_nth_drop_Suc [symmetric])
    then show ?thesis
      using IH step "1.prems"(1) by (simp add: ds)
  qed (simp add: itoa_fill.simps)
qed

section \<open>Properties\<close>

text \<open>Fact [memmove_correct]: \<open>memmove\<close> copies a region of memory whatever the overlap of source and
  destination, provided neither region wraps around the address space: afterwards every byte of the
  destination holds the byte the source had before the call, and no other byte has changed.\<close>

theorem memmove_correct:
  assumes "fits dst (unat sz)" "fits src (unat sz)"
  shows "memmove m dst src sz a =
    (if in_region dst (unat sz) a then m (src + (a - dst)) else m a)"
proof (cases "dst < src")
  case True
  then show ?thesis
    using memcpy_loop_eq [of dst 0 "unat sz" src m a] assms unat_u32_lt [of sz]
    by (simp add: memmove_def in_region_bounds word_less_nat_alt)
next
  case False
  then show ?thesis
    using memmove_down_eq [OF assms, of m a] assms
    by (simp add: memmove_def in_region_bounds word_less_nat_alt)
qed

theorem memmove_correct_witness:
  "fits 1000 (unat (3 :: u32)) \<and> fits 1001 (unat (3 :: u32)) \<and>
   (\<forall>m. memmove m 1001 1000 3 1002 = m 1001)"
proof -
  have fits: "fits 1000 (unat (3 :: u32))" "fits 1001 (unat (3 :: u32))"
    by (simp_all add: fits_def)
  show ?thesis
    using fits memmove_correct [OF fits(2) fits(1), of _ 1002] by (simp add: in_region_def)
qed

text \<open>Fact [memcpy_disjoint]: \<open>memcpy\<close> of disjoint regions that do not wrap around copies the source
  to the destination and leaves every other byte alone.\<close>

theorem memcpy_disjoint:
  assumes "fits dst (unat sz)" "fits src (unat sz)"
    and "unat src + unat sz \<le> unat dst \<or> unat dst + unat sz \<le> unat src"
  shows "memcpy m dst src sz a = (if in_region dst (unat sz) a then m (src + (a - dst)) else m a)"
  using memcpy_loop_eq [of dst 0 "unat sz" src m a] assms unat_u32_lt [of sz]
  by (auto simp: memcpy_def in_region_bounds)

theorem memcpy_disjoint_witness:
  "fits 64 (unat (4 :: u32)) \<and> fits 96 (unat (4 :: u32)) \<and>
   (\<forall>m. memcpy m 96 64 4 97 = m 65 \<and> memcpy m 96 64 4 100 = m 100)"
proof -
  have fits: "fits 64 (unat (4 :: u32))" "fits 96 (unat (4 :: u32))"
    by (simp_all add: fits_def)
  show ?thesis
    using fits memcpy_disjoint [OF fits(2) fits(1), of _ 97] memcpy_disjoint [OF fits(2) fits(1), of _ 100]
    by (simp add: in_region_def)
qed

text \<open>Fact [memset_correct]: \<open>memset\<close> stores the low byte of its argument in every byte of the region
  (also one that wraps around) and changes no other byte.\<close>

theorem memset_correct:
  "memset m buf v sz a = (if in_region buf (unat sz) a then ucast v else m a)"
proof -
  have "unat sz \<le> 4294967296"
    using unat_u32_lt [of sz] by simp
  then show ?thesis
    using region_ex [of "unat sz" a buf] by (simp add: memset_def memset_loop_eq)
qed

text \<open>Fact [strcmp_equality]: on terminated strings \<open>strcmp\<close> returns, and it returns zero exactly
  when the strings are equal (the sign of a non-zero result is not an order: strings of different
  lengths give 1 in both directions).\<close>

theorem strcmp_equality:
  assumes "terminated a" "terminated b"
  shows "\<exists>r. strcmp a b = Inr r \<and> (r = 0 \<longleftrightarrow> cstring a = cstring b)"
  using assms by (rule strcmp_cstring)

theorem strcmp_equality_witness:
  "terminated [65, 0] \<and> terminated [65, 0, 7] \<and> cstring [65, 0] = cstring [65, 0, 7] \<and>
   strcmp [65, 0] [65, 0, 7] = Inr 0"
proof -
  have t: "terminated [65, 0]" "terminated [65, 0, 7]"
    by (simp_all add: terminated_def)
  have c: "cstring [65, 0] = cstring [65, 0, 7]"
    by (simp add: cstring_def)
  show ?thesis
    using t c strcmp_equality [OF t] by auto
qed

text \<open>Fact [uitoa_roundtrip]: with a base from 2 to 36 and a buffer of more bytes than the value has
  digits, \<open>uitoa\<close> returns, stays inside the buffer, leaves a zero-terminated text of the returned
  length, and reading that text back in the same base gives the value.\<close>

theorem uitoa_roundtrip:
  assumes "2 \<le> unat base" "unat base \<le> 36" "unat value < unat base ^ k" "k < length str" "0 < k"
  shows "\<exists>len s. uitoa value str base = Inr (len, s) \<and> len \<le> k \<and> length s = length str \<and>
           length (cstring s) = len \<and> terminated s \<and> read_number (unat base) (cstring s) = unat value"
proof (cases "value = 0")
  case True
  then obtain a b t where "str = a # b # t"
    using assms(4,5) by (cases str rule: remdups_adj.cases) auto
  then show ?thesis
    using True assms(5) by (simp add: uitoa_def cstring_def terminated_def read_number_def digit_val_def)
next
  case False
  let ?cs = "map (\<lambda>d. digit_char (of_nat d)) (digits_of (unat base) (unat value))"
  note out = uitoa_digits [OF assms(1,3,4) False]
  have "\<forall>c\<in>set ?cs. c \<noteq> 0"
    using digits_of_lt assms(2) by (fastforce simp: digit_char_36)
  then have "cstring (?cs @ 0 # drop (Suc (length ?cs)) str) = ?cs"
    unfolding cstring_def by (subst takeWhile_append2) auto
  then show ?thesis
    using out assms(4) read_number_digits [OF assms(1,2), of "unat value"]
    by (auto simp: terminated_def)
qed

theorem uitoa_roundtrip_witness:
  "\<exists>len s. uitoa 48879 (replicate 30 0xFF) 16 = Inr (len, s) \<and> len \<le> 8 \<and> length s = 30 \<and>
     length (cstring s) = len \<and> terminated s \<and> read_number 16 (cstring s) = 48879"
  using uitoa_roundtrip [of 16 48879 8 "replicate 30 0xFF"] by simp

lemma wrap32_small: "- (2 ^ 31) \<le> x \<Longrightarrow> x < 2 ^ 31 \<Longrightarrow> wrap32 x = x"
  by (simp add: wrap32_def sint_sbintrunc' signed_take_bit_int_eq_self)

lemma wrap32_negate: "- (2 ^ 31) < x \<Longrightarrow> x < 0 \<Longrightarrow> wrap32 (x - wrap32 (x * 2)) = - x"
proof -
  assume x: "- (2 ^ 31) < x" "x < 0"
  have "(of_int (x - wrap32 (x * 2)) :: u32) = of_int (- x)"
    by (simp add: wrap32_def)
  then have "wrap32 (x - wrap32 (x * 2)) = wrap32 (- x)"
    unfolding wrap32_def by (rule arg_cong)
  then show ?thesis
    using x by (simp add: wrap32_small)
qed

text \<open>The text of a number: its sign, the prefix of base 16, its digits.\<close>

definition signed_text :: "int \<Rightarrow> int \<Rightarrow> u8 list" where
  "signed_text value base = (if value < 0 then [0x2D] else []) @ (if base = 16 then [0x30, 0x78] else []) @
     map (\<lambda>d. idigit_char (int d)) (digits_of (nat base) (nat \<bar>value\<bar>))"

text \<open>Fact [itoa_prints]: \<open>itoa\<close> of a number other than zero and the smallest one leaves its sign, the prefix of base 16 and its digits in the buffer,
  followed by a zero, and returns the length.\<close>

theorem itoa_prints:
  assumes "2 \<le> base" and "- (2 ^ 31) < value" and "value < 2 ^ 31" and "value \<noteq> 0" and "length (signed_text value base) < length str"
  shows "itoa value str base = Inr (length (signed_text value base),
    signed_text value base @ 0 # drop (Suc (length (signed_text value base))) str)"
proof -
  let ?ds = "digits_of (nat base) (nat \<bar>value\<bar>)" and ?sign = "if value < 0 then [0x2D :: u8] else []"
    and ?pre = "if base = 16 then [0x30, 0x78 :: u8] else []" and ?t = "signed_text value base"
  let ?s1 = "?sign @ drop (length ?sign) str" and ?s2 = "(?sign @ ?pre) @ drop (length (?sign @ ?pre)) str"
  have len: "length (?sign @ ?pre) + length ?ds < length str" "length ?t = length (?sign @ ?pre) + length ?ds"
    using assms(5) by (auto simp: signed_text_def)
  have sign: "(if value < 0 then rbind (array_set str 0 0x2D) (\<lambda>s. Inr (1, s, wrap32 (value - wrap32 (value * 2)))) else Inr (0, str, value)) =
      Inr (length ?sign, ?s1, \<bar>value\<bar>)"
    using len(1) assms(2) by (cases str) (auto simp: wrap32_negate)
  have pre: "(if base = 16 then rbind (array_set ?s1 (length ?sign) 0x30) (\<lambda>s. rbind (array_set s (length ?sign + 1) 0x78) (\<lambda>s. Inr (length ?sign + 2, s)))
      else Inr (length ?sign, ?s1)) = Inr (length (?sign @ ?pre), ?s2)"
    using len(1) by (cases str; cases "tl str"; cases "tl (tl str)") (auto split: if_splits)
  have fill: "itoa_fill \<bar>value\<bar> base (int (length ?t) - 1) ?s2 = Inr (?t @ drop (length ?t) str)"
    using assms(1) len by (subst itoa_fill_digits [where k = "length (?sign @ ?pre)"]) (auto simp: signed_text_def ac_simps)
  have "(?t @ drop (length ?t) str)[length ?t := 0] = ?t @ 0 # drop (Suc (length ?t)) str"
    using assms(5) by (simp add: list_update_append Cons_nth_drop_Suc [symmetric])
  then show ?thesis
    using assms(4,5) itoa_len_digits [OF assms(1), of "\<bar>value\<bar>"] sign pre fill len(2) unfolding itoa_def by simp
qed

theorem itoa_prints_witness: "itoa (- 255) (replicate 10 1) 16 = Inr (5, [0x2D, 0x30, 0x78, 0x66, 0x66, 0, 1, 1, 1, 1])"
proof -
  have "signed_text (- 255) 16 = [0x2D, 0x30, 0x78, 0x66, 0x66]"
    by code_simp
  with itoa_prints [of 16 "- 255" "replicate 10 1"] show ?thesis
    by (simp add: eval_nat_numeral)
qed

text \<open>Fact [itoa_smallest]: The smallest number cannot be negated; its remainders are negative and the text shows characters below the digits.\<close>
theorem itoa_smallest: "itoa (- 2147483648) (replicate 12 1) 10 =
  Inr (11, [0x2D, 0x2E, 0x2F, 0x2C, 0x29, 0x2C, 0x28, 0x2D, 0x2A, 0x2C, 0x28, 0])"
  by code_simp

end
