(* ===== verification/HashTable.thy ===== *)
theory HashTable
  imports LibcString
begin

text \<open>
  The open-addressing hash table of \<open>src/utils/hashtable.c\<close>, which the block cache, the inode cache
  and the directory cache use.  An entry's key is the 64-bit union of the code: a number, or (with
  the flag \<open>HT_PTRKEY\<close>) a pointer in its low half to a zero-terminated string.  The strings are read
  through the parameter \<open>str\<close>, which gives the bytes before the terminator at a pointer.  The
  contents of the block the allocator hands to \<open>ht_resize\<close> are the parameter \<open>fresh\<close>: the code does
  not initialise it.

  Shown here: every probe loop ends on a well-formed table, \<open>ht_set\<close> updates the finite map the table
  stands for and \<open>ht_remove\<close> deletes from it when no key is stored twice, and the counter \<open>size\<close> is
  the number of entries that are not empty.
\<close>

section \<open>Data\<close>

abbreviation (input) HT_EMPTY :: u32 where "HT_EMPTY \<equiv> 0"
abbreviation (input) HT_VALID :: u32 where "HT_VALID \<equiv> 1"
abbreviation (input) HT_TOMBSTONE :: u32 where "HT_TOMBSTONE \<equiv> 2"

definition HT_RESIZE :: u32 where "HT_RESIZE = 1"
definition HT_PTRKEY :: u32 where "HT_PTRKEY = 2"

type_synonym hash_key_t = u64

record hash_entry_t =
  he_key :: hash_key_t
  he_value :: ptr
  he_state :: u32

record hash_table_t =
  ht_entries :: "hash_entry_t list"
  ht_capacity :: u32
  ht_size :: u32
  ht_max_load :: u32
  ht_flag :: u32

section \<open>Operations\<close>

definition HASH_OFFSET :: u64 where "HASH_OFFSET = 14695981039346656037"
definition HASH_PRIME :: u64 where "HASH_PRIME = 1099511628211"

definition prime_numbers :: "u32 list" where
  "prime_numbers =
     [2, 3, 5, 7, 11, 13, 17, 19, 23, 29, 31, 37, 41, 43,
      47, 53, 59, 61, 67, 71, 73, 79, 83, 89, 97, 101, 103,
      107, 109, 113, 127, 131, 137, 139, 149, 151, 157, 163,
      167, 173, 179, 181, 191, 193, 197, 199, 211, 223, 227,
      229, 233, 239, 241, 251, 257, 263, 269, 271, 277, 281,
      283, 293, 307, 311]"

definition ht_find_prime :: "u32 \<Rightarrow> u32 res" where
  "ht_find_prime n =
     (case find (\<lambda>p. n < p) prime_numbers of Some p \<Rightarrow> Inr p | None \<Rightarrow> Inl Abort)"

text \<open>A zero load factor is a divide error, which the exception handler turns into a panic.\<close>

definition ht_create :: "u32 \<Rightarrow> u32 \<Rightarrow> u32 \<Rightarrow> hash_table_t res" where
  "ht_create max_size max_load flag =
     (if max_load = 0 then Inl Abort
      else rbind (ht_find_prime (max_size * 100 div max_load)) (\<lambda>cap.
        Inr \<lparr>ht_entries = replicate (unat cap) \<lparr>he_key = 0, he_value = 0, he_state = HT_EMPTY\<rparr>,
             ht_capacity = cap, ht_size = 0, ht_max_load = max_load, ht_flag = flag\<rparr>))"

definition ht_key64 :: "u64 \<Rightarrow> u64" where
  "ht_key64 key = ((\<lambda>hash. (hash XOR key) * HASH_PRIME) ^^ 8) HASH_OFFSET"

text \<open>A \<open>char\<close> is signed on this target, so it is sign-extended before the exclusive or.\<close>

definition ht_key32 :: "u8 list \<Rightarrow> u64" where
  "ht_key32 key = foldl (\<lambda>hash c. (hash XOR scast c) * HASH_PRIME) HASH_OFFSET key"

definition ht_ptrkey :: "hash_table_t \<Rightarrow> bool" where
  "ht_ptrkey t \<longleftrightarrow> ht_flag t AND HT_PTRKEY \<noteq> 0"

definition ht_key :: "(ptr \<Rightarrow> u8 list) \<Rightarrow> hash_table_t \<Rightarrow> hash_key_t \<Rightarrow> u64" where
  "ht_key str t key = (if ht_ptrkey t then ht_key32 (str (ucast key)) else ht_key64 key)"

definition ht_compare ::
    "(ptr \<Rightarrow> u8 list) \<Rightarrow> hash_table_t \<Rightarrow> hash_entry_t \<Rightarrow> hash_key_t \<Rightarrow> bool" where
  "ht_compare str t e key =
     (if ht_ptrkey t
      then strcmp (str (ucast (he_key e)) @ [0]) (str (ucast key) @ [0]) = Inr 0
      else he_key e = key)"

definition ht_assign :: "hash_table_t \<Rightarrow> hash_entry_t \<Rightarrow> hash_key_t \<Rightarrow> hash_entry_t" where
  "ht_assign t e key =
     (if ht_ptrkey t
      then e\<lparr>he_key := (he_key e AND NOT 0xFFFFFFFF) OR ucast (ucast key :: u32)\<rparr>
      else e\<lparr>he_key := key\<rparr>)"

text \<open>
  The probe loops of \<open>ht_get\<close>, \<open>ht_set\<close> and \<open>ht_remove\<close>: entry after entry from \<open>index\<close> until one
  satisfies the stop condition.  The first argument bounds the number of entries inspected; the
  operations give it the capacity, after which every entry has been seen and the loop of the code
  goes round forever.
\<close>

fun ht_probe ::
    "nat \<Rightarrow> (hash_entry_t \<Rightarrow> bool) \<Rightarrow> hash_entry_t list \<Rightarrow> u32 \<Rightarrow> u32 \<Rightarrow> u32 res" where
  "ht_probe 0 stop es cap index = Inl Hang"
| "ht_probe (Suc n) stop es cap index =
     rbind (array_get es (unat (index mod cap))) (\<lambda>e.
       if stop e then Inr index else ht_probe n stop es cap (index + 1))"

definition ht_index :: "(ptr \<Rightarrow> u8 list) \<Rightarrow> hash_table_t \<Rightarrow> hash_key_t \<Rightarrow> u32" where
  "ht_index str t key = ucast (ht_key str t key mod ucast (ht_capacity t))"

definition ht_get :: "(ptr \<Rightarrow> u8 list) \<Rightarrow> hash_table_t \<Rightarrow> hash_key_t \<Rightarrow> ptr res" where
  "ht_get str t key =
     rbind (ht_probe (unat (ht_capacity t))
              (\<lambda>e. he_state e = HT_EMPTY \<or> he_state e = HT_VALID \<and> ht_compare str t e key)
              (ht_entries t) (ht_capacity t) (ht_index str t key)) (\<lambda>index.
       rbind (array_get (ht_entries t) (unat (index mod ht_capacity t))) (\<lambda>e.
         Inr (if he_state e = HT_EMPTY then NULL else he_value e)))"

text \<open>The part of \<open>ht_set\<close> after the load check.\<close>

definition ht_insert ::
    "(ptr \<Rightarrow> u8 list) \<Rightarrow> hash_table_t \<Rightarrow> hash_key_t \<Rightarrow> ptr \<Rightarrow> (int \<times> hash_table_t) res" where
  "ht_insert str t key value =
     rbind (ht_probe (unat (ht_capacity t))
              (\<lambda>e. he_state e \<noteq> HT_VALID \<or> ht_compare str t e key)
              (ht_entries t) (ht_capacity t) (ht_index str t key)) (\<lambda>index.
       let slot = unat (index mod ht_capacity t) in
       rbind (array_get (ht_entries t) slot) (\<lambda>e.
         if he_state e = HT_VALID then
           rbind (array_set (ht_entries t) slot (e\<lparr>he_value := value\<rparr>)) (\<lambda>es.
             Inr (0, t\<lparr>ht_entries := es\<rparr>))
         else
           rbind (array_set (ht_entries t) slot
                    ((ht_assign t e key)\<lparr>he_value := value, he_state := HT_VALID\<rparr>)) (\<lambda>es.
             Inr (0, t\<lparr>ht_entries := es,
                        ht_size := ht_size t + (if he_state e = HT_EMPTY then 1 else 0)\<rparr>))))"

text \<open>
  \<open>ht_set\<close> and \<open>ht_resize\<close> call each other.  Every resize moves to a larger prime of a table of 64,
  so the nesting depth, the first argument, never exceeds 64.
\<close>

function ht_set_depth ::
    "nat \<Rightarrow> (u32 \<Rightarrow> hash_entry_t list) \<Rightarrow> (ptr \<Rightarrow> u8 list) \<Rightarrow> hash_table_t \<Rightarrow> hash_key_t \<Rightarrow> ptr \<Rightarrow>
     (int \<times> hash_table_t) res"
  and ht_resize ::
    "nat \<Rightarrow> (u32 \<Rightarrow> hash_entry_t list) \<Rightarrow> (ptr \<Rightarrow> u8 list) \<Rightarrow> hash_table_t \<Rightarrow> hash_table_t res" where
  "ht_set_depth d fresh str t key value =
     (if ht_size t * 100 > ht_capacity t * ht_max_load t then
        (if ht_flag t AND HT_RESIZE \<noteq> 0
         then rbind (ht_resize d fresh str t) (\<lambda>t'. ht_insert str t' key value)
         else Inr (-1, t))
      else ht_insert str t key value)"
| "ht_resize d fresh str t =
     (case d of
        0 \<Rightarrow> Inl Hang
      | Suc d' \<Rightarrow>
          rbind (ht_find_prime (ht_capacity t * 2)) (\<lambda>cap.
            foldl (\<lambda>r e. rbind r (\<lambda>t'.
                     if he_state e = HT_VALID
                     then rbind (ht_set_depth d' fresh str t' (he_key e) (he_value e))
                            (\<lambda>(_, t''). Inr t'')
                     else Inr t'))
              (Inr (t\<lparr>ht_size := 0, ht_capacity := cap, ht_entries := fresh cap\<rparr>))
              (ht_entries t)))"
  by pat_completeness auto

termination
  by (relation "measure (case_sum (\<lambda>(d, _). 2 * d + 1) (\<lambda>(d, _). 2 * d))") auto

declare ht_set_depth.simps [simp del] ht_resize.simps [simp del]

definition ht_set ::
    "(u32 \<Rightarrow> hash_entry_t list) \<Rightarrow> (ptr \<Rightarrow> u8 list) \<Rightarrow> hash_table_t \<Rightarrow> hash_key_t \<Rightarrow> ptr \<Rightarrow>
     (int \<times> hash_table_t) res" where
  "ht_set fresh str t key value = ht_set_depth 64 fresh str t key value"

definition ht_remove :: "(ptr \<Rightarrow> u8 list) \<Rightarrow> hash_table_t \<Rightarrow> hash_key_t \<Rightarrow> (int \<times> hash_table_t) res" where
  "ht_remove str t key =
     rbind (ht_probe (unat (ht_capacity t))
              (\<lambda>e. he_state e = HT_EMPTY \<or> he_state e = HT_VALID \<and> ht_compare str t e key)
              (ht_entries t) (ht_capacity t) (ht_index str t key)) (\<lambda>index.
       let slot = unat (index mod ht_capacity t) in
       rbind (array_get (ht_entries t) slot) (\<lambda>e.
         if he_state e = HT_EMPTY then Inr (-1, t)
         else
           rbind (array_set (ht_entries t) slot (ht_assign t e 0)) (\<lambda>es1.
           rbind (array_get es1 (unat ((index + 1) mod ht_capacity t))) (\<lambda>next.
             if he_state next = HT_EMPTY then
               Inr (0, t\<lparr>ht_size := ht_size t - 1,
                          ht_entries := es1[slot := (es1 ! slot)\<lparr>he_state := HT_EMPTY\<rparr>]\<rparr>)
             else
               Inr (0, t\<lparr>ht_entries := es1[slot := (es1 ! slot)\<lparr>he_state := HT_TOMBSTONE\<rparr>]\<rparr>)))))"

section \<open>The probe loop\<close>

lemma ht_probe_first:
  assumes "length es = unat cap" "0 < unat cap" "unat index + n < 4294967296"
  shows "(\<exists>j<n. first_at (\<lambda>j. stop (es ! slot (unat cap) (unat index) j)) j \<and>
              ht_probe n stop es cap index = Inr (index + of_nat j)) \<or>
         (\<forall>j<n. \<not> stop (es ! slot (unat cap) (unat index) j)) \<and> ht_probe n stop es cap index = Inl Hang"
  using assms
proof (induction n arbitrary: index)
  case (Suc n)
  let ?S = "\<lambda>h j. stop (es ! slot (unat cap) h j)"
  have get: "array_get es (unat (index mod cap)) = Inr (es ! slot (unat cap) (unat index) 0)"
    using Suc.prems by (simp add: slot_def unat_u32_mod)
  have i1: "unat (index + 1) = Suc (unat index)"
    using Suc.prems by (intro unat_u32_Suc) simp
  have shift: "?S (unat (index + 1)) j = ?S (unat index) (Suc j)" for j
    by (simp add: i1 slot_def)
  show ?case
  proof (cases "?S (unat index) 0")
    case True
    then have "first_at (?S (unat index)) 0"
      by (simp add: first_at_def)
    then show ?thesis
      using True get by (intro disjI1 exI [of _ 0]) simp
  next
    case False
    then have eq: "ht_probe (Suc n) stop es cap index = ht_probe n stop es cap (index + 1)"
      using get by simp
    have first: "first_at (?S (unat index)) (Suc j)" if "first_at (?S (unat (index + 1))) j" for j
      using that False unfolding first_at_def shift by (simp add: All_less_Suc2)
    have "unat (index + 1) + n < 4294967296"
      using Suc.prems i1 by simp
    from Suc.IH [OF Suc.prems(1,2) this] show ?thesis
    proof (elim disjE exE conjE)
      fix j
      assume "j < n" "first_at (?S (unat (index + 1))) j"
        and "ht_probe n stop es cap (index + 1) = Inr (index + 1 + of_nat j)"
      then show ?thesis
        using eq first by (intro disjI1 exI [of _ "Suc j"]) (simp add: add.assoc)
    next
      assume "\<forall>j<n. \<not> ?S (unat (index + 1)) j" "ht_probe n stop es cap (index + 1) = Inl Hang"
      then show ?thesis
        using eq False by (intro disjI2) (simp add: shift All_less_Suc2)
    qed
  qed
qed simp

lemma ht_probe_stop:
  assumes "length es = unat cap" "0 < unat cap" "unat index + n < 4294967296"
    and "j < n" "first_at (\<lambda>j. stop (es ! slot (unat cap) (unat index) j)) j"
  shows "ht_probe n stop es cap index = Inr (index + of_nat j)"
  using ht_probe_first [OF assms(1-3), of stop]
proof (elim disjE exE conjE)
  fix i
  assume "first_at (\<lambda>j. stop (es ! slot (unat cap) (unat index) j)) i"
    and "ht_probe n stop es cap index = Inr (index + of_nat i)"
  then show ?thesis
    using first_at_unique [OF assms(5)] by simp
next
  assume "\<forall>j<n. \<not> stop (es ! slot (unat cap) (unat index) j)"
  then show ?thesis
    using assms(4,5) by (simp add: first_at_def)
qed

text \<open>No fuel brings a loop to an end that has seen every entry.\<close>

lemma ht_probe_hang:
  assumes "length es = unat cap" "0 < unat cap" "\<forall>e\<in>set es. \<not> stop e"
  shows "ht_probe n stop es cap index = Inl Hang"
  using assms by (induction n arbitrary: index) (simp_all add: unat_u32_mod)

section \<open>Well-formed tables\<close>

text \<open>What a key stands for: a number or a string.\<close>

definition hkey :: "(ptr \<Rightarrow> u8 list) \<Rightarrow> hash_table_t \<Rightarrow> hash_key_t \<Rightarrow> u64 + u8 list" where
  "hkey str t k = (if ht_ptrkey t then Inr (str (ucast k)) else Inl k)"

definition str_ok :: "(ptr \<Rightarrow> u8 list) \<Rightarrow> bool" where
  "str_ok str \<longleftrightarrow> (\<forall>p. 0 \<notin> set (str p))"

definition chain_ok :: "(hash_key_t \<Rightarrow> nat) \<Rightarrow> hash_entry_t list \<Rightarrow> bool" where
  "chain_ok h es \<longleftrightarrow> (\<forall>i<length es. he_state (es ! i) = HT_VALID \<longrightarrow>
     (\<exists>d<length es. i = slot (length es) (h (he_key (es ! i))) d \<and>
        (\<forall>j<d. he_state (es ! slot (length es) (h (he_key (es ! i))) j) \<noteq> HT_EMPTY)))"

abbreviation used :: "hash_entry_t list \<Rightarrow> nat" where
  "used es \<equiv> length (filter (\<lambda>e. he_state e \<noteq> HT_EMPTY) es)"

definition ht_inv :: "(ptr \<Rightarrow> u8 list) \<Rightarrow> hash_table_t \<Rightarrow> bool" where
  "ht_inv str t \<longleftrightarrow>
     str_ok str \<and> length (ht_entries t) = unat (ht_capacity t) \<and>
     0 < unat (ht_capacity t) \<and> unat (ht_capacity t) < 2 ^ 16 \<and>
     unat (ht_size t) = used (ht_entries t) \<and> used (ht_entries t) < length (ht_entries t) \<and>
     unat (ht_capacity t) * unat (ht_max_load t) < 100 * (unat (ht_capacity t) - 1) \<and>
     chain_ok (\<lambda>k. unat (ht_index str t k)) (ht_entries t)"

lemma ht_compare_hkey:
  assumes "str_ok str"
  shows "ht_compare str t e k \<longleftrightarrow> hkey str t (he_key e) = hkey str t k"
proof (cases "ht_ptrkey t")
  case True
  have "cstring (str p @ [0]) = str p" "terminated (str p @ [0])" for p
    using assms unfolding str_ok_def cstring_def terminated_def
    by (subst takeWhile_append2) auto
  then show ?thesis
    using True strcmp_cstring [of "str (ucast (he_key e)) @ [0]" "str (ucast k) @ [0]"]
    by (auto simp: ht_compare_def hkey_def)
qed (auto simp: ht_compare_def hkey_def)

lemma ht_index_hkey: "hkey str t k = hkey str t k' \<Longrightarrow> ht_index str t k = ht_index str t k'"
  by (auto simp: hkey_def ht_index_def ht_key_def split: if_splits)

lemma ht_index_lt:
  assumes "0 < unat (ht_capacity t)"
  shows "unat (ht_index str t k) < unat (ht_capacity t)"
proof -
  let ?c = "ucast (ht_capacity t) :: u64"
  have "unat (ht_key str t k mod ?c) < unat (ht_capacity t)"
    using assms by (simp add: unat_mod)
  then show ?thesis
    using unat_u32_lt [of "ht_capacity t"]
    by (simp add: ht_index_def unsigned_ucast_eq take_bit_nat_eq_self)
qed

lemma ht_invD:
  assumes "ht_inv str t"
  shows "str_ok str" "length (ht_entries t) = unat (ht_capacity t)" "0 < unat (ht_capacity t)"
    "unat (ht_capacity t) < 65536" "unat (ht_size t) = used (ht_entries t)"
    "used (ht_entries t) < length (ht_entries t)"
    "chain_ok (\<lambda>k. unat (ht_index str t k)) (ht_entries t)"
  using assms by (auto simp: ht_inv_def)

lemma used_lt_empty: "used es < length es \<longleftrightarrow> (\<exists>e\<in>set es. he_state e = HT_EMPTY)"
  using length_filter_less [of _ es "\<lambda>e. he_state e \<noteq> HT_EMPTY"]
  by (auto simp: filter_id_conv) (metis (mono_tags, lifting) filter_True less_irrefl)

lemma ht_inv_empty_slot:
  assumes "ht_inv str t"
  obtains j where "j < length (ht_entries t)"
    "he_state (ht_entries t ! slot (length (ht_entries t)) h j) = HT_EMPTY"
proof -
  obtain i where "i < length (ht_entries t)" "he_state (ht_entries t ! i) = HT_EMPTY"
    using ht_invD(6) [OF assms] used_lt_empty by (auto simp: in_set_conv_nth)
  then show ?thesis
    using slot_surj [of i "length (ht_entries t)" h] that by metis
qed

text \<open>The parts of a table that hashing and comparing read.\<close>

lemma ht_same_params [simp]:
  "ht_index str (t\<lparr>ht_entries := es, ht_size := n\<rparr>) k = ht_index str t k"
  "hkey str (t\<lparr>ht_entries := es, ht_size := n\<rparr>) k = hkey str t k"
  "ht_index str (t\<lparr>ht_entries := es\<rparr>) k = ht_index str t k"
  "hkey str (t\<lparr>ht_entries := es\<rparr>) k = hkey str t k"
  by (simp_all add: ht_index_def hkey_def ht_key_def ht_ptrkey_def)

lemma used_update:
  assumes "s < length es"
  shows "used (es[s := e]) + (if he_state (es ! s) = HT_EMPTY then 0 else 1) =
         used es + (if he_state e = HT_EMPTY then 0 else 1)"
proof -
  have "used es = used (take s es @ es ! s # drop (Suc s) es)"
    using assms by (simp add: id_take_nth_drop [symmetric])
  then show ?thesis
    using assms by (simp add: upd_conv_take_nth_drop)
qed

lemma used_le: "used es \<le> length es"
  by (rule length_filter_le)

section \<open>Lookup\<close>

abbreviation get_stop :: "(ptr \<Rightarrow> u8 list) \<Rightarrow> hash_table_t \<Rightarrow> hash_key_t \<Rightarrow> hash_entry_t \<Rightarrow> bool" where
  "get_stop str t k e \<equiv>
     he_state e = HT_EMPTY \<or> he_state e = HT_VALID \<and> hkey str t (he_key e) = hkey str t k"

abbreviation probe_at :: "(ptr \<Rightarrow> u8 list) \<Rightarrow> hash_table_t \<Rightarrow> hash_key_t \<Rightarrow> nat \<Rightarrow> nat" where
  "probe_at str t k j \<equiv> slot (length (ht_entries t)) (unat (ht_index str t k)) j"

lemma probe_at_lt [simp]: "ht_inv str t \<Longrightarrow> probe_at str t k j < length (ht_entries t)"
  using ht_invD(2,3) by simp

lemma ht_probe_index:
  assumes "ht_inv str t" "j \<le> length (ht_entries t)"
  shows "unat ((ht_index str t k + of_nat j) mod ht_capacity t) = probe_at str t k j"
proof -
  note inv = ht_invD [OF assms(1)]
  have "unat (ht_index str t k) + j < 4294967296"
    using ht_index_lt [OF inv(3), of str k] inv(2,4) assms(2) by linarith
  moreover have "unat (of_nat j :: u32) = j"
    using inv(2,4) assms(2) by (intro unat_u32_of_nat) linarith
  ultimately show ?thesis
    using inv(2) by (simp add: unat_u32_mod unat_u32_add slot_def)
qed

lemma ht_probe_path:
  assumes "ht_inv str t" "j < length (ht_entries t)"
    and "first_at (\<lambda>j. stop (ht_entries t ! probe_at str t k j)) j"
  shows "ht_probe (unat (ht_capacity t)) stop (ht_entries t) (ht_capacity t) (ht_index str t k) =
         Inr (ht_index str t k + of_nat j)"
proof -
  note inv = ht_invD [OF assms(1)]
  have "unat (ht_index str t k) + unat (ht_capacity t) < 4294967296"
    using ht_index_lt [OF inv(3), of str k] inv(4) by linarith
  then show ?thesis
    using assms(2,3) inv(2,3) by (intro ht_probe_stop) simp_all
qed

lemma ht_get_first:
  assumes "ht_inv str t" "j < length (ht_entries t)"
    and "first_at (\<lambda>j. get_stop str t k (ht_entries t ! probe_at str t k j)) j"
  shows "ht_get str t k = Inr (let e = ht_entries t ! probe_at str t k j in
           if he_state e = HT_EMPTY then NULL else he_value e)"
  using assms ht_probe_path [OF assms] ht_probe_index [OF assms(1), of j k]
  by (simp add: ht_get_def ht_compare_hkey [OF ht_invD(1) [OF assms(1)]] Let_def)

lemma get_stop_ex:
  assumes "ht_inv str t"
  obtains j where "j < length (ht_entries t)"
    "first_at (\<lambda>j. get_stop str t k (ht_entries t ! probe_at str t k j)) j"
proof -
  obtain i where "i < length (ht_entries t)" "he_state (ht_entries t ! probe_at str t k i) = HT_EMPTY"
    using ht_inv_empty_slot [OF assms] .
  then have "\<exists>j<length (ht_entries t). first_at (\<lambda>j. get_stop str t k (ht_entries t ! probe_at str t k j)) j"
    by (intro first_at_below [of _ i]) simp_all
  then show ?thesis
    using that by blast
qed

text \<open>A valid entry lies on the probe path of its key before any empty one.\<close>

lemma chain_valid:
  assumes "ht_inv str t" "j < length (ht_entries t)" "he_state (ht_entries t ! probe_at str t k j) = HT_VALID"
    and "hkey str t (he_key (ht_entries t ! probe_at str t k j)) = hkey str t k" "i < j"
  shows "he_state (ht_entries t ! probe_at str t k i) \<noteq> HT_EMPTY"
proof -
  have idx: "ht_index str t (he_key (ht_entries t ! probe_at str t k j)) = ht_index str t k"
    by (rule ht_index_hkey) (rule assms(4))
  obtain d where d: "d < length (ht_entries t)" "probe_at str t k j = probe_at str t k d"
      "\<forall>i<d. he_state (ht_entries t ! probe_at str t k i) \<noteq> HT_EMPTY"
    using ht_invD(7) [OF assms(1)] probe_at_lt [OF assms(1), of k j] assms(3)
    unfolding chain_ok_def idx by (metis idx)
  then have "d = j"
    using slot_inj assms(2) by metis
  then show ?thesis
    using d(3) assms(5) by simp
qed

section \<open>Insertion\<close>

lemma ucast_union_low: "ucast ((x AND - 4294967296) OR ucast (y :: u32) :: u64) = y"
proof -
  have m: "(- 4294967296 :: u64) = NOT (mask 32)"
    by (simp add: mask_eq_exp_minus_1)
  show ?thesis
    unfolding m by (rule bit_word_eqI) (simp add: bit_simps)
qed

lemma hkey_assign: "hkey str t (he_key (ht_assign t e k)) = hkey str t k"
  by (simp add: hkey_def ht_assign_def ucast_union_low)

abbreviation set_stop :: "(ptr \<Rightarrow> u8 list) \<Rightarrow> hash_table_t \<Rightarrow> hash_key_t \<Rightarrow> hash_entry_t \<Rightarrow> bool" where
  "set_stop str t k e \<equiv> he_state e \<noteq> HT_VALID \<or> hkey str t (he_key e) = hkey str t k"

lemma set_stop_ex:
  assumes "ht_inv str t"
  obtains m where "m < length (ht_entries t)"
    "first_at (\<lambda>j. set_stop str t k (ht_entries t ! probe_at str t k j)) m"
proof -
  obtain i where "i < length (ht_entries t)" "he_state (ht_entries t ! probe_at str t k i) = HT_EMPTY"
    using ht_inv_empty_slot [OF assms] .
  then have "\<exists>j<length (ht_entries t). first_at (\<lambda>j. set_stop str t k (ht_entries t ! probe_at str t k j)) j"
    by (intro first_at_below [of _ i]) simp_all
  then show ?thesis
    using that by blast
qed

lemma ht_insert_at:
  assumes inv: "ht_inv str t" and m: "m < length (ht_entries t)"
    and first: "first_at (\<lambda>j. set_stop str t k (ht_entries t ! probe_at str t k j)) m"
  obtains e where "he_state e = HT_VALID" "he_value e = v" "hkey str t (he_key e) = hkey str t k"
    "ht_insert str t k v = Inr (0, t\<lparr>ht_entries := (ht_entries t)[probe_at str t k m := e],
       ht_size := ht_size t + (if he_state (ht_entries t ! probe_at str t k m) = HT_EMPTY then 1 else 0)\<rparr>)"
proof -
  let ?o = "ht_entries t ! probe_at str t k m"
  let ?e = "if he_state ?o = HT_VALID then ?o\<lparr>he_value := v\<rparr>
            else (ht_assign t ?o k)\<lparr>he_value := v, he_state := HT_VALID\<rparr>"
  have key: "hkey str t (he_key ?e) = hkey str t k"
    using first by (auto simp: first_at_def hkey_assign)
  have probe: "ht_probe (unat (ht_capacity t)) (\<lambda>e. he_state e \<noteq> HT_VALID \<or> ht_compare str t e k)
      (ht_entries t) (ht_capacity t) (ht_index str t k) = Inr (ht_index str t k + of_nat m)"
    using ht_probe_path [OF inv m, of "\<lambda>e. he_state e \<noteq> HT_VALID \<or> ht_compare str t e k" k] first
    by (simp add: ht_compare_hkey [OF ht_invD(1) [OF inv]])
  show ?thesis
  proof (rule that [of ?e])
    show "ht_insert str t k v = Inr (0, t\<lparr>ht_entries := (ht_entries t)[probe_at str t k m := ?e],
       ht_size := ht_size t + (if he_state ?o = HT_EMPTY then 1 else 0)\<rparr>)"
      using probe ht_probe_index [OF inv, of m k] m inv
      by (simp add: ht_insert_def Let_def)
  qed (use key in simp_all)
qed

lemma nonempty_update:
  assumes "he_state e \<noteq> HT_EMPTY" "he_state (es ! i) \<noteq> HT_EMPTY"
  shows "he_state (es[s := e] ! i) \<noteq> HT_EMPTY"
  using assms by (cases "s < length es"; cases "i = s") (simp_all add: list_update_beyond)

lemma chain_ok_set:
  assumes chain: "chain_ok h es" and m: "m < length es"
    and e: "he_state e = HT_VALID" "\<forall>j<m. he_state (es ! slot (length es) (h (he_key e)) j) \<noteq> HT_EMPTY"
  shows "chain_ok h (es[slot (length es) (h (he_key e)) m := e])"
  unfolding chain_ok_def length_list_update
proof (intro allI impI)
  let ?s = "slot (length es) (h (he_key e)) m"
  fix i
  assume i: "i < length es" "he_state (es[?s := e] ! i) = HT_VALID"
  show "\<exists>d<length es. i = slot (length es) (h (he_key (es[?s := e] ! i))) d \<and>
      (\<forall>j<d. he_state (es[?s := e] ! slot (length es) (h (he_key (es[?s := e] ! i))) j) \<noteq> HT_EMPTY)"
  proof (cases "i = ?s")
    case True
    then show ?thesis
      using i(1) m e nonempty_update [of e es] by (intro exI [of _ m]) simp
  next
    case False
    then have same: "es[?s := e] ! i = es ! i"
      by simp
    then obtain d where "d < length es" "i = slot (length es) (h (he_key (es ! i))) d"
        "\<forall>j<d. he_state (es ! slot (length es) (h (he_key (es ! i))) j) \<noteq> HT_EMPTY"
      using chain i unfolding chain_ok_def by metis
    then show ?thesis
      unfolding same using e nonempty_update [of e es] by (intro exI [of _ d]) simp
  qed
qed

lemma ht_load_nat:
  assumes "ht_inv str t"
  shows "ht_size t * 100 > ht_capacity t * ht_max_load t \<longleftrightarrow>
         unat (ht_capacity t) * unat (ht_max_load t) < unat (ht_size t) * 100"
proof -
  note inv = ht_invD [OF assms]
  have "unat (ht_size t) < 65536"
    using inv by linarith
  then have "unat (ht_size t * 100) = unat (ht_size t) * 100"
    by (simp add: unat_word_ariths)
  moreover have "unat (ht_capacity t) * unat (ht_max_load t) < 6553600"
    using assms inv(4) by (simp add: ht_inv_def) linarith
  then have "unat (ht_capacity t * ht_max_load t) = unat (ht_capacity t) * unat (ht_max_load t)"
    by (simp add: unat_word_ariths)
  ultimately show ?thesis
    by (simp add: word_less_nat_alt)
qed

lemma ht_insert_inv:
  assumes inv: "ht_inv str t"
    and load: "unat (ht_size t) * 100 \<le> unat (ht_capacity t) * unat (ht_max_load t)"
    and m: "m < length (ht_entries t)"
    and first: "first_at (\<lambda>j. set_stop str t k (ht_entries t ! probe_at str t k j)) m"
    and e: "he_state e = HT_VALID" "hkey str t (he_key e) = hkey str t k"
  shows "ht_inv str (t\<lparr>ht_entries := (ht_entries t)[probe_at str t k m := e],
    ht_size := ht_size t + (if he_state (ht_entries t ! probe_at str t k m) = HT_EMPTY then 1 else 0)\<rparr>)"
proof -
  note I = ht_invD [OF inv]
  let ?es = "ht_entries t" and ?s = "probe_at str t k m"
  let ?n = "ht_size t + (if he_state (?es ! ?s) = HT_EMPTY then 1 else 0)"
  have idx: "ht_index str t (he_key e) = ht_index str t k"
    by (rule ht_index_hkey) (rule e(2))
  have "\<forall>j<m. he_state (?es ! probe_at str t k j) \<noteq> HT_EMPTY"
    using first by (auto simp: first_at_def)
  then have chain: "chain_ok (\<lambda>k. unat (ht_index str t k)) (?es[?s := e])"
    using chain_ok_set [OF I(7) m e(1)] by (simp add: idx)
  have used: "used (?es[?s := e]) = used ?es + (if he_state (?es ! ?s) = HT_EMPTY then 1 else 0)"
    using used_update [OF probe_at_lt [OF inv, of k m], of e] e(1) by (auto split: if_splits)
  have "100 * unat (ht_size t) < 100 * (unat (ht_capacity t) - 1)"
    using load inv by (auto simp: ht_inv_def)
  then have lt: "Suc (unat (ht_size t)) < unat (ht_capacity t)"
    by linarith
  then have n: "unat ?n = used (?es[?s := e])"
    using I(4,5) unat_u32_Suc [of "ht_size t"] used by auto
  have "used (?es[?s := e]) < length (?es[?s := e])"
    using used lt I(2,5) by simp
  then show ?thesis
    using inv chain n I unfolding ht_inv_def by simp
qed

text \<open>Other keys are looked up as before.\<close>

lemma ht_get_insert_other:
  assumes inv: "ht_inv str t" and inv': "ht_inv str t'"
    and t': "t' = t\<lparr>ht_entries := (ht_entries t)[s := e], ht_size := n\<rparr>"
    and s: "s < length (ht_entries t)"
    and e: "he_state e = HT_VALID" "hkey str t (he_key e) \<noteq> hkey str t k'"
    and old: "he_state (ht_entries t ! s) = HT_VALID \<Longrightarrow> hkey str t (he_key (ht_entries t ! s)) \<noteq> hkey str t k'"
  shows "ht_get str t' k' = ht_get str t k'"
proof -
  let ?es = "ht_entries t" and ?es' = "(ht_entries t)[s := e]"
  let ?P = "\<lambda>j. get_stop str t k' (?es ! probe_at str t k' j)"
  let ?P' = "\<lambda>j. get_stop str t k' (?es' ! probe_at str t k' j)"
  obtain j0 where j0: "j0 < length ?es" "first_at ?P j0"
    using get_stop_ex [OF inv] .
  obtain j1 where j1: "j1 < length ?es" "first_at ?P' j1"
    using get_stop_ex [OF inv', of k'] by (auto simp: t')
  have s_not: "\<not> ?P' j" if "probe_at str t k' j = s" for j
    using that e s by simp
  have same: "?es' ! probe_at str t k' j = ?es ! probe_at str t k' j" if "probe_at str t k' j \<noteq> s" for j
    using that by simp
  have get: "ht_get str t k' = Inr (let e = ?es ! probe_at str t k' j0 in
      if he_state e = HT_EMPTY then NULL else he_value e)"
    by (rule ht_get_first [OF inv j0])
  have get': "ht_get str t' k' = Inr (let e = ?es' ! probe_at str t k' j1 in
      if he_state e = HT_EMPTY then NULL else he_value e)"
    using ht_get_first [OF inv', of j1 k'] j1 by (simp add: t')
  have ne1: "probe_at str t k' j1 \<noteq> s"
    using j1(2) s_not by (auto simp: first_at_def)
  have P1: "?P j1"
    using j1(2) same [OF ne1] by (simp add: first_at_def)
  show ?thesis
  proof (cases "probe_at str t k' j0 = s")
    case False
    then have "?P' j0"
      using j0(2) same [of j0] by (simp add: first_at_def)
    moreover have "\<not> ?P' j" if "j < j0" for j
      using that j0(2) s_not [of j] same [of j] by (cases "probe_at str t k' j = s") (auto simp: first_at_def)
    ultimately have "first_at ?P' j0"
      by (simp add: first_at_def)
    then have "j1 = j0"
      using j1(2) first_at_unique by blast
    then show ?thesis
      using get get' same [OF False] by simp
  next
    case True
    then have empty0: "he_state (?es ! probe_at str t k' j0) = HT_EMPTY"
      using j0(2) old by (auto simp: first_at_def)
    have "j0 < j1"
    proof (rule ccontr)
      assume "\<not> j0 < j1"
      then have "j1 < j0 \<or> j1 = j0"
        by auto
      then show False
        using j0(2) P1 ne1 True by (auto simp: first_at_def)
    qed
    then have "he_state (?es ! probe_at str t k' j1) = HT_EMPTY"
      using chain_valid [OF inv j1(1), of k' j0] P1 empty0 by auto
    then show ?thesis
      using get get' same [OF ne1] empty0 by simp
  qed
qed

lemma ht_get_insert_same:
  assumes inv: "ht_inv str t" and inv': "ht_inv str t'" and m: "m < length (ht_entries t)"
    and t': "t' = t\<lparr>ht_entries := (ht_entries t)[probe_at str t k m := e], ht_size := n\<rparr>"
    and first: "first_at (\<lambda>j. set_stop str t k (ht_entries t ! probe_at str t k j)) m"
    and e: "he_state e = HT_VALID" "hkey str t (he_key e) = hkey str t k"
    and k': "hkey str t k' = hkey str t k"
  shows "ht_get str t' k' = Inr (he_value e)"
proof -
  let ?es' = "(ht_entries t)[probe_at str t k m := e]"
  have idx: "ht_index str t k' = ht_index str t k"
    using k' by (rule ht_index_hkey)
  have at: "?es' ! probe_at str t k m = e"
    using inv by simp
  have "\<not> get_stop str t k' (?es' ! probe_at str t k j)" if "j < m" for j
  proof -
    have "probe_at str t k j \<noteq> probe_at str t k m"
      using that m slot_inj [of "length (ht_entries t)" "unat (ht_index str t k)" j m] by auto
    then show ?thesis
      using first that by (auto simp: first_at_def k')
  qed
  then have "first_at (\<lambda>j. get_stop str t k' (?es' ! probe_at str t k j)) m"
    using at e k' by (simp add: first_at_def)
  then show ?thesis
    using ht_get_first [OF inv', of m k'] m at e by (simp add: t' idx Let_def)
qed

lemma ht_insert_map:
  assumes inv: "ht_inv str t"
    and load: "unat (ht_size t) * 100 \<le> unat (ht_capacity t) * unat (ht_max_load t)"
  obtains m e t' where
    "ht_insert str t k v = Inr (0, t')" "ht_inv str t'"
    "t' = t\<lparr>ht_entries := (ht_entries t)[probe_at str t k m := e], ht_size := ht_size t'\<rparr>"
    "\<forall>k'. ht_get str t' k' = (if hkey str t k' = hkey str t k then Inr v else ht_get str t k')"
    "m < length (ht_entries t)" "he_state e = HT_VALID" "hkey str t (he_key e) = hkey str t k"
    "first_at (\<lambda>j. set_stop str t k (ht_entries t ! probe_at str t k j)) m"
proof -
  obtain m where m: "m < length (ht_entries t)"
      "first_at (\<lambda>j. set_stop str t k (ht_entries t ! probe_at str t k j)) m"
    using set_stop_ex [OF inv] .
  obtain e where e: "he_state e = HT_VALID" "he_value e = v" "hkey str t (he_key e) = hkey str t k"
    "ht_insert str t k v = Inr (0, t\<lparr>ht_entries := (ht_entries t)[probe_at str t k m := e],
       ht_size := ht_size t + (if he_state (ht_entries t ! probe_at str t k m) = HT_EMPTY then 1 else 0)\<rparr>)"
    using ht_insert_at [OF inv m, of v] .
  define t' where "t' = t\<lparr>ht_entries := (ht_entries t)[probe_at str t k m := e],
    ht_size := ht_size t + (if he_state (ht_entries t ! probe_at str t k m) = HT_EMPTY then 1 else 0)\<rparr>"
  have inv': "ht_inv str t'"
    unfolding t'_def by (rule ht_insert_inv [OF inv load m e(1,3)])
  have "ht_get str t' k' = (if hkey str t k' = hkey str t k then Inr v else ht_get str t k')" for k'
  proof (cases "hkey str t k' = hkey str t k")
    case True
    then show ?thesis
      using ht_get_insert_same [OF inv inv' m(1) t'_def m(2) e(1,3)] e(2) by simp
  next
    case False
    then have "ht_get str t' k' = ht_get str t k'"
      using ht_get_insert_other [OF inv inv' t'_def probe_at_lt [OF inv] e(1)] e(3) m(2)
      by (auto simp: first_at_def)
    then show ?thesis
      using False by simp
  qed
  then show ?thesis
    using that [of t' m e] e m inv' by (simp add: t'_def)
qed

lemma ht_set_insert:
  assumes "ht_inv str t" "unat (ht_size t) * 100 \<le> unat (ht_capacity t) * unat (ht_max_load t)"
  shows "ht_set fresh str t k v = ht_insert str t k v"
  using ht_load_nat [OF assms(1)] assms(2) by (simp add: ht_set_def ht_set_depth.simps)

lemma ht_set_full:
  assumes "ht_inv str t" "unat (ht_capacity t) * unat (ht_max_load t) < unat (ht_size t) * 100"
    and "ht_flag t AND HT_RESIZE = 0"
  shows "ht_set fresh str t k v = Inr (-1, t)"
  using ht_load_nat [OF assms(1)] assms(2,3) by (simp add: ht_set_def ht_set_depth.simps)

section \<open>Removal\<close>

definition ht_uniq :: "(ptr \<Rightarrow> u8 list) \<Rightarrow> hash_table_t \<Rightarrow> bool" where
  "ht_uniq str t \<longleftrightarrow> (\<forall>i<length (ht_entries t). \<forall>j<length (ht_entries t).
     he_state (ht_entries t ! i) = HT_VALID \<and> he_state (ht_entries t ! j) = HT_VALID \<and>
     hkey str t (he_key (ht_entries t ! i)) = hkey str t (he_key (ht_entries t ! j)) \<longrightarrow> i = j)"

definition ht_absent :: "(ptr \<Rightarrow> u8 list) \<Rightarrow> hash_table_t \<Rightarrow> hash_key_t \<Rightarrow> bool" where
  "ht_absent str t k \<longleftrightarrow> (\<forall>e\<in>set (ht_entries t).
     he_state e = HT_VALID \<longrightarrow> hkey str t (he_key e) \<noteq> hkey str t k)"

lemma ht_remove_absent:
  assumes "ht_inv str t" "j < length (ht_entries t)"
    and "first_at (\<lambda>j. get_stop str t k (ht_entries t ! probe_at str t k j)) j"
    and "he_state (ht_entries t ! probe_at str t k j) = HT_EMPTY"
  shows "ht_remove str t k = Inr (-1, t)"
  using assms ht_probe_path [OF assms(1-3)] ht_probe_index [OF assms(1), of j k]
  by (simp add: ht_remove_def ht_compare_hkey [OF ht_invD(1) [OF assms(1)]] Let_def)

lemma ht_remove_at:
  assumes inv: "ht_inv str t" and j: "j < length (ht_entries t)"
    and first: "first_at (\<lambda>j. get_stop str t k (ht_entries t ! probe_at str t k j)) j"
    and valid: "he_state (ht_entries t ! probe_at str t k j) = HT_VALID"
  obtains d where
    "he_state d = (if he_state (ht_entries t ! probe_at str t k (Suc j)) = HT_EMPTY
                   then HT_EMPTY else HT_TOMBSTONE)"
    "ht_remove str t k = Inr (0, t\<lparr>ht_entries := (ht_entries t)[probe_at str t k j := d],
       ht_size := ht_size t - (if he_state d = HT_EMPTY then 1 else 0)\<rparr>)"
proof -
  let ?es = "ht_entries t" and ?s = "probe_at str t k j" and ?n = "probe_at str t k (Suc j)"
  let ?e = "ht_assign t (?es ! ?s) 0"
  let ?d = "?e\<lparr>he_state := (if he_state (?es ! ?n) = HT_EMPTY then HT_EMPTY else HT_TOMBSTONE)\<rparr>"
  have st: "he_state ?e = he_state (?es ! ?s)"
    by (simp add: ht_assign_def)
  then have next_state: "he_state (?es[?s := ?e] ! ?n) = he_state (?es ! ?n)"
    using inv by (cases "?n = ?s") simp_all
  have ix: "unat ((ht_index str t k + of_nat j + 1) mod ht_capacity t) = ?n"
    using ht_probe_index [OF inv, of "Suc j" k] j by (simp add: add.assoc add.commute)
  have "ht_remove str t k = Inr (0, t\<lparr>ht_entries := ?es[?s := ?d],
       ht_size := ht_size t - (if he_state ?d = HT_EMPTY then 1 else 0)\<rparr>)"
    using ht_probe_path [OF inv j first] ht_probe_index [OF inv, of j k] ix j inv valid next_state
    by (simp add: ht_remove_def ht_compare_hkey [OF ht_invD(1) [OF inv]] Let_def)
  then show ?thesis
    using that [of ?d] by simp
qed

lemma chain_ok_remove:
  assumes chain: "chain_ok h es" and s: "s < length es" and d: "he_state d \<noteq> HT_VALID"
    and nxt: "he_state d = HT_EMPTY \<Longrightarrow> he_state (es ! (Suc s mod length es)) = HT_EMPTY"
  shows "chain_ok h (es[s := d])"
  unfolding chain_ok_def length_list_update
proof (intro allI impI)
  fix i
  assume i: "i < length es" "he_state (es[s := d] ! i) = HT_VALID"
  then have ne: "i \<noteq> s"
    using d s by auto
  then have same: "es[s := d] ! i = es ! i"
    by simp
  let ?S = "slot (length es) (h (he_key (es ! i)))"
  obtain n where n: "n < length es" "i = ?S n" "\<forall>j<n. he_state (es ! ?S j) \<noteq> HT_EMPTY"
    using chain i same unfolding chain_ok_def by metis
  have "he_state (es[s := d] ! ?S j) \<noteq> HT_EMPTY" if "j < n" for j
  proof (cases "?S j = s \<and> he_state d = HT_EMPTY")
    case True
    then have "he_state (es ! ?S (Suc j)) = HT_EMPTY"
      using nxt by (simp add: slot_Suc)
    then have "Suc j = n"
      using n(3) that by (metis Suc_lessI)
    then show ?thesis
      using \<open>he_state (es ! ?S (Suc j)) = HT_EMPTY\<close> n(2) i(2) same by simp
  next
    case False
    then show ?thesis
      using n(3) that s by (cases "?S j = s") simp_all
  qed
  then show "\<exists>n<length es. i = slot (length es) (h (he_key (es[s := d] ! i))) n \<and>
      (\<forall>j<n. he_state (es[s := d] ! slot (length es) (h (he_key (es[s := d] ! i))) j) \<noteq> HT_EMPTY)"
    unfolding same using n by blast
qed

lemma ht_remove_inv:
  assumes inv: "ht_inv str t" and s: "s < length (ht_entries t)"
    and valid: "he_state (ht_entries t ! s) = HT_VALID"
    and d: "he_state d = HT_EMPTY \<or> he_state d = HT_TOMBSTONE"
    and nxt: "he_state d = HT_EMPTY \<Longrightarrow>
      he_state (ht_entries t ! (Suc s mod length (ht_entries t))) = HT_EMPTY"
  shows "ht_inv str (t\<lparr>ht_entries := (ht_entries t)[s := d],
    ht_size := ht_size t - (if he_state d = HT_EMPTY then 1 else 0)\<rparr>)"
proof -
  note I = ht_invD [OF inv]
  let ?es = "ht_entries t"
  have chain: "chain_ok (\<lambda>k. unat (ht_index str t k)) (?es[s := d])"
    by (rule chain_ok_remove [OF I(7) s _ nxt]) (use d in auto)
  have used: "used (?es[s := d]) + (if he_state d = HT_EMPTY then 1 else 0) = used ?es"
    using used_update [OF s, of d] valid by (auto split: if_splits)
  then have "unat (ht_size t - (if he_state d = HT_EMPTY then 1 else 0)) = used (?es[s := d])"
    using I(5) unat_minus_one [of "ht_size t"]
    by (cases "ht_size t = 0") (auto split: if_splits)
  then show ?thesis
    using inv chain used I unfolding ht_inv_def by (auto split: if_splits)
qed

lemma ht_get_remove_other:
  assumes inv: "ht_inv str t" and inv': "ht_inv str t'"
    and t': "t' = t\<lparr>ht_entries := (ht_entries t)[s := d], ht_size := n\<rparr>"
    and s: "s < length (ht_entries t)" "he_state (ht_entries t ! s) = HT_VALID"
      "hkey str t (he_key (ht_entries t ! s)) \<noteq> hkey str t k'"
    and d: "he_state d = HT_EMPTY \<or> he_state d = HT_TOMBSTONE"
    and nxt: "he_state d = HT_EMPTY \<Longrightarrow>
      he_state (ht_entries t ! (Suc s mod length (ht_entries t))) = HT_EMPTY"
  shows "ht_get str t' k' = ht_get str t k'"
proof -
  let ?es = "ht_entries t" and ?es' = "(ht_entries t)[s := d]"
  let ?P = "\<lambda>j. get_stop str t k' (?es ! probe_at str t k' j)"
  let ?P' = "\<lambda>j. get_stop str t k' (?es' ! probe_at str t k' j)"
  obtain j0 where j0: "j0 < length ?es" "first_at ?P j0"
    using get_stop_ex [OF inv] .
  have same: "?es' ! probe_at str t k' j = ?es ! probe_at str t k' j" if "probe_at str t k' j \<noteq> s" for j
    using that by simp
  have at: "?es' ! s = d"
    using s(1) by simp
  have get: "ht_get str t k' = Inr (let e = ?es ! probe_at str t k' j0 in
      if he_state e = HT_EMPTY then NULL else he_value e)"
    by (rule ht_get_first [OF inv j0])
  have get': "ht_get str t' k' = Inr (let e = ?es' ! probe_at str t k' j in
      if he_state e = HT_EMPTY then NULL else he_value e)" if "j < length ?es" "first_at ?P' j" for j
    using ht_get_first [OF inv', of j k'] that by (simp add: t')
  have ne0: "probe_at str t k' j0 \<noteq> s"
    using j0(2) s(2,3) by (auto simp: first_at_def)
  show ?thesis
  proof (cases "\<exists>j<j0. probe_at str t k' j = s \<and> he_state d = HT_EMPTY")
    case True
    then obtain j where j: "j < j0" "probe_at str t k' j = s" "he_state d = HT_EMPTY"
      by auto
    then have empty: "he_state (?es ! probe_at str t k' (Suc j)) = HT_EMPTY"
      using nxt by (simp add: slot_Suc)
    then have "Suc j = j0"
      using j0(2) j(1) unfolding first_at_def by (metis Suc_lessI)
    moreover have "first_at ?P' j"
      unfolding first_at_def
    proof (intro conjI allI impI)
      show "?P' j"
        using j at by simp
      fix i
      assume "i < j"
      then have "probe_at str t k' i \<noteq> s"
        using j(1,2) j0(1) slot_inj [of "length ?es" "unat (ht_index str t k')" i j] by auto
      then show "\<not> ?P' i"
        using j0(2) \<open>i < j\<close> j(1) same [of i] by (auto simp: first_at_def)
    qed
    ultimately show ?thesis
      using get get' [of j] j j0(1) at empty by simp
  next
    case False
    have "first_at ?P' j0"
      unfolding first_at_def
    proof (intro conjI allI impI)
      show "?P' j0"
        using j0(2) same [OF ne0] by (simp add: first_at_def)
      fix i
      assume "i < j0"
      then show "\<not> ?P' i"
        using False j0(2) d at same [of i] by (cases "probe_at str t k' i = s") (auto simp: first_at_def)
    qed
    then show ?thesis
      using get get' [OF j0(1)] same [OF ne0] by simp
  qed
qed

lemma ht_get_absent:
  assumes inv: "ht_inv str t" and "ht_absent str t k"
  shows "ht_get str t k = Inr NULL"
proof -
  obtain j where j: "j < length (ht_entries t)"
      "first_at (\<lambda>j. get_stop str t k (ht_entries t ! probe_at str t k j)) j"
    using get_stop_ex [OF inv] .
  then have "he_state (ht_entries t ! probe_at str t k j) = HT_EMPTY"
    using assms probe_at_lt [OF inv, of k j] by (auto simp: first_at_def ht_absent_def)
  then show ?thesis
    using ht_get_first [OF inv j] by simp
qed

lemma ht_get_Null_absent:
  assumes inv: "ht_inv str t" and vals: "\<forall>e\<in>set (ht_entries t). he_state e = HT_VALID \<longrightarrow> he_value e \<noteq> NULL"
    and miss: "ht_get str t k = Inr NULL"
  shows "ht_absent str t k"
  unfolding ht_absent_def
proof (intro ballI impI notI)
  fix e
  assume e: "e \<in> set (ht_entries t)" "he_state e = HT_VALID" "hkey str t (he_key e) = hkey str t k"
  then obtain i where i: "i < length (ht_entries t)" "ht_entries t ! i = e"
    by (auto simp: in_set_conv_nth)
  then obtain d where d: "d < length (ht_entries t)" "i = probe_at str t k d"
    using slot_surj by metis
  obtain j where j: "j < length (ht_entries t)"
      "first_at (\<lambda>j. get_stop str t k (ht_entries t ! probe_at str t k j)) j"
    using get_stop_ex [OF inv] .
  then have "j \<le> d"
    using e i d by (auto simp: first_at_def not_less [symmetric])
  then have "he_state (ht_entries t ! probe_at str t k j) \<noteq> HT_EMPTY"
    using chain_valid [OF inv d(1), of k j] e i d by (cases "j = d") auto
  moreover have "ht_entries t ! probe_at str t k j \<in> set (ht_entries t)"
    using inv by simp
  ultimately show False
    using ht_get_first [OF inv j] miss vals j(2) by (auto simp: first_at_def)
qed

section \<open>Tables as maps\<close>

lemma ht_get_returns:
  assumes "ht_inv str t"
  shows "\<exists>v. ht_get str t k = Inr v"
proof -
  obtain j where "j < length (ht_entries t)"
      "first_at (\<lambda>j. get_stop str t k (ht_entries t ! probe_at str t k j)) j"
    using get_stop_ex [OF assms] .
  from ht_get_first [OF assms this] show ?thesis
    by simp
qed

lemma find_prime_in: "ht_find_prime n = Inr p \<Longrightarrow> p \<in> set prime_numbers \<and> n < p"
  by (auto simp: ht_find_prime_def find_Some_iff split: option.splits)

lemma prime_numbers_bounds: "\<forall>p\<in>set prime_numbers. 0 < unat p \<and> unat p < 312"
  by (simp add: prime_numbers_def)

lemma ht_create_inv:
  assumes "str_ok str" "ht_create n load flag = Inr t"
    and "unat (ht_capacity t) * unat load < 100 * (unat (ht_capacity t) - 1)"
  shows "ht_inv str t" "ht_uniq str t" "ht_absent str t k" "ht_flag t = flag" "ht_max_load t = load"
proof -
  obtain cap where "ht_find_prime (n * 100 div load) = Inr cap"
    and t: "t = \<lparr>ht_entries = replicate (unat cap) \<lparr>he_key = 0, he_value = 0, he_state = HT_EMPTY\<rparr>,
      ht_capacity = cap, ht_size = 0, ht_max_load = load, ht_flag = flag\<rparr>"
    using assms(2) by (auto simp: ht_create_def rbind_eq_Inr split: if_splits)
  then have "0 < unat cap" "unat cap < 65536"
    using find_prime_in prime_numbers_bounds by fastforce+
  then show "ht_inv str t"
    using assms(1,3) by (simp add: ht_inv_def t chain_ok_def)
qed (use assms in \<open>auto simp: ht_create_def rbind_eq_Inr ht_uniq_def ht_absent_def split: if_splits\<close>)

text \<open>C26 [ht_set_updates]: on a well-formed table below its load limit \<open>ht_set\<close> ends, returns 0 and
  leaves a well-formed table in which the key, and every key equal to it as a number or as a string,
  is bound to the new value, and every other key is looked up as before.\<close>

theorem ht_set_updates:
  assumes "ht_inv str t" "unat (ht_size t) * 100 \<le> unat (ht_capacity t) * unat (ht_max_load t)"
  shows "\<exists>t'. ht_set fresh str t k v = Inr (0, t') \<and> ht_inv str t' \<and>
           (\<forall>k'. ht_get str t' k' = (if hkey str t k' = hkey str t k then Inr v else ht_get str t k'))"
proof -
  obtain m e t' where "ht_insert str t k v = Inr (0, t')" "ht_inv str t'"
    "\<forall>k'. ht_get str t' k' = (if hkey str t k' = hkey str t k then Inr v else ht_get str t k')"
    using ht_insert_map [OF assms] .
  then show ?thesis
    using ht_set_insert [OF assms] by auto
qed

definition ht_sample :: hash_table_t where
  "ht_sample = \<lparr>ht_entries = [\<lparr>he_key = 0, he_value = 0, he_state = HT_EMPTY\<rparr>,
      \<lparr>he_key = 0, he_value = 0, he_state = HT_EMPTY\<rparr>, \<lparr>he_key = 0, he_value = 0, he_state = HT_EMPTY\<rparr>,
      \<lparr>he_key = 0, he_value = 0, he_state = HT_EMPTY\<rparr>, \<lparr>he_key = 0, he_value = 0, he_state = HT_EMPTY\<rparr>],
     ht_capacity = 5, ht_size = 0, ht_max_load = 75, ht_flag = 0\<rparr>"

lemma ht_sample_create: "ht_create 3 75 0 = Inr ht_sample"
  by code_simp

lemma ht_sample_inv: "ht_inv (\<lambda>_. []) ht_sample" "ht_uniq (\<lambda>_. []) ht_sample"
    "ht_absent (\<lambda>_. []) ht_sample k"
  using ht_create_inv [OF _ ht_sample_create, of "\<lambda>_. []"]
  by (simp_all add: str_ok_def ht_sample_def)

theorem ht_set_updates_witness:
  "\<exists>t'. ht_set (\<lambda>_. []) (\<lambda>_. []) ht_sample 9 4096 = Inr (0, t') \<and> ht_get (\<lambda>_. []) t' 9 = Inr 4096"
  using ht_set_updates [OF ht_sample_inv(1), of "\<lambda>_. []" 9 4096] by (auto simp: ht_sample_def)

definition ht_nonnull :: "hash_table_t \<Rightarrow> bool" where
  "ht_nonnull t \<longleftrightarrow> (\<forall>e\<in>set (ht_entries t). he_state e = HT_VALID \<longrightarrow> he_value e \<noteq> NULL)"

lemma ht_uniq_set:
  assumes "ht_uniq str t" "ht_absent str t k" "hkey str t (he_key e) = hkey str t k"
  shows "ht_uniq str (t\<lparr>ht_entries := (ht_entries t)[s := e], ht_size := n\<rparr>)"
proof -
  have "hkey str t (he_key (ht_entries t ! j)) \<noteq> hkey str t (he_key e)"
    if "j < length (ht_entries t)" "he_state (ht_entries t ! j) = HT_VALID" for j
    using assms(2,3) that nth_mem [of j "ht_entries t"] by (auto simp: ht_absent_def)
  note other = this
  show ?thesis
    unfolding ht_uniq_def
  proof (intro allI impI, elim conjE)
    fix i j
    let ?t = "t\<lparr>ht_entries := (ht_entries t)[s := e], ht_size := n\<rparr>"
    assume "i < length (ht_entries ?t)" "j < length (ht_entries ?t)"
      "he_state (ht_entries ?t ! i) = HT_VALID" "he_state (ht_entries ?t ! j) = HT_VALID"
      "hkey str ?t (he_key (ht_entries ?t ! i)) = hkey str ?t (he_key (ht_entries ?t ! j))"
    then show "i = j"
      using other [of i] other [of j] assms(1)
      by (cases "i = s"; cases "j = s") (auto simp: nth_update_if ht_uniq_def)
  qed
qed

lemma ht_uniq_clear:
  assumes "ht_uniq str t" "he_state d \<noteq> HT_VALID"
  shows "ht_uniq str (t\<lparr>ht_entries := (ht_entries t)[s := d], ht_size := n\<rparr>)"
  using assms unfolding ht_uniq_def by (auto simp: nth_update_if)

text \<open>A removal that finds its key leaves no other copy of it in a table without duplicates.\<close>

lemma ht_absent_clear:
  assumes inv: "ht_inv str t" and uniq: "ht_uniq str t" and s: "s < length (ht_entries t)"
    and at: "he_state (ht_entries t ! s) = HT_VALID" "hkey str t (he_key (ht_entries t ! s)) = hkey str t k"
    and d: "he_state d \<noteq> HT_VALID"
  shows "ht_absent str (t\<lparr>ht_entries := (ht_entries t)[s := d], ht_size := n\<rparr>) k"
  unfolding ht_absent_def
proof (intro ballI impI)
  fix e
  assume "e \<in> set (ht_entries (t\<lparr>ht_entries := (ht_entries t)[s := d], ht_size := n\<rparr>))"
    and e: "he_state e = HT_VALID"
  then obtain i where i: "i < length (ht_entries t)" "(ht_entries t)[s := d] ! i = e"
    by (auto simp: in_set_conv_nth)
  then have "i \<noteq> s"
    using d e s by auto
  then have "e = ht_entries t ! i" "hkey str t (he_key (ht_entries t ! i)) \<noteq> hkey str t k"
    using i uniq s at e unfolding ht_uniq_def by auto
  then show "hkey str (t\<lparr>ht_entries := (ht_entries t)[s := d], ht_size := n\<rparr>) (he_key e) \<noteq>
      hkey str (t\<lparr>ht_entries := (ht_entries t)[s := d], ht_size := n\<rparr>) k"
    by simp
qed

lemma ht_remove_spec:
  assumes inv: "ht_inv str t" and uniq: "ht_uniq str t"
  shows "\<exists>r t'. ht_remove str t k = Inr (r, t') \<and> ht_inv str t' \<and> ht_uniq str t' \<and>
           r = (if ht_absent str t k then -1 else 0) \<and> (ht_absent str t k \<longrightarrow> t' = t) \<and>
           (\<forall>k'. ht_get str t' k' = (if hkey str t k' = hkey str t k then Inr NULL else ht_get str t k'))"
proof -
  obtain j where j: "j < length (ht_entries t)"
      "first_at (\<lambda>j. get_stop str t k (ht_entries t ! probe_at str t k j)) j"
    using get_stop_ex [OF inv] .
  let ?s = "probe_at str t k j"
  have s: "?s < length (ht_entries t)"
    using inv by simp
  show ?thesis
  proof (cases "he_state (ht_entries t ! ?s) = HT_EMPTY")
    case True
    have "ht_absent str t k"
      unfolding ht_absent_def
    proof (intro ballI impI notI)
      fix e
      assume "e \<in> set (ht_entries t)" and e: "he_state e = HT_VALID" "hkey str t (he_key e) = hkey str t k"
      then obtain d where d: "d < length (ht_entries t)" "e = ht_entries t ! probe_at str t k d"
        using slot_surj by (metis in_set_conv_nth)
      then have "j < d"
        using j(2) e True unfolding first_at_def by (metis nat_neq_iff zero_neq_one)
      then show False
        using chain_valid [OF inv d(1), of k j] d e True by auto
    qed
    moreover have "ht_get str t k' = Inr NULL" if "hkey str t k' = hkey str t k" for k'
      using calculation that ht_get_absent [OF inv, of k'] by (simp add: ht_absent_def)
    ultimately show ?thesis
      using ht_remove_absent [OF inv j True] inv uniq by auto
  next
    case False
    then have v: "he_state (ht_entries t ! ?s) = HT_VALID" "hkey str t (he_key (ht_entries t ! ?s)) = hkey str t k"
      using j(2) by (auto simp: first_at_def)
    obtain d where d: "he_state d = (if he_state (ht_entries t ! probe_at str t k (Suc j)) = HT_EMPTY
        then HT_EMPTY else HT_TOMBSTONE)"
      "ht_remove str t k = Inr (0, t\<lparr>ht_entries := (ht_entries t)[?s := d],
         ht_size := ht_size t - (if he_state d = HT_EMPTY then 1 else 0)\<rparr>)"
      using ht_remove_at [OF inv j v(1)] .
    define t' where "t' = t\<lparr>ht_entries := (ht_entries t)[?s := d],
         ht_size := ht_size t - (if he_state d = HT_EMPTY then 1 else 0)\<rparr>"
    have dd: "he_state d = HT_EMPTY \<or> he_state d = HT_TOMBSTONE" "he_state d \<noteq> HT_VALID"
      using d(1) by auto
    have nxt: "he_state d = HT_EMPTY \<Longrightarrow>
        he_state (ht_entries t ! (Suc ?s mod length (ht_entries t))) = HT_EMPTY"
      using d(1) by (auto simp: slot_Suc split: if_splits)
    have inv': "ht_inv str t'"
      unfolding t'_def by (rule ht_remove_inv [OF inv s v(1) dd(1) nxt])
    have "ht_absent str t' k"
      unfolding t'_def by (rule ht_absent_clear [OF inv uniq s v dd(2)])
    then have gone: "ht_get str t' k' = Inr NULL" if "hkey str t k' = hkey str t k" for k'
      using that ht_get_absent [OF inv', of k'] by (simp add: ht_absent_def t'_def)
    have other: "ht_get str t' k' = ht_get str t k'" if "hkey str t k' \<noteq> hkey str t k" for k'
      by (rule ht_get_remove_other [OF inv inv' t'_def s v(1) _ dd(1) nxt]) (use v(2) that in auto)
    have "\<not> ht_absent str t k"
      using v s by (auto simp: ht_absent_def dest: bspec [OF _ nth_mem])
    then show ?thesis
      using d(2) inv' ht_uniq_clear [OF uniq dd(2)] gone other by (auto simp: t'_def [symmetric]) (auto simp: t'_def)
  qed
qed

text \<open>C27 [ht_remove_deletes]: on a well-formed table that holds no key twice \<open>ht_remove\<close> ends and
  leaves a well-formed table without duplicates in which the key is no longer found and every other
  key is looked up as before; it returns 0 when an entry held the key and -1, with the table
  unchanged, when none did.\<close>

theorem ht_remove_deletes:
  assumes inv: "ht_inv str t" and uniq: "ht_uniq str t"
  shows "\<exists>r t'. ht_remove str t k = Inr (r, t') \<and> ht_inv str t' \<and> ht_uniq str t' \<and>
           r = (if ht_absent str t k then -1 else 0) \<and> (ht_absent str t k \<longrightarrow> t' = t) \<and>
           (\<forall>k'. ht_get str t' k' = (if hkey str t k' = hkey str t k then Inr NULL else ht_get str t k'))"
  by (rule ht_remove_spec [OF assms])

theorem ht_remove_deletes_witness:
  "\<exists>r t'. ht_remove (\<lambda>_. []) ht_sample 9 = Inr (r, t') \<and> r = -1 \<and> t' = ht_sample"
  using ht_remove_deletes [OF ht_sample_inv(1,2), of 9] ht_sample_inv(3) by auto

section \<open>The interface of the caches\<close>

text \<open>
  The block cache and the inode cache look a key up, insert a non-null value only when the lookup
  found nothing, and remove keys.  Under that discipline the table is a finite map.
\<close>

locale kv_cache =
  fixes get :: "'t \<Rightarrow> 'k \<Rightarrow> ptr res"
    and put :: "'t \<Rightarrow> 'k \<Rightarrow> ptr \<Rightarrow> (int \<times> 't) res"
    and del :: "'t \<Rightarrow> 'k \<Rightarrow> (int \<times> 't) res"
    and room :: "'t \<Rightarrow> bool"
    and invar :: "'t \<Rightarrow> bool"
  assumes get_returns: "invar t \<Longrightarrow> \<exists>v. get t k = Inr v"
    and put_full: "invar t \<Longrightarrow> \<not> room t \<Longrightarrow> put t k v = Inr (-1, t)"
    and put_new: "invar t \<Longrightarrow> room t \<Longrightarrow> get t k = Inr NULL \<Longrightarrow> v \<noteq> NULL \<Longrightarrow>
          \<exists>t'. put t k v = Inr (0, t') \<and> invar t' \<and>
               (\<forall>k'. get t' k' = (if k' = k then Inr v else get t k'))"
    and del_key: "invar t \<Longrightarrow> \<exists>r t'. del t k = Inr (r, t') \<and> invar t' \<and>
               (\<forall>k'. get t' k' = (if k' = k then Inr NULL else get t k'))"
begin

text \<open>The map a table stands for.\<close>

definition map_of_table :: "'t \<Rightarrow> 'k \<rightharpoonup> ptr" where
  "map_of_table t k = (case get t k of Inr v \<Rightarrow> if v = NULL then None else Some v | Inl _ \<Rightarrow> None)"

text \<open>A client's steps: insert after a miss, remove.\<close>

inductive client :: "'t \<Rightarrow> 't \<Rightarrow> bool" where
  refl: "client t t"
| insert: "client t t1 \<Longrightarrow> get t1 k = Inr NULL \<Longrightarrow> v \<noteq> NULL \<Longrightarrow> put t1 k v = Inr (r, t2) \<Longrightarrow> client t t2"
| remove: "client t t1 \<Longrightarrow> del t1 k = Inr (r, t2) \<Longrightarrow> client t t2"

lemma put_cases:
  assumes "invar t" "get t k = Inr NULL" "v \<noteq> NULL" "put t k v = Inr (r, t')"
  shows "invar t' \<and> (if room t then r = 0 \<and> map_of_table t' = (map_of_table t)(k \<mapsto> v) else r = -1 \<and> t' = t)"
  using put_full [OF assms(1), of k v] put_new [OF assms(1) _ assms(2,3)] assms
  by (cases "room t") (auto simp: map_of_table_def fun_eq_iff)

lemma del_cases:
  assumes "invar t" "del t k = Inr (r, t')"
  shows "invar t' \<and> map_of_table t' = (map_of_table t)(k := None)"
  using del_key [OF assms(1), of k] assms(2) by (auto simp: map_of_table_def fun_eq_iff)

lemma client_invar: "client t t' \<Longrightarrow> invar t \<Longrightarrow> invar t'"
  by (induction rule: client.induct) (use put_cases del_cases in blast)+

lemma client_lookup_returns: "client t t' \<Longrightarrow> invar t \<Longrightarrow> \<exists>v. get t' k = Inr v"
  using client_invar get_returns by blast

end

definition ht_cache_inv :: "(ptr \<Rightarrow> u8 list) \<Rightarrow> hash_table_t \<Rightarrow> bool" where
  "ht_cache_inv str t \<longleftrightarrow> ht_inv str t \<and> ht_uniq str t \<and> ht_nonnull t \<and>
     ht_flag t AND HT_RESIZE = 0 \<and> \<not> ht_ptrkey t"

definition ht_room :: "hash_table_t \<Rightarrow> bool" where
  "ht_room t \<longleftrightarrow> unat (ht_size t) * 100 \<le> unat (ht_capacity t) * unat (ht_max_load t)"

lemma ht_insert_value:
  assumes inv: "ht_inv str t" and "ht_room t" "ht_absent str t k"
  obtains m e n where "ht_insert str t k v = Inr (0, t\<lparr>ht_entries := (ht_entries t)[probe_at str t k m := e], ht_size := n\<rparr>)"
    "he_value e = v" "hkey str t (he_key e) = hkey str t k"
proof -
  obtain m where m: "m < length (ht_entries t)"
      "first_at (\<lambda>j. set_stop str t k (ht_entries t ! probe_at str t k j)) m"
    using set_stop_ex [OF inv] .
  show ?thesis
    by (rule ht_insert_at [OF inv m, of v]) (rule that)
qed

lemma ht_nonnull_update:
  assumes "ht_nonnull t" "he_state e = HT_VALID \<Longrightarrow> he_value e \<noteq> NULL"
  shows "ht_nonnull (t\<lparr>ht_entries := (ht_entries t)[s := e], ht_size := n\<rparr>)"
  using assms set_update_subset_insert [of "ht_entries t" s e] unfolding ht_nonnull_def by auto

lemma hkey_num: "\<not> ht_ptrkey t \<Longrightarrow> hkey str t k = Inl k"
  by (simp add: hkey_def)

lemma ht_cache_put:
  assumes inv: "ht_cache_inv str t" and room: "ht_room t" and miss: "ht_get str t k = Inr NULL"
    and v: "v \<noteq> NULL"
  shows "\<exists>t'. ht_set fresh str t k v = Inr (0, t') \<and> ht_cache_inv str t' \<and>
           (\<forall>k'. ht_get str t' k' = (if k' = k then Inr v else ht_get str t k'))"
proof -
  have I: "ht_inv str t" "ht_uniq str t" "ht_nonnull t" "ht_flag t AND HT_RESIZE = 0" "\<not> ht_ptrkey t"
    using inv by (auto simp: ht_cache_inv_def)
  have absent: "ht_absent str t k"
    using ht_get_Null_absent [OF I(1) _ miss] I(3) by (simp add: ht_nonnull_def)
  obtain m e n where ins: "ht_insert str t k v =
      Inr (0, t\<lparr>ht_entries := (ht_entries t)[probe_at str t k m := e], ht_size := n\<rparr>)"
      and e: "he_value e = v" "hkey str t (he_key e) = hkey str t k"
    using ht_insert_value [OF I(1) room absent] .
  define t' where "t' = t\<lparr>ht_entries := (ht_entries t)[probe_at str t k m := e], ht_size := n\<rparr>"
  have "ht_uniq str t'" "ht_nonnull t'"
    unfolding t'_def by (rule ht_uniq_set [OF I(2) absent e(2)], rule ht_nonnull_update [OF I(3)]) (use e v in simp)
  moreover obtain t1 where "ht_insert str t k v = Inr (0, t1)" "ht_inv str t1"
    "\<forall>k'. ht_get str t1 k' = (if hkey str t k' = hkey str t k then Inr v else ht_get str t k')"
    using ht_insert_map [OF I(1) room [unfolded ht_room_def], of k v] by blast
  moreover have "ht_flag t' = ht_flag t"
    by (simp add: t'_def)
  ultimately show ?thesis
    using ins I(4,5) ht_set_insert [OF I(1) room [unfolded ht_room_def]] t'_def
    by (auto simp: ht_cache_inv_def hkey_num ht_ptrkey_def)
qed

lemma ht_remove_shape:
  assumes "ht_inv str t" "ht_remove str t k = Inr (r, t')"
  shows "t' = t \<or> (\<exists>s d n. he_state d \<noteq> HT_VALID \<and> t' = t\<lparr>ht_entries := (ht_entries t)[s := d], ht_size := n\<rparr>)"
proof -
  obtain j where j: "j < length (ht_entries t)"
      "first_at (\<lambda>j. get_stop str t k (ht_entries t ! probe_at str t k j)) j"
    using get_stop_ex [OF assms(1)] .
  show ?thesis
  proof (cases "he_state (ht_entries t ! probe_at str t k j) = HT_EMPTY")
    case True
    then show ?thesis
      using ht_remove_absent [OF assms(1) j] assms(2) by simp
  next
    case False
    then have v: "he_state (ht_entries t ! probe_at str t k j) = HT_VALID"
      using j(2) by (auto simp: first_at_def)
    show ?thesis
    proof (rule ht_remove_at [OF assms(1) j v])
      fix d
      assume "he_state d = (if he_state (ht_entries t ! probe_at str t k (Suc j)) = HT_EMPTY
          then HT_EMPTY else HT_TOMBSTONE)"
        and "ht_remove str t k = Inr (0, t\<lparr>ht_entries := (ht_entries t)[probe_at str t k j := d],
          ht_size := ht_size t - (if he_state d = HT_EMPTY then 1 else 0)\<rparr>)"
      then show ?thesis
        using assms(2) by (intro disjI2 exI conjI) (auto split: if_splits)
    qed
  qed
qed

lemma ht_cache_del:
  assumes inv: "ht_cache_inv str t"
  shows "\<exists>r t'. ht_remove str t k = Inr (r, t') \<and> ht_cache_inv str t' \<and>
           (\<forall>k'. ht_get str t' k' = (if k' = k then Inr NULL else ht_get str t k'))"
proof -
  have I: "ht_inv str t" "ht_uniq str t" "ht_nonnull t" "ht_flag t AND HT_RESIZE = 0" "\<not> ht_ptrkey t"
    using inv by (auto simp: ht_cache_inv_def)
  obtain r t' where t': "ht_remove str t k = Inr (r, t')" "ht_inv str t'" "ht_uniq str t'"
    "\<forall>k'. ht_get str t' k' = (if hkey str t k' = hkey str t k then Inr NULL else ht_get str t k')"
    using ht_remove_spec [OF I(1,2), of k] by blast
  have "ht_nonnull t'" "ht_flag t' = ht_flag t"
    using ht_remove_shape [OF I(1) t'(1)] I(3) by (auto intro: ht_nonnull_update)
  then show ?thesis
    using t' I(4,5) by (auto simp: ht_cache_inv_def hkey_num ht_ptrkey_def)
qed

interpretation htc: kv_cache "ht_get str" "ht_set fresh str" "ht_remove str" ht_room "ht_cache_inv str"
proof
  fix t k v
  assume inv: "ht_cache_inv str t"
  then have I: "ht_inv str t" "ht_flag t AND HT_RESIZE = 0"
    by (simp_all add: ht_cache_inv_def)
  show "\<exists>v. ht_get str t k = Inr v"
    by (rule ht_get_returns [OF I(1)])
  show "\<not> ht_room t \<Longrightarrow> ht_set fresh str t k v = Inr (-1, t)"
    using ht_set_full [OF I(1) _ I(2)] by (simp add: ht_room_def)
  show "ht_room t \<Longrightarrow> ht_get str t k = Inr NULL \<Longrightarrow> v \<noteq> NULL \<Longrightarrow>
      \<exists>t'. ht_set fresh str t k v = Inr (0, t') \<and> ht_cache_inv str t' \<and>
        (\<forall>k'. ht_get str t' k' = (if k' = k then Inr v else ht_get str t k'))"
    by (rule ht_cache_put [OF inv])
  show "\<exists>r t'. ht_remove str t k = Inr (r, t') \<and> ht_cache_inv str t' \<and>
      (\<forall>k'. ht_get str t' k' = (if k' = k then Inr NULL else ht_get str t k'))"
    by (rule ht_cache_del [OF inv])
qed

section \<open>Reused tombstones\<close>

datatype ht_op = Set hash_key_t ptr | Remove hash_key_t

fun ht_ops :: "ht_op list \<Rightarrow> hash_table_t \<Rightarrow> hash_table_t res" where
  "ht_ops [] t = Inr t"
| "ht_ops (Set k v # ops) t = rbind (ht_set (\<lambda>_. []) (\<lambda>_. []) t k v) (\<lambda>(_, t'). ht_ops ops t')"
| "ht_ops (Remove k # ops) t = rbind (ht_remove (\<lambda>_. []) t k) (\<lambda>(_, t'). ht_ops ops t')"

text \<open>Fact [ht_tombstone_duplicate]: \<open>ht_set\<close> stops at the first entry that is not valid and does not look
  whether the key is stored further along its path.  With the colliding keys 3 and 9: after the
  removal of 3 the update of 9 is stored in the tombstone, before the old entry of 9; the lookup of 9
  then gives the new value, and after a removal of 9 it gives the old value instead of nothing.\<close>

theorem ht_tombstone_duplicate:
  "rbind (ht_create 3 75 0) (\<lambda>t. rbind (ht_ops [Set 3 100, Set 9 200, Remove 3, Set 9 300] t) (\<lambda>t1.
     rbind (ht_get (\<lambda>_. []) t1 9) (\<lambda>v1. rbind (ht_ops [Remove 9] t1) (\<lambda>t2.
       rbind (ht_get (\<lambda>_. []) t2 9) (\<lambda>v2. Inr (v1, v2)))))) = Inr (300, 200)"
  by code_simp

end
