(* ===== verification/Pmm.thy ===== *)
theory Pmm
  imports LibcString
begin

text \<open>
  The physical page allocator of \<open>src/kernel/memory/pmm.c\<close>: a bitmap with one bit per page frame
  (set when the frame is taken) and a next-fit search that starts at the frame handed out last.
  The bitmap is placed in the memory after the kernel image; \<open>mem_bitmap\<close> is that memory from the
  bitmap's first byte on, so an access is a fault only when it leaves that memory.

  Shown here: the search finds a free frame whenever there is one, whatever the number of pages;
  the allocator hands out each frame at most once until it is freed; and what start-up marks free.
\<close>

section \<open>Data\<close>

definition PAGE_FRAME_SIZE :: u32 where "PAGE_FRAME_SIZE = 4096"
definition UPPER_MEMORY_START :: u32 where "UPPER_MEMORY_START = 0x100000"
definition KERNEL_OFFSET :: u32 where "KERNEL_OFFSET = 0xC0000000"
definition BIT32_MAX :: u32 where "BIT32_MAX = NOT 0"
definition MULTIBOOT_INFO_MEMORY :: u32 where "MULTIBOOT_INFO_MEMORY = 1"
definition MULTIBOOT_INFO_MEM_MAP :: u32 where "MULTIBOOT_INFO_MEM_MAP = 64"
definition MULTIBOOT_MEM_AVAILABLE :: u32 where "MULTIBOOT_MEM_AVAILABLE = 1"

record mb_mmap_entry_t =
  addr_low :: u32
  addr_high :: u32
  len_low :: u32
  len_high :: u32
  mmap_type :: u32

text \<open>The fields of the boot information that the allocator reads; \<open>mmap_addr\<close> is the memory map.\<close>

record multiboot_info_t =
  mb_flags :: u32
  mem_upper :: u32
  mmap_length :: u32
  mmap_addr :: "mb_mmap_entry_t list"

record pmm_state =
  mem_bitmap :: "u8 list"
  num_of_pages :: u32
  last_alloc :: u32

section \<open>Operations\<close>

definition pmm_detect_upper_memory_size :: "multiboot_info_t \<Rightarrow> u32 res" where
  "pmm_detect_upper_memory_size mb =
     (if NOT (mb_flags mb) AND MULTIBOOT_INFO_MEMORY \<noteq> 0 then Inl Abort else Inr (mem_upper mb))"

definition pmm_detect_mmap_ptr :: "multiboot_info_t \<Rightarrow> mb_mmap_entry_t list res" where
  "pmm_detect_mmap_ptr mb =
     (if NOT (mb_flags mb) AND MULTIBOOT_INFO_MEM_MAP \<noteq> 0 then Inl Abort else Inr (mmap_addr mb))"

definition pmm_index_to_bitmap_ptr :: "u32 \<Rightarrow> nat \<times> nat" where
  "pmm_index_to_bitmap_ptr page_index = (unat (page_index div 8), unat (page_index mod 8))"

definition pmm_set_bit :: "u8 list \<Rightarrow> u32 \<Rightarrow> u8 list res" where
  "pmm_set_bit bm page_index =
     (let (page, b) = pmm_index_to_bitmap_ptr page_index in
      rbind (array_get bm page) (\<lambda>v. array_set bm page (v OR push_bit b 1)))"

definition pmm_clear_bit :: "u8 list \<Rightarrow> u32 \<Rightarrow> u8 list res" where
  "pmm_clear_bit bm page_index =
     (let (page, b) = pmm_index_to_bitmap_ptr page_index in
      rbind (array_get bm page) (\<lambda>v. array_set bm page (v AND NOT (push_bit b 1))))"

definition pmm_is_set :: "u8 list \<Rightarrow> u32 \<Rightarrow> bool res" where
  "pmm_is_set bm page_index =
     (let (page, b) = pmm_index_to_bitmap_ptr page_index in
      rbind (array_get bm page) (\<lambda>v. Inr (drop_bit b v AND 1 \<noteq> 0)))"

text \<open>The loop over the pages of a region, up to and including \<open>end\<close>.\<close>

fun pmm_clear_range :: "nat \<Rightarrow> u8 list \<Rightarrow> u32 \<Rightarrow> u32 \<Rightarrow> u8 list res" where
  "pmm_clear_range 0 bm b e = Inl Hang"
| "pmm_clear_range (Suc n) bm b e =
     (if b \<le> e then rbind (pmm_clear_bit bm b) (\<lambda>bm'. pmm_clear_range n bm' (b + 1) e) else Inr bm)"

definition pmm_setup_entry :: "u32 \<Rightarrow> u8 list \<Rightarrow> mb_mmap_entry_t \<Rightarrow> u8 list res" where
  "pmm_setup_entry occupied_size bm en =
     (let addr = ucast (addr_low en) + push_bit 32 (ucast (addr_high en)) :: u64;
          size = ucast (len_low en) + push_bit 32 (ucast (len_high en)) :: u64 in
      rbind (array_get [''AVAILABLE'', ''RESERVED''] (unat (mmap_type en - 1))) (\<lambda>_.
        if addr < ucast UPPER_MEMORY_START then Inr bm
        else if mmap_type en \<noteq> MULTIBOOT_MEM_AVAILABLE then Inr bm
        else
          let (addr, size) = (if addr = ucast UPPER_MEMORY_START
                              then (addr + ucast occupied_size, size - ucast occupied_size)
                              else (addr, size));
              b = ucast (addr div ucast PAGE_FRAME_SIZE) :: u32;
              e = ucast ((addr + size) div ucast PAGE_FRAME_SIZE + 1) :: u32
          in pmm_clear_range (unat e - unat b + 2) bm b e))"

definition pmm_setup_bitmap :: "multiboot_info_t \<Rightarrow> mb_mmap_entry_t list \<Rightarrow> u32 \<Rightarrow> u8 list \<Rightarrow> u8 list res" where
  "pmm_setup_bitmap mb entries occupied_size bm =
     (let num_of_entries = unat (mmap_length mb div 24) in
      if length entries < num_of_entries then Inl BadAccess
      else foldl (\<lambda>r en. rbind r (\<lambda>bm. pmm_setup_entry occupied_size bm en)) (Inr bm)
             (take num_of_entries entries))"

definition pmm_add :: "pmm_state \<Rightarrow> u32 \<Rightarrow> u32 \<Rightarrow> u32" where
  "pmm_add s la v = (la + v) mod num_of_pages s"

definition pmm_get_dword :: "u8 list \<Rightarrow> u32 \<Rightarrow> u32 res" where
  "pmm_get_dword bm page_index =
     (let i = 4 * unat (page_index div 32) in
      rbind (array_get bm i) (\<lambda>b0. rbind (array_get bm (i + 1)) (\<lambda>b1.
      rbind (array_get bm (i + 2)) (\<lambda>b2. rbind (array_get bm (i + 3)) (\<lambda>b3.
        Inr (ucast b0 OR push_bit 8 (ucast b1) OR push_bit 16 (ucast b2) OR push_bit 24 (ucast b3)))))))"

text \<open>
  The two loops of \<open>pmm_search_free_page\<close>.  The first steps over full dwords and gives up when it is
  back where it started (\<open>None\<close>); the second steps over single taken pages.  Both advance modulo
  the number of pages, which bounds the first loop's rounds; the second may never end.
\<close>

fun pmm_skip :: "nat \<Rightarrow> pmm_state \<Rightarrow> u32 \<Rightarrow> u32 \<Rightarrow> u32 option res" where
  "pmm_skip 0 s start la = Inl Hang"
| "pmm_skip (Suc n) s start la =
     rbind (pmm_get_dword (mem_bitmap s) la) (\<lambda>page.
       if page = BIT32_MAX then
         (let la' = pmm_add s la 32 in
          if la' \<noteq> start then pmm_skip n s start la' else Inr None)
       else Inr (Some la))"

fun pmm_scan :: "nat \<Rightarrow> pmm_state \<Rightarrow> u32 \<Rightarrow> u32 res" where
  "pmm_scan 0 s la = Inl Hang"
| "pmm_scan (Suc n) s la =
     rbind (pmm_is_set (mem_bitmap s) la) (\<lambda>b.
       if b then pmm_scan n s (pmm_add s la 1) else Inr la)"

definition pmm_search_free_page :: "pmm_state \<Rightarrow> u32 \<Rightarrow> u32 res" where
  "pmm_search_free_page s la =
     rbind (pmm_skip (unat (num_of_pages s)) s la la) (\<lambda>r.
       case r of
         None \<Rightarrow> Inr BIT32_MAX
       | Some p \<Rightarrow> pmm_scan (unat (num_of_pages s)) s p)"

definition pmm_alloc :: "pmm_state \<Rightarrow> (ptr \<times> pmm_state) res" where
  "pmm_alloc s =
     rbind (pmm_search_free_page s (last_alloc s)) (\<lambda>p.
       let s1 = s\<lparr>last_alloc := p\<rparr> in
       if p = BIT32_MAX then Inr (NULL, s1)
       else rbind (pmm_set_bit (mem_bitmap s1) p) (\<lambda>bm.
              Inr (p * PAGE_FRAME_SIZE, s1\<lparr>mem_bitmap := bm\<rparr>)))"

definition pmm_free :: "pmm_state \<Rightarrow> ptr \<Rightarrow> pmm_state res" where
  "pmm_free s page =
     rbind (pmm_clear_bit (mem_bitmap s) (page div PAGE_FRAME_SIZE)) (\<lambda>bm. Inr (s\<lparr>mem_bitmap := bm\<rparr>))"

text \<open>
  \<open>kernel_start\<close> and \<open>kernel_end\<close> are the linker's symbols, \<open>ram\<close> the memory after \<open>kernel_end\<close>.
\<close>

definition pmm_init :: "u32 \<Rightarrow> u32 \<Rightarrow> u8 list \<Rightarrow> multiboot_info_t \<Rightarrow> pmm_state res" where
  "pmm_init kernel_start kernel_end ram mb =
     rbind (pmm_detect_upper_memory_size mb) (\<lambda>upper.
       let memory_size = upper + drop_bit 10 UPPER_MEMORY_START;
           pages = drop_bit 2 memory_size;
           bitmap_size = drop_bit 3 pages;
           kernel_size = kernel_end - (kernel_start + KERNEL_OFFSET);
           total_size = bitmap_size + kernel_size + kernel_start in
       if length ram < unat bitmap_size then Inl BadAccess
       else
         let bm = replicate (unat bitmap_size) 0xFF @ drop (unat bitmap_size) ram in
         rbind (pmm_detect_mmap_ptr mb) (\<lambda>head.
         rbind (pmm_setup_bitmap mb head total_size bm) (\<lambda>bm'.
           Inr \<lparr>mem_bitmap = bm', num_of_pages = pages, last_alloc = 0\<rparr>)))"

section \<open>Bits\<close>

text \<open>Page \<open>p\<close> is taken.\<close>

definition taken :: "u8 list \<Rightarrow> nat \<Rightarrow> bool" where
  "taken bm p \<longleftrightarrow> bit (bm ! (p div 8)) (p mod 8)"

lemma page_byte:
  "pmm_index_to_bitmap_ptr p = (unat p div 8, unat p mod 8)"
  by (simp add: pmm_index_to_bitmap_ptr_def unat_div unat_mod)

lemma pmm_is_set_taken:
  "unat p div 8 < length bm \<Longrightarrow> pmm_is_set bm p = Inr (taken bm (unat p))"
  by (simp add: pmm_is_set_def page_byte taken_def and_one_eq odd_iff_mod_2_eq_one [symmetric] bit_iff_odd_drop_bit)

lemma div_mod_8_eq: "p div 8 = q div 8 \<Longrightarrow> p mod 8 = q mod 8 \<Longrightarrow> p = (q :: nat)"
  by (metis div_mult_mod_eq)

lemma pmm_set_bit_taken:
  assumes "unat p div 8 < length bm"
  obtains bm' where "pmm_set_bit bm p = Inr bm'" "length bm' = length bm"
    "\<forall>q. q div 8 < length bm \<longrightarrow> (taken bm' q \<longleftrightarrow> q = unat p \<or> taken bm q)"
proof
  let ?bm = "bm[unat p div 8 := bm ! (unat p div 8) OR push_bit (unat p mod 8) 1]"
  show "pmm_set_bit bm p = Inr ?bm" "length ?bm = length bm"
    using assms by (simp_all add: pmm_set_bit_def page_byte)
  show "\<forall>q. q div 8 < length bm \<longrightarrow> (taken ?bm q \<longleftrightarrow> q = unat p \<or> taken bm q)"
    using div_mod_8_eq [of _ "unat p"] by (auto simp: taken_def nth_update_if bit_simps)
qed

lemma pmm_clear_bit_taken:
  assumes "unat p div 8 < length bm"
  obtains bm' where "pmm_clear_bit bm p = Inr bm'" "length bm' = length bm"
    "\<forall>q. q div 8 < length bm \<longrightarrow> (taken bm' q \<longleftrightarrow> q \<noteq> unat p \<and> taken bm q)"
proof
  let ?bm = "bm[unat p div 8 := bm ! (unat p div 8) AND NOT (push_bit (unat p mod 8) 1)]"
  show "pmm_clear_bit bm p = Inr ?bm" "length ?bm = length bm"
    using assms by (simp_all add: pmm_clear_bit_def page_byte)
  show "\<forall>q. q div 8 < length bm \<longrightarrow> (taken ?bm q \<longleftrightarrow> q \<noteq> unat p \<and> taken bm q)"
    using div_mod_8_eq [of _ "unat p"] by (auto simp: taken_def nth_update_if bit_simps)
qed

lemma bit_dword:
  assumes "i < 32"
  shows "bit (ucast b0 OR push_bit 8 (ucast b1) OR push_bit 16 (ucast b2) OR push_bit 24 (ucast (b3 :: u8)) :: u32) i
    \<longleftrightarrow> bit ([b0, b1, b2, b3 :: u8] ! (i div 8)) (i mod 8)"
proof -
  have high: "\<not> bit (b :: u8) j" if "8 \<le> j" for b j
    using that by (simp add: bit_word.rep_eq)
  consider "i < 8" | "8 \<le> i" "i < 16" | "16 \<le> i" "i < 24" | "24 \<le> i"
    by linarith
  then show ?thesis
  proof cases
    case 1
    then show ?thesis by (simp add: bit_simps high)
  next
    case 2
    then have "i div 8 = 1" using assms by linarith
    then have "i mod 8 = i - 8" by (simp add: modulo_nat_def)
    then show ?thesis using 2 assms \<open>i div 8 = 1\<close> by (auto simp: bit_simps high)
  next
    case 3
    then have "i div 8 = 2" using assms by linarith
    then have "i mod 8 = i - 16" by (simp add: modulo_nat_def)
    then show ?thesis using 3 assms \<open>i div 8 = 2\<close> by (auto simp: bit_simps high)
  next
    case 4
    then have "i div 8 = 3" using assms by linarith
    then have "i mod 8 = i - 24" by (simp add: modulo_nat_def)
    then show ?thesis using 4 assms \<open>i div 8 = 3\<close> by (auto simp: bit_simps high)
  qed
qed

lemma unat_BIT32_MAX: "unat BIT32_MAX = 4294967295"
  by (simp add: BIT32_MAX_def unsigned_minus_1_eq_mask mask_eq_exp_minus_1)

lemma dword_max_iff: "(d :: u32) = BIT32_MAX \<longleftrightarrow> (\<forall>i<32. bit d i)"
  by (auto simp: BIT32_MAX_def bit_eq_iff)

lemma byte_of_dword: "(32 * k + i) div 8 = 4 * k + i div 8" "(32 * k + i) mod 8 = i mod (8 :: nat)"
  by presburger+

lemma pmm_get_dword_full:
  assumes "4 * (unat p div 32) + 3 < length bm"
  shows "\<exists>d. pmm_get_dword bm p = Inr d \<and> (d = BIT32_MAX \<longleftrightarrow> (\<forall>q. q div 32 = unat p div 32 \<longrightarrow> taken bm q))"
proof -
  let ?k = "unat p div 32"
  let ?b = "\<lambda>j. bm ! (4 * ?k + j)"
  let ?d = "ucast (?b 0) OR push_bit 8 (ucast (?b 1)) OR push_bit 16 (ucast (?b 2)) OR push_bit 24 (ucast (?b 3)) :: u32"
  have get: "pmm_get_dword bm p = Inr ?d"
    using assms by (simp add: pmm_get_dword_def unat_div Let_def)
  have "bit ?d i \<longleftrightarrow> taken bm (32 * ?k + i)" if "i < 32" for i
  proof -
    have "i div 8 = 0 \<or> i div 8 = 1 \<or> i div 8 = 2 \<or> i div 8 = 3"
      using that by linarith
    then have "[?b 0, ?b 1, ?b 2, ?b 3] ! (i div 8) = ?b (i div 8)"
      by auto
    moreover have "(32 * ?k + i) div 8 = 4 * ?k + i div 8" "(32 * ?k + i) mod 8 = i mod 8"
      by (rule byte_of_dword)+
    ultimately show ?thesis
      using bit_dword [OF that, of "?b 0" "?b 1" "?b 2" "?b 3"] by (simp add: taken_def)
  qed
  then have "?d = BIT32_MAX \<longleftrightarrow> (\<forall>i<32. taken bm (32 * ?k + i))"
    unfolding dword_max_iff by blast
  also have "\<dots> \<longleftrightarrow> (\<forall>q. q div 32 = ?k \<longrightarrow> taken bm q)"
  proof (intro iffI allI impI)
    fix q
    assume "\<forall>i<32. taken bm (32 * ?k + i)" "q div 32 = ?k"
    then show "taken bm q"
      using mult_div_mod_eq [of 32 q] by (metis mod_less_divisor zero_less_numeral)
  qed auto
  finally show ?thesis
    using get by blast
qed

section \<open>The search\<close>

definition pmm_inv :: "pmm_state \<Rightarrow> bool" where
  "pmm_inv s \<longleftrightarrow> 0 < unat (num_of_pages s) \<and> unat (num_of_pages s) \<le> 2 ^ 20 \<and>
     4 * ((unat (num_of_pages s) + 31) div 32) \<le> length (mem_bitmap s) \<and>
     unat (last_alloc s) < unat (num_of_pages s)"

lemma pmm_inv_bytes:
  assumes "pmm_inv s" "q < unat (num_of_pages s)"
  shows "q div 8 < length (mem_bitmap s)" "4 * (q div 32) + 3 < length (mem_bitmap s)"
proof -
  have "(q + 32) div 32 \<le> (unat (num_of_pages s) + 31) div 32"
    using assms(2) by (intro div_le_mono) simp
  then have d: "q div 32 + 1 \<le> (unat (num_of_pages s) + 31) div 32"
    by simp
  show "4 * (q div 32) + 3 < length (mem_bitmap s)"
    using assms(1) d unfolding pmm_inv_def by linarith
  then show "q div 8 < length (mem_bitmap s)"
    by linarith
qed

lemma pmm_add_unat:
  assumes "pmm_inv s" "unat p < unat (num_of_pages s)" "unat v \<le> 32"
  shows "unat (pmm_add s p v) = (unat p + unat v) mod unat (num_of_pages s)"
proof -
  have "unat p + unat v < 4294967296"
    using assms by (simp add: pmm_inv_def)
  then show ?thesis
    by (simp add: pmm_add_def unat_u32_mod unat_u32_add)
qed

text \<open>The dwords visited from \<open>start\<close>, modulo the number of pages, include every dword of the bitmap.\<close>

lemma step32_reaches:
  fixes n :: nat
  assumes n: "0 < n" and p: "p < n" and start: "start < n"
  shows "\<exists>k. ((start + 32 * k) mod n) div 32 = p div 32"
proof -
  define g where "g = gcd 32 n"
  have g: "g dvd 32" "g dvd n" "0 < g"
    using n by (simp_all add: g_def)
  then have g32: "g \<le> 32"
    by (simp add: dvd_imp_le)
  have "\<exists>q<n. q div 32 = p div 32 \<and> q mod g = start mod g"
  proof -
    let ?q = "p - p mod g + start mod g"
    have r: "start mod g < g" "p mod g < g"
      using g(3) by simp_all
    have qg: "?q mod g = start mod g"
      using minus_mod_eq_mult_div [of p g] by simp
    have qd: "?q div g = p div g"
      using g(3) minus_mod_eq_mult_div [of p g] by simp
    obtain c where c: "32 = g * c" using g(1) by (elim dvdE)
    obtain m where m: "n = g * m" using g(2) by (elim dvdE)
    have "?q div 32 = p div 32"
      unfolding c div_mult2_eq qd by simp
    moreover have "Suc (p div g) \<le> m"
      using p g(3) m by (simp add: less_mult_imp_div_less Suc_le_eq mult.commute)
    then have "g * Suc (p div g) \<le> n"
      unfolding m by (rule mult_le_mono2)
    then have "?q < n"
      using r(1) minus_mod_eq_mult_div [of p g] by simp
    ultimately show ?thesis
      using qg by blast
  qed
  then obtain q where q: "q < n" "q div 32 = p div 32" "q mod g = start mod g"
    by blast
  obtain x y where xy: "32 * x = n * y + g"
    using bezout_nat [of 32 n] by (auto simp: g_def)
  have "(q + n - start) mod g = 0"
  proof -
    have "start \<le> q + n" using start by simp
    then have "g dvd (q + n) - start \<longleftrightarrow> (q + n) mod g = start mod g"
      by (metis mod_eq_dvd_iff_nat)
    moreover have "(q + n) mod g = q mod g"
      using g(2) by (metis dvd_imp_mod_0 mod_add_right_eq add_0_right)
    ultimately show ?thesis
      using q(3) by (simp add: dvd_eq_mod_eq_0)
  qed
  then obtain m where m: "q + n - start = g * m"
    by (auto simp: mod_eq_0_iff_dvd elim: dvdE)
  have "start + 32 * (x * m) = start + (n * y + g) * m"
    by (simp flip: xy)
  also have "\<dots> = start + g * m + n * (y * m)"
    by (simp add: algebra_simps)
  also have "start + g * m = q + n"
    using m start by simp
  finally have "(start + 32 * (x * m)) mod n = q"
    using q(1) by simp
  then show ?thesis
    using q(2) by metis
qed

abbreviation visit :: "nat \<Rightarrow> nat \<Rightarrow> nat \<Rightarrow> nat" where
  "visit n start k \<equiv> (start + 32 * k) mod n"

lemma visit_periodic:
  assumes "visit n start K = start" "start < n"
  shows "visit n start j = visit n start (j mod K)"
proof -
  have "(start + 32 * K) mod n = start mod n"
    using assms by simp
  then have "n dvd 32 * K"
    using mod_eq_dvd_iff_nat [of start "start + 32 * K" n] by simp
  then have "(32 * K * (j div K)) mod n = 0"
    by simp
  moreover have "start + 32 * j = start + 32 * (j mod K) + 32 * K * (j div K)"
    using mult_div_mod_eq [of K j] by linarith
  ultimately show ?thesis
    by (metis mod_add_right_eq add_0_right)
qed

text \<open>When one round of the first loop sees only full dwords, every page is taken.\<close>

lemma visit_cycle_taken:
  assumes "start < n" "0 < K" "visit n start K = start"
    and full: "\<forall>j<K. \<forall>q. q div 32 = visit n start j div 32 \<longrightarrow> taken bm q"
    and "p < n"
  shows "taken bm p"
proof -
  obtain k where "visit n start k div 32 = p div 32"
    using step32_reaches [of n p start] assms(1,5) by auto
  then have "p div 32 = visit n start (k mod K) div 32"
    using visit_periodic [OF assms(3,1), of k] by simp
  then show ?thesis
    using full assms(2) by (metis mod_less_divisor)
qed

lemma pmm_dword_at:
  assumes "pmm_inv s" "unat p < unat (num_of_pages s)"
  shows "\<exists>d. pmm_get_dword (mem_bitmap s) p = Inr d \<and>
           (d = BIT32_MAX \<longleftrightarrow> (\<forall>q. q div 32 = unat p div 32 \<longrightarrow> taken (mem_bitmap s) q))"
  by (rule pmm_get_dword_full [OF pmm_inv_bytes(2) [OF assms]])

lemma pmm_dword_full:
  assumes "pmm_inv s" "unat p < unat (num_of_pages s)"
    and full: "\<forall>q. q div 32 < (unat (num_of_pages s) + 31) div 32 \<longrightarrow> taken (mem_bitmap s) q"
  shows "pmm_get_dword (mem_bitmap s) p = Inr BIT32_MAX"
proof -
  have "(unat p + 32) div 32 \<le> (unat (num_of_pages s) + 31) div 32"
    using assms(2) by (intro div_le_mono) simp
  then have "unat p div 32 < (unat (num_of_pages s) + 31) div 32"
    by simp
  then show ?thesis
    using pmm_dword_at [OF assms(1,2)] full by auto
qed

lemma pmm_add_visit:
  assumes inv: "pmm_inv s" and start: "unat start < unat (num_of_pages s)"
    and la: "unat la = visit (unat (num_of_pages s)) (unat start) k"
  shows "unat la < unat (num_of_pages s)"
    "unat (pmm_add s la 32) = visit (unat (num_of_pages s)) (unat start) (Suc k)"
proof -
  show lt: "unat la < unat (num_of_pages s)"
    using la start by simp
  have u32: "unat (32 :: u32) = 32"
    by simp
  have "unat (pmm_add s la 32) = (unat la + 32) mod unat (num_of_pages s)"
    using pmm_add_unat [OF inv lt, of 32] unfolding u32 by simp
  also have "\<dots> = visit (unat (num_of_pages s)) (unat start) (Suc k)"
    unfolding la by (simp add: mod_simps ac_simps)
  finally show "unat (pmm_add s la 32) = visit (unat (num_of_pages s)) (unat start) (Suc k)" .
qed

lemma pmm_skip_finds:
  assumes inv: "pmm_inv s" and start: "unat start < unat (num_of_pages s)"
    and free: "p < unat (num_of_pages s)" "\<not> taken (mem_bitmap s) p"
    and "unat la = visit (unat (num_of_pages s)) (unat start) k" "f + k = unat (num_of_pages s)"
    and "\<forall>j<k. \<forall>q. q div 32 = visit (unat (num_of_pages s)) (unat start) j div 32 \<longrightarrow> taken (mem_bitmap s) q"
  shows "\<exists>q. pmm_skip f s start la = Inr (Some q) \<and> unat q < unat (num_of_pages s)"
  using assms(5-7)
proof (induction f arbitrary: la k)
  case 0
  then have "taken (mem_bitmap s) p"
    using start free(1) by (intro visit_cycle_taken [OF start, of k]) auto
  then show ?case
    using free(2) by simp
next
  case (Suc f)
  let ?n = "unat (num_of_pages s)"
  have la: "unat la < ?n"
    using Suc.prems(1) start by simp
  obtain d where d: "pmm_get_dword (mem_bitmap s) la = Inr d"
      "d = BIT32_MAX \<longleftrightarrow> (\<forall>q. q div 32 = unat la div 32 \<longrightarrow> taken (mem_bitmap s) q)"
    using pmm_dword_at [OF inv la] by blast
  show ?case
  proof (cases "d = BIT32_MAX")
    case False
    then show ?thesis
      using d(1) la by simp
  next
    case True
    have next_visit: "unat (pmm_add s la 32) = visit ?n (unat start) (Suc k)"
      by (rule pmm_add_visit(2) [OF inv start Suc.prems(1)])
    have full: "\<forall>j<Suc k. \<forall>q. q div 32 = visit ?n (unat start) j div 32 \<longrightarrow> taken (mem_bitmap s) q"
      using Suc.prems(1,3) d(2) True by (auto simp: less_Suc_eq)
    have "pmm_add s la 32 \<noteq> start"
    proof
      assume "pmm_add s la 32 = start"
      then have "taken (mem_bitmap s) p"
        using next_visit by (intro visit_cycle_taken [OF start _ _ full free(1)]) auto
      then show False
        using free(2) by simp
    qed
    then show ?thesis
      using Suc.IH [OF next_visit _ full] Suc.prems(2) d(1) True by (simp add: Let_def)
  qed
qed

lemma pmm_skip_full:
  assumes inv: "pmm_inv s" and start: "unat start < unat (num_of_pages s)"
    and full: "\<forall>q. q div 32 < (unat (num_of_pages s) + 31) div 32 \<longrightarrow> taken (mem_bitmap s) q"
    and "unat la = visit (unat (num_of_pages s)) (unat start) k" "Suc f + k = unat (num_of_pages s)"
  shows "pmm_skip (Suc f) s start la = Inr None"
  using assms(4,5)
proof (induction f arbitrary: la k)
  case (0 la k)
  note at = pmm_add_visit [OF inv start 0(1)]
  have "unat (pmm_add s la 32) = unat start"
    using at(2) 0(2) start by (simp only: add_Suc_right add_0) simp
  then have "pmm_add s la 32 = start"
    by (simp add: word_unat_eq_iff)
  then show ?case
    using pmm_dword_full [OF inv at(1) full] by simp
next
  case (Suc f la k)
  note at = pmm_add_visit [OF inv start Suc.prems(1)]
  then show ?case
    using Suc.IH [OF at(2)] Suc.prems(2) pmm_dword_full [OF inv at(1) full]
    by (simp only: pmm_skip.simps(2) [of "Suc f"]) (simp add: Let_def del: pmm_skip.simps)
qed

lemma pmm_scan_finds:
  assumes inv: "pmm_inv s" and "unat la < unat (num_of_pages s)" "j < f"
    and "first_at (\<lambda>j. \<not> taken (mem_bitmap s) (slot (unat (num_of_pages s)) (unat la) j)) j"
  shows "\<exists>q. pmm_scan f s la = Inr q \<and> unat q = slot (unat (num_of_pages s)) (unat la) j"
  using assms(2-4)
proof (induction f arbitrary: la j)
  case (Suc f)
  let ?n = "unat (num_of_pages s)"
  note la = Suc.prems(1)
  have set: "pmm_is_set (mem_bitmap s) la = Inr (taken (mem_bitmap s) (unat la))"
    by (rule pmm_is_set_taken [OF pmm_inv_bytes(1) [OF inv la]])
  show ?case
  proof (cases j)
    case 0
    then show ?thesis
      using Suc.prems(3) la set by (simp add: first_at_def slot_def)
  next
    case (Suc i)
    have la1: "unat (pmm_add s la 1) = Suc (unat la) mod ?n"
      using pmm_add_unat [OF inv la, of 1] by simp
    have shift: "slot ?n (unat (pmm_add s la 1)) m = slot ?n (unat la) (Suc m)" for m
      by (simp add: slot_def la1 mod_simps)
    have "taken (mem_bitmap s) (unat la)"
      using Suc.prems(3) la Suc by (auto simp: first_at_def slot_def)
    moreover have "first_at (\<lambda>j. \<not> taken (mem_bitmap s) (slot ?n (unat (pmm_add s la 1)) j)) i"
      using Suc.prems(3) Suc unfolding shift first_at_def by auto
    moreover have "unat (pmm_add s la 1) < ?n"
      using la la1 by simp
    ultimately show ?thesis
      using Suc.IH [of "pmm_add s la 1" i] Suc.prems(2) Suc set shift by auto
  qed
qed simp

lemma pmm_search_finds:
  assumes inv: "pmm_inv s" and la: "unat la < unat (num_of_pages s)"
    and free: "p < unat (num_of_pages s)" "\<not> taken (mem_bitmap s) p"
  shows "\<exists>q. pmm_search_free_page s la = Inr q \<and> unat q < unat (num_of_pages s) \<and>
           \<not> taken (mem_bitmap s) (unat q)"
proof -
  let ?n = "unat (num_of_pages s)"
  obtain d where d: "pmm_skip ?n s la la = Inr (Some d)" "unat d < ?n"
    using pmm_skip_finds [OF inv la free, of la 0 ?n] la by auto
  obtain i where "i < ?n" "p = slot ?n (unat d) i"
    using slot_surj [OF free(1)] .
  then obtain j where j: "j < ?n" "first_at (\<lambda>j. \<not> taken (mem_bitmap s) (slot ?n (unat d) j)) j"
    using first_at_below [of "\<lambda>j. \<not> taken (mem_bitmap s) (slot ?n (unat d) j)" i ?n] free(2) by auto
  then obtain q where "pmm_scan ?n s d = Inr q" "unat q = slot ?n (unat d) j"
    using pmm_scan_finds [OF inv d(2)] by blast
  then show ?thesis
    using d j la by (auto simp: pmm_search_free_page_def first_at_def)
qed

section \<open>The interface: an allocator of page frames\<close>

definition frame_addr :: "nat \<Rightarrow> ptr" where
  "frame_addr p = of_nat p * PAGE_FRAME_SIZE"

definition free_frames :: "pmm_state \<Rightarrow> ptr set" where
  "free_frames s = frame_addr ` {p. p < unat (num_of_pages s) \<and> \<not> taken (mem_bitmap s) p}"

definition all_frames :: "pmm_state \<Rightarrow> ptr set" where
  "all_frames s = frame_addr ` {..<unat (num_of_pages s)}"

lemma unat_frame_addr: "p < 2 ^ 20 \<Longrightarrow> unat (frame_addr p) = p * 4096"
proof -
  assume "p < 2 ^ 20"
  then have "unat (of_nat p :: u32) = p"
    by (intro unat_u32_of_nat) simp
  moreover have "unat PAGE_FRAME_SIZE = 4096"
    by (simp add: PAGE_FRAME_SIZE_def)
  ultimately show ?thesis
    using \<open>p < 2 ^ 20\<close> by (simp add: frame_addr_def unat_word_ariths)
qed

lemma frame_addr_inj:
  assumes "p < 2 ^ 20" "q < 2 ^ 20" "frame_addr p = frame_addr q"
  shows "p = q"
  using unat_frame_addr [OF assms(1)] unat_frame_addr [OF assms(2)] unfolding assms(3) by simp

lemma pmm_alloc_frame:
  assumes inv: "pmm_inv s" and free: "p < unat (num_of_pages s)" "\<not> taken (mem_bitmap s) p"
  shows "\<exists>q s'. pmm_alloc s = Inr (frame_addr q, s') \<and> q < unat (num_of_pages s) \<and>
           \<not> taken (mem_bitmap s) q \<and> pmm_inv s' \<and> num_of_pages s' = num_of_pages s \<and>
           (\<forall>r<unat (num_of_pages s). taken (mem_bitmap s') r \<longleftrightarrow> r = q \<or> taken (mem_bitmap s) r)"
proof -
  have "unat (last_alloc s) < unat (num_of_pages s)"
    using inv by (simp add: pmm_inv_def)
  then obtain q where q: "pmm_search_free_page s (last_alloc s) = Inr q"
      "unat q < unat (num_of_pages s)" "\<not> taken (mem_bitmap s) (unat q)"
    using pmm_search_finds [OF inv _ free] by blast
  have "q \<noteq> BIT32_MAX"
    using q(2) inv unat_BIT32_MAX by (auto simp: pmm_inv_def)
  moreover obtain bm where bm: "pmm_set_bit (mem_bitmap s) q = Inr bm" "length bm = length (mem_bitmap s)"
      "\<forall>r. r div 8 < length (mem_bitmap s) \<longrightarrow> (taken bm r \<longleftrightarrow> r = unat q \<or> taken (mem_bitmap s) r)"
    using pmm_set_bit_taken [OF pmm_inv_bytes(1) [OF inv q(2)]] .
  ultimately have "pmm_alloc s = Inr (frame_addr (unat q), s\<lparr>last_alloc := q, mem_bitmap := bm\<rparr>)"
    using q(1) by (simp add: pmm_alloc_def frame_addr_def)
  moreover have "pmm_inv (s\<lparr>last_alloc := q, mem_bitmap := bm\<rparr>)"
    using inv bm(2) q(2) by (simp add: pmm_inv_def)
  ultimately show ?thesis
    using q(2,3) bm(3) pmm_inv_bytes(1) [OF inv]
    by (intro exI [of _ "unat q"] exI [of _ "s\<lparr>last_alloc := q, mem_bitmap := bm\<rparr>"]) simp
qed

lemma pmm_free_frame:
  assumes inv: "pmm_inv s" and p: "p < unat (num_of_pages s)"
  shows "\<exists>s'. pmm_free s (frame_addr p) = Inr s' \<and> pmm_inv s' \<and> num_of_pages s' = num_of_pages s \<and>
           (\<forall>r<unat (num_of_pages s). taken (mem_bitmap s') r \<longleftrightarrow> r \<noteq> p \<and> taken (mem_bitmap s) r)"
proof -
  have "p < 2 ^ 20"
    using p inv by (simp add: pmm_inv_def)
  then have idx: "unat (frame_addr p div PAGE_FRAME_SIZE) = p"
    by (simp add: unat_div unat_frame_addr PAGE_FRAME_SIZE_def)
  then have "unat (frame_addr p div PAGE_FRAME_SIZE) div 8 < length (mem_bitmap s)"
    using pmm_inv_bytes(1) [OF inv p] by simp
  then obtain bm where bm: "pmm_clear_bit (mem_bitmap s) (frame_addr p div PAGE_FRAME_SIZE) = Inr bm"
      "length bm = length (mem_bitmap s)"
      "\<forall>r. r div 8 < length (mem_bitmap s) \<longrightarrow> (taken bm r \<longleftrightarrow> r \<noteq> p \<and> taken (mem_bitmap s) r)"
    using pmm_clear_bit_taken idx by metis
  then have "pmm_free s (frame_addr p) = Inr (s\<lparr>mem_bitmap := bm\<rparr>)" "pmm_inv (s\<lparr>mem_bitmap := bm\<rparr>)"
    using inv by (simp_all add: pmm_free_def pmm_inv_def)
  then show ?thesis
    using bm(3) pmm_inv_bytes(1) [OF inv] by (intro exI [of _ "s\<lparr>mem_bitmap := bm\<rparr>"]) simp
qed

locale frame_allocator =
  fixes alloc :: "'s \<Rightarrow> (ptr \<times> 's) res"
    and free :: "'s \<Rightarrow> ptr \<Rightarrow> 's res"
    and avail :: "'s \<Rightarrow> ptr set"
    and managed :: "'s \<Rightarrow> ptr set"
    and invar :: "'s \<Rightarrow> bool"
  assumes avail_managed: "invar s \<Longrightarrow> avail s \<subseteq> managed s"
    and alloc_frame: "invar s \<Longrightarrow> avail s \<noteq> {} \<Longrightarrow>
          \<exists>a s'. alloc s = Inr (a, s') \<and> a \<in> avail s \<and> invar s' \<and> managed s' = managed s \<and>
                 avail s' = avail s - {a}"
    and free_frame: "invar s \<Longrightarrow> a \<in> managed s \<Longrightarrow>
          \<exists>s'. free s a = Inr s' \<and> invar s' \<and> managed s' = managed s \<and> avail s' = insert a (avail s)"
begin

text \<open>What a sequence of allocations hands out.\<close>

fun allocs :: "nat \<Rightarrow> 's \<Rightarrow> (ptr list \<times> 's) res" where
  "allocs 0 s = Inr ([], s)"
| "allocs (Suc n) s = rbind (alloc s) (\<lambda>(a, s1). rbind (allocs n s1) (\<lambda>(as, s2). Inr (a # as, s2)))"

lemma allocs_distinct:
  assumes "invar s" "finite (avail s)" "n \<le> card (avail s)"
  shows "\<exists>as s'. allocs n s = Inr (as, s') \<and> length as = n \<and> distinct as \<and> set as \<subseteq> avail s \<and>
           invar s' \<and> avail s' = avail s - set as"
  using assms
proof (induction n arbitrary: s)
  case (Suc n)
  then have "avail s \<noteq> {}"
    by auto
  from alloc_frame [OF Suc.prems(1) this] obtain a s1 where
    a: "alloc s = Inr (a, s1)" "a \<in> avail s" "invar s1" "avail s1 = avail s - {a}"
    by blast
  have "n \<le> card (avail s1)" "finite (avail s1)"
    using Suc.prems a by simp_all
  then obtain as s2 where "allocs n s1 = Inr (as, s2)" "length as = n" "distinct as"
      "set as \<subseteq> avail s1" "invar s2" "avail s2 = avail s1 - set as"
    using Suc.IH [OF a(3)] by blast
  then show ?case
    using a by (intro exI [of _ "a # as"] exI [of _ s2]) auto
qed simp

lemma alloc_free_roundtrip:
  assumes "invar s" "avail s \<noteq> {}"
  shows "\<exists>a s1 s2. alloc s = Inr (a, s1) \<and> free s1 a = Inr s2 \<and> invar s2 \<and> avail s2 = avail s"
proof -
  obtain a s1 where a: "alloc s = Inr (a, s1)" "a \<in> avail s" "invar s1" "managed s1 = managed s"
      "avail s1 = avail s - {a}"
    using alloc_frame [OF assms] by blast
  then have "a \<in> managed s1"
    using avail_managed [OF assms(1)] by auto
  from free_frame [OF a(3) this] show ?thesis
    using a by auto
qed

end

lemma free_frames_update:
  assumes inv: "pmm_inv s" and n: "num_of_pages s' = num_of_pages s"
    and taken: "\<forall>r<unat (num_of_pages s). taken (mem_bitmap s') r \<longleftrightarrow> r = q \<or> taken (mem_bitmap s) r"
    and q: "q < unat (num_of_pages s)"
  shows "free_frames s' = free_frames s - {frame_addr q}"
proof -
  have "p < 2 ^ 20" if "p < unat (num_of_pages s)" for p
    using that inv by (simp add: pmm_inv_def)
  then have "frame_addr r = frame_addr q \<longleftrightarrow> r = q" if "r < unat (num_of_pages s)" for r
    using that q frame_addr_inj by blast
  then show ?thesis
    using taken unfolding free_frames_def n by auto
qed

interpretation pm: frame_allocator pmm_alloc pmm_free free_frames all_frames pmm_inv
proof
  fix s a
  assume inv: "pmm_inv s"
  show "free_frames s \<subseteq> all_frames s"
    by (auto simp: free_frames_def all_frames_def)
  show "free_frames s \<noteq> {} \<Longrightarrow> \<exists>a s'. pmm_alloc s = Inr (a, s') \<and> a \<in> free_frames s \<and> pmm_inv s' \<and>
      all_frames s' = all_frames s \<and> free_frames s' = free_frames s - {a}"
  proof -
    assume "free_frames s \<noteq> {}"
    then obtain p where "p < unat (num_of_pages s)" "\<not> taken (mem_bitmap s) p"
      by (auto simp: free_frames_def)
    from pmm_alloc_frame [OF inv this] obtain q s' where
      q: "pmm_alloc s = Inr (frame_addr q, s')" "q < unat (num_of_pages s)" "\<not> taken (mem_bitmap s) q"
        "pmm_inv s'" "num_of_pages s' = num_of_pages s"
        "\<forall>r<unat (num_of_pages s). taken (mem_bitmap s') r \<longleftrightarrow> r = q \<or> taken (mem_bitmap s) r"
      by blast
    then show ?thesis
      using free_frames_update [OF inv q(5,6,2)]
      by (intro exI [of _ "frame_addr q"] exI [of _ s']) (auto simp: free_frames_def all_frames_def)
  qed
  show "a \<in> all_frames s \<Longrightarrow> \<exists>s'. pmm_free s a = Inr s' \<and> pmm_inv s' \<and> all_frames s' = all_frames s \<and>
      free_frames s' = insert a (free_frames s)"
  proof -
    assume "a \<in> all_frames s"
    then obtain p where p: "a = frame_addr p" "p < unat (num_of_pages s)"
      by (auto simp: all_frames_def)
    from pmm_free_frame [OF inv p(2)] obtain s' where
      "pmm_free s a = Inr s'" "pmm_inv s'" and s': "num_of_pages s' = num_of_pages s"
        "\<forall>r<unat (num_of_pages s). taken (mem_bitmap s') r \<longleftrightarrow> r \<noteq> p \<and> taken (mem_bitmap s) r"
      unfolding p(1) by blast
    moreover have "free_frames s' = insert a (free_frames s)"
      using s' p unfolding free_frames_def by auto
    ultimately show ?thesis
      by (intro exI [of _ s']) (simp add: all_frames_def)
  qed
qed

section \<open>What the allocator guarantees\<close>

text \<open>C23 [pmm_alloc_free_cycle]: from a well-formed state with a free frame \<open>pmm_alloc\<close> returns the address
  of a free frame, for every number of pages and every position of the last allocation, and takes
  exactly that frame from the free ones; \<open>pmm_free\<close> on the result makes the same frames free again.\<close>

theorem pmm_alloc_free_cycle:
  assumes "pmm_inv s" "free_frames s \<noteq> {}"
  shows "\<exists>a s1 s2. pmm_alloc s = Inr (a, s1) \<and> a \<in> free_frames s \<and> free_frames s1 = free_frames s - {a} \<and>
           pmm_inv s1 \<and> pmm_free s1 a = Inr s2 \<and> pmm_inv s2 \<and> free_frames s2 = free_frames s"
  using pm.alloc_frame [OF assms] pm.alloc_free_roundtrip [OF assms] by fastforce

definition pmm_sample :: pmm_state where
  "pmm_sample = \<lparr>mem_bitmap = [0xFF, 0xFF, 0xFF, 0xFF, 0xFF, 0xFB, 0xFF, 0xFF], num_of_pages = 45, last_alloc = 13\<rparr>"

lemma pmm_sample_inv: "pmm_inv pmm_sample"
  by (simp add: pmm_inv_def pmm_sample_def)

lemma pmm_sample_free: "frame_addr 42 \<in> free_frames pmm_sample"
  unfolding free_frames_def by (rule imageI) (simp add: pmm_sample_def taken_def bit_simps)

theorem pmm_alloc_free_cycle_witness:
  "\<exists>a s1 s2. pmm_alloc pmm_sample = Inr (a, s1) \<and> pmm_free s1 a = Inr s2 \<and>
     free_frames s2 = free_frames pmm_sample"
  using pmm_alloc_free_cycle [OF pmm_sample_inv] pmm_sample_free by blast

fun pmm_alloc_n :: "nat \<Rightarrow> pmm_state \<Rightarrow> (ptr list \<times> pmm_state) res" where
  "pmm_alloc_n 0 s = Inr ([], s)"
| "pmm_alloc_n (Suc n) s =
     rbind (pmm_alloc s) (\<lambda>(a, s1). rbind (pmm_alloc_n n s1) (\<lambda>(as, s2). Inr (a # as, s2)))"

lemma pmm_alloc_n_eq: "pmm_alloc_n n s = pm.allocs n s"
  by (induction n arbitrary: s) (auto intro!: rbind_cong)

lemma finite_free_frames: "finite (free_frames s)"
  by (simp add: free_frames_def)

text \<open>C24 [pmm_alloc_distinct]: as many allocations in a row as there are free frames all succeed and
  hand out pairwise different frames, each of them free before.\<close>

theorem pmm_alloc_distinct:
  assumes "pmm_inv s" "n \<le> card (free_frames s)"
  shows "\<exists>as s'. pmm_alloc_n n s = Inr (as, s') \<and> length as = n \<and> distinct as \<and>
           set as \<subseteq> free_frames s \<and> free_frames s' = free_frames s - set as"
  using pm.allocs_distinct [OF assms(1) finite_free_frames assms(2)] unfolding pmm_alloc_n_eq by blast

theorem pmm_alloc_distinct_witness:
  "\<exists>as s'. pmm_alloc_n 1 pmm_sample = Inr (as, s') \<and> length as = 1 \<and> set as \<subseteq> free_frames pmm_sample"
proof -
  have "1 \<le> card (free_frames pmm_sample)"
    using pmm_sample_free finite_free_frames [of pmm_sample] by (auto simp: Suc_le_eq card_gt_0_iff)
  then show ?thesis
    using pmm_alloc_distinct [OF pmm_sample_inv] by blast
qed

text \<open>Fact [pmm_alloc_after_exhaustion]: when every page is taken \<open>pmm_alloc\<close> returns the null pointer,
  but it keeps the failure value 0xFFFFFFFF as the position of the last allocation, so the next call
  starts its search outside the bitmap, even when a page has been freed in between.\<close>

theorem pmm_alloc_after_exhaustion:
  assumes inv: "pmm_inv s" and full: "\<forall>q. q div 32 < (unat (num_of_pages s) + 31) div 32 \<longrightarrow> taken (mem_bitmap s) q"
    and size: "length (mem_bitmap s) < 2 ^ 28"
  shows "\<exists>s1. pmm_alloc s = Inr (NULL, s1) \<and> pmm_alloc s1 = Inl BadAccess \<and>
           (\<forall>a s2. pmm_free s1 a = Inr s2 \<longrightarrow> pmm_alloc s2 = Inl BadAccess)"
proof -
  obtain m where m: "unat (num_of_pages s) = Suc m"
    using inv by (auto simp: pmm_inv_def gr0_conv_Suc)
  have "pmm_skip (Suc m) s (last_alloc s) (last_alloc s) = Inr None"
    using pmm_skip_full [OF inv _ full, where start = "last_alloc s" and la = "last_alloc s" and k = 0 and f = m]
      inv m by (simp add: pmm_inv_def del: pmm_skip.simps)
  then have a: "pmm_alloc s = Inr (NULL, s\<lparr>last_alloc := BIT32_MAX\<rparr>)"
    by (simp add: pmm_alloc_def pmm_search_free_page_def m del: pmm_skip.simps)
  have far: "pmm_alloc t = Inl BadAccess"
    if "last_alloc t = BIT32_MAX" "length (mem_bitmap t) < 2 ^ 28" "num_of_pages t = num_of_pages s" for t
    using that m by (simp add: pmm_alloc_def pmm_search_free_page_def pmm_get_dword_def unat_div
        unat_BIT32_MAX)
  have "length (mem_bitmap s2) = length (mem_bitmap t) \<and> last_alloc s2 = last_alloc t \<and> num_of_pages s2 = num_of_pages t"
    if "pmm_free t a = Inr s2" for t a s2
    using that by (auto simp: pmm_free_def pmm_clear_bit_def rbind_eq_Inr array_set_eq_Inr split: prod.splits)
  then show ?thesis
    using a far size by auto
qed

theorem pmm_alloc_after_exhaustion_witness:
  "\<exists>s1. pmm_alloc \<lparr>mem_bitmap = replicate 8 0xFF, num_of_pages = 64, last_alloc = 5\<rparr> = Inr (NULL, s1) \<and>
     pmm_alloc s1 = Inl BadAccess"
proof -
  let ?s = "\<lparr>mem_bitmap = replicate 8 0xFF, num_of_pages = 64, last_alloc = 5\<rparr>"
  have "taken (mem_bitmap ?s) q" if "q div 32 < (unat (num_of_pages ?s) + 31) div 32" for q
  proof -
    have "q div 8 < 8"
      using that by simp
    then have "mem_bitmap ?s ! (q div 8) = 0xFF"
      by simp
    moreover have "bit (- 1 :: u8) (q mod 8)" "(0xFF :: u8) = - 1"
      by simp_all
    ultimately show ?thesis
      by (simp only: taken_def)
  qed
  then show ?thesis
    using pmm_alloc_after_exhaustion [of ?s] by (auto simp: pmm_inv_def)
qed

section \<open>Start-up\<close>

lemma pmm_clear_range_taken:
  assumes "unat e + 1 < 4294967296" "unat e div 8 < length bm" "unat e + 2 \<le> f + unat b" "0 < f"
  shows "\<exists>bm'. pmm_clear_range f bm b e = Inr bm' \<and> length bm' = length bm \<and>
           (\<forall>q. q div 8 < length bm \<longrightarrow>
              (taken bm' q \<longleftrightarrow> taken bm q \<and> \<not> (unat b \<le> q \<and> q \<le> unat e)))"
  using assms
proof (induction f arbitrary: bm b)
  case 0
  then show ?case
    by simp
next
  case (Suc f)
  show ?case
  proof (cases "b \<le> e")
    case False
    then show ?thesis
      by (auto simp: word_le_nat_alt)
  next
    case True
    then have "unat b \<le> unat e"
      by (simp add: word_le_nat_alt)
    then have "unat b div 8 < length bm" and b1: "unat (b + 1) = Suc (unat b)"
      using Suc.prems(1,2) div_le_mono [of "unat b" "unat e" 8] by (auto intro!: unat_u32_Suc)
    then obtain bm1 where bm1: "pmm_clear_bit bm b = Inr bm1" "length bm1 = length bm"
        "\<forall>q. q div 8 < length bm \<longrightarrow> (taken bm1 q \<longleftrightarrow> q \<noteq> unat b \<and> taken bm q)"
      using pmm_clear_bit_taken by metis
    obtain bm2 where "pmm_clear_range f bm1 (b + 1) e = Inr bm2" "length bm2 = length bm"
        "\<forall>q. q div 8 < length bm \<longrightarrow>
           (taken bm2 q \<longleftrightarrow> taken bm1 q \<and> \<not> (Suc (unat b) \<le> q \<and> q \<le> unat e))"
      using Suc.IH [of bm1 "b + 1"] Suc.prems bm1(2) b1 \<open>unat b \<le> unat e\<close> by auto
    then show ?thesis
      using True bm1 \<open>unat b \<le> unat e\<close> by auto
  qed
qed

lemma unat_u64_low: "unat (ucast (a :: u32) + push_bit 32 (ucast (0 :: u32)) :: u64) = unat a"
  by simp

text \<open>Fact [pmm_setup_entry_frees]: an available region of the memory map above the first megabyte and below
  4 GiB, at address A (after the occupied part when it starts at 1 MiB) and of size S, frees exactly
  the pages A/4096 to (A+S)/4096+1; the last two of them lie outside the region when A and S are
  multiples of the page size.\<close>

theorem pmm_setup_entry_frees:
  assumes avail: "mmap_type en = MULTIBOOT_MEM_AVAILABLE" and low: "addr_high en = 0" "len_high en = 0"
    and start: "UPPER_MEMORY_START \<le> addr_low en"
    and occ: "addr_low en = UPPER_MEMORY_START \<Longrightarrow> occupied \<le> len_low en"
    and A: "A = unat (addr_low en) + (if addr_low en = UPPER_MEMORY_START then unat occupied else 0)"
    and E: "E = unat (addr_low en) + unat (len_low en)" "E < 4294967296"
    and fits: "E div 4096 + 1 < 8 * length bm"
  shows "\<exists>bm'. pmm_setup_entry occupied bm en = Inr bm' \<and> length bm' = length bm \<and>
           (\<forall>q<8 * length bm. taken bm' q \<longleftrightarrow> taken bm q \<and> \<not> (A div 4096 \<le> q \<and> q \<le> E div 4096 + 1))"
proof -
  let ?up = "addr_low en = UPPER_MEMORY_START"
  define a :: u64 where "a = (if ?up then ucast (addr_low en) + ucast occupied else ucast (addr_low en))"
  define l :: u64 where "l = (if ?up then ucast (len_low en) - ucast occupied else ucast (len_low en))"
  have bounds: "unat (addr_low en) < 4294967296" "unat (len_low en) < 4294967296" "unat occupied < 4294967296"
    by (rule unat_u32_lt)+
  have ua: "unat a = A"
    using bounds by (auto simp: a_def A unat_word_ariths)
  have al: "a + l = ucast (addr_low en) + ucast (len_low en)"
    by (simp add: a_def l_def)
  then have uE: "unat (a + l) = E"
    using bounds by (simp add: E unat_word_ariths)
  have AE: "A \<le> E"
    using occ by (auto simp: A E word_le_nat_alt)
  have ub: "unat (ucast (a div ucast PAGE_FRAME_SIZE) :: u32) = A div 4096"
    using AE E by (simp add: unsigned_ucast_eq unat_div ua PAGE_FRAME_SIZE_def take_bit_nat_eq_self)
  have "unat (x div ucast PAGE_FRAME_SIZE + 1) = E div 4096 + 1" if "unat x = E" for x :: u64
    using E(2) that by (simp add: unat_word_ariths unat_div PAGE_FRAME_SIZE_def)
  from this [OF uE] have "unat ((a + l) div ucast PAGE_FRAME_SIZE + 1) = E div 4096 + 1" .
  then have ue: "unat (ucast ((a + l) div ucast PAGE_FRAME_SIZE + 1) :: u32) = E div 4096 + 1"
    using E by (simp add: unsigned_ucast_eq take_bit_nat_eq_self)
  have "\<not> (ucast (addr_low en) :: u64) < ucast UPPER_MEMORY_START"
    "(ucast (addr_low en) :: u64) = ucast UPPER_MEMORY_START \<longleftrightarrow> ?up"
    using start by (simp_all add: word_less_nat_alt word_le_nat_alt word_unat_eq_iff)
  then have "pmm_setup_entry occupied bm en =
      (let b = ucast (a div ucast PAGE_FRAME_SIZE); e = ucast ((a + l) div ucast PAGE_FRAME_SIZE + 1)
       in pmm_clear_range (unat e - unat b + 2) bm b e)"
    using avail low
    by (auto simp: pmm_setup_entry_def Let_def a_def l_def MULTIBOOT_MEM_AVAILABLE_def
        simp del: pmm_clear_range.simps)
  moreover have "(E div 4096 + 1) div 8 < length bm"
    using fits by (simp add: div_less_iff_less_mult mult.commute)
  ultimately show ?thesis
    using pmm_clear_range_taken [of "ucast ((a + l) div ucast PAGE_FRAME_SIZE + 1)" bm
        "E div 4096 + 1 - A div 4096 + 2" "ucast (a div ucast PAGE_FRAME_SIZE)"] E(2) div_le_mono [OF AE, of 4096]
    by (simp add: Let_def ub ue div_less_iff_less_mult mult.commute del: pmm_clear_range.simps)
qed

theorem pmm_setup_entry_frees_witness:
  "\<exists>bm'. pmm_setup_entry 0x1000
      (replicate 64 0xFF) \<lparr>addr_low = 0x100000, addr_high = 0, len_low = 0x2000, len_high = 0, mmap_type = 1\<rparr> = Inr bm' \<and>
     length bm' = 64 \<and> (\<forall>q<512. taken bm' q \<longleftrightarrow> taken (replicate 64 0xFF) q \<and> \<not> (257 \<le> q \<and> q \<le> 259))"
  using pmm_setup_entry_frees [where occupied = "0x1000" and A = "0x101000" and E = "0x102000" and bm = "replicate 64 0xFF"
      and en = "\<lparr>addr_low = 0x100000, addr_high = 0, len_low = 0x2000, len_high = 0, mmap_type = 1\<rparr>"]
  by (simp add: MULTIBOOT_MEM_AVAILABLE_def UPPER_MEMORY_START_def)

end
