(* ===== verification/Paging.thy ===== *)
theory Paging
  imports Pmm
begin

text \<open>
  The two-level page tables of \<open>src/kernel/memory/page.c\<close>.  Physical memory is read as page frames
  of 1024 entries, \<open>vm_mem frame index\<close>; \<open>vm_pd\<close> is the frame of the page directory.  The kernel
  reaches its tables through the last directory entry, which maps the directory onto itself: table
  \<open>i\<close> appears at \<open>RECURSIVE_INDEX i\<close>, and an access there goes to the frame that directory entry \<open>i\<close>
  names.  The directory the operations are called with is the active one, as in the callers.

  Shown here: on a well-formed address space \<open>page_get_pt_entry\<close> makes an address translate to a
  frame that was free and leaves every existing translation as it is, and
  \<open>page_identity_map\<close> maps a range that stays within one table onto itself.
\<close>

section \<open>Data\<close>

definition PD_PRESENT :: u32 where "PD_PRESENT = 1"
definition PD_READ_WRITE :: u32 where "PD_READ_WRITE = 2"
definition PD_USER :: u32 where "PD_USER = 4"
definition PT_PRESENT :: u32 where "PT_PRESENT = 1"
definition PT_READ_WRITE :: u32 where "PT_READ_WRITE = 2"
definition PT_USER :: u32 where "PT_USER = 4"
definition PDE_LAST_INDEX_START :: u32 where "PDE_LAST_INDEX_START = 0xFFC00000"
definition PAGE_MEMORY :: u32 where "PAGE_MEMORY = 1024 * PAGE_FRAME_SIZE"

datatype alloc_flag_t = NO_ALLOC | PAGE_ALLOC

record vm_state =
  vm_mem :: "ptr \<Rightarrow> u32 \<Rightarrow> u32"
  vm_pd :: ptr
  vm_pmm :: pmm_state

abbreviation frame_of :: "u32 \<Rightarrow> ptr" where
  "frame_of e \<equiv> e AND 0xFFFFF000"

section \<open>Operations\<close>

definition RECURSIVE_INDEX :: "u32 \<Rightarrow> ptr" where
  "RECURSIVE_INDEX index = PDE_LAST_INDEX_START + index * PAGE_FRAME_SIZE"

definition page_get_pt_index :: "u32 \<Rightarrow> u32" where
  "page_get_pt_index addr = drop_bit 12 addr AND 0x3FF"

definition page_get_pd_index :: "u32 \<Rightarrow> u32" where
  "page_get_pd_index addr = drop_bit 22 addr"

text \<open>An access through the recursive window: the frame and the index an entry's address leads to.\<close>

definition window :: "vm_state \<Rightarrow> ptr \<Rightarrow> (ptr \<times> u32) res" where
  "window s p =
     (let pde = vm_mem s (vm_pd s) (page_get_pt_index p) in
      if p < PDE_LAST_INDEX_START \<or> pde AND PD_PRESENT = 0 then Inl BadAccess
      else Inr (frame_of pde, (p AND 0xFFF) div 4))"

definition read_entry :: "vm_state \<Rightarrow> ptr \<Rightarrow> u32 res" where
  "read_entry s p = rbind (window s p) (\<lambda>(f, i). Inr (vm_mem s f i))"

definition mem_write :: "vm_state \<Rightarrow> ptr \<Rightarrow> u32 \<Rightarrow> u32 \<Rightarrow> vm_state" where
  "mem_write s f i v = s\<lparr>vm_mem := (vm_mem s)(f := (vm_mem s f)(i := v))\<rparr>"

definition pd_add_table :: "vm_state \<Rightarrow> u32 \<Rightarrow> ptr \<Rightarrow> u32 \<Rightarrow> vm_state" where
  "pd_add_table s pd_index page_entry flags = mem_write s (vm_pd s) pd_index (page_entry OR flags)"

definition pt_add_entry :: "vm_state \<Rightarrow> ptr \<Rightarrow> ptr \<Rightarrow> u32 \<Rightarrow> vm_state res" where
  "pt_add_entry s pt_entry page flags =
     rbind (window s pt_entry) (\<lambda>(f, i). Inr (mem_write s f i (page OR flags)))"

text \<open>\<open>memset\<close> of a whole table.\<close>

definition clear_table :: "vm_state \<Rightarrow> ptr \<Rightarrow> vm_state res" where
  "clear_table s page_table =
     rbind (window s page_table) (\<lambda>(f, _). Inr (s\<lparr>vm_mem := (vm_mem s)(f := (\<lambda>_. 0))\<rparr>))"

definition vm_alloc :: "vm_state \<Rightarrow> (ptr \<times> vm_state) res" where
  "vm_alloc s = rbind (pmm_alloc (vm_pmm s)) (\<lambda>(a, p). Inr (a, s\<lparr>vm_pmm := p\<rparr>))"

definition page_get_pt :: "vm_state \<Rightarrow> u32 \<Rightarrow> alloc_flag_t \<Rightarrow> (ptr \<times> vm_state) res" where
  "page_get_pt s addr flag =
     (let pd_index = page_get_pd_index addr;
          page_table = RECURSIVE_INDEX pd_index in
      if NOT (vm_mem s (vm_pd s) pd_index) AND PD_PRESENT \<noteq> 0 then
        (if flag = NO_ALLOC then Inr (NULL, s)
         else rbind (vm_alloc s) (\<lambda>(a, s1).
           rbind (clear_table (pd_add_table s1 pd_index a (PD_PRESENT OR PD_READ_WRITE OR PD_USER)) page_table)
             (\<lambda>s2. Inr (page_table, s2))))
      else Inr (page_table, s))"

definition page_get_pt_entry :: "vm_state \<Rightarrow> u32 \<Rightarrow> alloc_flag_t \<Rightarrow> (ptr \<times> vm_state) res" where
  "page_get_pt_entry s addr flag =
     rbind (page_get_pt s addr PAGE_ALLOC) (\<lambda>(page_table, s1).
       let page_entry = page_table + 4 * page_get_pt_index addr in
       rbind (read_entry s1 page_entry) (\<lambda>e.
         if NOT e AND PT_PRESENT \<noteq> 0 then
           (if flag = NO_ALLOC then Inr (NULL, s1)
            else rbind (vm_alloc s1) (\<lambda>(a, s2).
              rbind (pt_add_entry s2 page_entry a (PT_PRESENT OR PT_READ_WRITE OR PT_USER)) (\<lambda>s3.
                Inr (page_entry, s3))))
         else Inr (page_entry, s1)))"

definition page_get_phys_addr :: "vm_state \<Rightarrow> u32 \<Rightarrow> (u32 \<times> vm_state) res" where
  "page_get_phys_addr s addr =
     rbind (page_get_pt_entry s addr NO_ALLOC) (\<lambda>(pt_entry, s1).
       rbind (read_entry s1 pt_entry) (\<lambda>e. Inr ((e AND 0xFFFFF000) OR (addr AND 0xFFF), s1)))"

text \<open>The loop of \<open>page_identity_pte\<close>, over the entries up to and including \<open>last_entry\<close>.\<close>

fun page_identity_loop :: "nat \<Rightarrow> vm_state \<Rightarrow> ptr \<Rightarrow> u32 \<Rightarrow> u32 \<Rightarrow> u32 \<Rightarrow> vm_state res" where
  "page_identity_loop 0 s table entry last_entry addr = Inl Hang"
| "page_identity_loop (Suc n) s table entry last_entry addr =
     (if entry \<le> last_entry then
        rbind (pt_add_entry s (table + 4 * entry) addr (PT_PRESENT OR PT_READ_WRITE OR PT_USER)) (\<lambda>s1.
          page_identity_loop n s1 table (entry + 1) last_entry (addr + PAGE_FRAME_SIZE))
      else Inr s)"

definition page_identity_pte :: "vm_state \<Rightarrow> ptr \<Rightarrow> u32 \<Rightarrow> u32 \<Rightarrow> vm_state res" where
  "page_identity_pte s page_table addr sz =
     (let entry = page_get_pt_index addr; last_entry = page_get_pt_index (addr + sz) in
      page_identity_loop (unat last_entry - unat entry + 2) s page_table entry last_entry addr)"

fun page_identity_map_loop :: "nat \<Rightarrow> vm_state \<Rightarrow> u32 \<Rightarrow> u32 \<Rightarrow> u32 \<Rightarrow> vm_state res" where
  "page_identity_map_loop 0 s addr end_addr sz = Inl Hang"
| "page_identity_map_loop (Suc n) s addr end_addr sz =
     (if addr < end_addr then
        rbind (page_get_pt s addr PAGE_ALLOC) (\<lambda>(page_table, s1).
          let max_size = PAGE_MEMORY - (addr AND 0xFFF);
              page_size = (if max_size < sz then max_size else sz) in
          rbind (page_identity_pte s1 page_table addr page_size) (\<lambda>s2.
            page_identity_map_loop n s2 (addr + page_size) end_addr (sz - page_size)))
      else Inr s)"

text \<open>A round advances by nearly 4 MiB, so 1027 rounds pass the end of the address space.\<close>

definition page_identity_map :: "vm_state \<Rightarrow> u32 \<Rightarrow> u32 \<Rightarrow> vm_state res" where
  "page_identity_map s addr sz = page_identity_map_loop 1027 s addr (addr + sz) sz"

text \<open>
  \<open>page_table1\<close> is the physical address of the static table.  At this point of the start-up the code
  writes it through the kernel mapping, so its entries are written to the frame directly.
\<close>

fun page_init_loop :: "nat \<Rightarrow> vm_state \<Rightarrow> ptr \<Rightarrow> u32 \<Rightarrow> u32 \<Rightarrow> vm_state" where
  "page_init_loop 0 s f entry addr = s"
| "page_init_loop (Suc n) s f entry addr =
     page_init_loop n (mem_write s f entry (addr OR (PT_PRESENT OR PT_READ_WRITE OR PT_USER))) f
       (entry + 1) (addr + PAGE_FRAME_SIZE)"

definition page_init :: "vm_state \<Rightarrow> ptr \<Rightarrow> vm_state" where
  "page_init s page_table1 =
     (let s1 = pd_add_table s (1024 - 1) (vm_pd s) (PD_PRESENT OR PD_READ_WRITE OR PD_USER);
          s2 = pd_add_table s1 0 page_table1 (PD_PRESENT OR PD_READ_WRITE OR PD_USER) in
      page_init_loop (unat (page_get_pt_index (0 + UPPER_MEMORY_START)) - unat (page_get_pt_index 0) + 1)
        s2 page_table1 (page_get_pt_index 0) 0)"

section \<open>What the hardware does with the tables\<close>

definition translate :: "vm_state \<Rightarrow> u32 \<Rightarrow> u32 option" where
  "translate s va =
     (let pde = vm_mem s (vm_pd s) (page_get_pd_index va) in
      if pde AND 1 = 0 then None
      else let pte = vm_mem s (frame_of pde) (page_get_pt_index va) in
        if pte AND 1 = 0 then None else Some ((pte AND 0xFFFFF000) OR (va AND 0xFFF)))"

definition present :: "vm_state \<Rightarrow> u32 \<Rightarrow> bool" where
  "present s i \<longleftrightarrow> vm_mem s (vm_pd s) i AND 1 \<noteq> 0"

definition table :: "vm_state \<Rightarrow> u32 \<Rightarrow> ptr" where
  "table s i = frame_of (vm_mem s (vm_pd s) i)"

text \<open>
  A well-formed address space: the directory maps itself through its last entry, and the tables are
  different frames, none of them free.
\<close>

definition vm_inv :: "vm_state \<Rightarrow> bool" where
  "vm_inv s \<longleftrightarrow> pmm_inv (vm_pmm s) \<and>
     present s 1023 \<and> table s 1023 = vm_pd s \<and> vm_pd s \<notin> free_frames (vm_pmm s) \<and>
     (\<forall>i<1024. present s i \<longrightarrow> table s i \<notin> free_frames (vm_pmm s)) \<and>
     (\<forall>i<1024. \<forall>j<1024. present s i \<and> present s j \<and> table s i = table s j \<longrightarrow> i = j)"

section \<open>Addresses\<close>

lemma and_3FF: "(x :: u32) AND 0x3FF = take_bit 10 x"
  by (simp add: take_bit_eq_mask mask_eq_exp_minus_1)

lemma and_FFF: "(x :: u32) AND 0xFFF = take_bit 12 x"
  by (simp add: take_bit_eq_mask mask_eq_exp_minus_1)

lemma unat_pt_index: "unat (page_get_pt_index p) = unat p div 4096 mod 1024"
  by (simp add: page_get_pt_index_def and_3FF unsigned_take_bit_eq unsigned_drop_bit_eq
      take_bit_eq_mod drop_bit_eq_div unat_div unat_mod)

lemma unat_pd_index: "unat (page_get_pd_index p) = unat p div 4194304"
  by (simp add: page_get_pd_index_def unsigned_drop_bit_eq drop_bit_eq_div unat_div)

lemma page_index_lt: "page_get_pt_index p < 1024" "page_get_pd_index p < 1024"
  using unat_u32_lt [of p] by (simp_all add: word_less_nat_alt unat_pt_index unat_pd_index)

lemma unat_recursive:
  assumes "i < 1024" "j < 1024"
  shows "unat (RECURSIVE_INDEX i + 4 * j) = 0xFFC00000 + 4096 * unat i + 4 * unat j"
  using assms by (simp add: RECURSIVE_INDEX_def PDE_LAST_INDEX_START_def PAGE_FRAME_SIZE_def
      unat_word_ariths word_less_nat_alt)

lemma window_entry:
  assumes "i < 1024" "j < 1024"
  shows "window s (RECURSIVE_INDEX i + 4 * j) = (if present s i then Inr (table s i, j) else Inl BadAccess)"
proof -
  let ?p = "RECURSIVE_INDEX i + 4 * j"
  note u = unat_recursive [OF assms]
  have ij: "unat i < 1024" "unat j < 1024"
    using assms by (simp_all add: word_less_nat_alt)
  have "(0xFFC00000 + 4096 * unat i + 4 * unat j) div 4096 = 1024 * 1023 + unat i"
    using ij by linarith
  then have "unat (page_get_pt_index ?p) = unat i"
    unfolding unat_pt_index u using ij by (simp only: mod_mult_self4) simp
  then have idx: "page_get_pt_index ?p = i"
    by (simp add: word_unat_eq_iff)
  have "unat ((?p AND 0xFFF) div 4) = unat ?p mod 4096 div 4"
    by (simp add: and_FFF unat_div unat_mod unsigned_take_bit_eq take_bit_eq_mod)
  moreover have "0xFFC00000 + 4096 * unat i + 4 * unat j = 4 * unat j + 4096 * (1047552 + unat i)"
    by simp
  ultimately have "unat ((?p AND 0xFFF) div 4) = unat j"
    unfolding u using ij by (simp only: mod_mult_self2) simp
  then have "(?p AND 0xFFF) div 4 = j"
    by (simp add: word_unat_eq_iff)
  moreover have "\<not> ?p < PDE_LAST_INDEX_START"
    unfolding word_less_nat_alt u by (simp add: PDE_LAST_INDEX_START_def)
  ultimately show ?thesis
    using idx by (auto simp: window_def present_def table_def PD_PRESENT_def)
qed

lemma window_table: "i < 1024 \<Longrightarrow> window s (RECURSIVE_INDEX i) = (if present s i then Inr (table s i, 0) else Inl BadAccess)"
  using window_entry [of i 0 s] by simp

lemma and_1_bit: "(x :: u32) AND 1 = 0 \<longleftrightarrow> \<not> bit x 0"
  by (simp add: and_one_eq bit_0 even_iff_mod_2_eq_zero)

lemma not_present_iff: "NOT e AND 1 \<noteq> 0 \<longleftrightarrow> (e :: u32) AND 1 = 0"
  by (simp add: and_1_bit bit_not_iff)

lemma entry_flags:
  "(a OR 7) AND 1 \<noteq> (0 :: u32)" "frame_of (a OR 7) = frame_of a"
  by (simp_all add: and_1_bit bit_or_iff bit.conj_disj_distrib2)

lemma frame_of_frame_addr: "frame_of (frame_addr p) = frame_addr p"
proof -
  have "frame_addr p = push_bit 12 (of_nat p)"
    by (simp add: frame_addr_def PAGE_FRAME_SIZE_def push_bit_eq_mult)
  moreover have "(0xFFFFF000 :: u32) = NOT (mask 12)"
    by (simp add: mask_eq_exp_minus_1)
  ultimately show ?thesis
    by (auto simp: bit_eq_iff bit_simps simp del: push_bit_of_nat)
qed

lemma free_frame_aligned: "a \<in> free_frames s \<Longrightarrow> frame_of a = a"
  unfolding free_frames_def by (auto simp: frame_of_frame_addr)

section \<open>Growing an address space\<close>

definition extends :: "vm_state \<Rightarrow> vm_state \<Rightarrow> bool" where
  "extends s s' \<longleftrightarrow> (\<forall>va pa. translate s va = Some pa \<longrightarrow> translate s' va = Some pa)"

lemma extends_refl [simp]: "extends s s"
  by (simp add: extends_def)

lemma extends_trans: "extends s s1 \<Longrightarrow> extends s1 s2 \<Longrightarrow> extends s s2"
  by (simp add: extends_def)

lemma translate_alt:
  "translate s va = (let e = vm_mem s (table s (page_get_pd_index va)) (page_get_pt_index va) in
     if present s (page_get_pd_index va) \<and> e AND 1 \<noteq> 0 then Some (frame_of e OR (va AND 0xFFF)) else None)"
  by (simp add: translate_def present_def table_def Let_def)

lemma vm_invD:
  assumes "vm_inv s"
  shows "pmm_inv (vm_pmm s)" "present s 1023" "table s 1023 = vm_pd s" "vm_pd s \<notin> free_frames (vm_pmm s)"
    "\<And>i. i < 1024 \<Longrightarrow> present s i \<Longrightarrow> table s i \<notin> free_frames (vm_pmm s)"
    "\<And>i j. i < 1024 \<Longrightarrow> j < 1024 \<Longrightarrow> present s i \<Longrightarrow> present s j \<Longrightarrow> table s i = table s j \<Longrightarrow> i = j"
  using assms unfolding vm_inv_def by blast+

lemma vm_alloc_frame:
  assumes "vm_inv s" "free_frames (vm_pmm s) \<noteq> {}"
  obtains a p where "vm_alloc s = Inr (a, s\<lparr>vm_pmm := p\<rparr>)" "a \<in> free_frames (vm_pmm s)" "pmm_inv p"
    "free_frames p = free_frames (vm_pmm s) - {a}"
  using pm.alloc_frame [OF vm_invD(1) [OF assms(1)] assms(2)] that by (auto simp: vm_alloc_def)

text \<open>The effect of entering a fresh, cleared table in the directory.\<close>

definition new_table :: "vm_state \<Rightarrow> u32 \<Rightarrow> ptr \<Rightarrow> pmm_state \<Rightarrow> vm_state" where
  "new_table s i a p = s\<lparr>vm_pmm := p,
     vm_mem := (vm_mem s)(vm_pd s := (vm_mem s (vm_pd s))(i := a OR 7), a := (\<lambda>_. 0))\<rparr>"

lemma new_table_simps:
  assumes "vm_inv s" "a \<in> free_frames (vm_pmm s)"
  shows "vm_pd (new_table s i a p) = vm_pd s" "vm_pmm (new_table s i a p) = p"
    "present (new_table s i a p) j \<longleftrightarrow> j = i \<or> present s j"
    "table (new_table s i a p) j = (if j = i then a else table s j)"
    "vm_mem (new_table s i a p) f = (if f = a then (\<lambda>_. 0) else if f = vm_pd s then (vm_mem s f)(i := a OR 7) else vm_mem s f)"
proof -
  have ne: "a \<noteq> vm_pd s"
    using assms vm_invD(4) by blast
  then show "present (new_table s i a p) j \<longleftrightarrow> j = i \<or> present s j"
    "table (new_table s i a p) j = (if j = i then a else table s j)"
    using free_frame_aligned [OF assms(2)] entry_flags [of a]
    by (auto simp: new_table_def present_def table_def)
qed (auto simp: new_table_def)

lemma new_table_inv:
  assumes inv: "vm_inv s" and a: "a \<in> free_frames (vm_pmm s)" and i: "i < 1024" "\<not> present s i"
    and p: "pmm_inv p" "free_frames p = free_frames (vm_pmm s) - {a}"
  shows "vm_inv (new_table s i a p)"
proof -
  note I = vm_invD [OF inv]
  have "i \<noteq> 1023"
    using I(2) i(2) by auto
  have tab: "table s j \<noteq> a" "a \<noteq> table s j" if "j < 1024" "present s j" for j
    using I(5) [OF that] a by auto
  show ?thesis
    unfolding vm_inv_def new_table_simps [OF inv a]
    using I \<open>i \<noteq> 1023\<close> p tab i by auto
qed

lemma new_table_extends:
  assumes inv: "vm_inv s" and a: "a \<in> free_frames (vm_pmm s)" and i: "\<not> present s i"
  shows "extends s (new_table s i a p)"
  unfolding extends_def
proof (intro allI impI)
  fix va pa
  let ?k = "page_get_pd_index va" and ?j = "page_get_pt_index va"
  assume "translate s va = Some pa"
  then have k: "present s ?k" "vm_mem s (table s ?k) ?j AND 1 \<noteq> 0"
    and pa: "pa = frame_of (vm_mem s (table s ?k) ?j) OR (va AND 0xFFF)"
    by (auto simp: translate_alt Let_def split: if_splits)
  have ne: "table s ?k \<noteq> a" "?k \<noteq> i"
    using vm_invD(5) [OF inv page_index_lt(2) k(1)] a i k(1) by auto
  have "table s ?k = vm_pd s \<Longrightarrow> ?j \<noteq> i"
    using k(2) i by (auto simp: present_def)
  then have "vm_mem (new_table s i a p) (table s ?k) ?j = vm_mem s (table s ?k) ?j"
    using ne by (auto simp: new_table_simps [OF inv a])
  then show "translate (new_table s i a p) va = Some pa"
    using k ne pa by (simp add: translate_alt new_table_simps(3,4) [OF inv a])
qed

lemma page_get_pt_spec:
  assumes inv: "vm_inv s" and room: "\<not> present s (page_get_pd_index addr) \<Longrightarrow> free_frames (vm_pmm s) \<noteq> {}"
  obtains s' where "page_get_pt s addr PAGE_ALLOC = Inr (RECURSIVE_INDEX (page_get_pd_index addr), s')"
    "vm_inv s'" "present s' (page_get_pd_index addr)" "extends s s'" "vm_pd s' = vm_pd s"
    "present s (page_get_pd_index addr) \<Longrightarrow> s' = s"
    "free_frames (vm_pmm s') \<subseteq> free_frames (vm_pmm s)"
    "card (free_frames (vm_pmm s)) \<le> Suc (card (free_frames (vm_pmm s')))"
    "\<not> present s (page_get_pd_index addr) \<Longrightarrow> vm_mem s' (table s' (page_get_pd_index addr)) = (\<lambda>_. 0)"
proof (cases "present s (page_get_pd_index addr)")
  case True
  then have "page_get_pt s addr PAGE_ALLOC = Inr (RECURSIVE_INDEX (page_get_pd_index addr), s)"
    by (simp add: page_get_pt_def present_def PD_PRESENT_def not_present_iff Let_def)
  then show ?thesis
    using that [of s] inv True by simp
next
  case False
  let ?i = "page_get_pd_index addr"
  obtain a p where a: "vm_alloc s = Inr (a, s\<lparr>vm_pmm := p\<rparr>)" "a \<in> free_frames (vm_pmm s)" "pmm_inv p"
      "free_frames p = free_frames (vm_pmm s) - {a}"
    using vm_alloc_frame [OF inv room [OF False]] .
  have ne: "a \<noteq> vm_pd s"
    using a(2) vm_invD(4) [OF inv] by blast
  let ?s1 = "pd_add_table (s\<lparr>vm_pmm := p\<rparr>) ?i a 7"
  have "present ?s1 ?i" "table ?s1 ?i = a"
    using ne entry_flags [of a] free_frame_aligned [OF a(2)]
    by (auto simp: present_def table_def pd_add_table_def mem_write_def)
  then have "clear_table ?s1 (RECURSIVE_INDEX ?i) = Inr (new_table s ?i a p)"
    using window_table [OF page_index_lt(2)] ne
    by (simp add: clear_table_def new_table_def pd_add_table_def mem_write_def)
  then have "page_get_pt s addr PAGE_ALLOC = Inr (RECURSIVE_INDEX ?i, new_table s ?i a p)"
    using False a(1) by (simp add: page_get_pt_def present_def PD_PRESENT_def PD_READ_WRITE_def PD_USER_def
        not_present_iff Let_def)
  then show ?thesis
    using that [of "new_table s ?i a p"] new_table_inv [OF inv a(2) page_index_lt(2) False a(3,4)]
      new_table_extends [OF inv a(2) False] False a(4) card_Suc_Diff1 [OF finite_free_frames a(2)]
    by (simp add: new_table_simps [OF inv a(2)])
qed

text \<open>The effect of writing a page's entry in a table other than the directory.\<close>

lemma mem_write_table:
  assumes inv: "vm_inv s" and i: "i < 1023" "present s i" and j: "vm_mem s (table s i) j AND 1 = 0"
    and p: "pmm_inv p" "free_frames p \<subseteq> free_frames (vm_pmm s)"
    and s'_def: "s' = mem_write (s\<lparr>vm_pmm := p\<rparr>) (table s i) j v"
  shows "vm_inv s'" "extends s s'" "present s' k \<longleftrightarrow> present s k" "table s' k = table s k" "vm_pd s' = vm_pd s"
proof -
  note I = vm_invD [OF inv]
  have "i < 1024" "i \<noteq> 1023"
    using i(1) by (auto simp: word_less_nat_alt)
  then have ne: "table s i \<noteq> vm_pd s"
    using I(6) [of i 1023] I(2,3) i(2) by auto
  have pd: "vm_pd s' = vm_pd s" "vm_mem s' (vm_pd s) = vm_mem s (vm_pd s)" "vm_pmm s' = p"
    using ne by (simp_all add: s'_def mem_write_def)
  then have pt: "present s' k \<longleftrightarrow> present s k" "table s' k = table s k" for k
    by (simp_all add: present_def table_def)
  show "present s' k \<longleftrightarrow> present s k" "table s' k = table s k" "vm_pd s' = vm_pd s"
    by (rule pt pd)+
  show "vm_inv s'"
    using I p unfolding vm_inv_def pt pd by blast
  show "extends s s'"
    unfolding extends_def
  proof (intro allI impI)
    fix va pa
    assume tr: "translate s va = Some pa"
    let ?f = "table s (page_get_pd_index va)" and ?j = "page_get_pt_index va"
    have "vm_mem s ?f ?j AND 1 \<noteq> 0"
      using tr by (auto simp: translate_alt Let_def split: if_splits)
    then have "vm_mem s' ?f ?j = vm_mem s ?f ?j"
      using j by (auto simp: s'_def mem_write_def)
    then show "translate s' va = Some pa"
      using tr by (simp add: translate_alt pt)
  qed
qed

lemma pd_index_not_window:
  assumes "addr < PDE_LAST_INDEX_START"
  shows "page_get_pd_index addr < 1023"
proof -
  have "unat addr < 1023 * 4194304"
    using assms by (simp add: word_less_nat_alt PDE_LAST_INDEX_START_def)
  then have "unat addr div 4194304 < 1023"
    by (rule less_mult_imp_div_less)
  then show ?thesis
    by (simp add: word_less_nat_alt unat_pd_index)
qed

lemma page_get_pt_entry_spec:
  assumes inv: "vm_inv s" and addr: "addr < PDE_LAST_INDEX_START" and room: "2 \<le> card (free_frames (vm_pmm s))"
  shows "\<exists>s' pa. page_get_pt_entry s addr PAGE_ALLOC =
             Inr (RECURSIVE_INDEX (page_get_pd_index addr) + 4 * page_get_pt_index addr, s') \<and>
           vm_inv s' \<and> extends s s' \<and> translate s' addr = Some pa \<and>
           (translate s addr = None \<longrightarrow> frame_of pa \<in> free_frames (vm_pmm s))"
proof -
  let ?i = "page_get_pd_index addr" and ?j = "page_get_pt_index addr"
  have "free_frames (vm_pmm s) \<noteq> {}"
    using room by auto
  then obtain s1 where s1: "page_get_pt s addr PAGE_ALLOC = Inr (RECURSIVE_INDEX ?i, s1)" "vm_inv s1"
      "present s1 ?i" "extends s s1" "present s ?i \<Longrightarrow> s1 = s"
      "free_frames (vm_pmm s1) \<subseteq> free_frames (vm_pmm s)"
      "card (free_frames (vm_pmm s)) \<le> Suc (card (free_frames (vm_pmm s1)))"
      "\<not> present s ?i \<Longrightarrow> vm_mem s1 (table s1 ?i) = (\<lambda>_. 0)"
    by (rule page_get_pt_spec [OF inv, of addr]) auto
  have win: "window t (RECURSIVE_INDEX ?i + 4 * ?j) = Inr (table t ?i, ?j)" if "present t ?i" for t
    using window_entry [OF page_index_lt(2,1)] that by simp
  have rd: "read_entry s1 (RECURSIVE_INDEX ?i + 4 * ?j) = Inr (vm_mem s1 (table s1 ?i) ?j)"
    using win [OF s1(3)] by (simp add: read_entry_def)
  show ?thesis
  proof (cases "vm_mem s1 (table s1 ?i) ?j AND 1 = 0")
    case False
    then have "page_get_pt_entry s addr PAGE_ALLOC = Inr (RECURSIVE_INDEX ?i + 4 * ?j, s1)"
      using s1(1) rd by (simp add: page_get_pt_entry_def PT_PRESENT_def not_present_iff Let_def)
    moreover obtain pa where "translate s1 addr = Some pa"
      using False s1(3) by (simp add: translate_alt Let_def)
    moreover have "translate s addr \<noteq> None"
      using False s1(5,8) calculation(2) by (cases "present s ?i") auto
    ultimately show ?thesis
      using s1(2,4) by auto
  next
    case True
    have "free_frames (vm_pmm s1) \<noteq> {}"
      using s1(7) room by auto
    then obtain a p where a: "vm_alloc s1 = Inr (a, s1\<lparr>vm_pmm := p\<rparr>)" "a \<in> free_frames (vm_pmm s1)"
        "pmm_inv p" "free_frames p = free_frames (vm_pmm s1) - {a}"
      using vm_alloc_frame [OF s1(2)] by blast
    define s2 where "s2 = mem_write (s1\<lparr>vm_pmm := p\<rparr>) (table s1 ?i) ?j (a OR 7)"
    note w = mem_write_table [OF s1(2) pd_index_not_window [OF addr] s1(3) True a(3) _ s2_def]
    have sub: "free_frames p \<subseteq> free_frames (vm_pmm s1)"
      using a(4) by auto
    have "present (s1\<lparr>vm_pmm := p\<rparr>) ?i" "table (s1\<lparr>vm_pmm := p\<rparr>) ?i = table s1 ?i"
      using s1(3) by (simp_all add: present_def table_def)
    then have "pt_add_entry (s1\<lparr>vm_pmm := p\<rparr>) (RECURSIVE_INDEX ?i + 4 * ?j) a 7 = Inr s2"
      by (simp add: pt_add_entry_def win s2_def)
    then have "page_get_pt_entry s addr PAGE_ALLOC = Inr (RECURSIVE_INDEX ?i + 4 * ?j, s2)"
      using s1(1) rd a(1) True by (simp add: page_get_pt_entry_def PT_PRESENT_def PT_READ_WRITE_def PT_USER_def
          not_present_iff Let_def)
    moreover have "vm_mem s2 (table s1 ?i) ?j = a OR 7"
      by (simp add: s2_def mem_write_def)
    then have "translate s2 addr = Some (frame_of a OR (addr AND 0xFFF))"
      using w(3,4) [OF sub] s1(3) entry_flags [of a] by (simp add: translate_alt)
    moreover have "frame_of (frame_of a OR (addr AND 0xFFF)) = a"
      using free_frame_aligned [OF a(2)] by (simp add: bit.conj_disj_distrib2 and.assoc)
    ultimately show ?thesis
      using w(1) [OF sub] extends_trans [OF s1(4) w(2) [OF sub]] s1(6) a(2) by auto
  qed
qed

text \<open>C25 [page_get_pt_entry_maps]: on a well-formed address space with two free frames, for an address
  below the recursive window, \<open>page_get_pt_entry\<close> with the allocation flag returns the address of the
  entry of that page; afterwards the address is translated, to the frame it had when it was mapped
  and otherwise to a frame that was free before; every address translated before is translated to
  the same place, and the address space is well-formed.\<close>

theorem page_get_pt_entry_maps:
  assumes inv: "vm_inv s" and addr: "addr < PDE_LAST_INDEX_START" and room: "2 \<le> card (free_frames (vm_pmm s))"
  shows "\<exists>s' pa. page_get_pt_entry s addr PAGE_ALLOC =
             Inr (RECURSIVE_INDEX (page_get_pd_index addr) + 4 * page_get_pt_index addr, s') \<and>
           vm_inv s' \<and> extends s s' \<and> translate s' addr = Some pa \<and>
           (translate s addr = None \<longrightarrow> frame_of pa \<in> free_frames (vm_pmm s))"
  by (rule page_get_pt_entry_spec [OF assms])

definition vm_sample :: vm_state where
  "vm_sample = \<lparr>vm_mem = (\<lambda>f i. if f = 0x1000 \<and> i = 1023 then 0x1007 else 0), vm_pd = 0x1000,
     vm_pmm = \<lparr>mem_bitmap = [0xFF, 0xFF, 0xFF, 0xFF, 0xFF, 0xF3, 0xFF, 0xFF], num_of_pages = 64, last_alloc = 13\<rparr>\<rparr>"

lemma vm_sample_free: "frame_addr 42 \<in> free_frames (vm_pmm vm_sample)" "frame_addr 43 \<in> free_frames (vm_pmm vm_sample)"
  unfolding free_frames_def by (rule imageI, simp add: vm_sample_def taken_def bit_simps)+

lemma vm_sample_room: "2 \<le> card (free_frames (vm_pmm vm_sample))"
proof -
  have "card {frame_addr 42, frame_addr 43} = 2"
    by (simp add: frame_addr_def PAGE_FRAME_SIZE_def)
  moreover have "{frame_addr 42, frame_addr 43} \<subseteq> free_frames (vm_pmm vm_sample)"
    using vm_sample_free by simp
  ultimately show ?thesis
    using card_mono [OF finite_free_frames] by metis
qed

lemma vm_sample_inv: "vm_inv vm_sample"
proof -
  have "(0x1000 :: ptr) = frame_addr 1"
    by (simp add: frame_addr_def PAGE_FRAME_SIZE_def)
  moreover have "frame_addr 1 \<notin> free_frames (vm_pmm vm_sample)"
  proof
    assume "frame_addr 1 \<in> free_frames (vm_pmm vm_sample)"
    then obtain p where p: "p < 64" "\<not> taken (mem_bitmap (vm_pmm vm_sample)) p" "frame_addr 1 = frame_addr p"
      by (auto simp: free_frames_def vm_sample_def)
    then have "p = 1"
      using frame_addr_inj [of 1 p] by simp
    then show False
      using p(2) by (simp add: vm_sample_def taken_def bit_simps)
  qed
  ultimately show ?thesis
    by (simp add: vm_inv_def vm_sample_def pmm_inv_def present_def table_def)
qed

theorem page_get_pt_entry_maps_witness:
  "\<exists>s' pa. page_get_pt_entry vm_sample 0xD0000000 PAGE_ALLOC = Inr (0xFFF40000, s') \<and>
     translate s' 0xD0000000 = Some pa"
  using page_get_pt_entry_maps [OF vm_sample_inv _ vm_sample_room, of "0xD0000000"]
  by (auto simp: PDE_LAST_INDEX_START_def RECURSIVE_INDEX_def page_get_pd_index_def page_get_pt_index_def
      PAGE_FRAME_SIZE_def)

section \<open>Identity mapping\<close>

text \<open>Writing entries of table \<open>i\<close>.\<close>

definition set_table :: "vm_state \<Rightarrow> u32 \<Rightarrow> (u32 \<Rightarrow> u32) \<Rightarrow> vm_state" where
  "set_table s i g = s\<lparr>vm_mem := (vm_mem s)(table s i := g)\<rparr>"

lemma set_table_simps:
  assumes "vm_inv s" "i < 1023" "present s i"
  shows "present (set_table s i g) k \<longleftrightarrow> present s k" "table (set_table s i g) k = table s k"
    "set_table (set_table s i g) i h = set_table s i h" "vm_mem (set_table s i g) (table s i) = g"
    "vm_inv (set_table s i g)"
proof -
  note I = vm_invD [OF assms(1)]
  have "i < 1024" "i \<noteq> 1023"
    using assms(2) by (auto simp: word_less_nat_alt)
  then have ne: "table s i \<noteq> vm_pd s"
    using I(6) [of i 1023] I(2,3) assms(3) by auto
  then have pd: "vm_mem (set_table s i g) (vm_pd s) = vm_mem s (vm_pd s)" "vm_pd (set_table s i g) = vm_pd s"
      "vm_pmm (set_table s i g) = vm_pmm s" for g
    by (simp_all add: set_table_def)
  then have pt: "present (set_table s i g) k \<longleftrightarrow> present s k" "table (set_table s i g) k = table s k" for k g
    by (simp_all add: present_def table_def)
  show "present (set_table s i g) k \<longleftrightarrow> present s k" "table (set_table s i g) k = table s k"
    by (rule pt)+
  show "set_table (set_table s i g) i h = set_table s i h"
    unfolding set_table_def [of "set_table s i g"] pt by (simp add: set_table_def)
  show "vm_mem (set_table s i g) (table s i) = g"
    by (simp add: set_table_def)
  show "vm_inv (set_table s i g)"
    using I unfolding vm_inv_def pt pd by blast
qed

lemma page_identity_loop_spec:
  assumes "vm_inv s" "i < 1023" "present s i" "last_entry < 1024" "unat last_entry + 2 \<le> n + unat e" "0 < n"
  shows "page_identity_loop n s (RECURSIVE_INDEX i) e last_entry addr =
    Inr (set_table s i (\<lambda>j. if e \<le> j \<and> j \<le> last_entry then (addr + (j - e) * PAGE_FRAME_SIZE) OR 7
                            else vm_mem s (table s i) j))"
  using assms
proof (induction n arbitrary: s e addr)
  case (Suc n)
  show ?case
  proof (cases "e \<le> last_entry")
    case False
    then have "\<not> (e \<le> j \<and> j \<le> last_entry)" for j
      using order_trans by blast
    then show ?thesis
      using False by (simp only: if_False) (simp add: set_table_def)
  next
    case True
    let ?s1 = "set_table s i ((vm_mem s (table s i))(e := addr OR 7))"
    have "i < 1024" "e < 1024"
      using Suc.prems(2,4) True by (auto simp: word_less_nat_alt word_le_nat_alt)
    then have step: "pt_add_entry s (RECURSIVE_INDEX i + 4 * e) addr 7 = Inr ?s1"
      using window_entry [of i e s] Suc.prems(3) by (simp add: pt_add_entry_def mem_write_def set_table_def)
    note st = set_table_simps [OF Suc.prems(1-3)]
    have e1: "unat (e + 1) = Suc (unat e)"
      using \<open>e < 1024\<close> by (intro unat_u32_Suc) (simp add: word_less_nat_alt)
    have le: "unat e \<le> unat last_entry"
      using True by (simp add: word_le_nat_alt)
    have split: "e \<le> j \<and> j \<le> last_entry \<longleftrightarrow> j = e \<or> e + 1 \<le> j \<and> j \<le> last_entry" for j
      using le by (auto simp: word_le_nat_alt e1 word_unat_eq_iff)
    have "page_identity_loop n ?s1 (RECURSIVE_INDEX i) (e + 1) last_entry (addr + PAGE_FRAME_SIZE) =
      Inr (set_table ?s1 i (\<lambda>j. if e + 1 \<le> j \<and> j \<le> last_entry
        then (addr + PAGE_FRAME_SIZE + (j - (e + 1)) * PAGE_FRAME_SIZE) OR 7 else vm_mem ?s1 (table ?s1 i) j))"
      using Suc.prems le e1 by (intro Suc.IH) (simp_all add: st)
    also have "\<dots> = Inr (set_table s i (\<lambda>j. if e \<le> j \<and> j \<le> last_entry
        then (addr + (j - e) * PAGE_FRAME_SIZE) OR 7 else vm_mem s (table s i) j))"
      unfolding st(2-4) split
      by (intro arg_cong [where f = Inr] arg_cong [where f = "set_table s i"] ext)
        (auto simp: algebra_simps)
    finally show ?thesis
      using True step by (simp add: PT_PRESENT_def PT_READ_WRITE_def PT_USER_def)
  qed
qed simp

lemma frame_unat: "unat (frame_of a) = unat a div 4096 * 4096"
proof -
  have m: "(0xFFFFF000 :: u32) = NOT (mask 12)"
    by (simp add: mask_eq_exp_minus_1)
  have "frame_of a = push_bit 12 (drop_bit 12 a)"
    unfolding m by (rule bit_word_eqI) (auto simp: bit_simps)
  then have "frame_of a = a div 4096 * 4096"
    by (simp add: push_bit_eq_mult drop_bit_eq_div)
  moreover have ua: "unat (a div 4096) = unat a div 4096"
    by (simp add: unat_div)
  moreover have "unat a div 4096 * 4096 < 4294967296"
    using unat_u32_lt [of a] by linarith
  ultimately show ?thesis
    by (simp only: unat_u32_mult_mod ua) simp
qed

lemma frame_offset: "frame_of va OR (va AND 0xFFF) = (va :: u32)"
proof -
  have m: "(0xFFFFF000 :: u32) = NOT (mask 12)" "(0xFFF :: u32) = mask 12"
    by (simp_all add: mask_eq_exp_minus_1)
  show ?thesis
    unfolding m by (rule bit_word_eqI) (auto simp: bit_simps)
qed

text \<open>A page of a range within one table: its entry lies between those of the ends.\<close>

lemma entry_in_range:
  assumes "addr \<le> va" "va \<le> fin" "page_get_pd_index addr = page_get_pd_index fin" "addr AND 0xFFF = 0"
  shows "page_get_pd_index va = page_get_pd_index addr"
    "page_get_pt_index addr \<le> page_get_pt_index va" "page_get_pt_index va \<le> page_get_pt_index fin"
    "addr + (page_get_pt_index va - page_get_pt_index addr) * PAGE_FRAME_SIZE = frame_of va"
proof -
  let ?a = "unat addr" and ?v = "unat va" and ?f = "unat fin"
  have le: "?a \<le> ?v" "?v \<le> ?f"
    using assms(1,2) by (simp_all add: word_le_nat_alt)
  have "?a div 4194304 = ?f div 4194304"
    using assms(3) by (metis unat_pd_index)
  then have d: "?v div 4194304 = ?a div 4194304" "?f div 4194304 = ?a div 4194304"
    using div_le_mono [OF le(1), of 4194304] div_le_mono [OF le(2), of 4194304] by linarith+
  then show "page_get_pd_index va = page_get_pd_index addr"
    by (simp add: word_unat_eq_iff unat_pd_index)
  have idx: "x div 4096 = 1024 * (x div 4194304) + x div 4096 mod 1024" for x :: nat
    using mult_div_mod_eq [of 1024 "x div 4096"] by (simp add: div_mult2_eq [symmetric])
  have mono: "?a div 4096 \<le> ?v div 4096" "?v div 4096 \<le> ?f div 4096"
    by (rule div_le_mono [OF le(1)], rule div_le_mono [OF le(2)])
  have i: "?v div 4096 mod 1024 = ?a div 4096 mod 1024 + (?v div 4096 - ?a div 4096)"
    using idx [of ?a] idx [of ?v] mono(1) unfolding d(1) by linarith
  show le_a: "page_get_pt_index addr \<le> page_get_pt_index va"
    using i by (simp add: word_le_nat_alt unat_pt_index)
  show "page_get_pt_index va \<le> page_get_pt_index fin"
    using idx [of ?f] idx [of ?v] mono(2) unfolding d word_le_nat_alt unat_pt_index by linarith
  have "unat (addr AND 0xFFF) = ?a mod 4096"
    by (simp add: and_FFF unsigned_take_bit_eq take_bit_eq_mod unat_mod)
  then have al: "?a = ?a div 4096 * 4096"
    using assms(4) by (metis add.right_neutral div_mult_mod_eq unsigned_0)
  have diff: "unat (page_get_pt_index va - page_get_pt_index addr) = ?v div 4096 - ?a div 4096"
    using le_a i by (simp add: unat_sub unat_pt_index)
  have "unat (addr + (page_get_pt_index va - page_get_pt_index addr) * PAGE_FRAME_SIZE) =
      (?a + (?v div 4096 - ?a div 4096) * 4096) mod 4294967296"
    unfolding unat_u32_plus_mod unat_u32_mult_mod diff by (simp add: PAGE_FRAME_SIZE_def mod_simps)
  also have "?a + (?v div 4096 - ?a div 4096) * 4096 = ?v div 4096 * 4096"
  proof -
    have "x * 4096 + (y - x) * 4096 = y * 4096" if "x \<le> y" for x y :: nat
      using that by (simp add: diff_mult_distrib)
    from this [OF mono(1)] show ?thesis
      using al by linarith
  qed
  also have "\<dots> mod 4294967296 = \<dots>"
    using unat_u32_lt [of va] by (intro mod_less) linarith
  finally show "addr + (page_get_pt_index va - page_get_pt_index addr) * PAGE_FRAME_SIZE = frame_of va"
    by (simp add: word_unat_eq_iff frame_unat)
qed

lemma page_identity_map_round:
  assumes "addr < addr + sz" "page_get_pt s addr PAGE_ALLOC = Inr (t, s1)"
    and "(if PAGE_MEMORY - (addr AND 0xFFF) < sz then PAGE_MEMORY - (addr AND 0xFFF) else sz) = sz"
    and "page_identity_pte s1 t addr sz = Inr s2"
  shows "page_identity_map s addr sz = Inr s2"
proof -
  have "page_identity_map_loop (Suc (Suc n)) s addr (addr + sz) sz = Inr s2" for n
    using assms by (simp add: Let_def)
  from this [of 1025] show ?thesis
    by (simp add: page_identity_map_def)
qed

text \<open>Fact [page_identity_map_one_table]: a page-aligned, non-empty range that ends in the page table it starts
  in is mapped onto itself by \<open>page_identity_map\<close>, up to and including the page of its end address.\<close>

theorem page_identity_map_one_table:
  assumes inv: "vm_inv s" and al: "addr AND 0xFFF = 0" and sz: "addr < addr + sz"
    and one: "page_get_pd_index addr = page_get_pd_index (addr + sz)"
    and low: "addr < PDE_LAST_INDEX_START" and room: "free_frames (vm_pmm s) \<noteq> {}"
  shows "\<exists>s'. page_identity_map s addr sz = Inr s' \<and> vm_inv s' \<and>
           (\<forall>va. addr \<le> va \<and> va \<le> addr + sz \<longrightarrow> translate s' va = Some va)"
proof -
  let ?i = "page_get_pd_index addr" and ?e = "page_get_pt_index addr" and ?l = "page_get_pt_index (addr + sz)"
  obtain s1 where s1: "page_get_pt s addr PAGE_ALLOC = Inr (RECURSIVE_INDEX ?i, s1)" "vm_inv s1" "present s1 ?i"
    by (rule page_get_pt_spec [OF inv, of addr]) (use room in auto)
  note i = pd_index_not_window [OF low]
  define g where "g = (\<lambda>j. if ?e \<le> j \<and> j \<le> ?l then (addr + (j - ?e) * PAGE_FRAME_SIZE) OR 7
                           else vm_mem s1 (table s1 ?i) j)"
  have pte: "page_identity_pte s1 (RECURSIVE_INDEX ?i) addr sz = Inr (set_table s1 ?i g)"
    unfolding page_identity_pte_def Let_def g_def
    by (rule page_identity_loop_spec [OF s1(2) i s1(3) page_index_lt(1)]) simp_all
  have "\<not> PAGE_MEMORY < sz"
  proof
    assume "PAGE_MEMORY < sz"
    then have "4194304 < unat sz"
      by (simp add: word_less_nat_alt PAGE_MEMORY_def PAGE_FRAME_SIZE_def)
    moreover have "unat (addr + sz) = unat addr + unat sz"
      by (rule unat_u32_no_wrap [OF sz])
    moreover have "unat addr div 4194304 = unat (addr + sz) div 4194304"
      using one by (metis unat_pd_index)
    ultimately show False
      by linarith
  qed
  then have ps: "(if PAGE_MEMORY - (addr AND 0xFFF) < sz then PAGE_MEMORY - (addr AND 0xFFF) else sz) = sz"
    using al by simp
  have "page_identity_map s addr sz = Inr (set_table s1 ?i g)"
    by (rule page_identity_map_round [OF sz s1(1) ps pte])
  moreover note st = set_table_simps [OF s1(2) i s1(3), of g]
  moreover have "translate (set_table s1 ?i g) va = Some va" if va: "addr \<le> va" "va \<le> addr + sz" for va
  proof -
    note r = entry_in_range [OF va one al]
    have "g (page_get_pt_index va) = frame_of va OR 7"
      using r(2,3,4) by (simp add: g_def)
    then show ?thesis
      using entry_flags [of "frame_of va"] s1(3) frame_offset [of va] by (simp add: translate_alt st r(1) and.assoc)
  qed
  ultimately show ?thesis
    by blast
qed

theorem page_identity_map_one_table_witness:
  "\<exists>s'. page_identity_map vm_sample 0xFEC00000 0x1000 = Inr s' \<and> translate s' 0xFEC00ABC = Some 0xFEC00ABC"
proof -
  have "free_frames (vm_pmm vm_sample) \<noteq> {}"
    using vm_sample_free by auto
  then show ?thesis
    using page_identity_map_one_table [OF vm_sample_inv, of "0xFEC00000" "0x1000"]
    by (auto simp: page_get_pd_index_def PDE_LAST_INDEX_START_def)
qed

text \<open>Fact [page_identity_map_crossing]: the room left in a table is computed from the offset in the page
  instead of the offset in the table.  So for a range that crosses into the next table at a smaller
  entry index than it starts at, \<open>page_identity_map\<close> writes no entry at all: it returns normally and
  the start of the range stays unmapped.\<close>

theorem page_identity_map_crossing:
  assumes inv: "vm_inv s" and sz: "addr < addr + sz" "sz \<le> PAGE_MEMORY - (addr AND 0xFFF)"
    and cross: "page_get_pt_index (addr + sz) < page_get_pt_index addr"
    and room: "free_frames (vm_pmm s) \<noteq> {}" and unmapped: "translate s addr = None"
  shows "\<exists>s'. page_identity_map s addr sz = Inr s' \<and> translate s' addr = None"
proof -
  let ?i = "page_get_pd_index addr"
  obtain s1 where s1: "page_get_pt s addr PAGE_ALLOC = Inr (RECURSIVE_INDEX ?i, s1)"
      "present s ?i \<Longrightarrow> s1 = s" "\<not> present s ?i \<Longrightarrow> vm_mem s1 (table s1 ?i) = (\<lambda>_. 0)"
    by (rule page_get_pt_spec [OF inv, of addr]) (use room in auto)
  have "page_identity_pte s1 (RECURSIVE_INDEX ?i) addr sz = Inr s1"
    using leD [of "page_get_pt_index addr" "page_get_pt_index (addr + sz)"] cross
    by (auto simp: page_identity_pte_def Let_def)
  then have "page_identity_map s addr sz = Inr s1"
    using sz(2) by (intro page_identity_map_round [OF sz(1) s1(1)]) (auto simp: not_less)
  moreover have "translate s1 addr = None"
    using unmapped s1(2,3) by (cases "present s ?i") (simp_all add: translate_alt)
  ultimately show ?thesis
    by blast
qed

theorem page_identity_map_crossing_witness:
  "\<exists>s'. page_identity_map vm_sample 0x3FF000 0x2000 = Inr s' \<and> translate s' 0x3FF000 = None"
proof -
  have "free_frames (vm_pmm vm_sample) \<noteq> {}"
    using vm_sample_free by auto
  moreover have "translate vm_sample 0x3FF000 = None"
    by (simp add: translate_def vm_sample_def page_get_pd_index_def)
  ultimately show ?thesis
    using page_identity_map_crossing [OF vm_sample_inv, of "0x3FF000" "0x2000"]
    by (simp add: page_get_pt_index_def PAGE_MEMORY_def PAGE_FRAME_SIZE_def)
qed

text \<open>Fact [page_lookup_allocates]: \<open>page_get_pt_entry\<close> without the allocation flag, and so
  \<open>page_get_phys_addr\<close>, still takes a frame for the missing table of an unmapped address; the
  lookup then finds no page, and \<open>page_get_phys_addr\<close> reads through the null pointer.\<close>

theorem page_lookup_allocates:
  assumes inv: "vm_inv s" and room: "free_frames (vm_pmm s) \<noteq> {}" and absent: "\<not> present s (page_get_pd_index addr)"
  shows "\<exists>s'. page_get_pt_entry s addr NO_ALLOC = Inr (NULL, s') \<and> present s' (page_get_pd_index addr) \<and>
           page_get_phys_addr s addr = Inl BadAccess"
proof -
  let ?i = "page_get_pd_index addr" and ?j = "page_get_pt_index addr"
  obtain s1 where s1: "page_get_pt s addr PAGE_ALLOC = Inr (RECURSIVE_INDEX ?i, s1)" "present s1 ?i"
      "vm_mem s1 (table s1 ?i) = (\<lambda>_. 0)"
    by (rule page_get_pt_spec [OF inv, of addr]) (use room absent in auto)
  have "read_entry s1 (RECURSIVE_INDEX ?i + 4 * ?j) = Inr 0"
    using window_entry [OF page_index_lt(2,1), of s1 addr addr] s1(2,3) by (simp add: read_entry_def)
  then have "page_get_pt_entry s addr NO_ALLOC = Inr (NULL, s1)"
    using s1(1) by (simp add: page_get_pt_entry_def PT_PRESENT_def not_present_iff Let_def)
  moreover have "read_entry s1 NULL = Inl BadAccess"
    by (simp add: read_entry_def window_def PDE_LAST_INDEX_START_def Let_def)
  ultimately show ?thesis
    using s1(2) by (simp add: page_get_phys_addr_def)
qed

theorem page_lookup_allocates_witness:
  "\<exists>s'. page_get_pt_entry vm_sample 0xD0000000 NO_ALLOC = Inr (NULL, s') \<and> present s' 832"
proof -
  have "free_frames (vm_pmm vm_sample) \<noteq> {}"
    using vm_sample_free by auto
  then show ?thesis
    using page_lookup_allocates [OF vm_sample_inv, of "0xD0000000"]
    by (auto simp: page_get_pd_index_def present_def vm_sample_def)
qed

end
