(* ===== verification/Vmm.thy ===== *)
theory Vmm
  imports Paging
begin

text \<open>
  The kernel heap of \<open>src/kernel/memory/vmm.c\<close>: a general allocator, a first-fit list of free nodes
  kept inside the free memory itself, and a stack of free pages.  The heap is the byte memory the
  kernel sees through its page tables; a \<open>node_t\<close> at an address is two little-endian words, the
  size (or, on the page stack, the page address) and the address of the next node.  New heap pages
  are mapped with \<open>page_get_pt_entry\<close> of \<open>Paging\<close>.

  Loops over the list take the number of bytes of the heap as fuel, which is enough because every
  node of a well-formed list takes eight bytes of it; the loop that enlarges the heap takes the number
  of pages between the end of the list heap and the page stack, each round using one of them.

  Shown here: on a well-formed heap the general allocator hands out a block cut from the free
  bytes, takes exactly that block from them and writes nothing outside of them; freeing the block
  gives exactly these bytes back; what the code does for blocks of less than four bytes
  and for freed pages.
\<close>

section \<open>Words in memory\<close>

definition ld32 :: "mem \<Rightarrow> ptr \<Rightarrow> u32" where
  "ld32 m a = ucast (m a) OR push_bit 8 (ucast (m (a + 1))) OR
     push_bit 16 (ucast (m (a + 2))) OR push_bit 24 (ucast (m (a + 3)))"

definition st32 :: "mem \<Rightarrow> ptr \<Rightarrow> u32 \<Rightarrow> mem" where
  "st32 m a v = m(a := ucast v, a + 1 := ucast (drop_bit 8 v),
     a + 2 := ucast (drop_bit 16 v), a + 3 := ucast (drop_bit 24 v))"

section \<open>State\<close>

definition KHEAP_LIST_START :: ptr where "KHEAP_LIST_START = 0xD0000000"
definition KHEAP_BLOCK_START :: ptr where "KHEAP_BLOCK_START = 0xE0000000 - 0x1000"

text \<open>\<open>sizeof(node_t)\<close> and \<open>sizeof(size_t)\<close> on the 32-bit target.\<close>

definition sizeof_node_t :: u32 where "sizeof_node_t = 8"
definition sizeof_size_t :: u32 where "sizeof_size_t = 4"

record vmm =
  vmm_mem :: mem
  vmm_vm :: vm_state
  kheap_head :: ptr
  kheap_start :: ptr
  kheap_end :: ptr
  kheap_stack_last :: ptr
  kheap_stack_start :: ptr
  kheap_stack_end :: ptr

text \<open>The two fields of a node, as the accesses to them.\<close>

abbreviation node_size :: "mem \<Rightarrow> ptr \<Rightarrow> u32" where "node_size m n \<equiv> ld32 m n"
abbreviation node_next :: "mem \<Rightarrow> ptr \<Rightarrow> ptr" where "node_next m n \<equiv> ld32 m (n + 4)"
abbreviation set_size :: "mem \<Rightarrow> ptr \<Rightarrow> u32 \<Rightarrow> mem" where "set_size m n v \<equiv> st32 m n v"
abbreviation set_next :: "mem \<Rightarrow> ptr \<Rightarrow> ptr \<Rightarrow> mem" where "set_next m n v \<equiv> st32 m (n + 4) v"

definition map_page :: "vmm \<Rightarrow> ptr \<Rightarrow> vmm res" where
  "map_page s addr = rbind (page_get_pt_entry (vmm_vm s) addr PAGE_ALLOC) (\<lambda>(_, vm). Inr (s\<lparr>vmm_vm := vm\<rparr>))"

definition list_fuel :: "vmm \<Rightarrow> nat" where
  "list_fuel s = Suc (unat (kheap_end s - kheap_start s))"

definition page_fuel :: "vmm \<Rightarrow> nat" where
  "page_fuel s = unat (kheap_stack_end s - kheap_end s) div 4096 + 3"

section \<open>The list allocator\<close>

definition vmm_kheap_list_init :: "vmm \<Rightarrow> ptr \<Rightarrow> vmm res" where
  "vmm_kheap_list_init s heap_start =
     rbind (map_page s heap_start) (\<lambda>s.
       let m1 = set_size (vmm_mem s) heap_start (PAGE_FRAME_SIZE - sizeof_node_t);
           m2 = set_next m1 heap_start NULL in
       Inr (s\<lparr>kheap_start := heap_start, kheap_end := heap_start + PAGE_FRAME_SIZE,
              kheap_head := heap_start, vmm_mem := m2\<rparr>))"

definition vmm_node_ret_addr :: "mem \<Rightarrow> ptr \<Rightarrow> ptr" where
  "vmm_node_ret_addr m n = n + sizeof_node_t + node_size m n"

text \<open>The loop of \<open>vmm_sorted_insert\<close>: the node after which to insert.\<close>

fun insert_pos :: "nat \<Rightarrow> mem \<Rightarrow> ptr \<Rightarrow> ptr \<Rightarrow> ptr res" where
  "insert_pos 0 m head inserted = Inl Hang"
| "insert_pos (Suc k) m head inserted =
     (if node_next m head = NULL then Inr head
      else if node_next m head > inserted then Inr head
      else insert_pos k m (node_next m head) inserted)"

definition vmm_sorted_insert :: "nat \<Rightarrow> mem \<Rightarrow> ptr \<Rightarrow> ptr \<Rightarrow> mem res" where
  "vmm_sorted_insert k m head inserted =
     rbind (insert_pos k m head inserted) (\<lambda>head.
       let tmp = node_next m head;
           m1 = set_next m head inserted in
       Inr (set_next m1 inserted tmp))"

fun vmm_merge_free_block :: "nat \<Rightarrow> mem \<Rightarrow> ptr \<Rightarrow> mem res" where
  "vmm_merge_free_block 0 m node = Inl Hang"
| "vmm_merge_free_block (Suc k) m node =
     (if node_next m node = NULL then Inr m
      else
        let node_end = node + node_size m node + sizeof_node_t in
        if node_end = node_next m node then
          let m1 = set_size m node (node_size m node + (node_size m (node_next m node) + sizeof_node_t));
              m2 = set_next m1 node (node_next m1 (node_next m1 node)) in
          vmm_merge_free_block k m2 node
        else vmm_merge_free_block k m (node_next m node))"

text \<open>The pair of the node found and the value left in \<open>*prev\<close>.\<close>

fun vmm_get_node :: "nat \<Rightarrow> mem \<Rightarrow> ptr \<Rightarrow> ptr \<Rightarrow> u32 \<Rightarrow> (ptr \<times> ptr) res" where
  "vmm_get_node 0 m node prev size' = Inl Hang"
| "vmm_get_node (Suc k) m node prev size' =
     (if node = NULL then Inr (NULL, prev)
      else if node_size m node > size' then Inr (node, prev)
      else vmm_get_node k m (node_next m node) node size')"

fun last_node :: "nat \<Rightarrow> mem \<Rightarrow> ptr \<Rightarrow> ptr res" where
  "last_node 0 m tmp = Inl Hang"
| "last_node (Suc k) m tmp = (if node_next m tmp = NULL then Inr tmp else last_node k m (node_next m tmp))"

text \<open>One round of the loop of \<open>vmm_list_alloc\<close> that enlarges the heap by a page.\<close>

definition heap_grow :: "vmm \<Rightarrow> vmm res" where
  "heap_grow s =
     rbind (map_page s (kheap_end s)) (\<lambda>s.
       let new_node = kheap_end s;
           m1 = set_size (vmm_mem s) new_node (PAGE_FRAME_SIZE - sizeof_node_t);
           m2 = set_next m1 new_node NULL in
       rbind (last_node (list_fuel s) m2 (kheap_head s)) (\<lambda>tmp.
         let m3 = set_next m2 tmp new_node;
             s1 = s\<lparr>kheap_end := kheap_end s + PAGE_FRAME_SIZE\<rparr> in
         rbind (vmm_merge_free_block (list_fuel s1) m3 (kheap_head s)) (\<lambda>m4.
           Inr (s1\<lparr>vmm_mem := m4\<rparr>))))"

fun heap_search :: "nat \<Rightarrow> vmm \<Rightarrow> ptr \<Rightarrow> u32 \<Rightarrow> (ptr \<times> ptr \<times> vmm) res" where
  "heap_search 0 s prev size' = Inl Hang"
| "heap_search (Suc k) s prev size' =
     rbind (vmm_get_node (list_fuel s) (vmm_mem s) (kheap_head s) prev size') (\<lambda>(node, prev).
       if node \<noteq> NULL then Inr (node, prev, s)
       else if kheap_end s > kheap_stack_end s then Inr (NULL, prev, s)
       else rbind (heap_grow s) (\<lambda>s. heap_search k s prev size'))"

definition vmm_list_alloc :: "vmm \<Rightarrow> u32 \<Rightarrow> (ptr \<times> vmm) res" where
  "vmm_list_alloc s size' =
     (let size' = size' + sizeof_size_t in
      rbind (heap_search (page_fuel s) s NULL size') (\<lambda>(node, prev, s).
        if node = NULL then Inr (NULL, s)
        else
          let m = set_size (vmm_mem s) node (node_size (vmm_mem s) node - size');
              size_ptr = vmm_node_ret_addr m node;
              (m, size_ptr, size') =
                (if prev \<noteq> NULL \<and> node_size m node = 0
                 then (set_next m prev (node_next m node), size_ptr - sizeof_node_t, size' + sizeof_node_t)
                 else (m, size_ptr, size'))
          in Inr (size_ptr + 4, s\<lparr>vmm_mem := st32 m size_ptr size'\<rparr>)))"

section \<open>The page allocator and the interface\<close>

text \<open>
  \<open>kfree\<close> of a page block asks \<open>kmalloc\<close> for \<open>sizeof(sizeof(node_t))\<close> bytes, four, which is neither
  0 nor a page, so \<open>kmalloc\<close> is \<open>vmm_list_alloc\<close> there; the block is dropped, because the node used is
  the compound literal in the stack frame of \<open>kfree\<close>, at the address \<open>frame\<close>.
\<close>

definition kfree :: "ptr \<Rightarrow> vmm \<Rightarrow> ptr \<Rightarrow> vmm res" where
  "kfree frame s p =
     (if p < kheap_start s \<or> p \<ge> kheap_stack_start s then Inr s
      else if p > kheap_end s then
        let page = p AND NOT 0xFFF in
        rbind (vmm_list_alloc s sizeof_size_t) (\<lambda>(_, s).
          let m1 = set_size (vmm_mem s) frame page;
              m2 = set_next m1 frame (kheap_stack_last s) in
          Inr (s\<lparr>vmm_mem := m2, kheap_stack_last := frame\<rparr>))
      else
        let node = p - sizeof_size_t;
            m1 = set_size (vmm_mem s) node (node_size (vmm_mem s) node - sizeof_node_t) in
        rbind (vmm_sorted_insert (list_fuel s) m1 (kheap_head s) node) (\<lambda>m2.
          rbind (vmm_merge_free_block (list_fuel s) m2 (kheap_head s)) (\<lambda>m3.
            Inr (s\<lparr>vmm_mem := m3\<rparr>))))"

definition vmm_block_alloc :: "ptr \<Rightarrow> vmm \<Rightarrow> (ptr \<times> vmm) res" where
  "vmm_block_alloc frame s =
     (if kheap_stack_end s < kheap_end s then Inr (NULL, s)
      else if kheap_stack_last s \<noteq> NULL then
        let tmp = kheap_stack_last s;
            s = s\<lparr>kheap_stack_last := node_next (vmm_mem s) tmp\<rparr>;
            addr = node_size (vmm_mem s) tmp in
        rbind (kfree frame s tmp) (\<lambda>s. Inr (addr, s))
      else
        let s = s\<lparr>kheap_stack_end := kheap_stack_end s - PAGE_FRAME_SIZE\<rparr> in
        rbind (map_page s (kheap_stack_end s)) (\<lambda>s. Inr (kheap_stack_end s, s)))"

definition kmalloc :: "ptr \<Rightarrow> vmm \<Rightarrow> u32 \<Rightarrow> (ptr \<times> vmm) res" where
  "kmalloc frame s size' =
     (if size' = 0 then Inr (NULL, s)
      else if size' = PAGE_FRAME_SIZE then
        rbind (vmm_block_alloc frame s) (\<lambda>(p, s).
          if p \<noteq> NULL then Inr (p, s) else vmm_list_alloc s size')
      else vmm_list_alloc s size')"

definition vmm_kheap_stack_init :: "ptr \<Rightarrow> vmm \<Rightarrow> ptr \<Rightarrow> vmm res" where
  "vmm_kheap_stack_init frame s heap_stack_start =
     (let s = s\<lparr>kheap_stack_start := heap_stack_start + PAGE_FRAME_SIZE, kheap_stack_end := heap_stack_start\<rparr> in
      rbind (map_page s (kheap_stack_end s)) (\<lambda>s.
        rbind (kmalloc frame s sizeof_node_t) (\<lambda>(n, s).
          let m1 = set_size (vmm_mem s) n (kheap_stack_end s);
              m2 = set_next m1 n NULL in
          Inr (s\<lparr>kheap_stack_last := n, vmm_mem := m2\<rparr>))))"

definition vmm_init :: "ptr \<Rightarrow> vmm \<Rightarrow> vmm res" where
  "vmm_init frame s =
     rbind (vmm_kheap_list_init s KHEAP_LIST_START) (\<lambda>s. vmm_kheap_stack_init frame s KHEAP_BLOCK_START)"

section \<open>Accesses\<close>

lemma bit_ucast_u8 [simp]: "bit (ucast (x :: u8) :: u32) n \<longleftrightarrow> n < 8 \<and> bit x n"
  by (auto simp: bit_simps dest: bit_imp_le_length)

lemma bit_ucast_u32 [simp]: "bit (ucast (x :: u32) :: u8) n \<longleftrightarrow> n < 8 \<and> bit x n"
  by (simp add: bit_simps)

lemma ld32_cong:
  assumes "m a = m' a" "m (a + 1) = m' (a + 1)" "m (a + 2) = m' (a + 2)" "m (a + 3) = m' (a + 3)"
  shows "ld32 m a = ld32 m' a"
  using assms by (simp add: ld32_def)

lemma ld32_st32_same [simp]: "ld32 (st32 m a v) a = v"
proof (rule bit_word_eqI)
  fix n
  assume "n < LENGTH(32)"
  then have "n < 8 \<or> 8 \<le> n \<and> n < 16 \<or> 16 \<le> n \<and> n < 24 \<or> 24 \<le> n \<and> n < 32"
    by auto
  then show "bit (ld32 (st32 m a v) a) n = bit v n"
    by (auto simp: ld32_def st32_def bit_or_iff bit_push_bit_iff bit_drop_bit_eq)
qed

lemma unat_plus_small:
  assumes "unat (a :: u32) + n < 4294967296"
  shows "unat (a + of_nat n) = unat a + n"
  using assms by (simp add: unat_u32_add unat_u32_of_nat)

lemma unat_plus_123:
  assumes "unat (a :: u32) + 3 < 4294967296"
  shows "unat (a + 1) = unat a + 1" "unat (a + 2) = unat a + 2" "unat (a + 3) = unat a + 3"
  using assms unat_plus_small [of a 1] unat_plus_small [of a 2] unat_plus_small [of a 3] by simp_all

lemma st32_other:
  assumes "unat a + 3 < 4294967296" "unat b < unat a \<or> unat a + 4 \<le> unat b"
  shows "st32 m a v b = m b"
  using assms(2) unat_plus_123 [OF assms(1)] unfolding st32_def
  by (auto simp: unat_u32_eq_iff)

lemma ld32_st32_other:
  assumes a: "unat a + 3 < 4294967296" and b: "unat b + 3 < 4294967296"
    and ab: "unat a + 4 \<le> unat b \<or> unat b + 4 \<le> unat a"
  shows "ld32 (st32 m a v) b = ld32 m b"
  using ab by (intro ld32_cong; intro st32_other [OF a]; auto simp: unat_plus_123 [OF b])

lemma ld32_below:
  assumes "\<And>c. unat c < t \<Longrightarrow> m' c = m c" "unat r + 4 \<le> t" "t \<le> 4294967296"
  shows "ld32 m' r = ld32 m r"
  using assms unat_plus_123 [of r] by (intro ld32_cong assms(1)) auto

section \<open>Well-formed heaps\<close>

text \<open>The nodes of the list at an address, with the number of bytes each has after its header.\<close>

fun fl :: "mem \<Rightarrow> ptr \<Rightarrow> (nat \<times> nat) list \<Rightarrow> bool" where
  "fl m p [] \<longleftrightarrow> p = NULL"
| "fl m p ((a, n) # xs) \<longleftrightarrow> p = of_nat a \<and> node_size m p = of_nat n \<and> fl m (node_next m p) xs"

text \<open>The nodes lie one after the other between two addresses.\<close>

fun segs :: "nat \<Rightarrow> nat \<Rightarrow> (nat \<times> nat) list \<Rightarrow> bool" where
  "segs lo hi [] \<longleftrightarrow> lo \<le> hi"
| "segs lo hi ((a, n) # xs) \<longleftrightarrow> lo \<le> a \<and> segs (a + 8 + n) hi xs"

definition free_bytes :: "(nat \<times> nat) list \<Rightarrow> nat set" where
  "free_bytes xs = (\<Union>(a, n) \<in> set xs. {a..<a + 8 + n})"

text \<open>The head of the list is the start of the heap, which is never handed out.\<close>

definition heap_ok :: "vmm \<Rightarrow> (nat \<times> nat) list \<Rightarrow> bool" where
  "heap_ok s xs \<longleftrightarrow> fl (vmm_mem s) (kheap_head s) xs \<and> kheap_head s = kheap_start s \<and>
     xs \<noteq> [] \<and> fst (hd xs) = unat (kheap_start s) \<and> 0 < unat (kheap_start s) \<and>
     segs (unat (kheap_start s)) (unat (kheap_end s)) xs"

lemma free_bytes_Nil [simp]: "free_bytes [] = {}"
  by (simp add: free_bytes_def)

lemma free_bytes_Cons [simp]: "free_bytes ((a, n) # xs) = {a..<a + 8 + n} \<union> free_bytes xs"
  by (simp add: free_bytes_def)

lemma free_bytes_append [simp]: "free_bytes (xs @ ys) = free_bytes xs \<union> free_bytes ys"
  by (simp add: free_bytes_def)

lemma segs_mono: "segs lo hi xs \<Longrightarrow> lo' \<le> lo \<Longrightarrow> hi \<le> hi' \<Longrightarrow> segs lo' hi' xs"
  by (induction xs arbitrary: lo lo') auto

lemma segs_le: "segs lo hi xs \<Longrightarrow> lo \<le> hi"
  by (induction xs arbitrary: lo) force+

lemma segs_bytes: "segs lo hi xs \<Longrightarrow> b \<in> free_bytes xs \<Longrightarrow> lo \<le> b \<and> b < hi"
proof (induction xs arbitrary: lo)
  case (Cons x xs)
  then show ?case
    by (cases x) (force dest: segs_le)
qed simp

lemma segs_length: "segs lo hi xs \<Longrightarrow> lo + 8 * length xs \<le> hi"
  by (induction xs arbitrary: lo) force+

lemma segs_append: "segs lo hi (xs @ ys) \<longleftrightarrow> (\<exists>mid. segs lo mid xs \<and> segs mid hi ys)"
proof (induction xs arbitrary: lo)
  case Nil
  then show ?case
    by (auto intro: segs_mono)
qed auto

lemma segs_Cons_tail: "segs lo hi (x # xs) \<Longrightarrow> segs lo hi xs"
  by (cases x) (auto intro: segs_mono)

lemma fl_hd: "fl m p xs \<Longrightarrow> xs \<noteq> [] \<Longrightarrow> p = of_nat (fst (hd xs))"
  by (cases xs) auto

lemma fl_null_iff: "fl m p xs \<Longrightarrow> segs lo hi xs \<Longrightarrow> 0 < lo \<Longrightarrow> hi < 4294967296 \<Longrightarrow> p = NULL \<longleftrightarrow> xs = []"
proof (cases xs)
  case (Cons x ys)
  assume "fl m p xs" "segs lo hi xs" "0 < lo" "hi < 4294967296"
  then have "p = of_nat (fst x)" "0 < fst x" "fst x < 4294967296"
    using Cons by (cases x; force dest: segs_le)+
  then have "unat p = fst x"
    by (simp add: unat_u32_of_nat)
  then show ?thesis
    using Cons \<open>0 < fst x\<close> by auto
qed simp

text \<open>A node's header is inside its bytes, so writes outside of the free bytes keep the list.\<close>

lemma fl_frame:
  assumes "fl m p xs" "segs lo hi xs" "hi \<le> 4294967296"
    and "\<And>b. unat b \<in> free_bytes xs \<Longrightarrow> m' b = m b"
  shows "fl m' p xs"
  using assms
proof (induction xs arbitrary: p lo)
  case (Cons x xs)
  obtain a n where x: "x = (a, n)" by (cases x)
  have hi: "a + 8 + n \<le> hi"
    using Cons.prems(2) x segs_le by auto
  then have ua: "unat p = a" "unat (p + 4) = a + 4"
    using Cons.prems(1,3) x unat_plus_small [of p 4] by (auto simp: unat_u32_of_nat)
  have "ld32 m' q = ld32 m q" if "q = p \<or> q = p + 4" for q
    using that ua hi Cons.prems(3) unat_plus_123 [of q] by (intro ld32_cong; intro Cons.prems(4)) (auto simp: x)
  moreover have "fl m' (node_next m p) xs"
    using Cons.IH [of "node_next m p" "a + 8 + n"] Cons.prems x by auto
  ultimately show ?case
    using Cons.prems(1) x by auto
qed simp

lemma fl_frame_range:
  assumes "fl m p xs" "segs lo hi xs" "hi < 4294967296"
    and "\<And>b. lo \<le> unat b \<Longrightarrow> m' b = m b"
  shows "fl m' p xs"
proof (rule fl_frame [OF assms(1,2)])
  show "m' b = m b" if "unat b \<in> free_bytes xs" for b
    using segs_bytes [OF assms(2) that] by (intro assms(4)) simp
qed (use assms(3) in simp)

lemma node_bounds:
  fixes p :: ptr
  assumes "segs lo hi ((a, n) # xs)" "hi < 4294967296" "p = of_nat a"
  shows "unat p = a" "unat (p + 4) = a + 4" "a + 8 + n \<le> hi"
    "unat p + 3 < 4294967296" "unat (p + 4) + 3 < 4294967296"
proof -
  show le: "a + 8 + n \<le> hi"
    using assms(1) segs_le by auto
  show u: "unat p = a" "unat (p + 4) = a + 4"
    using le assms(2,3) unat_plus_small [of p 4] by (auto simp: unat_u32_of_nat)
  show "unat p + 3 < 4294967296" "unat (p + 4) + 3 < 4294967296"
    using le assms(2) u by auto
qed

lemma node_size_next:
  assumes "unat p + 7 < 4294967296"
  shows "node_size (set_next m p v) p = node_size m p" "node_next (set_size m p v) p = node_next m p"
proof -
  have "unat (p + 4) = unat p + 4"
    using assms unat_plus_small [of p 4] by simp
  then show "node_size (set_next m p v) p = node_size m p" "node_next (set_size m p v) p = node_next m p"
    using assms by (auto intro: ld32_st32_other)
qed

text \<open>Changing the number of bytes of a node of the list to at most what it was.\<close>

lemma fl_set_size:
  assumes "fl m p (ys @ (a, n) # zs)" "segs lo hi (ys @ (a, n) # zs)" "hi < 4294967296"
  shows "fl (set_size m (of_nat a) (of_nat k)) p (ys @ (a, k) # zs)"
  using assms
proof (induction ys arbitrary: p lo)
  case Nil
  let ?p = "of_nat a :: ptr"
  have b: "unat ?p = a" "a + 8 + n \<le> hi" "unat ?p + 3 < 4294967296" "unat ?p + 7 < 4294967296"
    using node_bounds [of lo hi a n zs ?p] Nil by auto
  have seg: "segs (a + 8 + n) hi zs"
    using Nil by simp
  have "fl (set_size m ?p (of_nat k)) (node_next m ?p) zs"
  proof (rule fl_frame_range [OF _ seg Nil(3)])
    show "fl m (node_next m ?p) zs"
      using Nil(1) by auto
    show "st32 m ?p (of_nat k) c = m c" if "a + 8 + n \<le> unat c" for c
      using that b by (intro st32_other) auto
  qed
  then show ?case
    using Nil(1) b by (simp add: node_size_next)
next
  case (Cons y ys)
  obtain c d where y: "y = (c, d)" by (cases y)
  let ?p = "of_nat a :: ptr"
  have hd: "p = of_nat c" "node_size m p = of_nat d" "fl m (node_next m p) (ys @ (a, n) # zs)"
    "segs (c + 8 + d) hi (ys @ (a, n) # zs)"
    using Cons.prems y by auto
  have "a \<in> free_bytes (ys @ (a, n) # zs)"
    by simp
  then have ca: "c + 8 + d \<le> a" "a < hi"
    using segs_bytes [OF hd(4)] by auto
  have "a + 8 + n \<le> hi"
    using hd(4) by (auto simp: segs_append dest: segs_le)
  then have ua: "unat ?p = a" "unat ?p + 3 < 4294967296"
    using Cons.prems(3) by (simp_all add: unat_u32_of_nat)
  have up: "unat p = c" "unat (p + 4) = c + 4" "unat p + 3 < 4294967296" "unat (p + 4) + 3 < 4294967296"
    using node_bounds [of lo hi c d "ys @ (a, n) # zs" p] Cons.prems y hd(1) by auto
  have "ld32 (set_size m ?p (of_nat k)) q = ld32 m q" if "q = p \<or> q = p + 4" for q
    using that ca ua up by (intro ld32_st32_other) auto
  then show ?case
    using Cons.IH [OF hd(3,4) Cons.prems(3)] hd y by auto
qed

section \<open>Merging\<close>

fun mg :: "(nat \<times> nat) list \<Rightarrow> (nat \<times> nat) list" where
  "mg ((a, n) # (b, k) # xs) = (if a + 8 + n = b then mg ((a, n + k + 8) # xs) else (a, n) # mg ((b, k) # xs))"
| "mg [] = []"
| "mg [x] = [x]"

lemma segs_mg: "segs lo hi xs \<Longrightarrow> segs lo hi (mg xs)"
  by (induction xs arbitrary: lo rule: mg.induct) (auto simp: algebra_simps)

lemma free_bytes_mg [simp]: "free_bytes (mg xs) = free_bytes xs"
proof (induction xs rule: mg.induct)
  case (1 a n b k xs)
  have "{a..<a + 8 + (n + k + 8)} = {a..<a + 8 + n} \<union> {b..<b + 8 + k}" if "a + 8 + n = b"
  proof -
    have "a + 8 + (n + k + 8) = b + 8 + k"
      using that by simp
    then show ?thesis
      using ivl_disj_un_two(3) [of a b "b + 8 + k"] that by (simp only:)
  qed
  then show ?case
    using 1 by (cases "a + 8 + n = b") (simp_all add: Un_assoc)
qed simp_all

lemma mg_hd: "xs \<noteq> [] \<Longrightarrow> mg xs \<noteq> [] \<and> fst (hd (mg xs)) = fst (hd xs)"
  by (induction xs rule: mg.induct) auto

lemma merge_step:
  assumes "fl m p ((a, n) # (b, k) # xs)" "segs lo hi ((a, n) # (b, k) # xs)" "hi < 4294967296"
    and "a + 8 + n = b" and "q = node_next m p"
    and m1: "m1 = set_size m p (node_size m p + (node_size m q + sizeof_node_t))"
    and m2: "m2 = set_next m1 p (node_next m1 q)"
  shows "node_next m1 p = q" "fl m2 p ((a, n + k + 8) # xs)"
    "unat c \<notin> {a..<a + 8} \<Longrightarrow> m2 c = m c"
proof -
  have p: "unat p = a" "unat (p + 4) = a + 4" "unat p + 3 < 4294967296" "unat (p + 4) + 3 < 4294967296" "unat p + 7 < 4294967296"
    using node_bounds [of lo hi a n "(b, k) # xs" p] assms(1-3) by auto
  have q: "unat q = b" "unat (q + 4) = b + 4" "unat q + 3 < 4294967296" "unat (q + 4) + 3 < 4294967296"
    using node_bounds [of "a + 8 + n" hi b k xs q] assms(1-3,5) by auto
  show nx: "node_next m1 p = q"
    using p(5) assms(5) by (simp add: m1 node_size_next)
  have nq: "node_next m1 q = node_next m q"
    unfolding m1 using p q assms(4) by (intro ld32_st32_other) auto
  show out: "m2 c = m c" if "unat c \<notin> {a..<a + 8}" for c
  proof -
    have "m2 c = m1 c"
      unfolding m2 using p that by (intro st32_other) auto
    also have "\<dots> = m c"
      unfolding m1 using p that by (intro st32_other) auto
    finally show ?thesis .
  qed
  have sz: "node_size m p = of_nat n" "node_size m q = of_nat k"
    using assms(1,5) by auto
  have "node_size m2 p = of_nat (n + k + 8)"
    using p(5) sz by (simp add: m2 m1 node_size_next sizeof_node_t_def)
  moreover have seg: "segs (b + 8 + k) hi xs"
    using assms(2) by simp
  have "fl m2 (node_next m q) xs"
  proof (rule fl_frame_range [OF _ seg assms(3)])
    show "fl m (node_next m q) xs"
      using assms(1,5) by auto
    show "m2 c = m c" if "b + 8 + k \<le> unat c" for c
      using that assms(4) by (intro out) auto
  qed
  ultimately show "fl m2 p ((a, n + k + 8) # xs)"
    using assms(1) by (simp add: m2 nq)
qed

lemma merge_spec:
  assumes "fl m p xs" "xs \<noteq> []" "segs lo hi xs" "0 < lo" "hi < 4294967296" "length xs \<le> fuel"
  shows "\<exists>m'. vmm_merge_free_block fuel m p = Inr m' \<and> fl m' p (mg xs) \<and> (\<forall>b. unat b \<notin> free_bytes xs \<longrightarrow> m' b = m b)"
  using assms
proof (induction xs arbitrary: fuel m p lo rule: mg.induct)
  case (1 a n b k xs)
  obtain f where f: "fuel = Suc f"
    using 1(8) by (cases fuel) auto
  let ?q = "node_next m p"
  have seg2: "segs (a + 8 + n) hi ((b, k) # xs)" and fl2: "fl m ?q ((b, k) # xs)"
    using 1(3,5) by auto
  note p = node_bounds [OF 1(5,7), of p] and q = node_bounds [OF seg2 1(7), of ?q]
  have q0: "?q \<noteq> NULL"
    using fl_null_iff [OF fl2 seg2] 1(7) by simp
  have ne: "p + node_size m p + sizeof_node_t = of_nat (a + 8 + n)"
  proof -
    have "p = of_nat a" "node_size m p = of_nat n"
      using 1(3) by auto
    then show ?thesis
      by (simp only: sizeof_node_t_def) simp
  qed
  have "unat (of_nat (a + 8 + n) :: u32) = a + 8 + n"
    using p(3) 1(3,7) by (intro unat_u32_of_nat) auto
  then have touch: "p + node_size m p + sizeof_node_t = ?q \<longleftrightarrow> a + 8 + n = b"
    using q(1) 1(3) unfolding ne unat_u32_eq_iff by auto
  show ?case
  proof (cases "a + 8 + n = b")
    case True
    define m1 where "m1 = set_size m p (node_size m p + (node_size m ?q + sizeof_node_t))"
    define m2 where "m2 = set_next m1 p (node_next m1 ?q)"
    note st = merge_step [OF 1(3,5,7) True refl m1_def m2_def]
    have run: "vmm_merge_free_block fuel m p = vmm_merge_free_block f m2 p"
      using q0 touch True st(1) unfolding f by (simp add: Let_def m1_def [symmetric] m2_def [symmetric])
    have "b + 8 + k = a + 8 + (n + k + 8)"
      using True by simp
    then have "segs lo hi ((a, n + k + 8) # xs)"
      using 1(5) by (simp only: segs.simps)
    then obtain m' where m': "vmm_merge_free_block f m2 p = Inr m'" "fl m' p (mg ((a, n + k + 8) # xs))"
        "\<forall>b. unat b \<notin> free_bytes ((a, n + k + 8) # xs) \<longrightarrow> m' b = m2 b"
      using 1(1) [OF True st(2) _ _ 1(6,7), of f] 1(8) f by auto
    have "m' c = m c" if "unat c \<notin> free_bytes ((a, n) # (b, k) # xs)" for c
      using that m'(3) st(3) [of c] True by auto
    then show ?thesis
      using m' run True by auto
  next
    case False
    have run: "vmm_merge_free_block fuel m p = vmm_merge_free_block f m ?q"
      using q0 touch False unfolding f by (simp add: Let_def)
    obtain m' where m': "vmm_merge_free_block f m ?q = Inr m'" "fl m' ?q (mg ((b, k) # xs))"
        "\<forall>c. unat c \<notin> free_bytes ((b, k) # xs) \<longrightarrow> m' c = m c"
      using 1(2) [OF False fl2 _ seg2 _ 1(7), of f] 1(8) f by auto
    have "ld32 m' r = ld32 m r" if "r = p \<or> r = p + 4" for r
    proof (rule ld32_below [of "a + 8"])
      show "m' c = m c" if "unat c < a + 8" for c
        using that segs_bytes [OF seg2, of "unat c"] m'(3) by force
    qed (use that p 1(3,7) in auto)
    then have "fl m' p (mg ((a, n) # (b, k) # xs))"
      using False 1(3) m'(2) by auto
    then show ?thesis
      using run m'(1,3) by auto
  qed
next
  case (3 v)
  obtain f where "fuel = Suc f"
    using 3 by (cases fuel) auto
  then show ?case
    using 3 by (cases v) auto
qed auto

section \<open>Inserting\<close>

fun ins_after :: "nat \<times> nat \<Rightarrow> (nat \<times> nat) list \<Rightarrow> (nat \<times> nat) list" where
  "ins_after e (x # y # ys) = (if fst e < fst y then x # e # y # ys else x # ins_after e (y # ys))"
| "ins_after e [] = [e]"
| "ins_after e [x] = [x, e]"

lemma set_ins_after: "set (ins_after e xs) = insert e (set xs)"
  by (induction e xs rule: ins_after.induct) auto

lemma free_bytes_ins_after: "free_bytes (ins_after (a, n) xs) = {a..<a + 8 + n} \<union> free_bytes xs"
  by (auto simp: free_bytes_def set_ins_after)

lemma ins_after_hd: "xs \<noteq> [] \<Longrightarrow> ins_after e xs \<noteq> [] \<and> hd (ins_after e xs) = hd xs"
  by (induction e xs rule: ins_after.induct) auto

lemma length_ins_after: "length (ins_after e xs) = Suc (length xs)"
  by (induction e xs rule: ins_after.induct) auto

lemma segs_ins_after:
  assumes "segs lo hi xs" "xs \<noteq> []" "fst (hd xs) < a" "a + 8 + n \<le> hi" "{a..<a + 8 + n} \<inter> free_bytes xs = {}"
  shows "segs lo hi (ins_after (a, n) xs)"
  using assms
proof (induction "(a, n)" xs arbitrary: lo rule: ins_after.induct)
  case (1 x y ys)
  obtain b k c j where x: "x = (b, k)" "y = (c, j)"
    by (cases x, cases y)
  have ba: "b + 8 + k \<le> a"
  proof (rule ccontr)
    assume "\<not> b + 8 + k \<le> a"
    then have "a \<in> {a..<a + 8 + n} \<inter> free_bytes (x # y # ys)"
      using 1(4) x by auto
    then show False
      using 1(6) by auto
  qed
  show ?case
  proof (cases "a < c")
    case True
    have "a + 8 + n \<le> c"
    proof (rule ccontr)
      assume "\<not> a + 8 + n \<le> c"
      then have "c \<in> {a..<a + 8 + n} \<inter> free_bytes (x # y # ys)"
        using True x by auto
      then show False
        using 1(6) by auto
    qed
    then show ?thesis
      using True ba 1(2) x by auto
  next
    case False
    have "c \<noteq> a"
    proof
      assume "c = a"
      then have "a \<in> {a..<a + 8 + n} \<inter> free_bytes (x # y # ys)"
        using x by auto
      then show False
        using 1(6) by auto
    qed
    then have "segs (b + 8 + k) hi (ins_after (a, n) (y # ys))"
      using False 1(2,5,6) x by (intro 1(1)) auto
    then show ?thesis
      using False 1(2) x by auto
  qed
next
  case (3 x)
  obtain b k where x: "x = (b, k)" by (cases x)
  have "b + 8 + k \<le> a"
  proof (rule ccontr)
    assume "\<not> b + 8 + k \<le> a"
    then have "a \<in> {a..<a + 8 + n} \<inter> free_bytes [x]"
      using 3 x by auto
    then show False
      using 3 by auto
  qed
  then show ?case
    using 3 x by auto
qed simp

lemma insert_here:
  assumes "fl m p ((b, k) # zs)" "segs (a + 8 + n) hi zs" "hi < 4294967296" "b + 8 + k \<le> a"
    and "node_size m (of_nat a) = of_nat n"
    and m': "m' = set_next (set_next m p (of_nat a)) (of_nat a) (node_next m p)"
  shows "fl m' p ((b, k) # (a, n) # zs)" "unat c \<notin> {a..<a + 8 + n} \<union> {b..<b + 8 + k} \<Longrightarrow> m' c = m c"
proof -
  let ?a = "of_nat a :: ptr"
  have "segs b hi ((b, k) # (a, n) # zs)" "segs (b + 8 + k) hi ((a, n) # zs)"
    using assms(2,4) by auto
  note bb = node_bounds [OF this(1) assms(3), of p] and ba = node_bounds [OF this(2) assms(3), of ?a]
  have p: "unat p = b" "unat (p + 4) = b + 4" "unat (p + 4) + 3 < 4294967296" "unat p + 7 < 4294967296"
    and fld: "node_size m p = of_nat k" "fl m (node_next m p) zs" "p = of_nat b"
    using bb assms(1) by auto
  have a: "unat ?a = a" "unat (?a + 4) = a + 4" "unat (?a + 4) + 3 < 4294967296" "unat ?a + 7 < 4294967296"
    using ba by auto
  show out: "m' c = m c" if "unat c \<notin> {a..<a + 8 + n} \<union> {b..<b + 8 + k}" for c
  proof -
    have "m' c = set_next m p ?a c"
      unfolding m' using a that by (intro st32_other) auto
    also have "\<dots> = m c"
      using p that by (intro st32_other) auto
    finally show ?thesis .
  qed
  have "ld32 m' r = ld32 (set_next m p ?a) r" if "r = p \<or> r = p + 4" for r
    unfolding m' using that a p assms(4) by (intro ld32_st32_other) auto
  then have np: "node_size m' p = of_nat k" "node_next m' p = ?a"
    using p fld by (simp_all add: node_size_next)
  have "node_size m' ?a = node_size m ?a" "node_next m' ?a = node_next m p"
    unfolding m' using a p assms(4) by (simp_all add: node_size_next ld32_st32_other)
  moreover have "fl m' (node_next m p) zs"
  proof (rule fl_frame_range [OF fld(2) assms(2,3)])
    show "m' c = m c" if "a + 8 + n \<le> unat c" for c
      using that assms(4) by (intro out) auto
  qed
  ultimately show "fl m' p ((b, k) # (a, n) # zs)"
    using np fld(3) assms(5) by simp
qed

lemma insert_spec:
  assumes "fl m p xs" "xs \<noteq> []" "segs lo hi xs" "0 < lo" "hi < 4294967296" "length xs \<le> fuel"
    and "fst (hd xs) < a" "a + 8 + n \<le> hi" "{a..<a + 8 + n} \<inter> free_bytes xs = {}"
    and "node_size m (of_nat a) = of_nat n"
  shows "\<exists>h m'. insert_pos fuel m p (of_nat a) = Inr h \<and>
           m' = set_next (set_next m h (of_nat a)) (of_nat a) (node_next m h) \<and>
           fl m' p (ins_after (a, n) xs) \<and>
           (\<forall>b. unat b \<notin> {a..<a + 8 + n} \<union> free_bytes xs \<longrightarrow> m' b = m b)"
  using assms
proof (induction "(a, n)" xs arbitrary: fuel p lo rule: ins_after.induct)
  case (1 x y ys)
  obtain b k c j where x: "x = (b, k)" "y = (c, j)"
    by (cases x, cases y)
  obtain f where f: "fuel = Suc f"
    using 1(7) by (cases fuel) auto
  have "segs lo hi (ins_after (a, n) (x # y # ys))"
    using 1(4,8,9,10) by (intro segs_ins_after) simp_all
  note sg = this [unfolded x]
  let ?q = "node_next m p"
  have seg2: "segs (b + 8 + k) hi (y # ys)" and fl2: "fl m ?q (y # ys)"
    using 1(2,4) x by auto
  have c: "unat ?q = c"
    using node_bounds(1) [of "b + 8 + k" hi c j ys ?q] seg2 fl2 1(6) x by auto
  have ua: "unat (of_nat a :: u32) = a"
    using 1(6,9) by (intro unat_u32_of_nat) simp
  have q0: "?q \<noteq> NULL"
    using fl_null_iff [OF fl2 seg2] 1(6) by simp
  have cmp: "?q > of_nat a \<longleftrightarrow> a < c"
    by (simp add: word_less_nat_alt ua c)
  have ba: "b + 8 + k \<le> a"
    using sg seg2 x by (cases "a < c") auto
  show ?case
  proof (cases "a < c")
    case True
    then have "segs (a + 8 + n) hi (y # ys)"
      using sg x by simp
    from insert_here [OF _ this 1(6) ba 1(11) refl] show ?thesis
      using True q0 cmp f x 1(2) by auto
  next
    case False
    have dis: "{a..<a + 8 + n} \<inter> free_bytes (y # ys) = {}"
      using 1(10) x by auto
    have "a \<notin> free_bytes (y # ys)"
      using disjoint_iff [THEN iffD1, OF dis] by auto
    then have "c \<noteq> a"
      using x by auto
    then obtain h m' where h: "insert_pos f m ?q (of_nat a) = Inr h"
        "m' = set_next (set_next m h (of_nat a)) (of_nat a) (node_next m h)"
        "fl m' ?q (ins_after (a, n) (y # ys))"
        "\<forall>b. unat b \<notin> {a..<a + 8 + n} \<union> free_bytes (y # ys) \<longrightarrow> m' b = m b"
      using 1(1) [OF _ fl2 _ seg2 _ 1(6), of f] False x 1(7,9,11) dis f by auto
    have "ld32 m' r = ld32 m r" if "r = p \<or> r = p + 4" for r
    proof (rule ld32_below [of "b + 8"])
      show "m' d = m d" if "unat d < b + 8" for d
        using that segs_bytes [OF seg2, of "unat d"] h(4) ba by force
    qed (use that node_bounds [of lo hi b k "y # ys" p] 1(2,4,6) x in auto)
    then have "fl m' p (ins_after (a, n) (x # y # ys))"
      using False x 1(2) h(3) by auto
    then show ?thesis
      using h q0 cmp False f x by auto
  qed
next
  case (3 x)
  obtain b k where x: "x = (b, k)" by (cases x)
  obtain f where f: "fuel = Suc f"
    using 3(6) by (cases fuel) auto
  have "segs lo hi (ins_after (a, n) [x])"
    using 3(3,7,8,9) by (intro segs_ins_after) simp_all
  then have "b + 8 + k \<le> a" "segs (a + 8 + n) hi []"
    using x by auto
  from insert_here [OF _ this(2) 3(5) this(1) 3(10) refl, of p] show ?case
    using 3(1) x f by auto
qed simp

section \<open>Freeing and allocating\<close>

lemma list_fuel_ok:
  assumes "segs (unat (kheap_start s)) (unat (kheap_end s)) xs"
  shows "length xs < list_fuel s"
proof -
  have le: "unat (kheap_start s) \<le> unat (kheap_end s)"
    using segs_le [OF assms] .
  then have "unat (kheap_end s - kheap_start s) = unat (kheap_end s) - unat (kheap_start s)"
    by (simp add: unat_sub word_le_nat_alt)
  then show ?thesis
    using segs_length [OF assms] le by (simp add: list_fuel_def)
qed

text \<open>A block in the heap: its header word, which holds the block's length, and the bytes after it.\<close>

definition heap_block :: "vmm \<Rightarrow> ptr \<Rightarrow> nat \<Rightarrow> bool" where
  "heap_block s p t \<longleftrightarrow> unat (kheap_start s) + 8 \<le> unat p - 4 \<and> unat p - 4 + t \<le> unat (kheap_end s) \<and>
     4 \<le> t \<and> ld32 (vmm_mem s) (p - 4) = of_nat t"

definition block_bytes :: "ptr \<Rightarrow> nat \<Rightarrow> nat set" where
  "block_bytes p t = {unat p - 4..<unat p - 4 + t}"

lemma unat_minus_4: "4 \<le> unat (p :: u32) \<Longrightarrow> unat (p - 4) = unat p - 4"
  by (simp add: unat_sub word_le_nat_alt)

lemma kfree_list:
  assumes ok: "heap_ok s xs" and blk: "heap_block s p t" "8 \<le> t" "block_bytes p t \<inter> free_bytes xs = {}"
    and "kheap_end s < kheap_stack_start s"
  shows "\<exists>m' xs'. kfree frame s p = Inr (s\<lparr>vmm_mem := m'\<rparr>) \<and> heap_ok (s\<lparr>vmm_mem := m'\<rparr>) xs' \<and>
           free_bytes xs' = free_bytes xs \<union> block_bytes p t \<and>
           (\<forall>b. unat b \<notin> free_bytes xs' \<longrightarrow> m' b = vmm_mem s b)"
proof -
  let ?lo = "unat (kheap_start s)" and ?hi = "unat (kheap_end s)" and ?m = "vmm_mem s" and ?f = "list_fuel s"
  define a where "a = unat p - 4"
  have okD: "fl ?m (kheap_head s) xs" "kheap_head s = kheap_start s" "xs \<noteq> []" "fst (hd xs) = ?lo" "0 < ?lo" "segs ?lo ?hi xs"
    using ok by (auto simp: heap_ok_def)
  have hi: "?hi < 4294967296"
    by (rule unat_u32_lt)
  have a: "?lo + 8 \<le> a" "a + t \<le> ?hi" "ld32 ?m (p - 4) = of_nat t"
    using blk(1) by (auto simp: heap_block_def a_def)
  have p: "p - sizeof_size_t = of_nat a" "p - 4 = of_nat a" "unat (of_nat a :: u32) = a"
    using a unat_minus_4 [of p] by (auto simp: a_def sizeof_size_t_def unat_u32_eq_iff unat_u32_of_nat)
  have dis: "{a..<a + 8 + (t - 8)} \<inter> free_bytes xs = {}"
    using blk(2,3) by (simp add: block_bytes_def a_def)
  have t8: "(of_nat t - sizeof_node_t :: u32) = of_nat (t - 8)"
    using blk(2) by (simp add: sizeof_node_t_def of_nat_diff)
  define m1 where "m1 = set_size ?m (of_nat a) (of_nat (t - 8))"
  have out1: "m1 b = ?m b" if "unat b \<notin> {a..<a + 8 + (t - 8)}" for b
    unfolding m1_def using that p(3) a(2) blk(2) hi by (intro st32_other) auto
  have fl1: "fl m1 (kheap_head s) xs"
  proof (rule fl_frame [OF okD(1,6)])
    show "m1 b = ?m b" if "unat b \<in> free_bytes xs" for b
      using that dis by (intro out1) auto
  qed (use hi in simp)
  have len: "length xs \<le> ?f" "length (ins_after (a, t - 8) xs) \<le> ?f"
    using list_fuel_ok [OF okD(6)] by (simp_all add: length_ins_after)
  have ahi: "fst (hd xs) < a" "a + 8 + (t - 8) \<le> ?hi"
    using a okD(4) blk(2) by simp_all
  obtain h m2 where h: "insert_pos ?f m1 (kheap_head s) (of_nat a) = Inr h"
      "m2 = set_next (set_next m1 h (of_nat a)) (of_nat a) (node_next m1 h)"
      "fl m2 (kheap_head s) (ins_after (a, t - 8) xs)"
      "\<forall>b. unat b \<notin> {a..<a + 8 + (t - 8)} \<union> free_bytes xs \<longrightarrow> m2 b = m1 b"
    using insert_spec [OF fl1 okD(3,6,5) hi len(1) ahi dis] unfolding m1_def by auto
  have seg2: "segs ?lo ?hi (ins_after (a, t - 8) xs)"
    using segs_ins_after [OF okD(6,3) ahi dis] .
  obtain m3 where m3: "vmm_merge_free_block ?f m2 (kheap_head s) = Inr m3" "fl m3 (kheap_head s) (mg (ins_after (a, t - 8) xs))"
      "\<forall>b. unat b \<notin> free_bytes (ins_after (a, t - 8) xs) \<longrightarrow> m3 b = m2 b"
    using merge_spec [OF h(3) _ seg2 okD(5) hi len(2)] ins_after_hd [OF okD(3), of "(a, t - 8)"] by blast
  have guard: "\<not> p < kheap_start s" "\<not> p \<ge> kheap_stack_start s" "\<not> p > kheap_end s"
    using a blk(1,2) assms(5) by (auto simp: word_less_nat_alt word_le_nat_alt a_def heap_block_def)
  have run: "kfree frame s p = Inr (s\<lparr>vmm_mem := m3\<rparr>)"
    unfolding kfree_def using guard p a(3) t8 h(1,2) m3(1)
    by (simp add: vmm_sorted_insert_def m1_def [symmetric] Let_def)
  have fb: "free_bytes (mg (ins_after (a, t - 8) xs)) = free_bytes xs \<union> block_bytes p t"
    using blk(2) by (auto simp: free_bytes_ins_after block_bytes_def a_def)
  have "heap_ok (s\<lparr>vmm_mem := m3\<rparr>) (mg (ins_after (a, t - 8) xs))"
    using okD m3(2) segs_mg [OF seg2] mg_hd [of "ins_after (a, t - 8) xs"] ins_after_hd [OF okD(3), of "(a, t - 8)"]
    by (auto simp: heap_ok_def)
  moreover have "m3 b = ?m b" if "unat b \<notin> free_bytes (mg (ins_after (a, t - 8) xs))" for b
    using that m3(3) h(4) out1 [of b] by (simp add: free_bytes_ins_after)
  ultimately show ?thesis
    using run fb by blast
qed

lemma get_node_found:
  assumes "fl m p (ys @ (a, n) # zs)" "segs lo hi (ys @ (a, n) # zs)" "0 < lo" "hi < 4294967296"
    and "length ys < fuel" "\<forall>(b, k) \<in> set ys. k \<le> unat r" "unat r < n"
  shows "\<exists>prev'. vmm_get_node fuel m p prev r = Inr (of_nat a, prev')"
  using assms
proof (induction ys arbitrary: p lo prev fuel)
  case Nil
  then obtain f where f: "fuel = Suc f"
    by (cases fuel) auto
  have "p \<noteq> NULL"
    using fl_null_iff [OF Nil(1-4)] by simp
  moreover have "n < 4294967296"
    using segs_le [of "a + 8 + n" hi zs] Nil(2,4) by simp
  ultimately show ?case
    using Nil f by (auto simp: word_less_nat_alt unat_u32_of_nat)
next
  case (Cons y ys)
  obtain b k where y: "y = (b, k)" by (cases y)
  obtain f where f: "fuel = Suc f"
    using Cons by (cases fuel) auto
  have "p \<noteq> NULL"
    using fl_null_iff [OF Cons.prems(1-4)] by simp
  moreover have "segs (b + 8 + k) hi (ys @ (a, n) # zs)" "fl m (node_next m p) (ys @ (a, n) # zs)"
    using Cons.prems(1,2) y by auto
  moreover have "k < 4294967296"
    using segs_le [OF calculation(2)] Cons.prems(4) by simp
  ultimately show ?case
    using Cons.IH [of "node_next m p" "b + 8 + k" f p] Cons.prems f y
    by (auto simp: word_less_nat_alt unat_u32_of_nat)
qed

lemma get_node_none:
  assumes "fl m p xs" "segs lo hi xs" "0 < lo" "hi < 4294967296" "length xs < fuel" "\<forall>(b, k) \<in> set xs. k \<le> unat r"
  shows "\<exists>prev'. vmm_get_node fuel m p prev r = Inr (NULL, prev')"
  using assms
proof (induction xs arbitrary: p lo prev fuel)
  case Nil
  then show ?case
    by (cases fuel) auto
next
  case (Cons y ys)
  obtain b k where y: "y = (b, k)" by (cases y)
  obtain f where f: "fuel = Suc f"
    using Cons by (cases fuel) auto
  have "p \<noteq> NULL"
    using fl_null_iff [OF Cons.prems(1-4)] by simp
  moreover have "segs (b + 8 + k) hi ys" "fl m (node_next m p) ys"
    using Cons.prems(1,2) y by auto
  moreover have "k < 4294967296"
    using segs_le [OF calculation(2)] Cons.prems(4) by simp
  ultimately show ?case
    using Cons.IH [of "node_next m p" "b + 8 + k" f p] Cons.prems f y
    by (auto simp: word_less_nat_alt unat_u32_of_nat)
qed

lemma fl_node: "fl m p (ys @ (a, n) # zs) \<Longrightarrow> node_size m (of_nat a) = of_nat n"
  by (induction ys arbitrary: p) auto

text \<open>Cutting a block from the end of the first node that is larger than the block.\<close>

lemma first_fit:
  assumes "\<exists>(a, n) \<in> set xs. t < n"
  obtains ys a n zs where "xs = ys @ (a, n) # zs" "t < n" "\<forall>(b, k) \<in> set ys. k \<le> (t :: nat)"
proof -
  obtain ys x zs where "xs = ys @ x # zs" "case x of (a, n) \<Rightarrow> t < n" "\<forall>y \<in> set ys. \<not> (case y of (a, n) \<Rightarrow> t < n)"
    using split_list_first_prop [OF assms [unfolded Bex_def, folded Bex_def]] by auto
  then show thesis
    by (intro that [of ys "fst x" "snd x" zs]) (auto split: prod.splits simp: not_less)
qed

lemma free_bytes_cut:
  assumes "segs lo hi (ys @ (a, n) # zs)" "t < n"
  shows "free_bytes (ys @ (a, n - t) # zs) = free_bytes (ys @ (a, n) # zs) - {a + 8 + (n - t)..<a + 8 + n}"
    "segs lo hi (ys @ (a, n - t) # zs)"
proof -
  obtain mid where mid: "segs lo mid ys" "mid \<le> a" "segs (a + 8 + n) hi zs"
    using assms(1) by (auto simp: segs_append)
  have "free_bytes ys \<inter> {a + 8 + (n - t)..<a + 8 + n} = {}" "free_bytes zs \<inter> {a + 8 + (n - t)..<a + 8 + n} = {}"
    using segs_bytes [OF mid(1)] segs_bytes [OF mid(3)] mid(2) by fastforce+
  moreover have "{a..<a + 8 + (n - t)} = {a..<a + 8 + n} - {a + 8 + (n - t)..<a + 8 + n}"
    using assms(2) by auto
  ultimately show "free_bytes (ys @ (a, n - t) # zs) = free_bytes (ys @ (a, n) # zs) - {a + 8 + (n - t)..<a + 8 + n}"
    by auto
  show "segs lo hi (ys @ (a, n - t) # zs)"
    using mid by (auto simp: segs_append intro: segs_mono intro!: exI [of _ mid])
qed

lemma list_alloc_cut:
  assumes ok: "heap_ok s xs" and big: "\<exists>(a, n) \<in> set xs. unat r + 4 < n"
    and run: "heap_search (page_fuel s0) s0 NULL (r + 4) = heap_search (Suc k) s prev (r + 4)"
  shows "\<exists>p m' xs'. vmm_list_alloc s0 r = Inr (p, s\<lparr>vmm_mem := m'\<rparr>) \<and> heap_ok (s\<lparr>vmm_mem := m'\<rparr>) xs' \<and>
           heap_block (s\<lparr>vmm_mem := m'\<rparr>) p (unat r + 4) \<and> block_bytes p (unat r + 4) \<subseteq> free_bytes xs \<and>
           free_bytes xs' = free_bytes xs - block_bytes p (unat r + 4) \<and>
           (\<forall>b. unat b \<notin> free_bytes xs \<longrightarrow> m' b = vmm_mem s b) \<and>
           (\<forall>(a, n) \<in> set xs. \<exists>k. (a, k) \<in> set xs' \<and> n \<le> k + (unat r + 4))"
proof -
  let ?lo = "unat (kheap_start s)" and ?hi = "unat (kheap_end s)" and ?m = "vmm_mem s" and ?t = "unat r + 4"
  have okD: "fl ?m (kheap_head s) xs" "kheap_head s = kheap_start s" "xs \<noteq> []" "fst (hd xs) = ?lo" "0 < ?lo" "segs ?lo ?hi xs"
    using ok by (auto simp: heap_ok_def)
  have hi: "?hi < 4294967296"
    by (rule unat_u32_lt)
  obtain ys a n zs where x: "xs = ys @ (a, n) # zs" "?t < n" "\<forall>(b, k) \<in> set ys. k \<le> ?t"
    using first_fit [OF big] .
  have an: "?lo \<le> a" "a + 8 + n \<le> ?hi"
    using okD(6) x(1) segs_bytes [OF okD(6), of a] by (auto simp: segs_append dest: segs_le)
  have ut: "unat (r + 4) = ?t"
    using an x(2) hi unat_plus_small [of r 4] by simp
  obtain prev' where get: "vmm_get_node (list_fuel s) ?m (kheap_head s) prev (r + 4) = Inr (of_nat a, prev')"
    using get_node_found [of ?m "kheap_head s" ys a n zs ?lo ?hi "list_fuel s" "r + 4" prev] okD x hi ut list_fuel_ok [OF okD(6)]
    by auto
  define h where "h = a + 8 + (n - ?t)"
  define m1 where "m1 = set_size ?m (of_nat a) (of_nat (n - ?t))"
  define m2 where "m2 = st32 m1 (of_nat h) (r + 4)"
  have hn: "h + ?t = a + 8 + n" "a + 8 < h"
    using x(2) by (simp_all add: h_def)
  then have ua: "unat (of_nat a :: u32) = a" "unat (of_nat h :: u32) = h" "unat (of_nat a :: u32) \<noteq> 0"
    using an hi okD(5) by (auto simp: unat_u32_of_nat)
  have sz: "node_size ?m (of_nat a) = of_nat n"
    using fl_node okD(1) x(1) by blast
  have cut: "(of_nat n - (r + 4) :: u32) = of_nat (n - ?t)"
    using x(2) by (simp add: of_nat_diff)
  have ret: "vmm_node_ret_addr m1 (of_nat a) = of_nat h"
    by (simp add: vmm_node_ret_addr_def m1_def sizeof_node_t_def h_def algebra_simps)
  have nz: "(of_nat (n - ?t) :: u32) \<noteq> 0"
    using x(2) an hi unat_u32_of_nat [of "n - ?t"] by (auto simp: unat_u32_eq_iff)
  have a0: "of_nat a \<noteq> (0 :: u32)"
    using ua(3) by auto
  then have hs: "heap_search (page_fuel s0) s0 NULL (r + 4) = Inr (of_nat a, prev', s)"
    using get run by simp
  have sz1: "node_size m1 (of_nat a) \<noteq> 0" "of_nat n \<noteq> r + 4"
    using nz cut by (auto simp: m1_def)
  have res: "vmm_list_alloc s0 r = Inr (of_nat h + 4, s\<lparr>vmm_mem := m2\<rparr>)"
    using a0 ret sz1 unfolding vmm_list_alloc_def sizeof_size_t_def
    by (simp add: Let_def hs sz cut m1_def [symmetric] m2_def)
  have out: "m2 b = ?m b" if "unat b \<notin> {a..<a + 8 + n}" for b
  proof -
    have "m2 b = m1 b"
      unfolding m2_def using that ua hn an hi by (intro st32_other) auto
    also have "\<dots> = ?m b"
      unfolding m1_def using that ua hn an hi by (intro st32_other) auto
    finally show ?thesis .
  qed
  note fb = free_bytes_cut [OF okD(6) [unfolded x(1)] x(2)]
  have fl1: "fl m1 (kheap_head s) (ys @ (a, n - ?t) # zs)"
    using fl_set_size [OF okD(1) [unfolded x(1)] okD(6) [unfolded x(1)] hi] unfolding m1_def .
  have fl2: "fl m2 (kheap_head s) (ys @ (a, n - ?t) # zs)"
  proof (rule fl_frame [OF fl1 fb(2)])
    show "m2 b = m1 b" if "unat b \<in> free_bytes (ys @ (a, n - ?t) # zs)" for b
      using that ua hn an hi unfolding fb(1) m2_def h_def [symmetric] by (intro st32_other) auto
  qed (use hi in simp)
  have p: "unat (of_nat h + 4 :: u32) = h + 4" "of_nat h + 4 - 4 = (of_nat h :: u32)"
    using ua(2) hn an hi unat_plus_small [of "of_nat h" 4] by auto
  have blk: "block_bytes (of_nat h + 4) ?t = {a + 8 + (n - ?t)..<a + 8 + n}"
    using p unfolding block_bytes_def h_def [symmetric] hn(1) [symmetric] by simp
  have "hd (ys @ (a, n - ?t) # zs) = hd xs \<or> ys = [] \<and> fst (hd xs) = a"
    using x(1) by (cases ys) auto
  then have "heap_ok (s\<lparr>vmm_mem := m2\<rparr>) (ys @ (a, n - ?t) # zs)"
    using fl2 fb(2) okD by (auto simp: heap_ok_def)
  moreover have "heap_block (s\<lparr>vmm_mem := m2\<rparr>) (of_nat h + 4) ?t"
    using p hn an ut ua by (simp add: heap_block_def m2_def)
  moreover have "block_bytes (of_nat h + 4) ?t \<subseteq> free_bytes xs"
    using blk x(1) hn by (auto simp: h_def)
  moreover have "m2 b = ?m b" if "unat b \<notin> free_bytes xs" for b
    using that x(1) by (intro out) auto
  moreover have "\<forall>(c, i) \<in> set xs. \<exists>k. (c, k) \<in> set (ys @ (a, n - ?t) # zs) \<and> i \<le> k + ?t"
    using x(1,2) by fastforce
  ultimately show ?thesis
    using res fb(1) blk x(1) by blast
qed

section \<open>Enlarging the heap\<close>

lemma fl_snoc:
  assumes "fl m p xs" "xs \<noteq> []" "segs lo hi xs" "0 < lo" "hi \<le> e" "e + 8 < 4294967296" "length xs \<le> fuel"
    and "node_size m (of_nat e) = of_nat k" "node_next m (of_nat e) = NULL"
  shows "\<exists>t. last_node fuel m p = Inr t \<and> fl (set_next m t (of_nat e)) p (xs @ [(e, k)]) \<and>
           (\<forall>b. unat b \<notin> free_bytes xs \<longrightarrow> set_next m t (of_nat e) b = m b)"
  using assms
proof (induction xs arbitrary: p lo fuel)
  case (Cons x xs)
  obtain a n where x: "x = (a, n)" by (cases x)
  obtain f where f: "fuel = Suc f"
    using Cons.prems(7) by (cases fuel) auto
  have hi: "hi < 4294967296"
    using Cons.prems(5,6) by simp
  have seg: "segs (a + 8 + n) hi xs" and fld: "fl m (node_next m p) xs" "node_size m p = of_nat n" "p = of_nat a"
    using Cons.prems(1,3) x by auto
  note nb = node_bounds [OF Cons.prems(3) [unfolded x] hi fld(3)]
  have ue: "unat (of_nat e :: u32) = e" "unat (of_nat e + 4 :: u32) = e + 4"
    using Cons.prems(6) unat_plus_small [of "of_nat e" 4] by (simp_all add: unat_u32_of_nat)
  show ?case
  proof (cases "xs = []")
    case True
    let ?m = "set_next m p (of_nat e)"
    have "ld32 ?m r = ld32 m r" if "r = of_nat e \<or> r = of_nat e + 4" for r
      using that nb ue Cons.prems(5,6) by (intro ld32_st32_other) auto
    then have "fl ?m p ([x] @ [(e, k)])"
      using fld nb Cons.prems(8,9) x by (simp add: node_size_next)
    moreover have "?m b = m b" if "unat b \<notin> free_bytes [x]" for b
      using that nb x by (intro st32_other) auto
    ultimately show ?thesis
      using True fld f by auto
  next
    case False
    then obtain t where t: "last_node f m (node_next m p) = Inr t"
        "fl (set_next m t (of_nat e)) (node_next m p) (xs @ [(e, k)])"
        "\<forall>b. unat b \<notin> free_bytes xs \<longrightarrow> set_next m t (of_nat e) b = m b"
      using Cons.IH [OF fld(1) _ seg _ Cons.prems(5,6), of f] Cons.prems(7-9) f by auto
    have "node_next m p \<noteq> NULL"
      using fl_null_iff [OF fld(1) seg _ hi] False by simp
    moreover have "ld32 (set_next m t (of_nat e)) r = ld32 m r" if "r = p \<or> r = p + 4" for r
    proof (rule ld32_below [of "a + 8"])
      show "set_next m t (of_nat e) c = m c" if "unat c < a + 8" for c
        using that segs_bytes [OF seg, of "unat c"] t(3) by force
    qed (use that nb hi in auto)
    ultimately show ?thesis
      using t fld f x by auto
  qed
qed simp

lemma mg_largest: "(a, n) \<in> set xs \<Longrightarrow> \<exists>(b, k) \<in> set (mg xs). n \<le> k"
proof (induction xs arbitrary: a n rule: mg.induct)
  case (1 c i d j xs)
  show ?case
  proof (cases "c + 8 + i = d")
    case True
    have "(a, n) \<in> set xs \<or> n \<le> i + j + 8"
      using 1(3) by auto
    then have "\<exists>a' n'. (a', n') \<in> set ((c, i + j + 8) # xs) \<and> n \<le> n'"
      by (metis list.set_intros order_refl)
    then obtain a' n' where "(a', n') \<in> set ((c, i + j + 8) # xs)" "n \<le> n'"
      by blast
    with 1(1) [OF True this(1)] show ?thesis
      using True by (auto intro: order.trans)
  next
    case False
    then show ?thesis
      using 1(2) [OF False] 1(3) by auto
  qed
qed auto

lemma heap_grow_spec:
  assumes ok: "heap_ok s xs" and vm: "vm_inv (vmm_vm s)" "2 \<le> card (free_frames (vm_pmm (vmm_vm s)))"
    and room: "unat (kheap_end s) + 4096 < 0xFFC00000"
  shows "\<exists>vm m' xs'. heap_grow s = Inr (s\<lparr>vmm_vm := vm, kheap_end := kheap_end s + 4096, vmm_mem := m'\<rparr>) \<and>
           heap_ok (s\<lparr>vmm_vm := vm, kheap_end := kheap_end s + 4096, vmm_mem := m'\<rparr>) xs' \<and>
           free_bytes xs' = free_bytes xs \<union> {unat (kheap_end s)..<unat (kheap_end s) + 4096} \<and>
           (\<exists>(a, n) \<in> set xs'. 4088 \<le> n) \<and> vm_inv vm \<and> translate vm (kheap_end s) \<noteq> None \<and>
           (\<forall>b. unat b \<notin> free_bytes xs' \<longrightarrow> m' b = vmm_mem s b)"
proof -
  let ?lo = "unat (kheap_start s)" and ?m = "vmm_mem s"
  define e where "e = unat (kheap_end s)"
  have okD: "fl ?m (kheap_head s) xs" "kheap_head s = kheap_start s" "xs \<noteq> []" "fst (hd xs) = ?lo" "0 < ?lo" "segs ?lo e xs"
    using ok by (auto simp: heap_ok_def e_def)
  have he: "kheap_end s = of_nat e" "e + 4096 < 4294967296" "unat (of_nat e :: u32) = e"
    "unat (of_nat e + 4 :: u32) = e + 4" "unat (of_nat e + 4096 :: u32) = e + 4096"
    using room unat_plus_small [of "kheap_end s" 4] unat_plus_small [of "kheap_end s" 4096] by (auto simp: e_def)
  have "kheap_end s < PDE_LAST_INDEX_START"
    using room by (simp add: word_less_nat_alt PDE_LAST_INDEX_START_def)
  then obtain q vm' where vm': "page_get_pt_entry (vmm_vm s) (kheap_end s) PAGE_ALLOC = Inr (q, vm')" "vm_inv vm'"
      "translate vm' (kheap_end s) \<noteq> None"
    using page_get_pt_entry_spec [OF vm(1) _ vm(2)] by fastforce
  define m2 where "m2 = set_next (set_size ?m (of_nat e) 4088) (of_nat e) NULL"
  have out2: "m2 b = ?m b" if "unat b \<notin> {e..<e + 4096}" for b
  proof -
    have "m2 b = set_size ?m (of_nat e) 4088 b"
      unfolding m2_def using that he by (intro st32_other) auto
    also have "\<dots> = ?m b"
      using that he by (intro st32_other) auto
    finally show ?thesis .
  qed
  have fl2: "fl m2 (kheap_head s) xs"
  proof (rule fl_frame [OF okD(1,6)])
    show "m2 b = ?m b" if "unat b \<in> free_bytes xs" for b
      using segs_bytes [OF okD(6) that] by (intro out2) simp
  qed (use he in simp)
  have nd: "node_size m2 (of_nat e) = of_nat 4088" "node_next m2 (of_nat e) = NULL"
    using he by (simp_all add: m2_def node_size_next)
  obtain t where t: "last_node (list_fuel s) m2 (kheap_head s) = Inr t"
      "fl (set_next m2 t (of_nat e)) (kheap_head s) (xs @ [(e, 4088)])"
      "\<forall>b. unat b \<notin> free_bytes xs \<longrightarrow> set_next m2 t (of_nat e) b = m2 b"
    using fl_snoc [OF fl2 okD(3,6,5) order.refl _ _ nd, of "list_fuel s"] list_fuel_ok [of s xs] okD(6) he(2)
    by (auto simp: e_def)
  define s1 where "s1 = s\<lparr>vmm_vm := vm', kheap_end := kheap_end s + 4096\<rparr>"
  have seg: "segs ?lo (e + 4096) (xs @ [(e, 4088)])"
    using okD(6) by (auto simp: segs_append)
  have "unat (kheap_end s1) = e + 4096" "kheap_start s1 = kheap_start s"
    using he by (simp_all add: s1_def)
  then have "length (xs @ [(e, 4088)]) \<le> list_fuel s1"
    using list_fuel_ok [of s1 "xs @ [(e, 4088)]"] seg by simp
  then obtain m4 where m4: "vmm_merge_free_block (list_fuel s1) (set_next m2 t (of_nat e)) (kheap_head s) = Inr m4"
      "fl m4 (kheap_head s) (mg (xs @ [(e, 4088)]))"
      "\<forall>b. unat b \<notin> free_bytes (xs @ [(e, 4088)]) \<longrightarrow> m4 b = set_next m2 t (of_nat e) b"
    using merge_spec [OF t(2) _ seg okD(5) he(2)] by blast
  have lf: "list_fuel (s\<lparr>vmm_vm := vm'\<rparr>) = list_fuel s"
    by (simp add: list_fuel_def)
  have run: "heap_grow s = Inr (s1\<lparr>vmm_mem := m4\<rparr>)"
    using vm'(1) t(1) m4(1) unfolding heap_grow_def map_page_def
    by (simp add: he(1) [symmetric] PAGE_FRAME_SIZE_def sizeof_node_t_def m2_def lf s1_def Let_def)
  have fb: "free_bytes (mg (xs @ [(e, 4088)])) = free_bytes xs \<union> {e..<e + 4096}"
    by (auto simp: algebra_simps)
  have "heap_ok (s1\<lparr>vmm_mem := m4\<rparr>) (mg (xs @ [(e, 4088)]))"
    using okD m4(2) segs_mg [OF seg] mg_hd [of "xs @ [(e, 4088)]"] he by (auto simp: heap_ok_def s1_def)
  moreover have "\<exists>(a, n) \<in> set (mg (xs @ [(e, 4088)])). 4088 \<le> n"
    using mg_largest [of e 4088 "xs @ [(e, 4088)]"] by simp
  moreover have "m4 b = ?m b" if "unat b \<notin> free_bytes (mg (xs @ [(e, 4088)]))" for b
    using that m4(3) t(3) out2 [of b] fb by auto
  ultimately show ?thesis
    using run fb vm'(2,3) unfolding s1_def e_def [symmetric] by (auto intro!: exI)
qed

section \<open>The interface\<close>

lemma page_fuel_Suc: "page_fuel s = Suc (Suc (Suc (unat (kheap_stack_end s - kheap_end s) div 4096)))"
  by (simp add: page_fuel_def)

lemma list_alloc_fits:
  assumes "heap_ok s xs" "\<exists>(a, n) \<in> set xs. unat r + 4 < n"
  shows "\<exists>p m' xs'. vmm_list_alloc s r = Inr (p, s\<lparr>vmm_mem := m'\<rparr>) \<and> heap_ok (s\<lparr>vmm_mem := m'\<rparr>) xs' \<and>
           heap_block (s\<lparr>vmm_mem := m'\<rparr>) p (unat r + 4) \<and> block_bytes p (unat r + 4) \<subseteq> free_bytes xs \<and>
           free_bytes xs' = free_bytes xs - block_bytes p (unat r + 4) \<and>
           (\<forall>b. unat b \<notin> free_bytes xs \<longrightarrow> m' b = vmm_mem s b) \<and>
           (\<forall>(a, n) \<in> set xs. \<exists>k. (a, k) \<in> set xs' \<and> n \<le> k + (unat r + 4))"
  using assms by (rule list_alloc_cut) (simp only: page_fuel_Suc)

text \<open>C1 [kmalloc_takes_block]: when some free node is larger than the request and its header word,
  \<open>kmalloc\<close> of a size that is not a page returns a block that was free: its bytes, with the header word
  that holds its length, were free before and are the only ones that are not free afterwards, so the
  block overlaps no block handed out before, and no byte that was not free is written.\<close>

theorem kmalloc_takes_block:
  assumes "heap_ok s xs" "\<exists>(a, n) \<in> set xs. unat r + 4 < n" "r \<noteq> 0" "r \<noteq> PAGE_FRAME_SIZE"
  shows "\<exists>p m' xs'. kmalloc frame s r = Inr (p, s\<lparr>vmm_mem := m'\<rparr>) \<and> heap_ok (s\<lparr>vmm_mem := m'\<rparr>) xs' \<and>
           heap_block (s\<lparr>vmm_mem := m'\<rparr>) p (unat r + 4) \<and> block_bytes p (unat r + 4) \<subseteq> free_bytes xs \<and>
           free_bytes xs' = free_bytes xs - block_bytes p (unat r + 4) \<and>
           (\<forall>b. unat b \<notin> free_bytes xs \<longrightarrow> m' b = vmm_mem s b)"
  using list_alloc_fits [OF assms(1,2)] assms(3,4) by (simp add: kmalloc_def) blast

definition heap_sample :: vmm where
  "heap_sample = \<lparr>vmm_mem = st32 (\<lambda>_. 0) 0x1000 56, vmm_vm = vm_sample, kheap_head = 0x1000,
     kheap_start = 0x1000, kheap_end = 0x1040, kheap_stack_last = 0, kheap_stack_start = 0x9000,
     kheap_stack_end = 0x8000\<rparr>"

lemma heap_sample_ok: "heap_ok heap_sample [(0x1000, 56)]"
  by (simp add: heap_ok_def heap_sample_def node_size_next) (simp add: ld32_def st32_def)

theorem kmalloc_takes_block_witness:
  "\<exists>p m' xs'. kmalloc 0 heap_sample 16 = Inr (p, heap_sample\<lparr>vmm_mem := m'\<rparr>) \<and>
     heap_ok (heap_sample\<lparr>vmm_mem := m'\<rparr>) xs' \<and> heap_block (heap_sample\<lparr>vmm_mem := m'\<rparr>) p 20"
  using kmalloc_takes_block [OF heap_sample_ok, of 16 0] by (auto simp: PAGE_FRAME_SIZE_def)



text \<open>C3 [kmalloc_grows_heap]: when no free node is large enough for a request of less than a page's
  node, the heap has not reached the page stack and two frames are free, \<open>kmalloc\<close> maps one page at the
  end of the heap and succeeds: the block is cut from the bytes that were free or from the new page,
  and nothing else is written.\<close>

theorem kmalloc_grows_heap:
  assumes ok: "heap_ok s xs" and none: "\<forall>(a, n) \<in> set xs. n \<le> unat r + 4"
    and r: "r \<noteq> 0" "unat r + 4 < 4088" and st: "kheap_end s \<le> kheap_stack_end s"
    and vm: "vm_inv (vmm_vm s)" "2 \<le> card (free_frames (vm_pmm (vmm_vm s)))" "unat (kheap_end s) + 4096 < 0xFFC00000"
  shows "\<exists>p s' xs'. kmalloc frame s r = Inr (p, s') \<and> heap_ok s' xs' \<and> heap_block s' p (unat r + 4) \<and>
           kheap_end s' = kheap_end s + PAGE_FRAME_SIZE \<and> translate (vmm_vm s') (kheap_end s) \<noteq> None \<and>
           block_bytes p (unat r + 4) \<union> free_bytes xs' = free_bytes xs \<union> {unat (kheap_end s)..<unat (kheap_end s) + 4096} \<and>
           block_bytes p (unat r + 4) \<inter> free_bytes xs' = {} \<and>
           (\<forall>b. unat b \<notin> free_bytes xs \<union> {unat (kheap_end s)..<unat (kheap_end s) + 4096} \<longrightarrow> vmm_mem s' b = vmm_mem s b)"
proof -
  have okD: "fl (vmm_mem s) (kheap_head s) xs" "0 < unat (kheap_start s)" "segs (unat (kheap_start s)) (unat (kheap_end s)) xs"
    using ok by (auto simp: heap_ok_def)
  have r4: "unat (r + 4) = unat r + 4"
    using r unat_plus_small [of r 4] by simp
  obtain prev where get: "vmm_get_node (list_fuel s) (vmm_mem s) (kheap_head s) NULL (r + 4) = Inr (NULL, prev)"
    using get_node_none [OF okD(1,3,2) unat_u32_lt list_fuel_ok [OF okD(3)], of "r + 4" NULL] none r4 by auto
  obtain vm' m' ys where g: "heap_grow s = Inr (s\<lparr>vmm_vm := vm', kheap_end := kheap_end s + 4096, vmm_mem := m'\<rparr>)"
      "heap_ok (s\<lparr>vmm_vm := vm', kheap_end := kheap_end s + 4096, vmm_mem := m'\<rparr>) ys"
      "free_bytes ys = free_bytes xs \<union> {unat (kheap_end s)..<unat (kheap_end s) + 4096}"
      "\<exists>(a, n) \<in> set ys. 4088 \<le> n" "translate vm' (kheap_end s) \<noteq> None"
      "\<forall>b. unat b \<notin> free_bytes ys \<longrightarrow> m' b = vmm_mem s b"
    using heap_grow_spec [OF ok vm] by blast
  let ?s = "s\<lparr>vmm_vm := vm', kheap_end := kheap_end s + 4096, vmm_mem := m'\<rparr>"
  have "heap_search (page_fuel s) s NULL (r + 4) =
      heap_search (Suc (Suc (unat (kheap_stack_end s - kheap_end s) div 4096))) ?s prev (r + 4)"
    unfolding page_fuel_Suc heap_search.simps(2) [of "Suc (Suc k)" for k] get
    using leD [OF st] g(1) by simp
  moreover have "\<exists>(a, n) \<in> set ys. unat r + 4 < n"
  proof -
    obtain a n where "(a, n) \<in> set ys" "4088 \<le> n"
      using g(4) by auto
    then show ?thesis
      using r(2) by (intro bexI [of _ "(a, n)"]) simp_all
  qed
  ultimately obtain p m'' zs where z: "vmm_list_alloc s r = Inr (p, ?s\<lparr>vmm_mem := m''\<rparr>)" "heap_ok (?s\<lparr>vmm_mem := m''\<rparr>) zs"
      "heap_block (?s\<lparr>vmm_mem := m''\<rparr>) p (unat r + 4)" "block_bytes p (unat r + 4) \<subseteq> free_bytes ys"
      "free_bytes zs = free_bytes ys - block_bytes p (unat r + 4)" "\<forall>b. unat b \<notin> free_bytes ys \<longrightarrow> m'' b = vmm_mem ?s b"
    using list_alloc_cut [OF g(2), of r s] by blast
  have km: "kmalloc frame s r = vmm_list_alloc s r"
    using r by (auto simp: kmalloc_def PAGE_FRAME_SIZE_def)
  show ?thesis
    unfolding km z(1)
  proof (intro exI conjI)
    show "heap_ok (?s\<lparr>vmm_mem := m''\<rparr>) zs" "heap_block (?s\<lparr>vmm_mem := m''\<rparr>) p (unat r + 4)"
      by (rule z)+
    show "block_bytes p (unat r + 4) \<union> free_bytes zs = free_bytes xs \<union> {unat (kheap_end s)..<unat (kheap_end s) + 4096}"
      using z(4,5) g(3) by blast
    show "block_bytes p (unat r + 4) \<inter> free_bytes zs = {}"
      using z(5) by blast
    show "\<forall>b. unat b \<notin> free_bytes xs \<union> {unat (kheap_end s)..<unat (kheap_end s) + 4096} \<longrightarrow>
        vmm_mem (?s\<lparr>vmm_mem := m''\<rparr>) b = vmm_mem s b"
      using z(6) g(3,6) by simp
  qed (use g(5) in \<open>simp_all add: PAGE_FRAME_SIZE_def\<close>)
qed

theorem kmalloc_grows_heap_witness:
  "\<exists>p s'. kmalloc 0 heap_sample 100 = Inr (p, s') \<and> heap_block s' p 104 \<and> kheap_end s' = 0x2040"
  using kmalloc_grows_heap [OF heap_sample_ok, of 100 0] vm_sample_inv vm_sample_room
  by (auto simp: heap_sample_def PAGE_FRAME_SIZE_def)

section \<open>Blocks of less than four bytes and freed pages\<close>

lemma loop_unfolds:
  "0 < k \<Longrightarrow> insert_pos k m head i =
     (if node_next m head = NULL then Inr head else if node_next m head > i then Inr head
      else insert_pos (k - 1) m (node_next m head) i)"
  "0 < k \<Longrightarrow> vmm_get_node k m node prev r =
     (if node = NULL then Inr (NULL, prev) else if node_size m node > r then Inr (node, prev)
      else vmm_get_node (k - 1) m (node_next m node) node r)"
  by (cases k; simp)+

lemma merge_unfolds:
  assumes "0 < k"
  shows "node_next m node = NULL \<Longrightarrow> vmm_merge_free_block k m node = Inr m"
    "node_next m node = q \<Longrightarrow> q \<noteq> NULL \<Longrightarrow> node + node_size m node + 8 \<noteq> q \<Longrightarrow>
       vmm_merge_free_block k m node = vmm_merge_free_block (k - 1) m q"
  using assms by (cases k; simp add: sizeof_node_t_def)+

lemma minus_words: "(- 3 :: u32) = 4294967293" "(4294971412 :: u32) = 4116"
  by simp_all

lemma list_alloc_at:
  assumes "vmm_get_node (list_fuel s) (vmm_mem s) (kheap_head s) NULL (r + 4) = Inr (node, prev)" "node \<noteq> NULL"
    and "n = node_size (vmm_mem s) node - (r + 4)" "n \<noteq> 0"
  shows "vmm_list_alloc s r = Inr (node + 8 + n + 4, s\<lparr>vmm_mem := st32 (st32 (vmm_mem s) node n) (node + 8 + n) (r + 4)\<rparr>)"
proof -
  have "heap_search (page_fuel s) s NULL (r + 4) = Inr (node, prev, s)"
    using assms(1,2) by (simp add: page_fuel_Suc)
  then show ?thesis
    using assms(2,4) unfolding assms(3) by (auto simp: vmm_list_alloc_def sizeof_size_t_def sizeof_node_t_def vmm_node_ret_addr_def Let_def)
qed

abbreviation tiny_heap :: "mem \<Rightarrow> vmm" where
  "tiny_heap m \<equiv> heap_sample\<lparr>vmm_mem := m\<rparr>"

abbreviation tiny_mem :: mem where
  "tiny_mem \<equiv> st32 (st32 (st32 (st32 (vmm_mem heap_sample) 0x1000 51) 0x103B 5) 0x1000 35) 0x102B 16"

abbreviation tiny_freed :: mem where
  "tiny_freed \<equiv> st32 (st32 (st32 tiny_mem 0x103B 4294967293) 0x1004 0x103B) 0x103F 0"

lemmas tiny_simps = loop_unfolds list_fuel_def heap_sample_def ld32_st32_other minus_words

lemma ld32_zero [simp]: "ld32 (\<lambda>_. 0) a = 0"
  by (simp add: ld32_def)

lemma tiny_alloc:
  "vmm_list_alloc heap_sample 1 = Inr (0x103F, tiny_heap (st32 (st32 (vmm_mem heap_sample) 0x1000 51) 0x103B 5))"
  "vmm_list_alloc (tiny_heap (st32 (st32 (vmm_mem heap_sample) 0x1000 51) 0x103B 5)) 12 = Inr (0x102F, tiny_heap tiny_mem)"
  by (subst list_alloc_at [where node = "0x1000" and prev = 0 and n = 51]; simp add: tiny_simps)
    (subst list_alloc_at [where node = "0x1000" and prev = 0 and n = 35]; simp add: tiny_simps)

lemma tiny_free: "kfree 0 (tiny_heap tiny_mem) 0x103F = Inr (tiny_heap tiny_freed)"
proof -
  have pos: "insert_pos 65 (st32 tiny_mem 0x103B 4294967293) 0x1000 0x103B = Inr 0x1000"
    by (simp add: tiny_simps)
  have merge: "vmm_merge_free_block 65 tiny_freed 0x1000 = Inr tiny_freed"
    by (subst merge_unfolds(2) [where q = "0x103B"]; simp add: tiny_simps) (simp add: merge_unfolds(1))
  have size: "node_size tiny_mem 0x103B = 5" "node_next (st32 tiny_mem 0x103B 4294967293) 0x1000 = 0"
    by (simp_all add: tiny_simps)
  show ?thesis
    using pos merge size
    by (simp add: kfree_def vmm_sorted_insert_def sizeof_size_t_def sizeof_node_t_def heap_sample_def list_fuel_def minus_words Let_def)
qed

lemma tiny_realloc: "vmm_list_alloc (tiny_heap tiny_freed) 40 = Inr (0x1018, tiny_heap (st32 (st32 tiny_freed 0x103B 4294967249) 0x1014 44))"
  by (subst list_alloc_at [where node = "0x103B" and prev = "0x1000" and n = 4294967249]; simp add: tiny_simps)

text \<open>Fact [kfree_tiny_block]: \<open>kfree\<close> turns a block into a node by subtracting a node's eight bytes from
  its length, which is five for a one-byte block. When a one-byte block is freed while the block below
  it is in use, the list has a node of 4294967293 bytes, and the next request the first node is too
  small for is answered with a block that overlaps the one in use.\<close>

theorem kfree_tiny_block:
  "\<exists>s1 s2 s3 s4. kmalloc 0 heap_sample 1 = Inr (0x103F, s1) \<and> kmalloc 0 s1 12 = Inr (0x102F, s2) \<and>
     kfree 0 s2 0x103F = Inr s3 \<and> node_size (vmm_mem s3) 0x103B = 4294967293 \<and>
     kmalloc 0 s3 40 = Inr (0x1018, s4) \<and> block_bytes 0x102F 16 \<subseteq> block_bytes 0x1018 44"
proof (intro exI conjI)
  show "kmalloc 0 heap_sample 1 = Inr (0x103F, tiny_heap (st32 (st32 (vmm_mem heap_sample) 0x1000 51) 0x103B 5))"
    "kmalloc 0 (tiny_heap (st32 (st32 (vmm_mem heap_sample) 0x1000 51) 0x103B 5)) 12 = Inr (0x102F, tiny_heap tiny_mem)"
    "kmalloc 0 (tiny_heap tiny_freed) 40 = Inr (0x1018, tiny_heap (st32 (st32 tiny_freed 0x103B 4294967249) 0x1014 44))"
    using tiny_alloc tiny_realloc by (simp_all add: kmalloc_def PAGE_FRAME_SIZE_def)
  show "node_size (vmm_mem (tiny_heap tiny_freed)) 0x103B = 4294967293"
    by (simp add: tiny_simps)
qed (simp_all add: tiny_free block_bytes_def)

lemma heap_ok_frame:
  assumes "heap_ok s xs" "\<And>b. unat (kheap_start s) \<le> unat b \<Longrightarrow> m' b = vmm_mem s b"
  shows "heap_ok (s\<lparr>vmm_mem := m', kheap_stack_last := l\<rparr>) xs"
  using assms fl_frame_range [of "vmm_mem s" "kheap_head s" xs "unat (kheap_start s)" "unat (kheap_end s)" m'] unat_u32_lt
  by (auto simp: heap_ok_def)

lemma kfree_page:
  assumes ok: "heap_ok s xs" and room: "\<exists>(a, n) \<in> set xs. 8 < n" and p: "kheap_end s < p" "p < kheap_stack_start s"
    and frame: "unat frame + 8 \<le> unat (kheap_start s)"
  shows "\<exists>m' xs'. kfree frame s p = Inr (s\<lparr>vmm_mem := m', kheap_stack_last := frame\<rparr>) \<and>
           heap_ok (s\<lparr>vmm_mem := m', kheap_stack_last := frame\<rparr>) xs' \<and>
           node_size m' frame = p AND NOT 0xFFF \<and> node_next m' frame = kheap_stack_last s \<and>
           (\<forall>(a, n) \<in> set xs. \<exists>k. (a, k) \<in> set xs' \<and> n \<le> k + 8)"
proof -
  have r: "unat sizeof_size_t + 4 = 8"
    by (simp add: sizeof_size_t_def)
  obtain q m1 xs' where m1: "vmm_list_alloc s sizeof_size_t = Inr (q, s\<lparr>vmm_mem := m1\<rparr>)"
      "heap_ok (s\<lparr>vmm_mem := m1\<rparr>) xs'" "\<forall>(a, n) \<in> set xs. \<exists>k. (a, k) \<in> set xs' \<and> n \<le> k + 8"
    using list_alloc_fits [OF ok, of sizeof_size_t] room unfolding r by blast
  define m2 where "m2 = set_next (set_size m1 frame (p AND NOT 0xFFF)) frame (kheap_stack_last s)"
  have f: "unat (frame + 4) = unat frame + 4" "unat (frame + 4) + 3 < 4294967296" "unat frame + 3 < 4294967296" "unat frame + 7 < 4294967296"
    using frame unat_u32_lt [of "kheap_start s"] unat_plus_small [of frame 4] by auto
  have out: "m2 b = m1 b" if "unat (kheap_start s) \<le> unat b" for b
  proof -
    have "m2 b = set_size m1 frame (p AND NOT 0xFFF) b"
      unfolding m2_def using f frame that by (intro st32_other) auto
    also have "\<dots> = m1 b"
      using f frame that by (intro st32_other) auto
    finally show ?thesis .
  qed
  have "\<not> p < kheap_start s"
    using p(1) ok segs_le [of "unat (kheap_start s)" "unat (kheap_end s)" xs] by (auto simp: heap_ok_def word_less_nat_alt)
  then have "kfree frame s p = Inr (s\<lparr>vmm_mem := m2, kheap_stack_last := frame\<rparr>)"
    using p m1(1) by (simp add: kfree_def m2_def Let_def)
  moreover have "heap_ok (s\<lparr>vmm_mem := m2, kheap_stack_last := frame\<rparr>) xs'"
    using heap_ok_frame [OF m1(2), of m2 frame] out by simp
  moreover have "node_size m2 frame = p AND NOT 0xFFF" "node_next m2 frame = kheap_stack_last s"
    using f(4) by (simp_all add: m2_def node_size_next)
  ultimately show ?thesis
    using m1(3) by blast
qed

text \<open>Fact [kfree_page_lost]: the node \<open>kfree\<close> pushes for a freed page is a local variable of \<open>kfree\<close>. When two
  pages are freed from the same depth of the stack the second node takes the place of the first and is
  its own successor: the first page is lost, and the next two requests for a page are both answered
  with the second page.\<close>

theorem kfree_page_lost:
  assumes ok: "heap_ok s xs" and room: "\<exists>(a, n) \<in> set xs. 24 < n"
    and pages: "kheap_end s < p" "p < kheap_stack_start s" "kheap_end s < q" "q < kheap_stack_start s"
      "q AND NOT 0xFFF \<noteq> 0" "\<not> kheap_stack_end s < kheap_end s"
    and frame: "frame \<noteq> 0" "unat frame + 8 \<le> unat (kheap_start s)"
  shows "\<exists>s1 s2 s3 s4. kfree frame s p = Inr s1 \<and> kfree frame s1 q = Inr s2 \<and>
           kmalloc f s2 PAGE_FRAME_SIZE = Inr (q AND NOT 0xFFF, s3) \<and>
           kmalloc f s3 PAGE_FRAME_SIZE = Inr (q AND NOT 0xFFF, s4)"
proof -
  obtain a n where an: "(a, n) \<in> set xs" "24 < n"
    using room by auto
  then have "\<exists>(a, n) \<in> set xs. 8 < n"
    by (intro bexI [of _ "(a, n)"]) simp_all
  from kfree_page [OF ok this pages(1,2) frame(2)] obtain m1 ys where
    1: "kfree frame s p = Inr (s\<lparr>vmm_mem := m1, kheap_stack_last := frame\<rparr>)"
      "heap_ok (s\<lparr>vmm_mem := m1, kheap_stack_last := frame\<rparr>) ys" "\<forall>(a, n) \<in> set xs. \<exists>k. (a, k) \<in> set ys \<and> n \<le> k + 8"
    by blast
  let ?s1 = "s\<lparr>vmm_mem := m1, kheap_stack_last := frame\<rparr>"
  obtain k where "(a, k) \<in> set ys" "n \<le> k + 8"
    using 1(3) an(1) by auto
  then have "\<exists>(a, n) \<in> set ys. 8 < n"
    using an(2) by (intro bexI [of _ "(a, k)"]) simp_all
  from kfree_page [OF 1(2) this, of q frame] obtain m2 zs where
    2: "kfree frame ?s1 q = Inr (s\<lparr>vmm_mem := m2, kheap_stack_last := frame\<rparr>)"
      "node_size m2 frame = q AND NOT 0xFFF" "node_next m2 frame = frame"
    using pages(3,4) frame(2) by auto
  let ?s2 = "s\<lparr>vmm_mem := m2, kheap_stack_last := frame\<rparr>"
  have "kfree f ?s2 frame = Inr ?s2"
    using frame(2) by (simp add: kfree_def word_less_nat_alt)
  then have "vmm_block_alloc f ?s2 = Inr (q AND NOT 0xFFF, ?s2)"
    using 2(2,3) frame(1) pages(6) by (simp add: vmm_block_alloc_def Let_def)
  then have "kmalloc f ?s2 PAGE_FRAME_SIZE = Inr (q AND NOT 0xFFF, ?s2)"
    using pages(5) by (simp add: kmalloc_def PAGE_FRAME_SIZE_def)
  then show ?thesis
    using 1(1) 2(1) by blast
qed

theorem kfree_page_lost_witness:
  "\<exists>s1 s2 s3 s4. kfree 0xFF0 heap_sample 0x5000 = Inr s1 \<and> kfree 0xFF0 s1 0x6000 = Inr s2 \<and>
     kmalloc 0 s2 PAGE_FRAME_SIZE = Inr (0x6000, s3) \<and> kmalloc 0 s3 PAGE_FRAME_SIZE = Inr (0x6000, s4)"
  using kfree_page_lost [OF heap_sample_ok, of "0x5000" "0x6000" "0xFF0" 0] by (simp add: heap_sample_def)

end
