(* ===== verification/Task.thy ===== *)
theory Task
  imports BulbPrelude
begin

text \<open>
  The scheduler of \<open>src/kernel/proc/task.c\<close>.  Tasks live in a store addressed by their pointers and
  are linked through their \<open>next\<close> fields into the ready, sleeping and terminated lists, as in the
  code.  \<open>task_switch\<close> is the effect of \<open>task_switch.S\<close> on this data: the new task becomes current,
  its link is cleared and its state set to running.  Whatever task is switched to continues after
  its own call of the switch, which in every caller, and in the start-up stub of a new task, is one
  call of \<open>task_unlock_scheduler\<close>; so an operation below runs up to and including that call.
  The time sources are parameters: \<open>count\<close> is what \<open>hpet_read_counter\<close> returns, \<open>ns\<close> what
  \<open>hpet_get_ns\<close> returns.

  Shown here: every operation balances the two lock counters, no switch happens while switches are
  postponed, the lists stay well-formed, and which task runs next.
\<close>

section \<open>Data\<close>

datatype task_state_t = AVAILABLE | RUNNING | BLOCKED | SLEEPING | TERMINATED | WAITING_FOR_LOCK
  | IO_REQUEST | CONDVAR

text \<open>
  The stack of a task that has not run yet is the list of the words from \<open>esp\<close> up to \<open>ebp\<close>, the top first.  The blocks given
  back to the allocator and the acknowledged timer interrupts are recorded in the state.
\<close>

record task_info_t =
  ti_pid :: u32
  ti_esp :: u32
  ti_esp0 :: u32
  ti_ebp :: ptr
  ti_stack :: "u32 list"
  ti_page_dir :: u32
  ti_state :: task_state_t
  ti_next :: ptr
  ti_current_dir :: ptr
  ti_open_files :: "ptr list"
  ti_time_used :: u64
  ti_wake_up_time :: u64
  ti_name :: "u8 list"

record sched =
  tasks :: "ptr \<Rightarrow> task_info_t option"
  current_task :: ptr
  schedule_tasks :: ptr
  sleep_tasks :: ptr
  terminated_tasks :: ptr
  task_cleaner :: ptr
  idle_task :: ptr
  pid_count :: u32
  last_count :: u64
  schedule_lock_counter :: u32
  postpone_switch_counter :: u32
  postpone_switch_flag :: bool
  time_slice_remaining :: u64
  freed :: "ptr list"
  acknowledged :: nat

definition TIME_SLICE :: u64 where "TIME_SLICE = 10"
definition OPEN_FILES_COUNT :: nat where "OPEN_FILES_COUNT = 16"
definition PAGE_LAST_DWORD :: u32 where "PAGE_LAST_DWORD = (4096 - 1) div 4"

section \<open>Operations\<close>

definition task_get :: "sched \<Rightarrow> ptr \<Rightarrow> task_info_t res" where
  "task_get s p = (case tasks s p of Some t \<Rightarrow> Inr t | None \<Rightarrow> Inl BadAccess)"

definition task_upd :: "sched \<Rightarrow> ptr \<Rightarrow> (task_info_t \<Rightarrow> task_info_t) \<Rightarrow> sched res" where
  "task_upd s p f = rbind (task_get s p) (\<lambda>t. Inr (s\<lparr>tasks := (tasks s)(p \<mapsto> f t)\<rparr>))"

text \<open>
  \<open>p\<close> is the block the allocator gives for the task, \<open>stack\<close> and \<open>stack0\<close> the two pages for its stacks,
  \<open>terminate\<close> the address of \<open>task_terminate\<close>, \<open>files\<close> what the fresh block holds in the array of
  open files, which the code does not initialise, and \<open>name\<close> the memory from the name on.
\<close>

definition task_create_new ::
    "sched \<Rightarrow> ptr \<Rightarrow> ptr \<Rightarrow> ptr \<Rightarrow> u32 \<Rightarrow> ptr list \<Rightarrow> u32 \<Rightarrow> u8 list \<Rightarrow> sched" where
  "task_create_new s p stack stack0 terminate files func name =
     (let ebp = stack + 4 * PAGE_LAST_DWORD in
      s\<lparr>tasks := (tasks s)(p \<mapsto>
          \<lparr>ti_pid = pid_count s, ti_esp = ebp - 24, ti_esp0 = stack0 + PAGE_LAST_DWORD, ti_ebp = ebp,
           ti_stack = [0, 0, 0, ebp, NULL, func, terminate], ti_page_dir = 0,
           ti_state = AVAILABLE, ti_next = NULL, ti_current_dir = NULL, ti_open_files = files, ti_time_used = 0,
           ti_wake_up_time = 0, ti_name = take 8 name\<rparr>),
        pid_count := pid_count s + 1\<rparr>)"

definition task_lock_scheduler :: "sched \<Rightarrow> sched" where
  "task_lock_scheduler s = s\<lparr>schedule_lock_counter := schedule_lock_counter s + 1\<rparr>"

definition task_unlock_scheduler :: "sched \<Rightarrow> sched res" where
  "task_unlock_scheduler s =
     (if schedule_lock_counter s = 0 then Inl Abort
      else Inr (s\<lparr>schedule_lock_counter := schedule_lock_counter s - 1\<rparr>))"

text \<open>What a new task runs first, before it returns into its function; a user task then leaves the kernel mode.\<close>

definition task_user_init :: "sched \<Rightarrow> sched res" where
  "task_user_init s = task_unlock_scheduler s"

definition task_kernel_init :: "sched \<Rightarrow> sched res" where
  "task_kernel_init s = task_unlock_scheduler s"

text \<open>\<open>init\<close> is the address of \<open>task_user_init\<close> or \<open>task_kernel_init\<close>, \<open>page_dir\<close> that of the directory.\<close>

definition task_user_create_new ::
    "sched \<Rightarrow> ptr \<Rightarrow> ptr \<Rightarrow> ptr \<Rightarrow> u32 \<Rightarrow> ptr list \<Rightarrow> u32 \<Rightarrow> u8 list \<Rightarrow> u32 \<Rightarrow> u32 \<Rightarrow> ptr \<Rightarrow> ptr \<Rightarrow> sched res" where
  "task_user_create_new s p stack stack0 terminate files func name init page_dir stdin_read stdout_write =
     task_upd (task_create_new s p stack stack0 terminate files func name) p
       (\<lambda>t. t\<lparr>ti_open_files := (ti_open_files t)[0 := stdin_read, 1 := stdout_write],
              ti_stack := (ti_stack t)[4 := init], ti_page_dir := page_dir\<rparr>)"

definition task_kernel_create_new ::
    "sched \<Rightarrow> ptr \<Rightarrow> ptr \<Rightarrow> ptr \<Rightarrow> u32 \<Rightarrow> ptr list \<Rightarrow> u32 \<Rightarrow> u8 list \<Rightarrow> u32 \<Rightarrow> u32 \<Rightarrow> sched res" where
  "task_kernel_create_new s p stack stack0 terminate files func name init page_dir =
     task_upd (task_create_new s p stack stack0 terminate files func name) p
       (\<lambda>t. t\<lparr>ti_stack := (ti_stack t)[4 := init], ti_page_dir := page_dir\<rparr>)"

definition task_add_node :: "sched \<Rightarrow> ptr \<Rightarrow> sched res" where
  "task_add_node s task =
     rbind (task_upd s task (\<lambda>t. t\<lparr>ti_state := AVAILABLE, ti_next := schedule_tasks s\<rparr>)) (\<lambda>s1.
       Inr (s1\<lparr>schedule_tasks := task\<rparr>))"

definition task_switch :: "sched \<Rightarrow> ptr \<Rightarrow> sched res" where
  "task_switch s new =
     task_upd (s\<lparr>current_task := new\<rparr>) new (\<lambda>t. t\<lparr>ti_next := NULL, ti_state := RUNNING\<rparr>)"

definition task_switch_wrapper :: "sched \<Rightarrow> ptr \<Rightarrow> sched res" where
  "task_switch_wrapper s task =
     (if postpone_switch_counter s \<noteq> 0 then task_add_node (s\<lparr>postpone_switch_flag := True\<rparr>) task
      else rbind (if current_task s = idle_task s then task_add_node s (current_task s) else Inr s) (\<lambda>s1.
        task_switch (s1\<lparr>time_slice_remaining := (if task = idle_task s1 then 0 else TIME_SLICE)\<rparr>) task))"

definition task_force_switch :: "sched \<Rightarrow> ptr \<Rightarrow> sched res" where
  "task_force_switch s task =
     (let s1 = task_lock_scheduler s in
      rbind (task_upd s1 (current_task s1) (\<lambda>t. t\<lparr>ti_next := schedule_tasks s1\<rparr>)) (\<lambda>s2.
        rbind (task_switch_wrapper (s2\<lparr>schedule_tasks := current_task s2\<rparr>) task) task_unlock_scheduler))"

definition task_update_counter :: "u64 \<Rightarrow> sched \<Rightarrow> sched res" where
  "task_update_counter count s =
     (let elapsed_time = (count - last_count s) * 10 in
      task_upd (s\<lparr>last_count := count\<rparr>) (current_task s)
        (\<lambda>t. t\<lparr>ti_time_used := ti_time_used t + elapsed_time\<rparr>))"

definition task_schedule :: "u64 \<Rightarrow> sched \<Rightarrow> sched res" where
  "task_schedule count s0 =
     rbind (task_update_counter count s0) (\<lambda>s.
       if postpone_switch_counter s \<noteq> 0 then Inr (s\<lparr>postpone_switch_flag := True\<rparr>)
       else if schedule_tasks s = NULL then Inr s
       else
         let task = schedule_tasks s in
         rbind (task_get s task) (\<lambda>t.
           let s1 = s\<lparr>schedule_tasks := ti_next t\<rparr> in
           if task = idle_task s1 then
             (if schedule_tasks s1 \<noteq> NULL then
                let task' = schedule_tasks s1 in
                rbind (task_get s1 task') (\<lambda>t'.
                rbind (task_upd s1 (idle_task s1) (\<lambda>i. i\<lparr>ti_next := ti_next t'\<rparr>)) (\<lambda>s2.
                  task_switch_wrapper (s2\<lparr>schedule_tasks := idle_task s2\<rparr>) task'))
              else
                rbind (task_get s1 (current_task s1)) (\<lambda>c.
                  if ti_state c = RUNNING then Inr s1 else task_switch_wrapper s1 task))
           else task_switch_wrapper s1 task))"

definition task_lock :: "sched \<Rightarrow> sched" where
  "task_lock s = (let s1 = task_lock_scheduler s in
     s1\<lparr>postpone_switch_counter := postpone_switch_counter s1 + 1\<rparr>)"

definition task_unlock :: "u64 \<Rightarrow> sched \<Rightarrow> sched res" where
  "task_unlock count s =
     (let s1 = s\<lparr>postpone_switch_counter := postpone_switch_counter s - 1\<rparr> in
      rbind (if postpone_switch_counter s1 = 0 \<and> postpone_switch_flag s1
             then task_schedule count (s1\<lparr>postpone_switch_flag := False\<rparr>) else Inr s1)
        task_unlock_scheduler)"

definition task_block :: "u64 \<Rightarrow> sched \<Rightarrow> task_state_t \<Rightarrow> sched res" where
  "task_block count s reason =
     (let s1 = task_lock_scheduler s in
      rbind (task_upd s1 (current_task s1) (\<lambda>t. t\<lparr>ti_state := reason\<rparr>)) (\<lambda>s2.
        rbind (task_schedule count s2) task_unlock_scheduler))"

definition task_unblock :: "sched \<Rightarrow> ptr \<Rightarrow> sched res" where
  "task_unblock s task =
     (let s1 = task_lock_scheduler s in
      rbind (if schedule_tasks s1 = NULL \<or> current_task s1 = idle_task s1
             then task_switch_wrapper s1 task else task_add_node s1 task)
        task_unlock_scheduler)"

text \<open>The two blocks of a task that are given back.\<close>

definition task_cleanup :: "sched \<Rightarrow> ptr \<Rightarrow> sched res" where
  "task_cleanup s task =
     rbind (task_get s task) (\<lambda>t.
     Inr (s\<lparr>tasks := (tasks s)(task := None), freed := freed s @ [ti_ebp t - 4 * PAGE_LAST_DWORD, task]\<rparr>))"

text \<open>The inner loop of the cleaner: the terminated tasks are freed one after the other.\<close>

fun task_clean_loop :: "nat \<Rightarrow> sched \<Rightarrow> sched res" where
  "task_clean_loop 0 s = Inl Hang"
| "task_clean_loop (Suc n) s =
     (if terminated_tasks s = NULL then Inr s
      else
        let task = terminated_tasks s in
        rbind (task_get s task) (\<lambda>t.
        rbind (task_cleanup (s\<lparr>terminated_tasks := ti_next t\<rparr>) task) (task_clean_loop n)))"

text \<open>
  One round of \<open>task_clean\<close>.  A list of tasks is never longer than the number of tasks created, which
  \<open>pid_count\<close> exceeds; it bounds the loops over lists.
\<close>

definition task_clean :: "u64 \<Rightarrow> sched \<Rightarrow> sched res" where
  "task_clean count s =
     rbind (task_clean_loop (Suc (unat (pid_count s))) (task_lock s)) (\<lambda>s1.
       rbind (task_unlock count s1) (\<lambda>s2. task_block count s2 BLOCKED))"

definition task_terminate :: "u64 \<Rightarrow> sched \<Rightarrow> sched res" where
  "task_terminate count s =
     (let s1 = task_lock s in
      rbind (task_upd s1 (current_task s1) (\<lambda>t. t\<lparr>ti_next := terminated_tasks s1\<rparr>)) (\<lambda>s2.
      rbind (task_block count (s2\<lparr>terminated_tasks := current_task s2\<rparr>) TERMINATED) (\<lambda>s3.
      rbind (task_unblock s3 (task_cleaner s3)) (task_unlock count))))"

definition nano_sleep_until :: "u64 \<Rightarrow> u64 \<Rightarrow> sched \<Rightarrow> u64 \<Rightarrow> sched res" where
  "nano_sleep_until count ns s wake_up_time_ns =
     (let s1 = task_lock s in
      if wake_up_time_ns < ns then task_unlock count s1
      else
        rbind (task_upd s1 (current_task s1)
                 (\<lambda>t. t\<lparr>ti_wake_up_time := wake_up_time_ns, ti_next := sleep_tasks s1\<rparr>)) (\<lambda>s2.
        rbind (task_unlock count (s2\<lparr>sleep_tasks := current_task s2\<rparr>)) (\<lambda>s3.
          task_block count s3 SLEEPING)))"

fun task_wake_loop :: "nat \<Rightarrow> u64 \<Rightarrow> sched \<Rightarrow> ptr \<Rightarrow> sched res" where
  "task_wake_loop 0 ns s next_task = Inl Hang"
| "task_wake_loop (Suc n) ns s next_task =
     (if next_task = NULL then Inr s
      else rbind (task_get s next_task) (\<lambda>t.
        rbind (if ti_wake_up_time t \<le> ns then task_unblock s next_task
               else rbind (task_upd s next_task (\<lambda>t. t\<lparr>ti_next := sleep_tasks s\<rparr>)) (\<lambda>s1.
                 Inr (s1\<lparr>sleep_tasks := next_task\<rparr>)))
          (\<lambda>s1. task_wake_loop n ns s1 (ti_next t))))"

definition task_time_handler :: "u64 \<Rightarrow> u64 \<Rightarrow> sched \<Rightarrow> sched res" where
  "task_time_handler count ns s =
     (if schedule_lock_counter s \<noteq> 0 then Inr (s\<lparr>acknowledged := acknowledged s + 1\<rparr>)
      else
        let s1 = task_lock s; next_task = sleep_tasks s1 in
        rbind (task_wake_loop (Suc (unat (pid_count s))) ns (s1\<lparr>sleep_tasks := NULL\<rparr>) next_task) (\<lambda>s2.
        rbind (if time_slice_remaining s2 \<noteq> 0 then
                 let s3 = s2\<lparr>time_slice_remaining := time_slice_remaining s2 - 1\<rparr> in
                 if time_slice_remaining s3 = 0
                 then task_schedule count (s3\<lparr>acknowledged := acknowledged s3 + 1\<rparr>) else Inr s3
               else Inr s2)
          (\<lambda>s4. task_unlock count (s4\<lparr>acknowledged := acknowledged s4 + 1\<rparr>))))"

text \<open>
  The blocks for the three first tasks are \<open>kern\<close>, \<open>clean\<close> and \<open>idle\<close>, the second and third with their two stacks;
  \<open>old\<close> is what the first block held, and \<open>kname\<close>, \<open>cname\<close> and \<open>iname\<close> is the memory at the three names.
\<close>

definition multitask_init ::
    "ptr \<Rightarrow> task_info_t \<Rightarrow> u8 list \<Rightarrow> ptr \<times> ptr \<times> ptr \<Rightarrow> u8 list \<Rightarrow> ptr \<times> ptr \<times> ptr \<Rightarrow> u8 list \<Rightarrow>
     u32 \<Rightarrow> ptr list \<Rightarrow> u32 \<Rightarrow> u32 \<Rightarrow> u32 \<Rightarrow> u32 \<Rightarrow> sched res" where
  "multitask_init kern old kname clean cname idle iname terminate files clean_func idle_func init page_dir =
     (let s = \<lparr>tasks = [kern \<mapsto> old\<lparr>ti_pid := 1, ti_esp := 0, ti_esp0 := 0, ti_page_dir := page_dir, ti_state := RUNNING,
                 ti_time_used := 0, ti_next := NULL, ti_name := take 7 kname @ drop 7 (ti_name old)\<rparr>],
               current_task = kern, schedule_tasks = NULL, sleep_tasks = NULL, terminated_tasks = NULL,
               task_cleaner = NULL, idle_task = NULL, pid_count = 2, last_count = 0,
               schedule_lock_counter = 0, postpone_switch_counter = 0, postpone_switch_flag = False,
               time_slice_remaining = TIME_SLICE, freed = [], acknowledged = 0\<rparr>;
          (clean, cstack, cstack0) = clean; (idle, istack, istack0) = idle in
      rbind (task_kernel_create_new s clean cstack cstack0 terminate files clean_func cname init page_dir) (\<lambda>s1.
      rbind (task_kernel_create_new (s1\<lparr>task_cleaner := clean\<rparr>) idle istack istack0 terminate files idle_func iname init page_dir) (\<lambda>s2.
        task_add_node (s2\<lparr>idle_task := idle\<rparr>) idle)))"

section \<open>Linked lists of tasks\<close>

fun chain :: "(ptr \<Rightarrow> task_info_t option) \<Rightarrow> ptr \<Rightarrow> ptr list \<Rightarrow> bool" where
  "chain T p [] \<longleftrightarrow> p = NULL"
| "chain T p (x # xs) \<longleftrightarrow> p = x \<and> x \<noteq> NULL \<and> (case T x of None \<Rightarrow> False | Some t \<Rightarrow> chain T (ti_next t) xs)"

lemma chain_upd [simp]: "x \<notin> set xs \<Longrightarrow> chain (T(x \<mapsto> t)) p xs \<longleftrightarrow> chain T p xs"
  by (induction T p xs rule: chain.induct) (auto split: option.splits)

lemma chain_same_next:
  "T x = Some t0 \<Longrightarrow> ti_next t = ti_next t0 \<Longrightarrow> chain (T(x \<mapsto> t)) p xs \<longleftrightarrow> chain T p xs"
  by (induction T p xs rule: chain.induct) (auto split: option.splits)

text \<open>What the shape of the lists depends on.\<close>

abbreviation links :: "sched \<Rightarrow> ptr \<Rightarrow> ptr option" where
  "links s y \<equiv> map_option ti_next (tasks s y)"

lemma chain_cong:
  assumes "\<forall>y\<in>set xs. map_option ti_next (T' y) = map_option ti_next (T y)"
  shows "chain T' p xs \<longleftrightarrow> chain T p xs"
  using assms
proof (induction xs arbitrary: p)
  case (Cons x xs)
  then show ?case
    by (cases "T x"; cases "T' x") auto
qed simp

lemma chain_NULL: "chain T p xs \<Longrightarrow> p = NULL \<longleftrightarrow> xs = []"
  by (cases xs) auto

lemma chain_head: "chain T p (x # xs) \<longleftrightarrow> p = x \<and> x \<noteq> NULL \<and> (\<exists>t. T x = Some t \<and> chain T (ti_next t) xs)"
  by (auto split: option.splits)

lemma task_upd_Some: "tasks s p = Some t \<Longrightarrow> task_upd s p f = Inr (s\<lparr>tasks := (tasks s)(p \<mapsto> f t)\<rparr>)"
  by (simp add: task_upd_def task_get_def)

lemma task_get_Some: "tasks s p = Some t \<Longrightarrow> task_get s p = Inr t"
  by (simp add: task_get_def)

lemmas task_access = task_upd_Some task_get_Some

section \<open>The ready list\<close>

text \<open>The three lists of the scheduler: ready, sleeping and terminated tasks.\<close>

definition sched_lists :: "sched \<Rightarrow> ptr list \<Rightarrow> ptr list \<Rightarrow> ptr list \<Rightarrow> bool" where
  "sched_lists s R S D \<longleftrightarrow>
     chain (tasks s) (schedule_tasks s) R \<and> chain (tasks s) (sleep_tasks s) S \<and>
     chain (tasks s) (terminated_tasks s) D \<and> distinct (R @ S @ D) \<and>
     current_task s \<notin> set R \<and> current_task s \<noteq> NULL \<and> idle_task s \<noteq> NULL \<and>
     idle_task s \<notin> set S \<and> idle_task s \<notin> set D \<and>
     tasks s (current_task s) \<noteq> None \<and> tasks s (idle_task s) \<noteq> None"

text \<open>The part of the state that only the lock operations change.\<close>

abbreviation locks :: "sched \<Rightarrow> u32 \<times> u32" where
  "locks s \<equiv> (schedule_lock_counter s, postpone_switch_counter s)"

lemma task_add_node_lists:
  assumes "sched_lists s R S D" "x \<notin> set (R @ S @ D)" "x \<noteq> NULL" "x \<noteq> current_task s" "tasks s x = Some t"
  shows "\<exists>s'. task_add_node s x = Inr s' \<and> sched_lists s' (x # R) S D \<and> locks s' = locks s \<and>
           current_task s' = current_task s \<and> postpone_switch_flag s' = postpone_switch_flag s \<and>
           idle_task s' = idle_task s \<and> (\<forall>y. y \<noteq> x \<longrightarrow> tasks s' y = tasks s y)"
proof -
  let ?t = "t\<lparr>ti_state := AVAILABLE, ti_next := schedule_tasks s\<rparr>"
  let ?s = "s\<lparr>tasks := (tasks s)(x \<mapsto> ?t), schedule_tasks := x\<rparr>"
  have "task_add_node s x = Inr ?s"
    using assms(5) by (simp add: task_add_node_def task_access)
  moreover have "sched_lists ?s (x # R) S D"
    using assms by (auto simp: sched_lists_def)
  ultimately show ?thesis
    by (intro exI [of _ ?s]) simp
qed

text \<open>Which task runs next, and what is ready then.\<close>

fun sched_next :: "ptr \<Rightarrow> ptr \<Rightarrow> bool \<Rightarrow> ptr list \<Rightarrow> ptr \<times> ptr list" where
  "sched_next idle cur running [] = (cur, [])"
| "sched_next idle cur running (x # R) =
     (if x = idle then
        (case R of
           y # R' \<Rightarrow> (y, idle # R')
         | [] \<Rightarrow> if running then (cur, []) else (idle, []))
      else (x, if cur = idle then idle # R else R))"

lemma sched_lists_cong:
  assumes "sched_lists s R S D"
    and "schedule_tasks s' = schedule_tasks s" "sleep_tasks s' = sleep_tasks s" "terminated_tasks s' = terminated_tasks s"
    and "current_task s' = current_task s" "idle_task s' = idle_task s"
    and "tasks s x = Some t0" "tasks s' = (tasks s)(x \<mapsto> t)" "ti_next t = ti_next t0"
  shows "sched_lists s' R S D"
  using assms unfolding sched_lists_def by (auto simp: chain_same_next)

lemma task_switch_lists:
  assumes "sched_lists s R S D" "x \<notin> set (R @ S @ D)" "x \<noteq> NULL" "tasks s x = Some t"
  shows "\<exists>s'. task_switch s x = Inr s' \<and> sched_lists s' R S D \<and> locks s' = locks s \<and> current_task s' = x \<and>
           postpone_switch_flag s' = postpone_switch_flag s \<and> idle_task s' = idle_task s \<and>
           (\<exists>t'. tasks s' x = Some t' \<and> ti_state t' = RUNNING) \<and> (\<forall>y. y \<noteq> x \<longrightarrow> links s' y = links s y)"
proof -
  let ?s = "s\<lparr>current_task := x, tasks := (tasks s)(x \<mapsto> t\<lparr>ti_next := NULL, ti_state := RUNNING\<rparr>)\<rparr>"
  have "task_switch s x = Inr ?s"
    using assms(4) by (simp add: task_switch_def task_access)
  moreover have "sched_lists ?s R S D"
    using assms by (auto simp: sched_lists_def)
  ultimately show ?thesis
    by (intro exI [of _ ?s]) simp
qed

lemma task_switch_wrapper_lists:
  assumes L: "sched_lists s R S D" and x: "x \<notin> set (R @ S @ D)" "x \<noteq> NULL" "tasks s x = Some t"
    and free: "postpone_switch_counter s = 0" and idle: "current_task s = idle_task s \<Longrightarrow> x \<noteq> idle_task s"
  shows "\<exists>s'. task_switch_wrapper s x = Inr s' \<and>
           sched_lists s' (if current_task s = idle_task s then idle_task s # R else R) S D \<and>
           locks s' = locks s \<and> current_task s' = x \<and> postpone_switch_flag s' = postpone_switch_flag s \<and>
           idle_task s' = idle_task s \<and> (\<exists>t'. tasks s' x = Some t' \<and> ti_state t' = RUNNING) \<and>
           (\<forall>y. y \<noteq> x \<and> y \<noteq> idle_task s \<longrightarrow> links s' y = links s y)"
proof (cases "current_task s = idle_task s")
  case False
  let ?s = "s\<lparr>time_slice_remaining := (if x = idle_task s then 0 else TIME_SLICE)\<rparr>"
  have "sched_lists ?s R S D"
    using L by (simp add: sched_lists_def)
  then show ?thesis
    using False task_switch_lists [of ?s R S D x t] x free by (auto simp: task_switch_wrapper_def)
next
  case True
  obtain ti where ti: "tasks s (idle_task s) = Some ti"
    using L by (auto simp: sched_lists_def)
  let ?i = "idle_task s"
  let ?s = "s\<lparr>tasks := (tasks s)(?i \<mapsto> ti\<lparr>ti_state := AVAILABLE, ti_next := schedule_tasks s\<rparr>), schedule_tasks := ?i,
    time_slice_remaining := TIME_SLICE, current_task := x\<rparr>"
  have ne: "x \<noteq> ?i"
    by (rule idle [OF True])
  have eq: "task_switch_wrapper s x = task_switch ?s x"
    using free True ne ti by (simp add: task_switch_wrapper_def task_add_node_def task_access task_switch_def)
  have "sched_lists ?s (?i # R) S D"
    using L True x ne by (auto simp: sched_lists_def)
  then show ?thesis
    using task_switch_lists [of ?s "?i # R" S D x t] x ne True unfolding eq by auto
qed

lemma task_update_counter_lists:
  assumes "sched_lists s R S D"
  obtains s1 c where "task_update_counter count s = Inr s1" "sched_lists s1 R S D" "locks s1 = locks s"
    "current_task s1 = current_task s" "idle_task s1 = idle_task s" "tasks s1 (current_task s) = Some c"
    "ti_state c = ti_state (the (tasks s (current_task s)))" "postpone_switch_flag s1 = postpone_switch_flag s"
    "schedule_tasks s1 = schedule_tasks s" "\<forall>y. y \<noteq> current_task s \<longrightarrow> tasks s1 y = tasks s y"
    "\<forall>y. links s1 y = links s y"
proof -
  obtain c where c: "tasks s (current_task s) = Some c"
    using assms by (auto simp: sched_lists_def)
  let ?c = "c\<lparr>ti_time_used := ti_time_used c + (count - last_count s) * 10\<rparr>"
  let ?s = "s\<lparr>last_count := count, tasks := (tasks s)(current_task s \<mapsto> ?c)\<rparr>"
  have "task_update_counter count s = Inr ?s"
    using c by (simp add: task_update_counter_def task_access Let_def)
  moreover have "sched_lists ?s R S D"
    by (rule sched_lists_cong [OF assms, where x = "current_task s" and t = ?c]) (use c in auto)
  ultimately show ?thesis
    using that [of ?s ?c] c by simp
qed

lemma task_schedule_next:
  assumes L: "sched_lists s R S D" and free: "postpone_switch_counter s = 0"
    and R': "(cur', R') = sched_next (idle_task s) (current_task s) (ti_state (the (tasks s (current_task s))) = RUNNING) R"
  shows "\<exists>s'. task_schedule count s = Inr s' \<and> sched_lists s' R' S D \<and> current_task s' = cur' \<and>
           locks s' = locks s \<and> postpone_switch_flag s' = postpone_switch_flag s \<and> idle_task s' = idle_task s \<and>
           (cur' \<noteq> current_task s \<longrightarrow> (\<exists>t'. tasks s' cur' = Some t' \<and> ti_state t' = RUNNING)) \<and>
           (\<forall>y. y \<notin> set R \<and> y \<noteq> idle_task s \<longrightarrow> links s' y = links s y)"
proof -
  obtain s1 c where s1: "task_update_counter count s = Inr s1" "sched_lists s1 R S D" "locks s1 = locks s"
    "current_task s1 = current_task s" "idle_task s1 = idle_task s" "tasks s1 (current_task s) = Some c"
    "ti_state c = ti_state (the (tasks s (current_task s)))" "postpone_switch_flag s1 = postpone_switch_flag s"
    "\<forall>y. links s1 y = links s y"
    by (rule task_update_counter_lists [OF L])
  show ?thesis
  proof (cases R)
    case Nil
    then have "schedule_tasks s1 = NULL"
      using s1(2) by (simp add: sched_lists_def)
    then have "task_schedule count s = Inr s1"
      using s1 free by (simp add: task_schedule_def)
    then show ?thesis
      using s1 R' Nil by simp
  next
    case (Cons x R1)
    then have "chain (tasks s1) (schedule_tasks s1) (x # R1)"
      using s1(2) by (simp add: sched_lists_def)
    then obtain t where t: "schedule_tasks s1 = x" "x \<noteq> NULL" "tasks s1 x = Some t"
        "chain (tasks s1) (ti_next t) R1"
      unfolding chain_head by blast
    let ?s2 = "s1\<lparr>schedule_tasks := ti_next t\<rparr>"
    have L2: "sched_lists ?s2 R1 S D" "x \<notin> set (R1 @ S @ D)" "x \<noteq> current_task s"
      using s1(2,4) t(4) Cons by (auto simp: sched_lists_def)
    have sched: "task_schedule count s = (if x = idle_task s then
         (if ti_next t \<noteq> NULL then
            rbind (task_get ?s2 (ti_next t)) (\<lambda>t'.
            rbind (task_upd ?s2 (idle_task s) (\<lambda>i. i\<lparr>ti_next := ti_next t'\<rparr>)) (\<lambda>s2.
              task_switch_wrapper (s2\<lparr>schedule_tasks := idle_task s2\<rparr>) (ti_next t)))
          else if ti_state c = RUNNING then Inr ?s2 else task_switch_wrapper ?s2 x)
       else task_switch_wrapper ?s2 x)"
      using s1 t free by (simp add: task_schedule_def task_access Let_def)
    have wrap: "\<exists>s'. task_switch_wrapper ?s2 x = Inr s' \<and>
        sched_lists s' (if current_task s = idle_task s then idle_task s # R1 else R1) S D \<and> locks s' = locks s \<and>
        current_task s' = x \<and> postpone_switch_flag s' = postpone_switch_flag s \<and> idle_task s' = idle_task s \<and>
        (\<exists>t'. tasks s' x = Some t' \<and> ti_state t' = RUNNING) \<and>
        (\<forall>y. y \<noteq> x \<and> y \<noteq> idle_task s \<longrightarrow> links s' y = links s y)"
    proof -
      have "current_task ?s2 = idle_task ?s2 \<Longrightarrow> x \<noteq> idle_task ?s2" "tasks ?s2 x = Some t" "postpone_switch_counter ?s2 = 0"
        using L2(3) s1(3-5) free t(3) by auto
      from task_switch_wrapper_lists [OF L2(1,2) t(2) this(2,3,1)] show ?thesis
        using s1(3-5,8,9) by (simp cong: if_cong)
    qed
    consider "x \<noteq> idle_task s" | "x = idle_task s" "R1 = []" | y R2 where "x = idle_task s" "R1 = y # R2"
      by (cases R1) auto
    then show ?thesis
    proof cases
      case 1
      then show ?thesis
        using wrap R' Cons sched by (auto split: if_splits)
    next
      case 2
      then have "ti_next t = NULL"
        using t(4) by simp
      then show ?thesis
        using wrap R' Cons sched 2 s1 L2 by (auto split: if_splits)
    next
      case (3 y R2)
      then obtain t' where t': "ti_next t = y" "y \<noteq> NULL" "tasks s1 y = Some t'" "chain (tasks s1) (ti_next t') R2"
        using t(4) by (auto simp: chain_head simp del: chain.simps)
      let ?i = "t\<lparr>ti_next := ti_next t'\<rparr>"
      let ?s3 = "s1\<lparr>tasks := (tasks s1)(x \<mapsto> ?i), schedule_tasks := x\<rparr>"
      have L3: "sched_lists ?s3 (x # R2) S D" "y \<notin> set ((x # R2) @ S @ D)"
        using L2 3 t'(4) s1(2,4,5) t(2) by (auto simp: sched_lists_def)
      have "task_schedule count s = task_switch_wrapper ?s3 y"
        using sched 3 t' t(3) s1(5) by (simp add: task_access)
      moreover have "tasks ?s3 y = Some t'" "current_task s \<noteq> idle_task s"
        using t'(3) L3(2) L2(3) 3 by auto
      ultimately show ?thesis
        using task_switch_wrapper_lists [OF L3 t'(2), of t'] s1 free R' Cons 3 by auto
    qed
  qed
qed

text \<open>While switches are postponed the scheduler only takes a note.\<close>

lemma task_schedule_postponed:
  assumes L: "sched_lists s R S D" and "postpone_switch_counter s \<noteq> 0"
  shows "\<exists>s'. task_schedule count s = Inr s' \<and> sched_lists s' R S D \<and> current_task s' = current_task s \<and>
           locks s' = locks s \<and> postpone_switch_flag s' \<and> idle_task s' = idle_task s \<and>
           ti_state (the (tasks s' (current_task s))) = ti_state (the (tasks s (current_task s))) \<and>
           (\<forall>y. links s' y = links s y)"
proof -
  obtain s1 c where s1: "task_update_counter count s = Inr s1" "sched_lists s1 R S D" "locks s1 = locks s"
    "current_task s1 = current_task s" "idle_task s1 = idle_task s" "tasks s1 (current_task s) = Some c"
    "ti_state c = ti_state (the (tasks s (current_task s)))" "\<forall>y. links s1 y = links s y"
    by (rule task_update_counter_lists [OF L])
  let ?s = "s1\<lparr>postpone_switch_flag := True\<rparr>"
  have "task_schedule count s = Inr ?s"
    using s1(1,3) assms(2) by (simp add: task_schedule_def)
  moreover have "sched_lists ?s R S D"
    using s1(2) by (simp add: sched_lists_def)
  ultimately show ?thesis
    using s1 by (intro exI [of _ ?s]) simp
qed

lemma task_lock_simps [simp]:
  "sched_lists (task_lock_scheduler s) R S D \<longleftrightarrow> sched_lists s R S D"
  "sched_lists (task_lock s) R S D \<longleftrightarrow> sched_lists s R S D"
  "sched_lists (s\<lparr>schedule_lock_counter := n\<rparr>) R S D \<longleftrightarrow> sched_lists s R S D"
  "sched_lists (s\<lparr>postpone_switch_counter := n\<rparr>) R S D \<longleftrightarrow> sched_lists s R S D"
  "sched_lists (s\<lparr>postpone_switch_flag := b\<rparr>) R S D \<longleftrightarrow> sched_lists s R S D"
  "sched_lists (s\<lparr>time_slice_remaining := v\<rparr>) R S D \<longleftrightarrow> sched_lists s R S D"
  "sched_lists (s\<lparr>acknowledged := k\<rparr>) R S D \<longleftrightarrow> sched_lists s R S D"
  "schedule_lock_counter (task_lock s) = schedule_lock_counter s + 1"
  "postpone_switch_counter (task_lock s) = postpone_switch_counter s + 1"
  "tasks (task_lock s) = tasks s" "current_task (task_lock s) = current_task s" "idle_task (task_lock s) = idle_task s"
  "schedule_tasks (task_lock s) = schedule_tasks s" "sleep_tasks (task_lock s) = sleep_tasks s"
  "terminated_tasks (task_lock s) = terminated_tasks s" "postpone_switch_flag (task_lock s) = postpone_switch_flag s"
  "schedule_lock_counter (task_lock_scheduler s) = schedule_lock_counter s + 1"
  "postpone_switch_counter (task_lock_scheduler s) = postpone_switch_counter s"
  "tasks (task_lock_scheduler s) = tasks s" "current_task (task_lock_scheduler s) = current_task s"
  "idle_task (task_lock_scheduler s) = idle_task s" "schedule_tasks (task_lock_scheduler s) = schedule_tasks s"
  "postpone_switch_flag (task_lock_scheduler s) = postpone_switch_flag s"
  by (simp_all add: task_lock_def task_lock_scheduler_def sched_lists_def Let_def)

lemma set_current_state:
  assumes L: "sched_lists s R S D"
  obtains s1 c where "task_upd s (current_task s) (\<lambda>t. t\<lparr>ti_state := r\<rparr>) = Inr s1" "sched_lists s1 R S D"
    "locks s1 = locks s" "current_task s1 = current_task s" "idle_task s1 = idle_task s"
    "tasks s1 (current_task s) = Some c" "ti_state c = r" "postpone_switch_flag s1 = postpone_switch_flag s"
    "\<forall>y. links s1 y = links s y"
proof -
  obtain c where c: "tasks s (current_task s) = Some c"
    using L by (auto simp: sched_lists_def)
  let ?s = "s\<lparr>tasks := (tasks s)(current_task s \<mapsto> c\<lparr>ti_state := r\<rparr>)\<rparr>"
  have "sched_lists ?s R S D"
    by (rule sched_lists_cong [OF L, where x = "current_task s" and t = "c\<lparr>ti_state := r\<rparr>"]) (use c in auto)
  then show ?thesis
    using that [of ?s "c\<lparr>ti_state := r\<rparr>"] c by (simp add: task_access)
qed

lemma task_block_next:
  assumes L: "sched_lists s R S D" and free: "postpone_switch_counter s = 0"
    and lock: "schedule_lock_counter s + 1 \<noteq> 0" and r: "reason \<noteq> RUNNING"
    and R': "(cur', R') = sched_next (idle_task s) (current_task s) False R"
  shows "\<exists>s'. task_block count s reason = Inr s' \<and> sched_lists s' R' S D \<and> current_task s' = cur' \<and> locks s' = locks s"
proof -
  let ?s = "task_lock_scheduler s"
  have L1: "sched_lists ?s R S D"
    using L by simp
  obtain s1 c where s1: "task_upd ?s (current_task ?s) (\<lambda>t. t\<lparr>ti_state := reason\<rparr>) = Inr s1" "sched_lists s1 R S D"
    "locks s1 = locks ?s" "current_task s1 = current_task ?s" "idle_task s1 = idle_task ?s"
    "tasks s1 (current_task ?s) = Some c" "ti_state c = reason"
    by (rule set_current_state [OF L1])
  have "(cur', R') = sched_next (idle_task s1) (current_task s1) (ti_state (the (tasks s1 (current_task s1))) = RUNNING) R"
    using s1 R' r by simp
  from task_schedule_next [OF s1(2) _ this] obtain s2 where
    s2: "task_schedule count s1 = Inr s2" "sched_lists s2 R' S D" "current_task s2 = cur'" "locks s2 = locks s1"
    using s1(3) free by auto
  then have "task_unlock_scheduler s2 = Inr (s2\<lparr>schedule_lock_counter := schedule_lock_counter s\<rparr>)"
    using s1(3) lock by (simp add: task_unlock_scheduler_def)
  then have "task_block count s reason = Inr (s2\<lparr>schedule_lock_counter := schedule_lock_counter s\<rparr>)"
    using s1(1) s2(1) by (simp add: task_block_def Let_def)
  then show ?thesis
    using s2 s1(3) by simp
qed

text \<open>C20 [task_block_switches]: when switches are not postponed \<open>task_block\<close> returns with the two lock
  counters as before and the three lists well-formed, and the processor goes to the task that the
  list policy chooses for a task that cannot run on: the first ready task, the second when the first
  is the idle task and there is another, the idle task when it alone is ready, and the blocked task
  itself when none is.\<close>

theorem task_block_switches:
  assumes L: "sched_lists s R S D" and free: "postpone_switch_counter s = 0"
    and lock: "schedule_lock_counter s + 1 \<noteq> 0" and r: "reason \<noteq> RUNNING"
    and R': "(cur', R') = sched_next (idle_task s) (current_task s) False R"
  shows "\<exists>s'. task_block count s reason = Inr s' \<and> sched_lists s' R' S D \<and> current_task s' = cur' \<and> locks s' = locks s"
  by (rule task_block_next [OF assms])

definition sched_sample :: sched where
  "sched_sample = \<lparr>tasks = [0x100 \<mapsto> \<lparr>ti_pid = 1, ti_esp = 0, ti_esp0 = 0, ti_ebp = 0, ti_stack = [], ti_page_dir = 0, ti_state = RUNNING, ti_next = NULL,
        ti_current_dir = NULL, ti_open_files = [], ti_time_used = 0, ti_wake_up_time = 0, ti_name = []\<rparr>,
      0x200 \<mapsto> \<lparr>ti_pid = 2, ti_esp = 0, ti_esp0 = 0, ti_ebp = 0, ti_stack = [], ti_page_dir = 0, ti_state = AVAILABLE, ti_next = 0x300,
        ti_current_dir = NULL, ti_open_files = [], ti_time_used = 0, ti_wake_up_time = 0, ti_name = []\<rparr>,
      0x300 \<mapsto> \<lparr>ti_pid = 3, ti_esp = 0, ti_esp0 = 0, ti_ebp = 0, ti_stack = [], ti_page_dir = 0, ti_state = AVAILABLE, ti_next = NULL,
        ti_current_dir = NULL, ti_open_files = [], ti_time_used = 0, ti_wake_up_time = 0, ti_name = []\<rparr>],
     current_task = 0x100, schedule_tasks = 0x200, sleep_tasks = NULL, terminated_tasks = NULL, task_cleaner = NULL,
     idle_task = 0x300, pid_count = 4, last_count = 0, schedule_lock_counter = 0, postpone_switch_counter = 0,
     postpone_switch_flag = False, time_slice_remaining = 1, freed = [], acknowledged = 0\<rparr>"

lemma sched_sample_lists: "sched_lists sched_sample [0x200, 0x300] [] []"
  by (simp add: sched_lists_def sched_sample_def)

theorem task_block_switches_witness:
  "\<exists>s'. task_block 5 sched_sample IO_REQUEST = Inr s' \<and> sched_lists s' [0x300] [] [] \<and> current_task s' = 0x200"
  using task_block_switches [OF sched_sample_lists, of IO_REQUEST "0x200" "[0x300]" 5]
  by (auto simp: sched_sample_def)

lemma task_unlock_scheduler_1:
  assumes "schedule_lock_counter s = n + 1" "n + 1 \<noteq> 0"
  shows "task_unlock_scheduler s = Inr (s\<lparr>schedule_lock_counter := n\<rparr>)"
  using assms by (simp add: task_unlock_scheduler_def)

lemma task_block_postponed:
  assumes L: "sched_lists s R S D" and post: "postpone_switch_counter s \<noteq> 0" and lock: "schedule_lock_counter s + 1 \<noteq> 0"
  obtains s1 where "task_block count s reason = Inr s1" "sched_lists s1 R S D" "current_task s1 = current_task s"
    "locks s1 = locks s" "postpone_switch_flag s1" "idle_task s1 = idle_task s"
    "ti_state (the (tasks s1 (current_task s))) = reason" "\<forall>y. links s1 y = links s y"
proof -
  let ?s = "task_lock_scheduler s"
  have L1: "sched_lists ?s R S D"
    using L by simp
  obtain s1 c where s1: "task_upd ?s (current_task ?s) (\<lambda>t. t\<lparr>ti_state := reason\<rparr>) = Inr s1" "sched_lists s1 R S D"
    "locks s1 = locks ?s" "current_task s1 = current_task ?s" "idle_task s1 = idle_task ?s"
    "tasks s1 (current_task ?s) = Some c" "ti_state c = reason" "\<forall>y. links s1 y = links ?s y"
    by (rule set_current_state [OF L1])
  obtain s2 where s2: "task_schedule count s1 = Inr s2" "sched_lists s2 R S D" "current_task s2 = current_task s1"
      "locks s2 = locks s1" "postpone_switch_flag s2" "idle_task s2 = idle_task s1"
      "ti_state (the (tasks s2 (current_task s1))) = ti_state (the (tasks s1 (current_task s1)))"
      "\<forall>y. links s2 y = links s1 y"
    using task_schedule_postponed [OF s1(2), of count] s1(3) post by auto
  have "task_unlock_scheduler s2 = Inr (s2\<lparr>schedule_lock_counter := schedule_lock_counter s\<rparr>)"
    using s2(4) s1(3) lock by (intro task_unlock_scheduler_1) auto
  then have "task_block count s reason = Inr (s2\<lparr>schedule_lock_counter := schedule_lock_counter s\<rparr>)"
    using s1(1) s2(1) by (simp add: task_block_def Let_def)
  then show ?thesis
    using that s1 s2 by simp
qed

lemma task_unblock_postponed:
  assumes L: "sched_lists s R S D" and post: "postpone_switch_counter s \<noteq> 0" and lock: "schedule_lock_counter s + 1 \<noteq> 0"
    and x: "x \<notin> set (R @ S @ D)" "x \<noteq> NULL" "x \<noteq> current_task s" "tasks s x \<noteq> None"
  obtains s2 where "task_unblock s x = Inr s2" "sched_lists s2 (x # R) S D" "current_task s2 = current_task s"
    "locks s2 = locks s" "idle_task s2 = idle_task s" "\<forall>y. y \<noteq> x \<longrightarrow> tasks s2 y = tasks s y"
    "R \<noteq> [] \<Longrightarrow> current_task s \<noteq> idle_task s \<Longrightarrow> postpone_switch_flag s2 = postpone_switch_flag s"
proof -
  let ?s = "task_lock_scheduler s"
  obtain t where t: "tasks s x = Some t"
    using x(4) by blast
  have add: "\<exists>s3. task_add_node s' x = Inr s3 \<and> sched_lists s3 (x # R) S D \<and> locks s3 = locks ?s \<and>
      current_task s3 = current_task s \<and> idle_task s3 = idle_task s \<and> (\<forall>y. y \<noteq> x \<longrightarrow> tasks s3 y = tasks s y) \<and>
      postpone_switch_flag s3 = postpone_switch_flag s'"
    if "sched_lists s' R S D" "locks s' = locks ?s" "tasks s' = tasks s" "current_task s' = current_task s"
      "idle_task s' = idle_task s" for s'
    using task_add_node_lists [OF that(1) x(1,2), of t] that x t by auto
  have w: "task_switch_wrapper ?s x = task_add_node (?s\<lparr>postpone_switch_flag := True\<rparr>) x"
    using post by (simp add: task_switch_wrapper_def)
  have "\<exists>s3. (if schedule_tasks ?s = NULL \<or> current_task ?s = idle_task ?s then task_switch_wrapper ?s x
      else task_add_node ?s x) = Inr s3 \<and> sched_lists s3 (x # R) S D \<and> locks s3 = locks ?s \<and>
      current_task s3 = current_task s \<and> idle_task s3 = idle_task s \<and> (\<forall>y. y \<noteq> x \<longrightarrow> tasks s3 y = tasks s y) \<and>
      (R \<noteq> [] \<longrightarrow> current_task s \<noteq> idle_task s \<longrightarrow> postpone_switch_flag s3 = postpone_switch_flag s)"
  proof (cases "schedule_tasks ?s = NULL \<or> current_task ?s = idle_task ?s")
    case True
    then have "R = [] \<or> current_task s = idle_task s"
      using L chain_NULL by (auto simp: sched_lists_def)
    then show ?thesis
      using True add [of "?s\<lparr>postpone_switch_flag := True\<rparr>"] L unfolding w by simp blast
  next
    case False
    then show ?thesis
      using add [of ?s] L by simp blast
  qed
  then obtain s3 where s3: "(if schedule_tasks ?s = NULL \<or> current_task ?s = idle_task ?s then task_switch_wrapper ?s x
      else task_add_node ?s x) = Inr s3" "sched_lists s3 (x # R) S D" "locks s3 = locks ?s" "current_task s3 = current_task s"
      "idle_task s3 = idle_task s" "\<forall>y. y \<noteq> x \<longrightarrow> tasks s3 y = tasks s y"
      "R \<noteq> [] \<Longrightarrow> current_task s \<noteq> idle_task s \<Longrightarrow> postpone_switch_flag s3 = postpone_switch_flag s"
    by blast
  have "task_unlock_scheduler s3 = Inr (s3\<lparr>schedule_lock_counter := schedule_lock_counter s\<rparr>)"
    using s3(3) lock by (intro task_unlock_scheduler_1) auto
  then have "task_unblock s x = Inr (s3\<lparr>schedule_lock_counter := schedule_lock_counter s\<rparr>)"
    using s3(1) by (simp add: task_unblock_def Let_def)
  then show ?thesis
    using that s3 by simp
qed

text \<open>Leaving the outermost critical section carries out a switch that is due.\<close>

lemma task_unlock_next:
  assumes L: "sched_lists s R S D" and post: "postpone_switch_counter s = 1" and lock: "schedule_lock_counter s \<noteq> 0"
    and R': "(cur', R') = (if postpone_switch_flag s
      then sched_next (idle_task s) (current_task s) (ti_state (the (tasks s (current_task s))) = RUNNING) R
      else (current_task s, R))"
  obtains s' where "task_unlock count s = Inr s'" "sched_lists s' R' S D" "current_task s' = cur'"
    "locks s' = (schedule_lock_counter s - 1, 0)" "\<not> postpone_switch_flag s'" "idle_task s' = idle_task s"
    "\<forall>y. y \<notin> set R \<and> y \<noteq> idle_task s \<longrightarrow> links s' y = links s y"
proof (cases "postpone_switch_flag s")
  case False
  let ?s = "s\<lparr>postpone_switch_counter := 0, schedule_lock_counter := schedule_lock_counter s - 1\<rparr>"
  have "task_unlock count s = Inr ?s"
    using False post lock by (simp add: task_unlock_def task_unlock_scheduler_def Let_def)
  then show ?thesis
    using that [of ?s] False L R' by simp
next
  case True
  let ?s = "s\<lparr>postpone_switch_counter := 0, postpone_switch_flag := False\<rparr>"
  have L1: "sched_lists ?s R S D"
    using L by simp
  have nxt: "(cur', R') = sched_next (idle_task ?s) (current_task ?s) (ti_state (the (tasks ?s (current_task ?s))) = RUNNING) R"
    using R' True by simp
  obtain s1 where s1: "task_schedule count ?s = Inr s1" "sched_lists s1 R' S D" "current_task s1 = cur'"
      "locks s1 = (schedule_lock_counter s, 0)" "\<not> postpone_switch_flag s1" "idle_task s1 = idle_task s"
      "\<forall>y. y \<notin> set R \<and> y \<noteq> idle_task s \<longrightarrow> links s1 y = links s y"
    using task_schedule_next [OF L1 _ nxt, of count] by auto
  have "task_unlock count s = Inr (s1\<lparr>schedule_lock_counter := schedule_lock_counter s - 1\<rparr>)"
    using True post lock s1(1,4) by (simp add: task_unlock_def task_unlock_scheduler_def Let_def)
  then show ?thesis
    using that s1 by simp
qed

text \<open>Fact [task_postponed_no_switch]: while switches are postponed neither \<open>task_block\<close> nor \<open>task_unblock\<close>
  changes the running task: blocking leaves the lists alone, unblocking puts the task at the front of
  the ready list, both restore the lock counters, and blocking notes that a switch is due.\<close>

theorem task_postponed_no_switch:
  assumes L: "sched_lists s R S D" and post: "postpone_switch_counter s \<noteq> 0"
    and lock: "schedule_lock_counter s + 1 \<noteq> 0"
    and x: "x \<notin> set (R @ S @ D)" "x \<noteq> NULL" "x \<noteq> current_task s" "tasks s x \<noteq> None"
  shows "\<exists>s1 s2. task_block count s reason = Inr s1 \<and> sched_lists s1 R S D \<and> current_task s1 = current_task s \<and>
             locks s1 = locks s \<and> postpone_switch_flag s1 \<and>
           task_unblock s x = Inr s2 \<and> sched_lists s2 (x # R) S D \<and> current_task s2 = current_task s \<and>
             locks s2 = locks s"
  by (rule task_block_postponed [OF L post lock, of count reason], rule task_unblock_postponed [OF L post lock x]) auto

theorem task_postponed_no_switch_witness:
  "\<exists>s1 s2. task_block 5 (task_lock (sched_sample\<lparr>schedule_tasks := 0x300\<rparr>)) BLOCKED = Inr s1 \<and> current_task s1 = 0x100 \<and>
     task_unblock (task_lock (sched_sample\<lparr>schedule_tasks := 0x300\<rparr>)) 0x200 = Inr s2 \<and>
     sched_lists s2 [0x200, 0x300] [] []"
proof -
  let ?s = "task_lock (sched_sample\<lparr>schedule_tasks := 0x300\<rparr>)"
  have "sched_lists ?s [0x300] [] []"
    by (simp add: sched_lists_def sched_sample_def)
  from task_postponed_no_switch [OF this, of "0x200" 5 BLOCKED] show ?thesis
    by (simp add: sched_sample_def task_lock_def task_lock_scheduler_def) blast
qed

section \<open>The timer\<close>

lemma task_unblock_locked:
  assumes "postpone_switch_counter s \<noteq> 0" and "schedule_lock_counter s + 1 \<noteq> 0" and "tasks s x = Some t"
  shows "task_unblock s x = Inr (s\<lparr>tasks := (tasks s)(x \<mapsto> t\<lparr>ti_state := AVAILABLE, ti_next := schedule_tasks s\<rparr>),
    schedule_tasks := x,
    postpone_switch_flag := postpone_switch_flag s \<or> schedule_tasks s = NULL \<or> current_task s = idle_task s\<rparr>)"
  using assms
  by (auto simp: task_unblock_def task_switch_wrapper_def task_add_node_def task_access task_lock_scheduler_def
      task_unlock_scheduler_def Let_def)

text \<open>The sleeping tasks that are due at \<open>ns\<close>.\<close>

definition due :: "sched \<Rightarrow> u64 \<Rightarrow> ptr \<Rightarrow> bool" where
  "due s ns x \<longleftrightarrow> ti_wake_up_time (the (tasks s x)) \<le> ns"

text \<open>What waking the sleepers \<open>W\<close> makes of the scheduler.\<close>

definition woken :: "u64 \<Rightarrow> sched \<Rightarrow> ptr list \<Rightarrow> ptr list \<Rightarrow> ptr list \<Rightarrow> ptr list \<Rightarrow> sched \<Rightarrow> bool" where
  "woken ns s W R K D s' \<longleftrightarrow>
     sched_lists s' (rev (filter (due s ns) W) @ R) (rev (filter (\<lambda>x. \<not> due s ns x) W) @ K) D \<and>
     locks s' = locks s \<and> current_task s' = current_task s \<and> idle_task s' = idle_task s \<and>
     time_slice_remaining s' = time_slice_remaining s \<and> (\<forall>y. y \<notin> set W \<longrightarrow> tasks s' y = tasks s y) \<and>
     postpone_switch_flag s' = (postpone_switch_flag s \<or> filter (due s ns) W \<noteq> [] \<and> (R = [] \<or> current_task s = idle_task s))"

lemma due_upd: "x \<notin> set W \<Longrightarrow> y \<in> set W \<Longrightarrow> tasks s' = (tasks s)(x \<mapsto> t) \<Longrightarrow> due s' ns y = due s ns y"
  by (auto simp: due_def)

lemma woken_step:
  assumes "x \<notin> set W" and "tasks s1 = (tasks s)(x \<mapsto> t)" and "locks s1 = locks s" and "current_task s1 = current_task s"
    and "idle_task s1 = idle_task s" and "time_slice_remaining s1 = time_slice_remaining s"
    and "if due s ns x
      then woken ns s1 W (x # R) K D s' \<and> postpone_switch_flag s1 = (postpone_switch_flag s \<or> R = [] \<or> current_task s = idle_task s)
      else woken ns s1 W R (x # K) D s' \<and> postpone_switch_flag s1 = postpone_switch_flag s"
  shows "woken ns s (x # W) R K D s'"
proof -
  have "filter (due s1 ns) W = filter (due s ns) W" "filter (\<lambda>y. \<not> due s1 ns y) W = filter (\<lambda>y. \<not> due s ns y) W"
    using due_upd [OF assms(1) _ assms(2)] by (auto intro!: filter_cong)
  then show ?thesis
    using assms by (auto simp: woken_def split: if_splits)
qed

lemma task_wake_loop_run:
  assumes "length W < n" and "chain (tasks s) p W" and "distinct W" and "set W \<inter> set (R @ K @ D) = {}"
    and "current_task s \<notin> set W" and "idle_task s \<notin> set W" and "sched_lists s R K D"
    and "postpone_switch_counter s \<noteq> 0" and "schedule_lock_counter s + 1 \<noteq> 0"
  shows "\<exists>s'. task_wake_loop n ns s p = Inr s' \<and> woken ns s W R K D s'"
  using assms
proof (induction W arbitrary: n s p R K)
  case Nil
  then show ?case
    by (cases n) (auto simp: woken_def)
next
  case (Cons x W)
  obtain m where n: "n = Suc m" "length W < m"
    using Cons.prems(1) by (cases n) auto
  obtain t where t: "p = x" "x \<noteq> NULL" "tasks s x = Some t" "chain (tasks s) (ti_next t) W"
    using Cons.prems(2) by (auto split: option.splits)
  have x: "x \<notin> set W" "x \<notin> set (R @ K @ D)" "x \<noteq> current_task s" "x \<noteq> idle_task s"
    using Cons.prems by auto
  have R: "(schedule_tasks s = NULL) = (R = [])"
    using Cons.prems(7) chain_NULL by (auto simp: sched_lists_def)
  show ?case
  proof (cases "due s ns x")
    case True
    let ?f = "postpone_switch_flag s \<or> schedule_tasks s = NULL \<or> current_task s = idle_task s"
    let ?s = "s\<lparr>tasks := (tasks s)(x \<mapsto> t\<lparr>ti_state := AVAILABLE, ti_next := schedule_tasks s\<rparr>), schedule_tasks := x,
      postpone_switch_flag := ?f\<rparr>"
    have L: "sched_lists ?s (x # R) K D"
      using Cons.prems(7) x t by (auto simp: sched_lists_def)
    have c: "chain (tasks ?s) (ti_next t) W"
      using t(4) x(1) by simp
    obtain s' where s': "task_wake_loop m ns ?s (ti_next t) = Inr s'" "woken ns ?s W (x # R) K D s'"
      using Cons.IH [OF n(2) c _ _ _ _ L] Cons.prems x by auto
    have "woken ns s (x # W) R K D s'"
      by (rule woken_step [OF x(1), of ?s]) (use True s'(2) R in auto)
    then show ?thesis
      using True s'(1) task_unblock_locked [OF Cons.prems(8,9) t(3)] t(2,3) unfolding n(1) t(1) by (simp add: task_access due_def)
  next
    case False
    let ?s = "s\<lparr>tasks := (tasks s)(x \<mapsto> t\<lparr>ti_next := sleep_tasks s\<rparr>), sleep_tasks := x\<rparr>"
    have L: "sched_lists ?s R (x # K) D"
      using Cons.prems(7) x t by (auto simp: sched_lists_def)
    have c: "chain (tasks ?s) (ti_next t) W"
      using t(4) x(1) by simp
    obtain s' where s': "task_wake_loop m ns ?s (ti_next t) = Inr s'" "woken ns ?s W R (x # K) D s'"
      using Cons.IH [OF n(2) c _ _ _ _ L] Cons.prems x by auto
    have "woken ns s (x # W) R K D s'"
      by (rule woken_step [OF x(1), of ?s]) (use False s'(2) in auto)
    then show ?thesis
      using False s'(1) t(2,3) unfolding n(1) t(1) by (simp add: task_access due_def)
  qed
qed

text \<open>
  One tick: which tasks are ready afterwards, whether a switch is due, and where the processor goes.
\<close>

lemma task_tick:
  assumes L: "sched_lists s R S D" and unlocked: "locks s = (0, 0)" and S: "current_task s \<notin> set S" "length S \<le> unat (pid_count s)"
    and due: "flag = (postpone_switch_flag s \<or> time_slice_remaining s = 1 \<or>
      filter (due s ns) S \<noteq> [] \<and> (R = [] \<or> current_task s = idle_task s))"
    and nxt: "(cur', R') = (if flag
      then sched_next (idle_task s) (current_task s) (ti_state (the (tasks s (current_task s))) = RUNNING) (rev (filter (due s ns) S) @ R)
      else (current_task s, rev (filter (due s ns) S) @ R))"
  shows "\<exists>s'. task_time_handler count ns s = Inr s' \<and> current_task s' = cur' \<and>
    sched_lists s' R' (rev (filter (\<lambda>x. \<not> due s ns x) S)) D \<and> locks s' = (0, 0)"
proof -
  let ?s = "(task_lock s)\<lparr>sleep_tasks := NULL\<rparr>" and ?R = "rev (filter (due s ns) S) @ R"
    and ?S = "rev (filter (\<lambda>x. \<not> due s ns x) S)" and ?n = "Suc (unat (pid_count s))"
  have l0: "sched_lists ?s R [] D" "chain (tasks ?s) (sleep_tasks s) S" "distinct S" "set S \<inter> set (R @ [] @ D) = {}" "idle_task s \<notin> set S"
    using L by (auto simp: sched_lists_def)
  have f: "locks ?s = (1, 1)" "time_slice_remaining ?s = time_slice_remaining s" "postpone_switch_flag ?s = postpone_switch_flag s"
    using unlocked by (simp_all add: task_lock_def task_lock_scheduler_def)
  have d: "due ?s ns = due s ns"
    by (simp add: due_def fun_eq_iff)
  have "length S < ?n" "postpone_switch_counter ?s \<noteq> 0" "schedule_lock_counter ?s + 1 \<noteq> 0"
    using S(2) f(1) by auto
  then obtain s1 where w: "task_wake_loop ?n ns ?s (sleep_tasks s) = Inr s1" "woken ns ?s S R [] D s1"
    using task_wake_loop_run [OF _ l0(2,3,4) _ _ l0(1)] S(1) l0(5) by (auto simp del: task_wake_loop.simps)
  from w(2) have s1: "sched_lists s1 ?R ?S D" "locks s1 = (1, 1)"
      "current_task s1 = current_task s" "idle_task s1 = idle_task s" "time_slice_remaining s1 = time_slice_remaining s"
      "tasks s1 (current_task s) = tasks s (current_task s)"
      "postpone_switch_flag s1 = (postpone_switch_flag s \<or> filter (due s ns) S \<noteq> [] \<and> (R = [] \<or> current_task s = idle_task s))"
    using S(1) f unfolding woken_def d by simp_all
  let ?run = "\<lambda>s. ti_state (the (tasks s (current_task s))) = RUNNING"
  let ?slice = "if time_slice_remaining s1 \<noteq> 0 then
      let s3 = s1\<lparr>time_slice_remaining := time_slice_remaining s1 - 1\<rparr> in
      if time_slice_remaining s3 = 0 then task_schedule count (s3\<lparr>acknowledged := acknowledged s3 + 1\<rparr>) else Inr s3
    else Inr s1"
  obtain s2 where s2: "?slice = Inr s2" "sched_lists s2 ?R ?S D" "locks s2 = (1, 1)" "current_task s2 = current_task s"
      "idle_task s2 = idle_task s" "?run s2 = ?run s" "postpone_switch_flag s2 = flag"
  proof (cases "time_slice_remaining s1 = 1")
    case True
    let ?s1 = "s1\<lparr>time_slice_remaining := 0, acknowledged := acknowledged s1 + 1\<rparr>"
    have "sched_lists ?s1 ?R ?S D" "postpone_switch_counter ?s1 \<noteq> 0"
      using s1(1,2) by simp_all
    from task_schedule_postponed [OF this, of count] show ?thesis
      using that True s1 due by (auto simp: Let_def)
  next
    case False
    then show ?thesis
      using that [of "if time_slice_remaining s1 = 0 then s1 else s1\<lparr>time_slice_remaining := time_slice_remaining s1 - 1\<rparr>"] s1 due
      by (auto simp: Let_def)
  qed
  let ?s3 = "s2\<lparr>acknowledged := acknowledged s2 + 1\<rparr>"
  obtain s' where s': "task_unlock count ?s3 = Inr s'" "sched_lists s' R' ?S D" "current_task s' = cur'" "locks s' = (0, 0)"
    by (rule task_unlock_next [of ?s3 ?R ?S D cur' R' count]) (use s2 nxt in auto)
  have "task_time_handler count ns s = Inr s'"
    using unlocked w(1) s2(1) s'(1) by (simp del: task_wake_loop.simps add: task_time_handler_def Let_def)
  then show ?thesis
    using s' by blast
qed

text \<open>C21 [task_time_handler_wakes]: a tick of the timer while the scheduler is unlocked wakes exactly the sleeping tasks whose time has come:
  they are in the ready list afterwards, the last in the list of sleepers first, the others stay asleep, and the lock counters are zero again.  The processor goes
  on with the current task unless a switch was due already, its time slice ends with this tick, or a task was woken while no other was ready or the idle task was running; then it goes
  to the task the list policy chooses.\<close>

theorem task_time_handler_wakes:
  assumes "sched_lists s R S D" and "locks s = (0, 0)" and "current_task s \<notin> set S" and "length S \<le> unat (pid_count s)"
    and "flag = (postpone_switch_flag s \<or> time_slice_remaining s = 1 \<or>
      filter (due s ns) S \<noteq> [] \<and> (R = [] \<or> current_task s = idle_task s))"
    and "(cur', R') = (if flag
      then sched_next (idle_task s) (current_task s) (ti_state (the (tasks s (current_task s))) = RUNNING) (rev (filter (due s ns) S) @ R)
      else (current_task s, rev (filter (due s ns) S) @ R))"
  shows "\<exists>s'. task_time_handler count ns s = Inr s' \<and> current_task s' = cur' \<and>
    sched_lists s' R' (rev (filter (\<lambda>x. \<not> due s ns x) S)) D \<and> locks s' = (0, 0)"
  by (rule task_tick [OF assms])

text \<open>The idle task runs, one task sleeps until 50 and one until 90.\<close>

definition sched_asleep :: sched where
  "sched_asleep = sched_sample\<lparr>
     tasks := (tasks sched_sample)(0x100 \<mapsto> (the (tasks sched_sample 0x100))\<lparr>ti_state := SLEEPING, ti_next := 0x200, ti_wake_up_time := 50\<rparr>,
       0x200 \<mapsto> (the (tasks sched_sample 0x200))\<lparr>ti_state := SLEEPING, ti_next := NULL, ti_wake_up_time := 90\<rparr>),
     current_task := 0x300, schedule_tasks := NULL, sleep_tasks := 0x100, time_slice_remaining := 0\<rparr>"

lemma sched_asleep_lists: "sched_lists sched_asleep [] [0x100, 0x200] []"
  by (simp add: sched_lists_def sched_sample_def sched_asleep_def)

theorem task_time_handler_wakes_witness:
  "\<exists>s'. task_time_handler 7 60 sched_asleep = Inr s' \<and> current_task s' = 0x100 \<and> sched_lists s' [0x300] [0x200] []"
  using task_time_handler_wakes [OF sched_asleep_lists, of True 60 "0x100" "[0x300]" 7]
  by (auto simp: sched_sample_def sched_asleep_def due_def)

text \<open>Fact [task_preempted_lost]: when the timer ends the time slice of a running task that is not the idle
  task, and a task other than the idle task is first in the ready list, the processor goes to that
  task and the preempted task is put in no list: nothing will ever switch to it again.\<close>

theorem task_preempted_lost:
  assumes L: "sched_lists s (x # R) [] D" and x: "x \<noteq> idle_task s"
    and cur: "current_task s \<noteq> idle_task s" "current_task s \<notin> set D"
    and unlocked: "locks s = (0, 0)" and slice: "time_slice_remaining s = 1"
  shows "\<exists>s'. task_time_handler count ns s = Inr s' \<and> current_task s' = x \<and> sched_lists s' R [] D \<and>
           current_task s \<notin> set (R @ [] @ D) \<and> locks s' = (0, 0)"
  using task_tick [OF L unlocked, of True ns x R count] L x cur slice by (auto simp: sched_lists_def)

theorem task_preempted_lost_witness:
  "\<exists>s'. task_time_handler 5 6 sched_sample = Inr s' \<and> current_task s' = 0x200 \<and> sched_lists s' [0x300] [] []"
  using task_preempted_lost [OF sched_sample_lists, of 5 6] by (auto simp: sched_sample_def)

text \<open>Fact [task_idle_dropped]: when the idle task alone is ready and the current task can still run,
  \<open>task_schedule\<close> takes the idle task from the ready list and does not put it back; a later
  \<open>task_block\<close> then finds no task at all and returns to the task it has just marked as blocked.\<close>

theorem task_idle_dropped:
  assumes L: "sched_lists s [idle_task s] S D" and free: "postpone_switch_counter s = 0"
    and lock: "schedule_lock_counter s + 1 \<noteq> 0"
    and run: "ti_state (the (tasks s (current_task s))) = RUNNING"
  shows "\<exists>s1 s2. task_schedule count s = Inr s1 \<and> sched_lists s1 [] S D \<and>
           task_block count s1 BLOCKED = Inr s2 \<and> current_task s2 = current_task s"
proof -
  have nxt: "(current_task s, []) = sched_next (idle_task s) (current_task s)
      (ti_state (the (tasks s (current_task s))) = RUNNING) [idle_task s]"
    using run by simp
  obtain s1 where s1: "task_schedule count s = Inr s1" "sched_lists s1 [] S D" "current_task s1 = current_task s"
      "locks s1 = locks s"
    using task_schedule_next [OF L free nxt, of count] by auto
  have "(current_task s, []) = sched_next (idle_task s1) (current_task s1) False []"
    using s1(3) by simp
  from task_block_next [OF s1(2) _ _ _ this, of BLOCKED count] show ?thesis
    using s1 free lock by auto
qed

theorem task_idle_dropped_witness:
  "\<exists>s1 s2. task_schedule 7 (sched_sample\<lparr>schedule_tasks := 0x300\<rparr>) = Inr s1 \<and>
     task_block 7 s1 BLOCKED = Inr s2 \<and> current_task s2 = 0x100"
proof -
  have "sched_lists (sched_sample\<lparr>schedule_tasks := 0x300\<rparr>) [idle_task (sched_sample\<lparr>schedule_tasks := 0x300\<rparr>)] [] []"
    by (simp add: sched_lists_def sched_sample_def)
  from task_idle_dropped [OF this, of 7] show ?thesis
    by (auto simp: sched_sample_def)
qed

section \<open>Creating and cleaning up\<close>

text \<open>Fact [task_new_frame]: the stack of a new user task fills the end of its page: the switch to it pops four registers and returns into
  \<open>task_user_init\<close>, that returns into the function of the task, and the function into \<open>task_terminate\<close>; the task has the two
  standard files.\<close>

theorem task_new_frame:
  assumes "2 \<le> length files"
  shows "\<exists>s' t. task_user_create_new s p stack stack0 terminate files func name init page_dir sin sout = Inr s' \<and> tasks s' p = Some t \<and>
    ti_stack t = [0, 0, 0, ti_ebp t, init, func, terminate] \<and> ti_ebp t = ti_esp t + 24 \<and> ti_ebp t = stack + 4092 \<and>
    ti_open_files t ! 0 = sin \<and> ti_open_files t ! 1 = sout \<and> ti_pid t = pid_count s \<and> pid_count s' = pid_count s + 1"
  using assms
  by (cases files rule: remdups_adj.cases) (simp_all add: task_user_create_new_def task_create_new_def task_upd_def task_get_def PAGE_LAST_DWORD_def Let_def)

text \<open>Fact [task_cleanup_leaks]: cleaning up a task gives back its block and the page of its stack, but never the page allocated for its
  kernel stack.\<close>

theorem task_cleanup_leaks:
  assumes "stack0 \<noteq> stack" and "stack0 \<noteq> p"
  shows "\<exists>s'. task_cleanup (task_create_new s p stack stack0 terminate files func name) p = Inr s' \<and>
    freed s' = freed s @ [stack, p] \<and> stack0 \<notin> set (drop (length (freed s)) (freed s'))"
  using assms by (simp add: task_cleanup_def task_create_new_def task_get_def Let_def)

end
