(* ===== verification/Mutex.thy ===== *)
theory Mutex
  imports Task
begin

text \<open>
  Semaphores, mutexes and condition variables of \<open>src/kernel/proc/mutex.c\<close>, on top of the scheduler.
  A semaphore keeps its waiting tasks in a list linked through the tasks' \<open>next\<close> fields, the same
  fields the scheduler's lists use.  An operation that blocks runs until the processor has gone to
  another task; what the blocked task does after it is resumed is a later step (for \<open>condvar_wait\<close>
  the call of \<open>mutex_acquire\<close>, \<open>condvar_resume\<close>).

  Shown here: a semaphore counts its holders up to its maximum, hands itself to waiters in the order
  in which they asked, and every operation leaves the scheduler's lists and locks in order.
\<close>

section \<open>Data\<close>

record semaphore_t =
  max_count :: u32
  current_count :: u32
  waiting_tasks_start :: ptr
  waiting_tasks_end :: ptr

record condvar_t =
  cv_condition :: ptr
  cv_tasks :: ptr
  cv_next :: ptr

record ksync =
  ks_sched :: sched
  ks_condvar :: "ptr \<Rightarrow> condvar_t option"
  ks_condvars :: ptr

section \<open>Operations\<close>

definition semaphore_create :: "u32 \<Rightarrow> semaphore_t" where
  "semaphore_create n = \<lparr>max_count = n, current_count = 0, waiting_tasks_start = NULL, waiting_tasks_end = NULL\<rparr>"

definition mutex_create :: semaphore_t where
  "mutex_create = semaphore_create 1"

definition semaphore_acquire :: "u64 \<Rightarrow> sched \<Rightarrow> semaphore_t \<Rightarrow> (sched \<times> semaphore_t) res" where
  "semaphore_acquire count s0 sem =
     (let s = task_lock s0 in
      if current_count sem < max_count sem then
        rbind (task_unlock count s) (\<lambda>s1. Inr (s1, sem\<lparr>current_count := current_count sem + 1\<rparr>))
      else
        rbind (task_upd s (current_task s) (\<lambda>t. t\<lparr>ti_next := NULL\<rparr>)) (\<lambda>s1.
        rbind (if waiting_tasks_start sem = NULL
               then Inr (s1, sem\<lparr>waiting_tasks_start := current_task s1\<rparr>)
               else rbind (task_upd s1 (waiting_tasks_end sem) (\<lambda>t. t\<lparr>ti_next := current_task s1\<rparr>))
                      (\<lambda>s2. Inr (s2, sem))) (\<lambda>(s2, sem1).
        rbind (task_block count s2 WAITING_FOR_LOCK) (\<lambda>s3.
        rbind (task_unlock count s3) (\<lambda>s4.
          Inr (s4, sem1\<lparr>waiting_tasks_end := current_task s2\<rparr>))))))"

definition mutex_acquire :: "u64 \<Rightarrow> sched \<Rightarrow> semaphore_t \<Rightarrow> (sched \<times> semaphore_t) res" where
  "mutex_acquire = semaphore_acquire"

definition semaphore_release :: "u64 \<Rightarrow> sched \<Rightarrow> semaphore_t \<Rightarrow> (sched \<times> semaphore_t) res" where
  "semaphore_release count s0 sem =
     (let s = task_lock s0 in
      if waiting_tasks_start sem = NULL then
        rbind (task_unlock count s) (\<lambda>s1. Inr (s1, sem\<lparr>current_count := current_count sem - 1\<rparr>))
      else
        let task = waiting_tasks_start sem in
        rbind (task_get s task) (\<lambda>t.
        rbind (task_unblock s task) (\<lambda>s1.
        rbind (task_unlock count s1) (\<lambda>s2.
          Inr (s2, sem\<lparr>waiting_tasks_start := ti_next t\<rparr>)))))"

definition mutex_release :: "u64 \<Rightarrow> sched \<Rightarrow> semaphore_t \<Rightarrow> (sched \<times> semaphore_t) res" where
  "mutex_release = semaphore_release"

text \<open>\<open>p\<close> is the block the allocator gives for the new condition variable.\<close>

definition condvar_alloc :: "ksync \<Rightarrow> ptr \<Rightarrow> ptr \<Rightarrow> ksync" where
  "condvar_alloc k p condition =
     k\<lparr>ks_condvar := (ks_condvar k)(p \<mapsto> \<lparr>cv_condition = condition, cv_tasks = NULL, cv_next = ks_condvars k\<rparr>),
       ks_condvars := p\<rparr>"

text \<open>The search through the list of condition variables; \<open>None\<close> when the end is reached.\<close>

fun condvar_find :: "nat \<Rightarrow> ksync \<Rightarrow> ptr \<Rightarrow> ptr \<Rightarrow> (ptr \<times> condvar_t) option res" where
  "condvar_find 0 k condition cv = Inl Hang"
| "condvar_find (Suc n) k condition cv =
     (if cv = NULL then Inr None
      else case ks_condvar k cv of
        None \<Rightarrow> Inl BadAccess
      | Some c \<Rightarrow> if cv_condition c = condition then Inr (Some (cv, c))
                  else condvar_find n k condition (cv_next c))"

text \<open>\<open>condvar_add_list\<close>: the current task at the end of a non-empty list, unless it is there already.\<close>

fun condvar_add_list :: "nat \<Rightarrow> sched \<Rightarrow> ptr \<Rightarrow> sched res" where
  "condvar_add_list 0 s task = Inl Hang"
| "condvar_add_list (Suc n) s task =
     rbind (task_get s task) (\<lambda>t.
       if ti_next t \<noteq> NULL then
         (if task = current_task s then Inr s else condvar_add_list n s (ti_next t))
       else if task \<noteq> current_task s then task_upd s task (\<lambda>t. t\<lparr>ti_next := current_task s\<rparr>)
       else Inr s)"

text \<open>\<open>n\<close> bounds the two list traversals: the number of condition variables and of tasks.\<close>

definition condvar_wait ::
    "nat \<Rightarrow> u64 \<Rightarrow> ksync \<Rightarrow> ptr \<Rightarrow> ptr \<Rightarrow> semaphore_t \<Rightarrow> (ksync \<times> semaphore_t) res" where
  "condvar_wait n count k0 p condition mutex =
     (let k = k0\<lparr>ks_sched := task_lock (ks_sched k0)\<rparr>; s = ks_sched k in
      rbind (condvar_find n k condition (ks_condvars k)) (\<lambda>found.
      rbind (task_upd s (current_task s) (\<lambda>t. t\<lparr>ti_next := NULL\<rparr>)) (\<lambda>s1.
      rbind (case found of
               Some (cv, c) \<Rightarrow>
                 (if cv_tasks c \<noteq> NULL
                  then rbind (condvar_add_list n s1 (cv_tasks c)) (\<lambda>s2. Inr (k\<lparr>ks_sched := s2\<rparr>))
                  else Inr (k\<lparr>ks_sched := s1, ks_condvar := (ks_condvar k)(cv \<mapsto> c\<lparr>cv_tasks := current_task s1\<rparr>)\<rparr>))
             | None \<Rightarrow>
                 let k1 = condvar_alloc k p condition in
                 Inr (k1\<lparr>ks_sched := s1, ks_condvar := (ks_condvar k1)(p := map_option
                        (\<lambda>c. c\<lparr>cv_tasks := current_task s1\<rparr>) (ks_condvar k1 p))\<rparr>)) (\<lambda>k2.
      rbind (mutex_release count (ks_sched k2) mutex) (\<lambda>(s3, mutex1).
      rbind (task_block count s3 CONDVAR) (\<lambda>s4.
      rbind (task_unlock count s4) (\<lambda>s5. Inr (k2\<lparr>ks_sched := s5\<rparr>, mutex1))))))))"

text \<open>What a task does when it is resumed after \<open>condvar_wait\<close>: it takes the mutex again.\<close>

definition condvar_resume :: "u64 \<Rightarrow> ksync \<Rightarrow> semaphore_t \<Rightarrow> (ksync \<times> semaphore_t) res" where
  "condvar_resume count k mutex =
     rbind (mutex_acquire count (ks_sched k) mutex) (\<lambda>(s, m). Inr (k\<lparr>ks_sched := s\<rparr>, m))"

fun condvar_wake :: "nat \<Rightarrow> sched \<Rightarrow> ptr \<Rightarrow> sched res" where
  "condvar_wake 0 s task = Inl Hang"
| "condvar_wake (Suc n) s task =
     (if task = NULL then Inr s
      else rbind (task_get s task) (\<lambda>t. rbind (task_unblock s task) (\<lambda>s1. condvar_wake n s1 (ti_next t))))"

definition condvar_signal :: "nat \<Rightarrow> u64 \<Rightarrow> ksync \<Rightarrow> ptr \<Rightarrow> ksync res" where
  "condvar_signal n count k0 condition =
     (let k = k0\<lparr>ks_sched := task_lock (ks_sched k0)\<rparr> in
      rbind (condvar_find n k condition (ks_condvars k)) (\<lambda>found.
        case found of
          None \<Rightarrow> rbind (task_unlock count (ks_sched k)) (\<lambda>s. Inr (k\<lparr>ks_sched := s\<rparr>))
        | Some (cv, c) \<Rightarrow>
            rbind (condvar_wake n (ks_sched k) (cv_tasks c)) (\<lambda>s1.
            rbind (task_unlock count s1) (\<lambda>s2.
              Inr (k\<lparr>ks_sched := s2, ks_condvar := (ks_condvar k)(cv \<mapsto> c\<lparr>cv_tasks := NULL\<rparr>)\<rparr>)))))"

definition condvar_free :: "nat \<Rightarrow> ksync \<Rightarrow> ptr \<Rightarrow> ksync res" where
  "condvar_free n k condition =
     rbind (condvar_find n k condition (ks_condvars k)) (\<lambda>found.
       case found of
         None \<Rightarrow> Inl Abort
       | Some (cv, _) \<Rightarrow> Inr (k\<lparr>ks_condvar := (ks_condvar k)(cv := None)\<rparr>))"

section \<open>Semaphores as counters with a queue\<close>

text \<open>
  \<open>W\<close> are the waiting tasks in the order in which they asked; they are in none of the scheduler's
  lists and none of them runs.
\<close>

definition sem_inv :: "sched \<Rightarrow> semaphore_t \<Rightarrow> ptr list \<Rightarrow> ptr list \<Rightarrow> ptr list \<Rightarrow> ptr list \<Rightarrow> bool" where
  "sem_inv s sem W R S D \<longleftrightarrow> sched_lists s R S D \<and> chain (tasks s) (waiting_tasks_start sem) W \<and>
     (W \<noteq> [] \<longrightarrow> waiting_tasks_end sem = last W \<and> current_count sem = max_count sem) \<and>
     current_count sem \<le> max_count sem \<and> distinct W \<and> set W \<inter> set (R @ S @ D) = {} \<and>
     current_task s \<notin> set W \<and> idle_task s \<notin> set W"

lemma chain_snoc:
  assumes "chain T p W" "W \<noteq> []" "distinct W" "c \<notin> set W" "c \<noteq> NULL" "T c = Some tc" "ti_next tc = NULL"
    and "T (last W) = Some te"
  shows "chain (T(last W \<mapsto> te\<lparr>ti_next := c\<rparr>)) p (W @ [c])"
  using assms
proof (induction W arbitrary: p)
  case (Cons x W)
  show ?case
  proof (cases "W = []")
    case True
    then show ?thesis
      using Cons.prems by (auto split: option.splits)
  next
    case False
    then have "x \<noteq> last W"
      using Cons.prems(3) last_in_set by auto
    then show ?thesis
      using Cons False by (auto split: option.splits)
  qed
qed simp

lemma sched_lists_next:
  assumes "sched_lists s R S D" "x \<notin> set (R @ S @ D)" "tasks s x = Some t"
  shows "sched_lists (s\<lparr>tasks := (tasks s)(x \<mapsto> t')\<rparr>) R S D"
  using assms by (auto simp: sched_lists_def)

text \<open>The waiting list after the current task has been put at its end.\<close>

lemma semaphore_enqueue:
  assumes inv: "sem_inv s sem W R S D" and cur: "current_task s \<notin> set (S @ D)"
  obtains s2 sem1 where
    "rbind (task_upd s (current_task s) (\<lambda>t. t\<lparr>ti_next := NULL\<rparr>)) (\<lambda>s1.
       if waiting_tasks_start sem = NULL then Inr (s1, sem\<lparr>waiting_tasks_start := current_task s1\<rparr>)
       else rbind (task_upd s1 (waiting_tasks_end sem) (\<lambda>t. t\<lparr>ti_next := current_task s1\<rparr>)) (\<lambda>s2. Inr (s2, sem))) =
     Inr (s2, sem1)"
    "sched_lists s2 R S D" "chain (tasks s2) (waiting_tasks_start sem1) (W @ [current_task s])"
    "current_task s2 = current_task s" "idle_task s2 = idle_task s" "locks s2 = locks s"
    "current_count sem1 = current_count sem" "max_count sem1 = max_count sem"
proof -
  have L: "sched_lists s R S D" and W: "chain (tasks s) (waiting_tasks_start sem) W" "distinct W"
    and dis: "set W \<inter> set (R @ S @ D) = {}" "current_task s \<notin> set W" "idle_task s \<notin> set W"
    and last: "W \<noteq> [] \<Longrightarrow> waiting_tasks_end sem = last W"
    using inv by (auto simp: sem_inv_def)
  let ?c = "current_task s"
  obtain tc where tc: "tasks s ?c = Some tc" "?c \<noteq> NULL" "?c \<notin> set R"
    using L by (auto simp: sched_lists_def)
  let ?tc = "tc\<lparr>ti_next := NULL\<rparr>"
  let ?s1 = "s\<lparr>tasks := (tasks s)(?c \<mapsto> ?tc)\<rparr>"
  have upd: "task_upd s ?c (\<lambda>t. t\<lparr>ti_next := NULL\<rparr>) = Inr ?s1"
    using tc(1) by (simp add: task_access)
  have L1: "sched_lists ?s1 R S D"
    using sched_lists_next [OF L _ tc(1)] cur tc(3) by simp
  have W1: "chain (tasks ?s1) (waiting_tasks_start sem) W"
    using W(1) dis(2) by simp
  show ?thesis
  proof (cases "W = []")
    case True
    then have "waiting_tasks_start sem = NULL"
      using W(1) by simp
    then show ?thesis
      using that [of ?s1 "sem\<lparr>waiting_tasks_start := ?c\<rparr>"] True upd L1 tc(2) by simp
  next
    case False
    then have "waiting_tasks_start sem \<noteq> NULL"
      using W(1) chain_NULL by blast
    moreover have "last W \<in> set W"
      using False by simp
    moreover have "\<exists>te. tasks ?s1 x = Some te" if "x \<in> set xs" "chain (tasks ?s1) p xs" for x xs p
      using that by (induction xs arbitrary: p) (auto split: option.splits)
    ultimately obtain te where te: "tasks ?s1 (last W) = Some te"
      using W1 by blast
    let ?s2 = "?s1\<lparr>tasks := (tasks ?s1)(last W \<mapsto> te\<lparr>ti_next := ?c\<rparr>)\<rparr>"
    have L2: "sched_lists ?s2 R S D"
      using sched_lists_next [OF L1 _ te] dis(1) \<open>last W \<in> set W\<close> by blast
    have "chain ((tasks ?s1)(last W \<mapsto> te\<lparr>ti_next := ?c\<rparr>)) (waiting_tasks_start sem) (W @ [?c])"
      by (rule chain_snoc [OF W1 False W(2) dis(2) tc(2) _ _ te, of ?tc]) simp_all
    then have W2: "chain (tasks ?s2) (waiting_tasks_start sem) (W @ [?c])"
      by simp
    have "task_upd ?s1 (waiting_tasks_end sem) (\<lambda>t. t\<lparr>ti_next := current_task ?s1\<rparr>) = Inr ?s2"
      unfolding last [OF False] task_upd_Some [OF te] by simp
    then show ?thesis
      by (intro that [OF _ L2 W2]) (use upd \<open>waiting_tasks_start sem \<noteq> NULL\<close> in simp_all)
  qed
qed

lemma sem_inv_lock [simp]: "sem_inv (task_lock s) sem W R S D \<longleftrightarrow> sem_inv s sem W R S D"
  by (simp add: sem_inv_def)

lemma semaphore_acquire_wait:
  assumes "\<not> current_count sem < max_count sem"
  shows "semaphore_acquire count s0 sem =
    (let s = task_lock s0 in
     rbind (rbind (task_upd s (current_task s) (\<lambda>t. t\<lparr>ti_next := NULL\<rparr>)) (\<lambda>s1.
       if waiting_tasks_start sem = NULL then Inr (s1, sem\<lparr>waiting_tasks_start := current_task s1\<rparr>)
       else rbind (task_upd s1 (waiting_tasks_end sem) (\<lambda>t. t\<lparr>ti_next := current_task s1\<rparr>)) (\<lambda>s2. Inr (s2, sem))))
     (\<lambda>(s2, sem1). rbind (task_block count s2 WAITING_FOR_LOCK) (\<lambda>s3.
        rbind (task_unlock count s3) (\<lambda>s4. Inr (s4, sem1\<lparr>waiting_tasks_end := current_task s2\<rparr>)))))"
  using assms by (simp add: semaphore_acquire_def rbind_assoc Let_def)

text \<open>Fact [semaphore_acquire_waits]: when all units of a semaphore are taken \<open>semaphore_acquire\<close> puts the
  running task behind the tasks that wait already, leaves the count as it is and gives the processor
  to the next task of the ready list; the waiting list, the scheduler's lists and the lock counters
  are in order afterwards.\<close>

theorem semaphore_acquire_waits:
  assumes inv: "sem_inv s sem W R S D" and full: "current_count sem = max_count sem"
    and cur: "current_task s \<notin> set (S @ D)" "current_task s \<noteq> idle_task s"
    and lk: "locks s = (0, 0)" and R: "R \<noteq> []"
    and R': "(cur', R') = sched_next (idle_task s) (current_task s) False R"
  shows "\<exists>s' sem'. semaphore_acquire count s sem = Inr (s', sem') \<and>
           sem_inv s' sem' (W @ [current_task s]) R' S D \<and> current_task s' = cur' \<and> locks s' = (0, 0) \<and>
           current_count sem' = current_count sem \<and> max_count sem' = max_count sem"
proof -
  let ?s = "task_lock s" and ?c = "current_task s"
  have inv1: "sem_inv ?s sem W R S D" and cur1: "current_task ?s \<notin> set (S @ D)"
    using inv cur by simp_all
  obtain s2 sem1 where s2: "rbind (task_upd ?s (current_task ?s) (\<lambda>t. t\<lparr>ti_next := NULL\<rparr>)) (\<lambda>s1.
       if waiting_tasks_start sem = NULL then Inr (s1, sem\<lparr>waiting_tasks_start := current_task s1\<rparr>)
       else rbind (task_upd s1 (waiting_tasks_end sem) (\<lambda>t. t\<lparr>ti_next := current_task s1\<rparr>)) (\<lambda>s2. Inr (s2, sem))) =
     Inr (s2, sem1)" "sched_lists s2 R S D" "chain (tasks s2) (waiting_tasks_start sem1) (W @ [current_task ?s])"
    "current_task s2 = current_task ?s" "idle_task s2 = idle_task ?s" "locks s2 = locks ?s"
    "current_count sem1 = current_count sem" "max_count sem1 = max_count sem"
    by (rule semaphore_enqueue [OF inv1 cur1])
  have lk2: "locks s2 = (1, 1)"
    using s2(6) lk by simp
  obtain s3 where s3: "task_block count s2 WAITING_FOR_LOCK = Inr s3" "sched_lists s3 R S D" "current_task s3 = ?c"
      "locks s3 = (1, 1)" "postpone_switch_flag s3" "idle_task s3 = idle_task s"
      "ti_state (the (tasks s3 ?c)) = WAITING_FOR_LOCK" "\<forall>y. links s3 y = links s2 y"
    by (rule task_block_postponed [OF s2(2), of count WAITING_FOR_LOCK]) (use lk2 s2(4,5) in auto)
  have nxt: "(cur', R') = (if postpone_switch_flag s3
      then sched_next (idle_task s3) (current_task s3) (ti_state (the (tasks s3 (current_task s3))) = RUNNING) R
      else (current_task s3, R))"
    using s3 R' by simp
  obtain s4 where s4: "task_unlock count s3 = Inr s4" "sched_lists s4 R' S D" "current_task s4 = cur'"
      "locks s4 = (0, 0)" "idle_task s4 = idle_task s" "\<forall>y. y \<notin> set R \<and> y \<noteq> idle_task s \<longrightarrow> links s4 y = links s3 y"
    by (rule task_unlock_next [OF s3(2) _ _ nxt, of count]) (use s3(4,6) in auto)
  let ?sem = "sem1\<lparr>waiting_tasks_end := ?c\<rparr>"
  have I: "set W \<inter> set (R @ S @ D) = {}" "?c \<notin> set W" "idle_task s \<notin> set W" "distinct W" "?c \<notin> set R"
    using inv by (auto simp: sem_inv_def sched_lists_def)
  have new: "cur' \<in> set R" "set R' \<subseteq> set R"
    using R R' cur(2) by (cases R; auto split: if_splits list.splits)+
  have "\<forall>y\<in>set (W @ [?c]). links s4 y = links s2 y"
    using s4(6) s3(8) I cur(2) by auto
  then have "chain (tasks s4) (waiting_tasks_start ?sem) (W @ [?c])"
    using s2(3) chain_cong [of "W @ [?c]" "tasks s4" "tasks s2"] by simp
  moreover have "\<not> current_count sem < max_count sem"
    using full by simp
  ultimately show ?thesis
    using s2(1,4,7,8) s3(1) s4 I new full cur
    by (intro exI [of _ s4] exI [of _ ?sem]) (auto simp: semaphore_acquire_wait sem_inv_def)
qed


text \<open>Fact [semaphore_uncontended]: without contention a semaphore counts: acquiring a free unit adds one
  and releasing it takes one off, the processor stays with the running task, and acquiring and then
  releasing gives the semaphore back as it was.\<close>

theorem semaphore_uncontended:
  assumes inv: "sem_inv s sem [] R S D" and free: "current_count sem < max_count sem"
    and lk: "locks s = (0, 0)" "\<not> postpone_switch_flag s"
  shows "\<exists>s1 s2. semaphore_acquire count s sem = Inr (s1, sem\<lparr>current_count := current_count sem + 1\<rparr>) \<and>
           sem_inv s1 (sem\<lparr>current_count := current_count sem + 1\<rparr>) [] R S D \<and> current_task s1 = current_task s \<and>
           semaphore_release count s1 (sem\<lparr>current_count := current_count sem + 1\<rparr>) = Inr (s2, sem) \<and>
           current_task s2 = current_task s"
proof -
  have nolock: "task_unlock count (task_lock s) = Inr s"
    using lk by (simp add: task_unlock_def task_unlock_scheduler_def task_lock_def task_lock_scheduler_def Let_def)
  have "waiting_tasks_start sem = NULL"
    using inv by (simp add: sem_inv_def)
  moreover have "current_count sem + 1 \<le> max_count sem"
    using free by (rule inc_le)
  ultimately show ?thesis
    using nolock inv free by (simp add: semaphore_acquire_def semaphore_release_def sem_inv_def Let_def)
qed

definition sem_sample :: "u32 \<Rightarrow> semaphore_t" where
  "sem_sample n = \<lparr>max_count = 1, current_count = n, waiting_tasks_start = NULL, waiting_tasks_end = NULL\<rparr>"

lemma sem_sample_inv: "n \<le> 1 \<Longrightarrow> sem_inv sched_sample (sem_sample n) [] [0x200, 0x300] [] []"
  using sched_sample_lists by (simp add: sem_inv_def sem_sample_def sched_sample_def)

theorem semaphore_acquire_waits_witness:
  "\<exists>s' sem'. semaphore_acquire 9 sched_sample (sem_sample 1) = Inr (s', sem') \<and>
     sem_inv s' sem' [0x100] [0x300] [] [] \<and> current_task s' = 0x200"
  using semaphore_acquire_waits [OF sem_sample_inv [of 1], of "0x200" "[0x300]" 9]
  by (auto simp: sched_sample_def sem_sample_def)


theorem semaphore_uncontended_witness:
  "\<exists>s1 s2. semaphore_acquire 9 sched_sample (sem_sample 0) = Inr (s1, sem_sample 1) \<and>
     semaphore_release 9 s1 (sem_sample 1) = Inr (s2, sem_sample 0)"
  using semaphore_uncontended [OF sem_sample_inv [of 0], of 9] by (auto simp: sched_sample_def sem_sample_def)

section \<open>Locks seen by one task\<close>

text \<open>
  The file system takes and gives back mutexes around its work.  Seen by the task that runs, a mutex
  that is free is taken and given back without any effect on the scheduler; for a mutex that is held
  the task would wait, which ends its run.
\<close>

definition lock_acquire :: "semaphore_t \<Rightarrow> semaphore_t res" where
  "lock_acquire m = (if current_count m < max_count m then Inr (m\<lparr>current_count := current_count m + 1\<rparr>) else Inl Hang)"

definition lock_release :: "semaphore_t \<Rightarrow> semaphore_t res" where
  "lock_release m = (if waiting_tasks_start m = NULL then Inr (m\<lparr>current_count := current_count m - 1\<rparr>) else Inl Hang)"

lemma lock_acquire_mutex:
  assumes "locks s = (0, 0)" "\<not> postpone_switch_flag s" "lock_acquire m = Inr m'"
  shows "mutex_acquire count s m = Inr (s, m')"
  using assms by (auto simp: lock_acquire_def mutex_acquire_def semaphore_acquire_def task_unlock_def
      task_unlock_scheduler_def task_lock_def task_lock_scheduler_def Let_def split: if_splits)

lemma lock_release_mutex:
  assumes "locks s = (0, 0)" "\<not> postpone_switch_flag s" "lock_release m = Inr m'"
  shows "mutex_release count s m = Inr (s, m')"
  using assms by (auto simp: lock_release_def mutex_release_def semaphore_release_def task_unlock_def
      task_unlock_scheduler_def task_lock_def task_lock_scheduler_def Let_def split: if_splits)

text \<open>A free mutex and a held one, without waiting tasks.\<close>

definition lock_free :: "semaphore_t \<Rightarrow> bool" where
  "lock_free m \<longleftrightarrow> current_count m = 0 \<and> max_count m = 1 \<and> waiting_tasks_start m = NULL"

definition lock_held :: "semaphore_t \<Rightarrow> bool" where
  "lock_held m \<longleftrightarrow> current_count m = 1 \<and> max_count m = 1 \<and> waiting_tasks_start m = NULL"

lemma lock_acquire_free: "lock_free m \<Longrightarrow> lock_acquire m = Inr (m\<lparr>current_count := 1\<rparr>) \<and> lock_held (m\<lparr>current_count := 1\<rparr>)"
  by (simp add: lock_acquire_def lock_free_def lock_held_def)

lemma lock_release_held: "lock_held m \<Longrightarrow> lock_release m = Inr (m\<lparr>current_count := 0\<rparr>) \<and> lock_free (m\<lparr>current_count := 0\<rparr>)"
  by (simp add: lock_release_def lock_free_def lock_held_def)

lemma lock_acquire_held: "lock_held m \<Longrightarrow> lock_acquire m = Inl Hang"
  by (simp add: lock_acquire_def lock_held_def)

lemma lock_free_create [simp]: "lock_free mutex_create"
  by (simp add: lock_free_def mutex_create_def semaphore_create_def)

section \<open>Structures behind a mutex\<close>

text \<open>
  The caches and the table of open files are structures with a mutex of their own, which their operations take first and give
  back last.
\<close>

locale monitor =
  fixes mtx :: "'s \<Rightarrow> semaphore_t"
    and set_mtx :: "semaphore_t \<Rightarrow> 's \<Rightarrow> 's"
    and lock :: "'s \<Rightarrow> 's res"
    and unlock :: "'s \<Rightarrow> 's res"
  assumes lock_eq: "lock s = rbind (lock_acquire (mtx s)) (\<lambda>m. Inr (set_mtx m s))"
    and unlock_eq: "unlock s = rbind (lock_release (mtx s)) (\<lambda>m. Inr (set_mtx m s))"
    and mtx_set [simp]: "mtx (set_mtx m s) = m"
    and set_set [simp]: "set_mtx m (set_mtx m' s) = set_mtx m s"
    and set_same [simp]: "set_mtx (mtx s) s = s"
begin

lemma lock_free_run: "lock_free (mtx s) \<Longrightarrow> lock s = Inr (set_mtx ((mtx s)\<lparr>current_count := 1\<rparr>) s)"
  using lock_acquire_free by (simp add: lock_eq)

lemma unlock_held_run: "mtx s = m\<lparr>current_count := 1\<rparr> \<Longrightarrow> lock_free m \<Longrightarrow> unlock s = Inr (set_mtx m s)"
  by (cases m) (simp add: unlock_eq lock_release_def lock_free_def)

text \<open>Taking the mutex again while it is held waits for ever; an empty critical section has no effect.\<close>

lemma lock_twice: "lock_free (mtx s) \<Longrightarrow> rbind (lock s) lock = Inl Hang"
  using lock_acquire_free [of "mtx s"] lock_acquire_held by (simp add: lock_eq)

lemma lock_unlock: "lock_free (mtx s) \<Longrightarrow> rbind (lock s) unlock = Inr s"
  using unlock_held_run [of "set_mtx ((mtx s)\<lparr>current_count := 1\<rparr>) s" "mtx s"] by (simp add: lock_free_run)

end

section \<open>Condition variables\<close>

text \<open>Fact [condvar_free_dangling]: \<open>condvar_free\<close> frees the block of a condition variable and leaves it in the
  list: when it was the first one, every later \<open>condvar_signal\<close>, for whatever condition, reads the
  freed block.\<close>

theorem condvar_free_dangling:
  assumes "ks_condvars k = p" "p \<noteq> NULL" "ks_condvar k p = Some c"
  shows "\<exists>k'. condvar_free (Suc n) k (cv_condition c) = Inr k' \<and>
           (\<forall>m count condition. condvar_signal (Suc m) count k' condition = Inl BadAccess)"
  using assms by (simp add: condvar_free_def condvar_signal_def Let_def)

theorem condvar_free_dangling_witness:
  "\<exists>k'. condvar_free (Suc 1) (condvar_alloc \<lparr>ks_sched = sched_sample, ks_condvar = (\<lambda>_. None), ks_condvars = NULL\<rparr> 0x500 77) 77 = Inr k' \<and>
     condvar_signal (Suc 1) 0 k' 77 = Inl BadAccess"
proof -
  let ?k = "condvar_alloc \<lparr>ks_sched = sched_sample, ks_condvar = (\<lambda>_. None), ks_condvars = NULL\<rparr> 0x500 77"
  let ?c = "\<lparr>cv_condition = 77, cv_tasks = NULL, cv_next = NULL\<rparr>"
  have "ks_condvars ?k = 0x500" "(0x500 :: ptr) \<noteq> NULL" "ks_condvar ?k 0x500 = Some ?c"
    by (simp_all add: condvar_alloc_def)
  from condvar_free_dangling [OF this, of 1] obtain k' where
    "condvar_free (Suc 1) ?k (cv_condition ?c) = Inr k'"
    "\<forall>m count condition. condvar_signal (Suc m) count k' condition = Inl BadAccess"
    by blast
  then show ?thesis
    by (intro exI [of _ k']) (simp only: condvar_t.simps simp_thms)
qed

end
