(* ===== verification/Tty.thy ===== *)
theory Tty
  imports LibcString
begin

text \<open>
  The text terminal of \<open>src/kernel/io/tty.c\<close> and \<open>src/include/kernel/vga.h\<close>: an 80 by 25 screen of
  16-bit cells in video memory and a cursor.  The byte written last to the cursor registers is the
  field \<open>tty_cursor\<close>.

  Shown here: from a cursor on the screen every character but a backspace in the top left corner
  keeps the cursor on the screen and writes inside it, and what a printed line and a scroll leave on
  the screen.
\<close>

section \<open>Data\<close>

definition VGA_WIDTH :: u32 where "VGA_WIDTH = 80"
definition VGA_HEIGHT :: u32 where "VGA_HEIGHT = 25"
definition VGA_BLACK :: u8 where "VGA_BLACK = 0"
definition VGA_WHITE :: u8 where "VGA_WHITE = 15"

record tty =
  terminal_row :: u32
  terminal_column :: u32
  terminal_color :: u8
  terminal_buffer :: "u16 list"
  tty_cursor :: u16

section \<open>Operations\<close>

definition vga_entry_color :: "u8 \<Rightarrow> u8 \<Rightarrow> u8" where
  "vga_entry_color foreground background = foreground OR push_bit 4 background"

definition vga_entry :: "u8 \<Rightarrow> u8 \<Rightarrow> u16" where
  "vga_entry character color = ucast character OR push_bit 8 (ucast color)"

definition terminal_entry :: "tty \<Rightarrow> u8 \<Rightarrow> u8 \<Rightarrow> u32 \<Rightarrow> u32 \<Rightarrow> tty res" where
  "terminal_entry t c color x y =
     rbind (array_set (terminal_buffer t) (unat (y * VGA_WIDTH + x)) (vga_entry c color)) (\<lambda>b.
       Inr (t\<lparr>terminal_buffer := b\<rparr>))"

definition terminal_zeroline :: "tty \<Rightarrow> u32 \<Rightarrow> tty res" where
  "terminal_zeroline t y =
     foldl (\<lambda>r x. rbind r (\<lambda>t. terminal_entry t 32 (terminal_color t) (of_nat x) y)) (Inr t) [0..<80]"

definition terminal_initialize :: "tty \<Rightarrow> tty res" where
  "terminal_initialize t =
     foldl (\<lambda>r y. rbind r (\<lambda>t. terminal_zeroline t (of_nat y)))
       (Inr (t\<lparr>terminal_color := vga_entry_color VGA_WHITE VGA_BLACK\<rparr>)) [0..<25]"

definition terminal_setcolor :: "tty \<Rightarrow> u8 \<Rightarrow> tty" where
  "terminal_setcolor t color = t\<lparr>terminal_color := color\<rparr>"

definition terminal_copyline :: "tty \<Rightarrow> u32 \<Rightarrow> u32 \<Rightarrow> tty res" where
  "terminal_copyline t dst_y src_y =
     foldl (\<lambda>r x. rbind r (\<lambda>t.
         rbind (array_get (terminal_buffer t) (unat (src_y * VGA_WIDTH + of_nat x))) (\<lambda>c.
           terminal_entry t (ucast c) (terminal_color t) (of_nat x) dst_y)))
       (Inr t) [0..<80]"

definition terminal_scroll :: "tty \<Rightarrow> tty res" where
  "terminal_scroll t =
     rbind (foldl (\<lambda>r y. rbind r (\<lambda>t. terminal_copyline t (of_nat y) (of_nat y + 1))) (Inr t) [0..<24]) (\<lambda>t1.
     rbind (terminal_zeroline t1 (VGA_HEIGHT - 1)) (\<lambda>t2.
       Inr (t2\<lparr>terminal_row := terminal_row t2 - 1\<rparr>)))"

definition terminal_newline :: "tty \<Rightarrow> tty res" where
  "terminal_newline t =
     (let t1 = t\<lparr>terminal_column := 0, terminal_row := terminal_row t + 1\<rparr> in
      if terminal_row t1 = VGA_HEIGHT then terminal_scroll t1 else Inr t1)"

definition terminal_back :: "tty \<Rightarrow> tty res" where
  "terminal_back t =
     (if terminal_column t = 0 then
        rbind (terminal_entry t 32 (terminal_color t) (terminal_column t) (terminal_row t)) (\<lambda>t1.
          Inr (t1\<lparr>terminal_row := terminal_row t1 - 1, terminal_column := VGA_WIDTH - 1\<rparr>))
      else
        let t1 = t\<lparr>terminal_column := terminal_column t - 1\<rparr> in
        terminal_entry t1 32 (terminal_color t1) (terminal_column t1) (terminal_row t1))"

definition terminal_update_cursor :: "tty \<Rightarrow> u8 \<Rightarrow> u8 \<Rightarrow> tty" where
  "terminal_update_cursor t x y =
     (let pos = ucast y * 80 + ucast x :: u16 in
      t\<lparr>tty_cursor := ucast (ucast (pos AND 0xFF) :: u8) OR push_bit 8 (ucast (ucast (drop_bit 8 pos) :: u8))\<rparr>)"

definition terminal_putchar :: "tty \<Rightarrow> u8 \<Rightarrow> tty res" where
  "terminal_putchar t uc =
     rbind (if uc = 10 then terminal_newline t
            else if uc = 8 then terminal_back t
            else rbind (terminal_entry t uc (terminal_color t) (terminal_column t) (terminal_row t)) (\<lambda>t1.
              let t2 = t1\<lparr>terminal_column := terminal_column t1 + 1\<rparr> in
              if terminal_column t2 = VGA_WIDTH then terminal_newline t2 else Inr t2)) (\<lambda>t3.
       Inr (terminal_update_cursor t3 (ucast (terminal_column t3)) (ucast (terminal_row t3))))"

definition terminal_write :: "tty \<Rightarrow> u8 list \<Rightarrow> tty res" where
  "terminal_write t data = foldl (\<lambda>r c. rbind r (\<lambda>t. terminal_putchar t c)) (Inr t) data"

definition terminal_writestring :: "tty \<Rightarrow> u8 list \<Rightarrow> tty res" where
  "terminal_writestring t data = rbind (strlen data) (\<lambda>n. terminal_write t (take n data))"

section \<open>The screen\<close>

definition tty_inv :: "tty \<Rightarrow> bool" where
  "tty_inv t \<longleftrightarrow> length (terminal_buffer t) = 2000 \<and> unat (terminal_row t) < 25 \<and> unat (terminal_column t) < 80"

text \<open>The cell at column \<open>x\<close> of row \<open>y\<close>.\<close>

abbreviation cell :: "tty \<Rightarrow> nat \<Rightarrow> nat \<Rightarrow> u16" where
  "cell t x y \<equiv> terminal_buffer t ! (y * 80 + x)"

lemma cell_index: "x < 80 \<Longrightarrow> y < 25 \<Longrightarrow> y * 80 + x < (2000 :: nat)"
  by linarith

lemma cell_eq: "x < 80 \<Longrightarrow> x' < 80 \<Longrightarrow> y * 80 + x = y' * 80 + x' \<longleftrightarrow> y = y' \<and> x = (x' :: nat)"
  by (cases y y' rule: linorder_cases) auto

lemma terminal_entry_in:
  assumes "length (terminal_buffer t) = 2000" "unat x < 80" "unat y < 25"
  shows "terminal_entry t c color x y =
    Inr (t\<lparr>terminal_buffer := (terminal_buffer t)[unat y * 80 + unat x := vga_entry c color]\<rparr>)"
proof -
  have "unat (y * VGA_WIDTH) = unat y * 80"
    using assms(3) by (simp add: VGA_WIDTH_def unat_u32_mult_mod)
  then have "unat (y * VGA_WIDTH + x) = unat y * 80 + unat x"
    using assms(2,3) by (simp add: unat_u32_plus_mod)
  then show ?thesis
    using assms cell_index by (simp add: terminal_entry_def)
qed

lemma terminal_entry_nat:
  assumes "length (terminal_buffer t) = 2000" "x < 80" "y < 25"
  shows "terminal_entry t c color (of_nat x) (of_nat y) =
    Inr (t\<lparr>terminal_buffer := (terminal_buffer t)[y * 80 + x := vga_entry c color]\<rparr>)"
  using terminal_entry_in [of t "of_nat x" "of_nat y"] assms by (simp add: unat_u32_of_nat)

text \<open>A buffer that differs from \<open>b\<close> in the given cells only.\<close>

definition screen :: "u16 list \<Rightarrow> (nat \<Rightarrow> nat \<Rightarrow> u16) \<Rightarrow> bool" where
  "screen b g \<longleftrightarrow> length b = 2000 \<and> (\<forall>x<80. \<forall>y<25. b ! (y * 80 + x) = g x y)"

lemma screen_set:
  assumes "screen b g" "x < 80" "y < 25"
  shows "screen (b[y * 80 + x := v]) (\<lambda>x' y'. if x' = x \<and> y' = y then v else g x' y')"
  using assms cell_eq [of _ x _ y] cell_index by (auto simp: screen_def nth_update_if)

lemma screen_self: "length b = 2000 \<Longrightarrow> screen b (\<lambda>x y. b ! (y * 80 + x))"
  by (simp add: screen_def)

lemma screen_cong: "screen b g \<Longrightarrow> (\<And>x y. x < 80 \<Longrightarrow> y < 25 \<Longrightarrow> g x y = h x y) \<Longrightarrow> screen b h"
  by (simp add: screen_def)

lemma screen_length: "screen b g \<Longrightarrow> length b = 2000"
  by (simp add: screen_def)

lemma terminal_zeroline_screen:
  assumes "screen (terminal_buffer t) g" "y < 25"
  shows "\<exists>b. terminal_zeroline t (of_nat y) = Inr (t\<lparr>terminal_buffer := b\<rparr>) \<and>
           screen b (\<lambda>x y'. if y' = y then vga_entry 32 (terminal_color t) else g x y')"
proof -
  let ?P = "\<lambda>k t'. \<exists>b. t' = t\<lparr>terminal_buffer := b\<rparr> \<and>
    screen b (\<lambda>x y'. if y' = y \<and> x < k then vga_entry 32 (terminal_color t) else g x y')"
  have "\<exists>t'. foldl (\<lambda>r x. rbind r (\<lambda>t. terminal_entry t 32 (terminal_color t) (of_nat x) (of_nat y)))
      (Inr t) [0..<80] = Inr t' \<and> ?P 80 t'"
  proof (rule foldl_rbind_upto)
    show "?P 0 t"
      using assms by (intro exI [of _ "terminal_buffer t"]) simp
    fix k t'
    assume k: "k < 80" and "?P k t'"
    then obtain b where b: "t' = t\<lparr>terminal_buffer := b\<rparr>"
        "screen b (\<lambda>x y'. if y' = y \<and> x < k then vga_entry 32 (terminal_color t) else g x y')"
      by blast
    let ?b = "b[y * 80 + k := vga_entry 32 (terminal_color t)]"
    have "screen ?b (\<lambda>x y'. if y' = y \<and> x < Suc k then vga_entry 32 (terminal_color t) else g x y')"
      by (rule screen_cong [OF screen_set [OF b(2) k assms(2)]]) (auto simp: less_Suc_eq)
    moreover have "terminal_entry t' 32 (terminal_color t') (of_nat k) (of_nat y) = Inr (t\<lparr>terminal_buffer := ?b\<rparr>)"
      using terminal_entry_nat [of t' k y] k assms(2) screen_length [OF b(2)] b(1) by simp
    ultimately show "\<exists>s'. terminal_entry t' 32 (terminal_color t') (of_nat k) (of_nat y) = Inr s' \<and> ?P (Suc k) s'"
      by blast
  qed
  then obtain b where b: "terminal_zeroline t (of_nat y) = Inr (t\<lparr>terminal_buffer := b\<rparr>)"
      "screen b (\<lambda>x y'. if y' = y \<and> x < 80 then vga_entry 32 (terminal_color t) else g x y')"
    unfolding terminal_zeroline_def by blast
  show ?thesis
    by (rule exI [of _ b], rule conjI [OF b(1)], rule screen_cong [OF b(2)]) simp
qed

lemma terminal_copyline_screen:
  assumes "screen (terminal_buffer t) g" "d < 25" "r < 25" "d \<noteq> r"
  shows "\<exists>b. terminal_copyline t (of_nat d) (of_nat r) = Inr (t\<lparr>terminal_buffer := b\<rparr>) \<and>
           screen b (\<lambda>x y. if y = d then vga_entry (ucast (g x r)) (terminal_color t) else g x y)"
proof -
  let ?P = "\<lambda>k t'. \<exists>b. t' = t\<lparr>terminal_buffer := b\<rparr> \<and>
    screen b (\<lambda>x y. if y = d \<and> x < k then vga_entry (ucast (g x r)) (terminal_color t) else g x y)"
  let ?f = "\<lambda>x t. rbind (array_get (terminal_buffer t) (unat (of_nat r * VGA_WIDTH + of_nat x))) (\<lambda>c.
           terminal_entry t (ucast c) (terminal_color t) (of_nat x) (of_nat d))"
  have "\<exists>t'. foldl (\<lambda>r x. rbind r (?f x)) (Inr t) [0..<80] = Inr t' \<and> ?P 80 t'"
  proof (rule foldl_rbind_upto)
    show "?P 0 t"
      using assms by (intro exI [of _ "terminal_buffer t"]) simp
    fix k t'
    assume k: "k < 80" and "?P k t'"
    then obtain b where b: "t' = t\<lparr>terminal_buffer := b\<rparr>"
        "screen b (\<lambda>x y. if y = d \<and> x < k then vga_entry (ucast (g x r)) (terminal_color t) else g x y)"
      by blast
    let ?b = "b[d * 80 + k := vga_entry (ucast (g k r)) (terminal_color t)]"
    have i: "unat (of_nat r * VGA_WIDTH + of_nat k :: u32) = r * 80 + k"
      using k assms(3) by (simp add: VGA_WIDTH_def unat_u32_mult_mod unat_u32_plus_mod unat_u32_of_nat)
    have "b ! (r * 80 + k) = g k r"
      using b(2) k assms(3,4) by (simp add: screen_def)
    then have "?f k t' = Inr (t\<lparr>terminal_buffer := ?b\<rparr>)"
      using terminal_entry_nat [of t' k d] k assms(2,3) screen_length [OF b(2)] b(1) cell_index i by simp
    moreover have "screen ?b (\<lambda>x y. if y = d \<and> x < Suc k then vga_entry (ucast (g x r)) (terminal_color t) else g x y)"
      by (rule screen_cong [OF screen_set [OF b(2) k assms(2)]]) (auto simp: less_Suc_eq)
    ultimately show "\<exists>s'. ?f k t' = Inr s' \<and> ?P (Suc k) s'"
      by blast
  qed
  then obtain b where b: "terminal_copyline t (of_nat d) (of_nat r) = Inr (t\<lparr>terminal_buffer := b\<rparr>)"
      "screen b (\<lambda>x y. if y = d \<and> x < 80 then vga_entry (ucast (g x r)) (terminal_color t) else g x y)"
    unfolding terminal_copyline_def by blast
  show ?thesis
    by (rule exI [of _ b], rule conjI [OF b(1)], rule screen_cong [OF b(2)]) simp
qed

lemma terminal_scroll_screen:
  assumes "screen (terminal_buffer t) g"
  shows "\<exists>b. terminal_scroll t = Inr (t\<lparr>terminal_buffer := b, terminal_row := terminal_row t - 1\<rparr>) \<and>
           screen b (\<lambda>x y. if y < 24 then vga_entry (ucast (g x (Suc y))) (terminal_color t)
                           else vga_entry 32 (terminal_color t))"
proof -
  let ?c = "\<lambda>x y. vga_entry (ucast (g x (Suc y))) (terminal_color t)"
  let ?P = "\<lambda>k t'. \<exists>b. t' = t\<lparr>terminal_buffer := b\<rparr> \<and> screen b (\<lambda>x y. if y < k then ?c x y else g x y)"
  have "\<exists>t'. foldl (\<lambda>r y. rbind r (\<lambda>t. terminal_copyline t (of_nat y) (of_nat y + 1))) (Inr t) [0..<24] = Inr t' \<and> ?P 24 t'"
  proof (rule foldl_rbind_upto)
    show "?P 0 t"
      using assms by (intro exI [of _ "terminal_buffer t"]) simp
    fix k t'
    assume k: "k < 24" and "?P k t'"
    then obtain b where b: "t' = t\<lparr>terminal_buffer := b\<rparr>" "screen b (\<lambda>x y. if y < k then ?c x y else g x y)"
      by blast
    then have sc: "screen (terminal_buffer t') (\<lambda>x y. if y < k then ?c x y else g x y)"
      by simp
    obtain b' where b': "terminal_copyline t' (of_nat k) (of_nat (Suc k)) = Inr (t'\<lparr>terminal_buffer := b'\<rparr>)"
        "screen b' (\<lambda>x y. if y = k then vga_entry (ucast (if Suc k < k then ?c x (Suc k) else g x (Suc k))) (terminal_color t')
                          else if y < k then ?c x y else g x y)"
      using terminal_copyline_screen [OF sc, of k "Suc k"] k by auto
    have "screen b' (\<lambda>x y. if y < Suc k then ?c x y else g x y)"
      by (rule screen_cong [OF b'(2)]) (use b(1) in \<open>auto simp: less_Suc_eq\<close>)
    moreover have "terminal_copyline t' (of_nat k) (of_nat k + 1) = Inr (t\<lparr>terminal_buffer := b'\<rparr>)"
      using b'(1) b(1) by (simp add: add.commute)
    ultimately show "\<exists>s'. terminal_copyline t' (of_nat k) (of_nat k + 1) = Inr s' \<and> ?P (Suc k) s'"
      by blast
  qed
  then obtain b where b: "foldl (\<lambda>r y. rbind r (\<lambda>t. terminal_copyline t (of_nat y) (of_nat y + 1))) (Inr t) [0..<24] =
      Inr (t\<lparr>terminal_buffer := b\<rparr>)" "screen (terminal_buffer (t\<lparr>terminal_buffer := b\<rparr>)) (\<lambda>x y. if y < 24 then ?c x y else g x y)"
    by auto
  have h: "VGA_HEIGHT - 1 = of_nat 24"
    by (simp add: VGA_HEIGHT_def)
  obtain b' where b': "terminal_zeroline (t\<lparr>terminal_buffer := b\<rparr>) (of_nat 24) = Inr (t\<lparr>terminal_buffer := b'\<rparr>)"
      "screen b' (\<lambda>x y'. if y' = 24 then vga_entry 32 (terminal_color t) else if y' < 24 then ?c x y' else g x y')"
    using terminal_zeroline_screen [OF b(2), of 24] by (simp cong: if_cong) blast
  have "screen b' (\<lambda>x y. if y < 24 then ?c x y else vga_entry 32 (terminal_color t))"
    by (rule screen_cong [OF b'(2)]) auto
  moreover have "terminal_scroll t = Inr (t\<lparr>terminal_buffer := b', terminal_row := terminal_row t - 1\<rparr>)"
    unfolding terminal_scroll_def b(1) h using b'(1) by simp
  ultimately show ?thesis
    by blast
qed

lemma terminal_newline_spec:
  assumes "tty_inv t"
  shows "\<exists>t'. terminal_newline t = Inr t' \<and> tty_inv t' \<and> terminal_column t' = 0 \<and>
           (if terminal_row t = 24
            then terminal_row t' = 24 \<and> (\<forall>x<80. cell t' x 24 = vga_entry 32 (terminal_color t)) \<and>
                 (\<forall>x<80. \<forall>y<24. cell t' x y = vga_entry (ucast (cell t x (Suc y))) (terminal_color t))
            else terminal_row t' = terminal_row t + 1 \<and> terminal_buffer t' = terminal_buffer t)"
proof (cases "terminal_row t = 24")
  case True
  let ?t = "t\<lparr>terminal_column := 0, terminal_row := 25\<rparr>"
  have "screen (terminal_buffer ?t) (\<lambda>x y. cell t x y)"
    using assms by (simp add: tty_inv_def screen_self)
  from terminal_scroll_screen [OF this] obtain b where
    b: "terminal_scroll ?t = Inr (?t\<lparr>terminal_buffer := b, terminal_row := 24\<rparr>)"
      "screen b (\<lambda>x y. if y < 24 then vga_entry (ucast (cell t x (Suc y))) (terminal_color t)
         else vga_entry 32 (terminal_color t))"
    by (simp cong: if_cong) blast
  have "terminal_newline t = Inr (?t\<lparr>terminal_buffer := b, terminal_row := 24\<rparr>)"
    using True b(1) by (simp add: terminal_newline_def VGA_HEIGHT_def Let_def)
  moreover have "b ! (1920 + x) = vga_entry 32 (terminal_color t)" if "x < 80" for x
    using b(2) [unfolded screen_def, THEN conjunct2, rule_format, of x 24] that by simp
  ultimately show ?thesis
    using True b(2) by (auto simp: tty_inv_def screen_def)
next
  case False
  then have "unat (terminal_row t) < 24"
    using assms unat_u32_eq_iff [of "terminal_row t" 24] by (simp add: tty_inv_def)
  then have r: "unat (terminal_row t + 1) = Suc (unat (terminal_row t))"
    by (intro unat_u32_Suc) simp
  then have "terminal_row t + 1 \<noteq> VGA_HEIGHT"
    using \<open>unat (terminal_row t) < 24\<close> by (auto simp: VGA_HEIGHT_def)
  then show ?thesis
    using False assms r \<open>unat (terminal_row t) < 24\<close> by (simp add: terminal_newline_def tty_inv_def Let_def)
qed

text \<open>Fact [terminal_newline_scrolls]: a new line on the last row moves every row up by one, with the
  characters kept and the colour set to the current one, clears the last row and leaves the cursor
  at its start; on any other row it only moves the cursor.\<close>

theorem terminal_newline_scrolls:
  assumes "tty_inv t"
  shows "\<exists>t'. terminal_newline t = Inr t' \<and> tty_inv t' \<and> terminal_column t' = 0 \<and>
           (if terminal_row t = 24
            then terminal_row t' = 24 \<and> (\<forall>x<80. cell t' x 24 = vga_entry 32 (terminal_color t)) \<and>
                 (\<forall>x<80. \<forall>y<24. cell t' x y = vga_entry (ucast (cell t x (Suc y))) (terminal_color t))
            else terminal_row t' = terminal_row t + 1 \<and> terminal_buffer t' = terminal_buffer t)"
  by (rule terminal_newline_spec [OF assms])

definition tty_sample :: "u32 \<Rightarrow> u32 \<Rightarrow> tty" where
  "tty_sample row column = \<lparr>terminal_row = row, terminal_column = column, terminal_color = 15,
     terminal_buffer = replicate 2000 0, tty_cursor = 0\<rparr>"

theorem terminal_newline_scrolls_witness:
  "\<exists>t'. terminal_newline (tty_sample 24 7) = Inr t' \<and> tty_inv t' \<and> terminal_row t' = 24 \<and> terminal_column t' = 0"
  using terminal_newline_scrolls [of "tty_sample 24 7"] by (auto simp: tty_sample_def tty_inv_def)

section \<open>Characters\<close>

lemma u16_split: "ucast (ucast (p AND 0xFF) :: u8) OR push_bit 8 (ucast (ucast (drop_bit 8 p) :: u8)) = (p :: u16)"
proof -
  have m: "(0xFF :: u16) = mask 8"
    by (simp add: mask_eq_exp_minus_1)
  show ?thesis
    unfolding m by (rule bit_word_eqI) (auto simp: bit_simps)
qed

lemma cursor_position:
  assumes "unat (c :: u32) < 80" "unat (r :: u32) < 25"
  shows "unat (tty_cursor (terminal_update_cursor t (ucast c) (ucast r))) = unat r * 80 + unat c"
proof -
  have u: "unat (ucast (ucast c :: u8) :: u16) = unat c" "unat (ucast (ucast r :: u8) :: u16) = unat r"
    using assms by (simp_all only: unat_u16_of_u8 unat_u8_of_u32)
  let ?p = "ucast (ucast r :: u8) * 80 + ucast (ucast c :: u8) :: u16"
  have p: "unat ?p = unat r * 80 + unat c"
    using assms by (simp add: unat_word_ariths u)
  have "ucast (ucast (?p AND 0xFF) :: u8) OR push_bit 8 (ucast (ucast (drop_bit 8 ?p) :: u8)) = ?p"
    by (rule u16_split)
  then show ?thesis
    using p by (simp add: terminal_update_cursor_def Let_def)
qed

lemma terminal_update_cursor_simps [simp]:
  "tty_inv (terminal_update_cursor t x y) \<longleftrightarrow> tty_inv t"
  "terminal_buffer (terminal_update_cursor t x y) = terminal_buffer t"
  "terminal_row (terminal_update_cursor t x y) = terminal_row t"
  "terminal_column (terminal_update_cursor t x y) = terminal_column t"
  "terminal_color (terminal_update_cursor t x y) = terminal_color t"
  by (simp_all add: terminal_update_cursor_def tty_inv_def Let_def)

lemma terminal_back_inv:
  assumes "tty_inv t" "terminal_column t \<noteq> 0 \<or> terminal_row t \<noteq> 0"
  shows "\<exists>t'. terminal_back t = Inr t' \<and> tty_inv t'"
proof (cases "terminal_column t = 0")
  case True
  then have "terminal_row t \<noteq> 0"
    using assms(2) by simp
  then have "unat (terminal_row t - 1) < 25"
    using assms(1) unat_minus_one [of "terminal_row t"] unfolding tty_inv_def by linarith
  then show ?thesis
    using True assms(1) terminal_entry_in [of t 0 "terminal_row t"]
    by (simp add: terminal_back_def tty_inv_def VGA_WIDTH_def)
next
  case False
  then have "unat (terminal_column t - 1) < 80"
    using assms(1) unat_minus_one [of "terminal_column t"] unfolding tty_inv_def by linarith
  then show ?thesis
    using False assms(1) terminal_entry_in [of "t\<lparr>terminal_column := terminal_column t - 1\<rparr>" "terminal_column t - 1" "terminal_row t"]
    by (simp add: terminal_back_def tty_inv_def Let_def)
qed

lemma terminal_print_inv:
  assumes "tty_inv t"
  shows "\<exists>t'. rbind (terminal_entry t uc (terminal_color t) (terminal_column t) (terminal_row t)) (\<lambda>t1.
      let t2 = t1\<lparr>terminal_column := terminal_column t1 + 1\<rparr> in
      if terminal_column t2 = VGA_WIDTH then terminal_newline t2 else Inr t2) = Inr t' \<and> tty_inv t'"
proof -
  let ?t = "t\<lparr>terminal_buffer := (terminal_buffer t)[unat (terminal_row t) * 80 + unat (terminal_column t) :=
    vga_entry uc (terminal_color t)]\<rparr>"
  have e: "terminal_entry t uc (terminal_color t) (terminal_column t) (terminal_row t) = Inr ?t"
    using assms by (intro terminal_entry_in) (simp_all add: tty_inv_def)
  have c: "unat (terminal_column t + 1) = Suc (unat (terminal_column t))"
    using assms by (intro unat_u32_Suc) (simp add: tty_inv_def)
  show ?thesis
  proof (cases "terminal_column t + 1 = VGA_WIDTH")
    case True
    have eq: "terminal_newline (?t\<lparr>terminal_column := terminal_column t + 1\<rparr>) = terminal_newline ?t"
      by (simp add: terminal_newline_def Let_def)
    have "tty_inv ?t"
      using assms by (simp add: tty_inv_def)
    from terminal_newline_spec [OF this] show ?thesis
      using True e eq by (auto simp: Let_def)
  next
    case False
    then have "unat (terminal_column t) \<noteq> 79"
      using c unat_u32_eq_iff [of "terminal_column t + 1" VGA_WIDTH] by (simp add: VGA_WIDTH_def)
    then show ?thesis
      using False assms c e by (simp add: tty_inv_def Let_def)
  qed
qed

text \<open>C32 [terminal_putchar_safe]: with the cursor on the screen, writing any character, except a backspace
  in the top left corner, stays inside the screen memory, keeps the cursor on the screen, and tells
  the hardware the cursor's position.\<close>

theorem terminal_putchar_safe:
  assumes "tty_inv t" "uc \<noteq> 8 \<or> terminal_column t \<noteq> 0 \<or> terminal_row t \<noteq> 0"
  shows "\<exists>t'. terminal_putchar t uc = Inr t' \<and> tty_inv t' \<and>
           unat (tty_cursor t') = unat (terminal_row t') * 80 + unat (terminal_column t')"
proof -
  have "\<exists>t'. (if uc = 10 then terminal_newline t else if uc = 8 then terminal_back t
      else rbind (terminal_entry t uc (terminal_color t) (terminal_column t) (terminal_row t)) (\<lambda>t1.
        let t2 = t1\<lparr>terminal_column := terminal_column t1 + 1\<rparr> in
        if terminal_column t2 = VGA_WIDTH then terminal_newline t2 else Inr t2)) = Inr t' \<and> tty_inv t'"
    using terminal_newline_spec [OF assms(1)] terminal_back_inv [OF assms(1)] terminal_print_inv [OF assms(1), of uc] assms(2)
    by auto
  then show ?thesis
    using cursor_position by (fastforce simp: terminal_putchar_def tty_inv_def)
qed

theorem terminal_putchar_safe_witness:
  "\<exists>t'. terminal_putchar (tty_sample 24 79) 65 = Inr t' \<and> tty_inv t'"
  using terminal_putchar_safe [of "tty_sample 24 79" 65] by (auto simp: tty_sample_def tty_inv_def)

text \<open>Fact [terminal_back_underflow]: a backspace in the top left corner moves the cursor to row 2^32-1, and the
  next printed character is written in front of the screen memory.\<close>

theorem terminal_back_underflow:
  assumes "length (terminal_buffer t) = 2000" "terminal_row t = 0" "terminal_column t = 0"
    and "uc \<noteq> 8" "uc \<noteq> 10"
  shows "\<exists>t'. terminal_putchar t 8 = Inr t' \<and> terminal_row t' = 0xFFFFFFFF \<and> terminal_putchar t' uc = Inl BadAccess"
  using assms terminal_entry_in [of t 0 0]
  by (simp add: terminal_putchar_def terminal_back_def VGA_WIDTH_def terminal_entry_def unat_u32_minus_1)

theorem terminal_back_underflow_witness:
  "\<exists>t'. terminal_putchar (tty_sample 0 0) 8 = Inr t' \<and> terminal_putchar t' 65 = Inl BadAccess"
  using terminal_back_underflow [of "tty_sample 0 0" 65] by (auto simp: tty_sample_def)

end
