(* ===== verification/Rtc.thy ===== *)
theory Rtc
  imports BulbPrelude
begin

text \<open>
  The real-time clock: \<open>src/kernel/drivers/cmos.c\<close> reads the clock's registers through the index port
  0x70 and the data port 0x71, and \<open>src/kernel/drivers/rtc.c\<close> turns a date into seconds since 1970.
  The clock chip is the pair of the last index written and the 128 registers.

  Shown here: packed decimal registers are decoded, the seconds computed for a date are those of the
  calendar for every date before the leap day of a leap year and in every other year, and the bits of
  the status registers that the drivers change.
\<close>

section \<open>Data\<close>

record date_t =
  second :: u8
  minute :: u8
  hour :: u8
  day :: u8
  month :: u8
  year :: u32
  century :: u8

record cmos =
  cm_index :: u8
  cm_regs :: "u8 \<Rightarrow> u8"
  is_nmi_enabled :: u8
  is_bin_mode :: u8
  is_24hour_mode :: u8
  initial_date :: date_t
  time_since_startup_doubled :: u32
  initial_epoch_time :: u32

definition CMOS_SECONDS_PORT :: u8 where "CMOS_SECONDS_PORT = 0x00"
definition CMOS_MINUTES_PORT :: u8 where "CMOS_MINUTES_PORT = 0x02"
definition CMOS_HOURS_PORT :: u8 where "CMOS_HOURS_PORT = 0x04"
definition CMOS_DAY_PORT :: u8 where "CMOS_DAY_PORT = 0x07"
definition CMOS_MONTH_PORT :: u8 where "CMOS_MONTH_PORT = 0x08"
definition CMOS_YEAR_PORT :: u8 where "CMOS_YEAR_PORT = 0x09"
definition CMOS_CENTURY_PORT :: u8 where "CMOS_CENTURY_PORT = 0x32"

section \<open>The ports\<close>

definition outb_index :: "cmos \<Rightarrow> u8 \<Rightarrow> cmos" where
  "outb_index c v = c\<lparr>cm_index := v\<rparr>"

definition inb_data :: "cmos \<Rightarrow> u8" where
  "inb_data c = cm_regs c (cm_index c AND 0x7F)"

definition outb_data :: "cmos \<Rightarrow> u8 \<Rightarrow> cmos" where
  "outb_data c v = c\<lparr>cm_regs := (cm_regs c)(cm_index c AND 0x7F := v)\<rparr>"

section \<open>Seconds since 1970\<close>

definition SECONDS_IN_MINUTE :: u32 where "SECONDS_IN_MINUTE = 60"
definition SECONDS_IN_HOUR :: u32 where "SECONDS_IN_HOUR = SECONDS_IN_MINUTE * 60"
definition SECONDS_IN_DAY :: u32 where "SECONDS_IN_DAY = SECONDS_IN_HOUR * 24"
definition SECONDS_IN_YEAR :: u32 where "SECONDS_IN_YEAR = SECONDS_IN_DAY * 365"

definition days_in_month :: "u16 list" where
  "days_in_month = [31, 28, 31, 30, 31, 30, 31, 31, 30, 31, 30, 31]"

definition rtc_convert_month_to_days :: "u8 \<Rightarrow> u32 res" where
  "rtc_convert_month_to_days m =
     foldl (\<lambda>r i. rbind r (\<lambda>days. rbind (array_get days_in_month i) (\<lambda>d. Inr (days + ucast d))))
       (Inr 0) [0..<unat m - 1]"

definition rtc_convert_date_to_time :: "cmos \<Rightarrow> cmos res" where
  "rtc_convert_date_to_time c =
     (let d = initial_date c;
          t1 = initial_epoch_time c + ucast (second d);
          t2 = t1 + ucast (minute d) * SECONDS_IN_MINUTE;
          t3 = t2 + ucast (hour d) * SECONDS_IN_HOUR in
      rbind (rtc_convert_month_to_days (month d)) (\<lambda>md.
        let tm_yday = ucast (day d) + md - 1;
            t4 = t3 + tm_yday * SECONDS_IN_DAY;
            tm_year = ucast (century d) * 100 + year d - 1900;
            t5 = t4 + (tm_year - 70) * SECONDS_IN_YEAR;
            t6 = t5 + (tm_year - 69) div 4 * SECONDS_IN_DAY;
            t7 = t6 - (tm_year - 1) div 100 * SECONDS_IN_DAY;
            t8 = t7 + (tm_year + 299) div 400 * SECONDS_IN_DAY in
        Inr (c\<lparr>initial_epoch_time := t8\<rparr>)))"

definition rtc_get_time_since_startup :: "cmos \<Rightarrow> u32" where
  "rtc_get_time_since_startup c = time_since_startup_doubled c div 2"

definition rtc_get_epoch_time :: "cmos \<Rightarrow> u32" where
  "rtc_get_epoch_time c = initial_epoch_time c + time_since_startup_doubled c div 2"

definition rtc_update_time :: "cmos \<Rightarrow> cmos" where
  "rtc_update_time c = c\<lparr>time_since_startup_doubled := time_since_startup_doubled c + 1\<rparr>"

section \<open>The clock chip\<close>

definition cmos_convert_bcn :: "u8 \<Rightarrow> u8" where
  "cmos_convert_bcn input = input div 16 * 10 + (input AND 0xF)"

definition cmos_get_reg_value :: "cmos \<Rightarrow> u8 \<Rightarrow> u8 \<times> cmos" where
  "cmos_get_reg_value c reg =
     (let c1 = outb_index c (push_bit 7 (is_nmi_enabled c) OR reg) in (inb_data c1, c1))"

definition cmos_activate_interrupt :: "cmos \<Rightarrow> u8 \<Rightarrow> cmos" where
  "cmos_activate_interrupt c interrupt =
     (let c1 = outb_index c 0x8B; statusreg_b = inb_data c1; c2 = outb_index c1 0x8B in
      outb_data c2 (statusreg_b OR interrupt))"

definition cmos_deactivate_interrupt :: "cmos \<Rightarrow> u8 \<Rightarrow> cmos" where
  "cmos_deactivate_interrupt c interrupt =
     (let c1 = outb_index c 0x8B; statusreg_b = inb_data c1; c2 = outb_index c1 0x8B in
      outb_data c2 (statusreg_b AND NOT interrupt))"

definition rtc_setup_date :: "cmos \<Rightarrow> cmos" where
  "rtc_setup_date c = cmos_activate_interrupt c 0x10"

text \<open>The conversions of the registers' values, after they have been read.\<close>

definition cmos_decode_date :: "cmos \<Rightarrow> date_t \<Rightarrow> date_t" where
  "cmos_decode_date c d0 =
     (let d1 = (if is_24hour_mode c = 0 then
                  let is_PM = drop_bit 7 (hour d0); h = is_PM * 12 + hour d0 in
                  d0\<lparr>hour := (if h = 24 then 0 else h)\<rparr>
                else d0) in
      if is_bin_mode c = 0 then
        d1\<lparr>second := cmos_convert_bcn (second d1), minute := cmos_convert_bcn (minute d1),
           hour := cmos_convert_bcn (hour d1), day := cmos_convert_bcn (day d1),
           month := cmos_convert_bcn (month d1), year := ucast (cmos_convert_bcn (ucast (year d1))),
           century := cmos_convert_bcn (century d1)\<rparr>
      else d1)"

definition cmos_handle_update_interrupt :: "cmos \<Rightarrow> cmos res" where
  "cmos_handle_update_interrupt c0 =
     (let (s, c1) = cmos_get_reg_value c0 CMOS_SECONDS_PORT;
          (mi, c2) = cmos_get_reg_value c1 CMOS_MINUTES_PORT;
          (h, c3) = cmos_get_reg_value c2 CMOS_HOURS_PORT;
          (d, c4) = cmos_get_reg_value c3 CMOS_DAY_PORT;
          (mo, c5) = cmos_get_reg_value c4 CMOS_MONTH_PORT;
          (y, c6) = cmos_get_reg_value c5 CMOS_YEAR_PORT;
          (ce, c7) = cmos_get_reg_value c6 CMOS_CENTURY_PORT;
          date = \<lparr>second = s, minute = mi, hour = h, day = d, month = mo, year = ucast y, century = ce\<rparr> in
      rbind (rtc_convert_date_to_time (c7\<lparr>initial_date := cmos_decode_date c7 date\<rparr>)) (\<lambda>c8.
        Inr (cmos_activate_interrupt (cmos_deactivate_interrupt c8 0x10) 0x40)))"

definition nmi_enable :: "cmos \<Rightarrow> cmos" where
  "nmi_enable c = (outb_index c (cm_index c AND 0x7F))\<lparr>is_nmi_enabled := 1\<rparr>"

definition nmi_disable :: "cmos \<Rightarrow> cmos" where
  "nmi_disable c = (outb_index c (cm_index c OR 0x80))\<lparr>is_nmi_enabled := 0\<rparr>"

definition cmos_check_statb_reg :: "cmos \<Rightarrow> cmos" where
  "cmos_check_statb_reg c =
     (let (statusreg_b, c1) = cmos_get_reg_value c 0x0B in
      c1\<lparr>is_24hour_mode := drop_bit 1 statusreg_b AND 1, is_bin_mode := drop_bit 2 statusreg_b AND 1\<rparr>)"

definition rtc_set_frequency :: "cmos \<Rightarrow> u8 \<Rightarrow> cmos" where
  "rtc_set_frequency c rate0 =
     (let rate = rate0 AND 0x0F; c1 = outb_index c 0x0A; statusreg_a = inb_data c1; c2 = outb_index c1 0x0A in
      outb_data c2 ((statusreg_a AND 0xF0) OR rate))"

text \<open>Without the unmasking of the interrupt line, which is the interrupt controller's.\<close>

definition cmos_init :: "cmos \<Rightarrow> cmos" where
  "cmos_init c = cmos_check_statb_reg (nmi_enable (rtc_set_frequency c 15))"

definition cmos_interrupt_handler :: "cmos \<Rightarrow> cmos res" where
  "cmos_interrupt_handler c =
     (let c1 = outb_index c 0x0C; interrupt_type = inb_data c1 in
      if drop_bit 6 interrupt_type AND 1 \<noteq> 0 then Inr (rtc_update_time c1)
      else if drop_bit 5 interrupt_type AND 1 \<noteq> 0 then Inr c1
      else cmos_handle_update_interrupt c1)"

section \<open>The calendar\<close>

definition leap :: "nat \<Rightarrow> bool" where
  "leap y \<longleftrightarrow> 4 dvd y \<and> (\<not> 100 dvd y \<or> 400 dvd y)"

text \<open>Days from the first of January 1970 to the first of January of the year \<open>1970 + n\<close>.\<close>

fun days_to_year :: "nat \<Rightarrow> nat" where
  "days_to_year 0 = 0"
| "days_to_year (Suc n) = days_to_year n + (if leap (1970 + n) then 366 else 365)"

fun month_length :: "nat \<Rightarrow> nat \<Rightarrow> nat" where
  "month_length y m = (if m = 2 then (if leap y then 29 else 28) else if m \<in> {4, 6, 9, 11} then 30 else 31)"

definition days_to_month :: "nat \<Rightarrow> nat \<Rightarrow> nat" where
  "days_to_month y m = sum_list (map (month_length y) [1..<m])"

text \<open>The seconds of the calendar.\<close>

definition calendar_seconds :: "nat \<Rightarrow> nat \<Rightarrow> nat \<Rightarrow> nat \<Rightarrow> nat \<Rightarrow> nat \<Rightarrow> nat" where
  "calendar_seconds y m d h mi s =
     ((days_to_year (y - 1970) + days_to_month y m + (d - 1)) * 24 + h) * 3600 + mi * 60 + s"

lemma Suc_div_eq: "0 < k \<Longrightarrow> Suc m div k = m div k + (if k dvd Suc m then 1 else (0 :: nat))"
  by (auto simp: div_Suc dvd_eq_mod_eq_0)

lemma days_to_year_closed:
  "days_to_year n + (n + 69) div 100 = 365 * n + (n + 1) div 4 + (n + 369) div 400"
proof (induction n)
  case (Suc n)
  have d: "4 dvd Suc (n + 1) \<longleftrightarrow> 4 dvd 1970 + n" "100 dvd Suc (n + 69) \<longleftrightarrow> 100 dvd 1970 + n"
    "400 dvd Suc (n + 369) \<longleftrightarrow> 400 dvd 1970 + n"
    by presburger+
  have i: "(400 :: nat) dvd 1970 + n \<Longrightarrow> 100 dvd 1970 + n" "(100 :: nat) dvd 1970 + n \<Longrightarrow> 4 dvd 1970 + n"
    by presburger+
  have "Suc n + 69 = Suc (n + 69)" "Suc n + 1 = Suc (n + 1)" "Suc n + 369 = Suc (n + 369)"
    by simp_all
  then show ?case
    using Suc i by (simp only: Suc_div_eq d days_to_year.simps leap_def) (auto split: if_splits)
qed simp

lemma u32_of_nat_div:
  assumes "a < 4294967296" "b < 4294967296"
  shows "(of_nat a :: u32) div of_nat b = of_nat (a div b)"
proof -
  have "a div b < 4294967296"
    using assms(1) div_le_dividend [of a b] by linarith
  then show ?thesis
    using assms by (simp add: word_unat_eq_iff unat_div unat_u32_of_nat)
qed

lemma months_to_days:
  assumes "1 \<le> unat m" "unat m \<le> 12" "\<not> leap y \<or> unat m \<le> 2"
  shows "rtc_convert_month_to_days m = Inr (of_nat (days_to_month y (unat m)))"
proof -
  have cases: "unat m \<in> {1, 2, 3, 4, 5, 6, 7, 8, 9, 10, 11, 12}"
    using assms(1,2) unfolding insert_iff empty_iff by presburger
  have upt: "[0..<Suc k] = 0 # map Suc [0..<k]" "[1..<Suc k] = map Suc [0..<k]" for k
    by (simp_all add: map_Suc_upt upt_conv_Cons del: upt_Suc)
  show ?thesis
    using cases assms(3) unfolding rtc_convert_month_to_days_def days_to_month_def
    by (elim insertE) (simp_all add: upt_rec days_in_month_def)
qed

text \<open>C39 [rtc_epoch_correct]: for a valid date between 1970 and 2105, except after February of a leap year,
  \<open>rtc_convert_date_to_time\<close> adds the seconds of the calendar since 1970 to the stored time.\<close>

theorem rtc_epoch_correct:
  assumes d: "d = initial_date c" and Y: "Y = unat (century d) * 100 + unat (year d)" "1970 \<le> Y" "Y \<le> 2105"
    and m: "1 \<le> unat (month d)" "unat (month d) \<le> 12" and day: "1 \<le> unat (day d)"
    and leap: "\<not> leap Y \<or> unat (month d) \<le> 2"
  shows "rtc_convert_date_to_time c = Inr (c\<lparr>initial_epoch_time := initial_epoch_time c +
    of_nat (calendar_seconds Y (unat (month d)) (unat (day d)) (unat (hour d)) (unat (minute d)) (unat (second d)))\<rparr>)"
proof -
  let ?n = "Y - 1970"
  have yw: "ucast (century d) * 100 + year d - 1900 = (of_nat (?n + 70) :: u32)"
  proof -
    have "ucast (century d) * 100 + year d = (of_nat Y :: u32)"
      by (simp add: Y(1))
    moreover have "Y = ?n + 70 + 1900"
      using Y(2) by simp
    ultimately show ?thesis
      by (metis add_diff_cancel_right' of_nat_add of_nat_numeral)
  qed
  have y: "(of_nat (?n + 70) :: u32) - 70 = of_nat ?n" "(of_nat (?n + 70) :: u32) - 69 = of_nat (?n + 1)"
    "(of_nat (?n + 70) :: u32) - 1 = of_nat (?n + 69)" "(of_nat (?n + 70) :: u32) + 299 = of_nat (?n + 369)"
    by simp_all
  have div: "(of_nat (?n + 1) :: u32) div 4 = of_nat ((?n + 1) div 4)"
    "(of_nat (?n + 69) :: u32) div 100 = of_nat ((?n + 69) div 100)"
    "(of_nat (?n + 369) :: u32) div 400 = of_nat ((?n + 369) div 400)"
    using u32_of_nat_div [of "?n + 1" 4] u32_of_nat_div [of "?n + 69" 100] u32_of_nat_div [of "?n + 369" 400] Y(3)
    by simp_all
  have md: "rtc_convert_month_to_days (month d) = Inr (of_nat (days_to_month Y (unat (month d))))"
    by (rule months_to_days [OF m leap])
  have "of_nat (days_to_year ?n + (?n + 69) div 100) =
      (of_nat (365 * ?n + (?n + 1) div 4 + (?n + 369) div 400) :: u32)"
    by (simp only: days_to_year_closed)
  then have days: "(of_nat (days_to_year ?n) :: u32) =
      365 * of_nat ?n + of_nat ((?n + 1) div 4) + of_nat ((?n + 369) div 400) - of_nat ((?n + 69) div 100)"
    by (simp only: of_nat_add of_nat_mult of_nat_numeral eq_diff_eq)
  have dd: "(of_nat (unat (day d) - 1) :: u32) = ucast (day d) - 1"
    using day by (simp add: of_nat_diff)
  show ?thesis
    unfolding rtc_convert_date_to_time_def Let_def d [symmetric] md rbind_Inr yw y div
    unfolding calendar_seconds_def of_nat_add of_nat_mult days dd
    by (simp add: SECONDS_IN_MINUTE_def SECONDS_IN_HOUR_def SECONDS_IN_DAY_def SECONDS_IN_YEAR_def algebra_simps)
qed

definition rtc_sample :: "date_t \<Rightarrow> cmos" where
  "rtc_sample d = \<lparr>cm_index = 0, cm_regs = (\<lambda>_. 0), is_nmi_enabled = 1, is_bin_mode = 0, is_24hour_mode = 0,
     initial_date = d, time_since_startup_doubled = 0, initial_epoch_time = 4\<rparr>"

theorem rtc_epoch_correct_witness:
  "rtc_convert_date_to_time (rtc_sample \<lparr>second = 1, minute = 2, hour = 3, day = 4, month = 5, year = 23, century = 20\<rparr>) =
   Inr ((rtc_sample \<lparr>second = 1, minute = 2, hour = 3, day = 4, month = 5, year = 23, century = 20\<rparr>)\<lparr>initial_epoch_time :=
     4 + of_nat (calendar_seconds 2023 5 4 3 2 1)\<rparr>)"
  using rtc_epoch_correct [OF refl refl, of "rtc_sample \<lparr>second = 1, minute = 2, hour = 3, day = 4, month = 5, year = 23, century = 20\<rparr>"]
  by (simp add: rtc_sample_def leap_def)

text \<open>Fact [rtc_leap_day_lost]: on the first of March 2024 the computed time, less the 4 seconds the clock starts
  with, is the calendar's time of the day before: the days of the months are those of a common year.\<close>

theorem rtc_leap_day_lost:
  "rbind (rtc_convert_date_to_time (rtc_sample \<lparr>second = 0, minute = 0, hour = 0, day = 1, month = 3, year = 24, century = 20\<rparr>))
     (\<lambda>c. Inr (unat (initial_epoch_time c - 4) + 86400)) = Inr (calendar_seconds 2024 3 1 0 0 0)"
proof -
  have "rtc_convert_date_to_time (rtc_sample \<lparr>second = 0, minute = 0, hour = 0, day = 1, month = 3, year = 24, century = 20\<rparr>) =
    Inr ((rtc_sample \<lparr>second = 0, minute = 0, hour = 0, day = 1, month = 3, year = 24, century = 20\<rparr>)\<lparr>initial_epoch_time := 1709164804\<rparr>)"
    by (simp add: rtc_convert_date_to_time_def rtc_convert_month_to_days_def rtc_sample_def days_in_month_def upt_rec
        SECONDS_IN_MINUTE_def SECONDS_IN_HOUR_def SECONDS_IN_DAY_def SECONDS_IN_YEAR_def)
  moreover have "days_to_year 54 = 19723"
    using days_to_year_closed [of 54] by simp
  then have "calendar_seconds 2024 3 1 0 0 0 = 1709251200"
    by (simp add: calendar_seconds_def days_to_month_def upt_rec leap_def)
  ultimately show ?thesis
    by (simp add: rtc_sample_def)
qed

section \<open>Registers\<close>

definition to_bcd :: "nat \<Rightarrow> u8" where
  "to_bcd n = of_nat (n div 10) * 16 + of_nat (n mod 10)"

text \<open>Fact [cmos_bcd_decodes]: \<open>cmos_convert_bcn\<close> gives back every number below 100 from its packed decimal form.\<close>

theorem cmos_bcd_decodes: "\<forall>n<100. cmos_convert_bcn (to_bcd n) = of_nat n"
proof (intro allI impI)
  fix n :: nat
  assume n: "n < 100"
  let ?a = "n div 10" and ?b = "n mod 10"
  have a: "?a < 10"
    using n by linarith
  have u: "unat (to_bcd n) = ?a * 16 + ?b"
    using a by (simp add: to_bcd_def unat_word_ariths unat_of_nat take_bit_nat_eq_self)
  have "to_bcd n AND 0xF = take_bit 4 (to_bcd n)"
    by (simp add: take_bit_eq_mask mask_eq_exp_minus_1)
  then have "unat (to_bcd n AND 0xF) = ?b"
    using u a by (simp add: unsigned_take_bit_eq take_bit_eq_mod unat_mod)
  moreover have "unat (to_bcd n div 16) = ?a"
    using u by (simp add: unat_div)
  ultimately have "unat (cmos_convert_bcn (to_bcd n)) = ?a * 10 + ?b"
    using a by (simp add: cmos_convert_bcn_def unat_word_ariths)
  also have "\<dots> = n"
    by simp
  finally show "cmos_convert_bcn (to_bcd n) = of_nat n"
    using n by (simp add: word_unat_eq_iff unat_of_nat take_bit_nat_eq_self)
qed

theorem cmos_bcd_decodes_witness: "cmos_convert_bcn (to_bcd 59) = of_nat 59"
  using cmos_bcd_decodes [rule_format, of 59] by simp

text \<open>Fact [cmos_pm_hour_wrong]: in the 12-hour mode the bit that marks the afternoon is added to the hour and
  never masked: one o'clock in the afternoon is stored as hour 93 in the packed decimal mode and as
  hour 141 in the binary mode.\<close>

theorem cmos_pm_hour_wrong:
  "hour (cmos_decode_date (rtc_sample d) (d\<lparr>hour := 0x80 OR to_bcd 1\<rparr>)) = 93 \<and>
   hour (cmos_decode_date ((rtc_sample d)\<lparr>is_bin_mode := 1\<rparr>) (d\<lparr>hour := 0x80 OR 1\<rparr>)) = 141"
  by (simp add: cmos_decode_date_def rtc_sample_def cmos_convert_bcn_def to_bcd_def Let_def)

end
