(* ===== verification/Keyboard.thy ===== *)
theory Keyboard
  imports RingQueue LibcString
begin

text \<open>
  The PS/2 keyboard driver of \<open>src/kernel/drivers/keyboard.c\<close> and \<open>src/include/kernel/keyboard.h\<close>: a
  queue of commands with their acknowledgements, an automaton that collects the bytes of a scan code,
  and the modifier keys.  The bytes written to the keyboard and the symbols handed to the input task
  are recorded in \<open>kb_sent\<close> and \<open>kb_typed\<close>, the latest last.

  Shown here: commands are sent one at a time in the order in which they were queued, and sent again
  when the keyboard asks for it; a key press and its release decode to the same key; the modifier
  flags stay booleans and a held shift key is undone by its release; and where the driver leaves its
  arrays.
\<close>

section \<open>Keys\<close>

abbreviation (input) KEY_ESCAPE :: u32 where "KEY_ESCAPE \<equiv> 1"
abbreviation (input) KEY_F1 :: u32 where "KEY_F1 \<equiv> 2"
abbreviation (input) KEY_F2 :: u32 where "KEY_F2 \<equiv> 3"
abbreviation (input) KEY_F3 :: u32 where "KEY_F3 \<equiv> 4"
abbreviation (input) KEY_F4 :: u32 where "KEY_F4 \<equiv> 5"
abbreviation (input) KEY_F5 :: u32 where "KEY_F5 \<equiv> 6"
abbreviation (input) KEY_F6 :: u32 where "KEY_F6 \<equiv> 7"
abbreviation (input) KEY_F7 :: u32 where "KEY_F7 \<equiv> 8"
abbreviation (input) KEY_F8 :: u32 where "KEY_F8 \<equiv> 9"
abbreviation (input) KEY_F9 :: u32 where "KEY_F9 \<equiv> 10"
abbreviation (input) KEY_F10 :: u32 where "KEY_F10 \<equiv> 11"
abbreviation (input) KEY_F11 :: u32 where "KEY_F11 \<equiv> 12"
abbreviation (input) KEY_F12 :: u32 where "KEY_F12 \<equiv> 13"
abbreviation (input) KEY_1 :: u32 where "KEY_1 \<equiv> 14"
abbreviation (input) KEY_2 :: u32 where "KEY_2 \<equiv> 15"
abbreviation (input) KEY_3 :: u32 where "KEY_3 \<equiv> 16"
abbreviation (input) KEY_4 :: u32 where "KEY_4 \<equiv> 17"
abbreviation (input) KEY_5 :: u32 where "KEY_5 \<equiv> 18"
abbreviation (input) KEY_6 :: u32 where "KEY_6 \<equiv> 19"
abbreviation (input) KEY_7 :: u32 where "KEY_7 \<equiv> 20"
abbreviation (input) KEY_8 :: u32 where "KEY_8 \<equiv> 21"
abbreviation (input) KEY_9 :: u32 where "KEY_9 \<equiv> 22"
abbreviation (input) KEY_0 :: u32 where "KEY_0 \<equiv> 23"
abbreviation (input) KEY_A :: u32 where "KEY_A \<equiv> 24"
abbreviation (input) KEY_B :: u32 where "KEY_B \<equiv> 25"
abbreviation (input) KEY_C :: u32 where "KEY_C \<equiv> 26"
abbreviation (input) KEY_D :: u32 where "KEY_D \<equiv> 27"
abbreviation (input) KEY_E :: u32 where "KEY_E \<equiv> 28"
abbreviation (input) KEY_F :: u32 where "KEY_F \<equiv> 29"
abbreviation (input) KEY_G :: u32 where "KEY_G \<equiv> 30"
abbreviation (input) KEY_H :: u32 where "KEY_H \<equiv> 31"
abbreviation (input) KEY_I :: u32 where "KEY_I \<equiv> 32"
abbreviation (input) KEY_J :: u32 where "KEY_J \<equiv> 33"
abbreviation (input) KEY_K :: u32 where "KEY_K \<equiv> 34"
abbreviation (input) KEY_L :: u32 where "KEY_L \<equiv> 35"
abbreviation (input) KEY_M :: u32 where "KEY_M \<equiv> 36"
abbreviation (input) KEY_N :: u32 where "KEY_N \<equiv> 37"
abbreviation (input) KEY_O :: u32 where "KEY_O \<equiv> 38"
abbreviation (input) KEY_P :: u32 where "KEY_P \<equiv> 39"
abbreviation (input) KEY_Q :: u32 where "KEY_Q \<equiv> 40"
abbreviation (input) KEY_R :: u32 where "KEY_R \<equiv> 41"
abbreviation (input) KEY_S :: u32 where "KEY_S \<equiv> 42"
abbreviation (input) KEY_T :: u32 where "KEY_T \<equiv> 43"
abbreviation (input) KEY_U :: u32 where "KEY_U \<equiv> 44"
abbreviation (input) KEY_V :: u32 where "KEY_V \<equiv> 45"
abbreviation (input) KEY_W :: u32 where "KEY_W \<equiv> 46"
abbreviation (input) KEY_X :: u32 where "KEY_X \<equiv> 47"
abbreviation (input) KEY_Y :: u32 where "KEY_Y \<equiv> 48"
abbreviation (input) KEY_Z :: u32 where "KEY_Z \<equiv> 49"
abbreviation (input) KEY_TAB :: u32 where "KEY_TAB \<equiv> 50"
abbreviation (input) KEY_TILDE :: u32 where "KEY_TILDE \<equiv> 51"
abbreviation (input) KEY_LALT :: u32 where "KEY_LALT \<equiv> 52"
abbreviation (input) KEY_LSHIFT :: u32 where "KEY_LSHIFT \<equiv> 53"
abbreviation (input) KEY_LCTRL :: u32 where "KEY_LCTRL \<equiv> 54"
abbreviation (input) KEY_SPACE :: u32 where "KEY_SPACE \<equiv> 55"
abbreviation (input) KEY_COMMA :: u32 where "KEY_COMMA \<equiv> 56"
abbreviation (input) KEY_PERIOD :: u32 where "KEY_PERIOD \<equiv> 57"
abbreviation (input) KEY_SLASH :: u32 where "KEY_SLASH \<equiv> 58"
abbreviation (input) KEY_SEMICOLON :: u32 where "KEY_SEMICOLON \<equiv> 59"
abbreviation (input) KEY_DASH :: u32 where "KEY_DASH \<equiv> 60"
abbreviation (input) KEY_APOS :: u32 where "KEY_APOS \<equiv> 61"
abbreviation (input) KEY_LSBRACKET :: u32 where "KEY_LSBRACKET \<equiv> 62"
abbreviation (input) KEY_CAPSLOCK :: u32 where "KEY_CAPSLOCK \<equiv> 63"
abbreviation (input) KEY_ENTER :: u32 where "KEY_ENTER \<equiv> 64"
abbreviation (input) KEY_RSBRACKET :: u32 where "KEY_RSBRACKET \<equiv> 65"
abbreviation (input) KEY_BACKSLASH :: u32 where "KEY_BACKSLASH \<equiv> 66"
abbreviation (input) KEY_BACKSPACE :: u32 where "KEY_BACKSPACE \<equiv> 67"
abbreviation (input) KEY_NUMPAD1 :: u32 where "KEY_NUMPAD1 \<equiv> 68"
abbreviation (input) KEY_NUMPAD2 :: u32 where "KEY_NUMPAD2 \<equiv> 69"
abbreviation (input) KEY_NUMPAD3 :: u32 where "KEY_NUMPAD3 \<equiv> 70"
abbreviation (input) KEY_NUMPAD4 :: u32 where "KEY_NUMPAD4 \<equiv> 71"
abbreviation (input) KEY_NUMPAD5 :: u32 where "KEY_NUMPAD5 \<equiv> 72"
abbreviation (input) KEY_NUMPAD6 :: u32 where "KEY_NUMPAD6 \<equiv> 73"
abbreviation (input) KEY_NUMPAD7 :: u32 where "KEY_NUMPAD7 \<equiv> 74"
abbreviation (input) KEY_NUMPAD8 :: u32 where "KEY_NUMPAD8 \<equiv> 75"
abbreviation (input) KEY_NUMPAD9 :: u32 where "KEY_NUMPAD9 \<equiv> 76"
abbreviation (input) KEY_NUMPAD0 :: u32 where "KEY_NUMPAD0 \<equiv> 77"
abbreviation (input) KEY_NUMPAD_PERIOD :: u32 where "KEY_NUMPAD_PERIOD \<equiv> 78"
abbreviation (input) KEY_NUMLOCK :: u32 where "KEY_NUMLOCK \<equiv> 79"
abbreviation (input) KEY_NUMPAD_PLUS :: u32 where "KEY_NUMPAD_PLUS \<equiv> 80"
abbreviation (input) KEY_NUMPAD_DASH :: u32 where "KEY_NUMPAD_DASH \<equiv> 81"
abbreviation (input) KEY_EQUAL :: u32 where "KEY_EQUAL \<equiv> 82"
abbreviation (input) KEY_NUMPAD_STAR :: u32 where "KEY_NUMPAD_STAR \<equiv> 83"
abbreviation (input) KEY_SCROLLLOCK :: u32 where "KEY_SCROLLLOCK \<equiv> 84"
abbreviation (input) KEY_SEARCH :: u32 where "KEY_SEARCH \<equiv> 85"
abbreviation (input) KEY_RALT :: u32 where "KEY_RALT \<equiv> 86"
abbreviation (input) KEY_RCTRL :: u32 where "KEY_RCTRL \<equiv> 87"
abbreviation (input) KEY_PREVTRACK :: u32 where "KEY_PREVTRACK \<equiv> 88"
abbreviation (input) KEY_FAV :: u32 where "KEY_FAV \<equiv> 89"
abbreviation (input) KEY_LGUI :: u32 where "KEY_LGUI \<equiv> 90"
abbreviation (input) KEY_REFRESH :: u32 where "KEY_REFRESH \<equiv> 91"
abbreviation (input) KEY_DVOL :: u32 where "KEY_DVOL \<equiv> 92"
abbreviation (input) KEY_MUTE :: u32 where "KEY_MUTE \<equiv> 93"
abbreviation (input) KEY_RGUI :: u32 where "KEY_RGUI \<equiv> 94"
abbreviation (input) KEY_WSTOP :: u32 where "KEY_WSTOP \<equiv> 95"
abbreviation (input) KEY_CALC :: u32 where "KEY_CALC \<equiv> 96"
abbreviation (input) KEY_APPS :: u32 where "KEY_APPS \<equiv> 97"
abbreviation (input) KEY_UVOL :: u32 where "KEY_UVOL \<equiv> 98"
abbreviation (input) KEY_WFORWARD :: u32 where "KEY_WFORWARD \<equiv> 99"
abbreviation (input) KEY_PLAY :: u32 where "KEY_PLAY \<equiv> 100"
abbreviation (input) KEY_POWER :: u32 where "KEY_POWER \<equiv> 101"
abbreviation (input) KEY_WBACK :: u32 where "KEY_WBACK \<equiv> 102"
abbreviation (input) KEY_WHOME :: u32 where "KEY_WHOME \<equiv> 103"
abbreviation (input) KEY_STOP :: u32 where "KEY_STOP \<equiv> 104"
abbreviation (input) KEY_SLEEP :: u32 where "KEY_SLEEP \<equiv> 105"
abbreviation (input) KEY_MYPC :: u32 where "KEY_MYPC \<equiv> 106"
abbreviation (input) KEY_EMAIL :: u32 where "KEY_EMAIL \<equiv> 107"
abbreviation (input) KEY_NUMPAD_SLASH :: u32 where "KEY_NUMPAD_SLASH \<equiv> 108"
abbreviation (input) KEY_NEXTTRACK :: u32 where "KEY_NEXTTRACK \<equiv> 109"
abbreviation (input) KEY_MEDIA :: u32 where "KEY_MEDIA \<equiv> 110"
abbreviation (input) KEY_NUMPAD_ENTER :: u32 where "KEY_NUMPAD_ENTER \<equiv> 111"
abbreviation (input) KEY_WAKE :: u32 where "KEY_WAKE \<equiv> 112"
abbreviation (input) KEY_END :: u32 where "KEY_END \<equiv> 113"
abbreviation (input) KEY_DEL :: u32 where "KEY_DEL \<equiv> 114"
abbreviation (input) KEY_INSERT :: u32 where "KEY_INSERT \<equiv> 115"
abbreviation (input) KEY_LEFT :: u32 where "KEY_LEFT \<equiv> 116"
abbreviation (input) KEY_DOWN :: u32 where "KEY_DOWN \<equiv> 117"
abbreviation (input) KEY_RIGHT :: u32 where "KEY_RIGHT \<equiv> 118"
abbreviation (input) KEY_UP :: u32 where "KEY_UP \<equiv> 119"
abbreviation (input) KEY_PDOWN :: u32 where "KEY_PDOWN \<equiv> 120"
abbreviation (input) KEY_PUP :: u32 where "KEY_PUP \<equiv> 121"
abbreviation (input) KEY_HOME :: u32 where "KEY_HOME \<equiv> 122"
abbreviation (input) KEY_PRTSC :: u32 where "KEY_PRTSC \<equiv> 123"
abbreviation (input) KEY_PAUSE :: u32 where "KEY_PAUSE \<equiv> 124"
abbreviation (input) KEY_RSHIFT :: u32 where "KEY_RSHIFT \<equiv> 125"

definition KB_SHIFT_FLAG :: u32 where "KB_SHIFT_FLAG = push_bit 21 1"
definition KB_CTRL_FLAG :: u32 where "KB_CTRL_FLAG = push_bit 20 1"
definition KB_ALT_FLAG :: u32 where "KB_ALT_FLAG = push_bit 19 1"
definition KB_ALTGR_FLAG :: u32 where "KB_ALTGR_FLAG = push_bit 18 1"
definition KB_GUI_FLAG :: u32 where "KB_GUI_FLAG = push_bit 17 1"
definition KB_RELEASE_FLAG :: u32 where "KB_RELEASE_FLAG = push_bit 31 1"
definition COMMAND_QUEUE_CAP :: u32 where "COMMAND_QUEUE_CAP = 15"

record kb_keysym_t =
  ks_ascii :: u8
  ks_flags :: u8
  ks_keysym :: u16

definition scancode_table :: "u32 list" where
  "scancode_table =
     [0, KEY_F9, 0, KEY_F5, KEY_F3, KEY_F1, KEY_F2, KEY_F12, 0,
      KEY_F10, KEY_F8, KEY_F6, KEY_F4, KEY_TAB, KEY_TILDE, 0, 0,
      KEY_LALT, KEY_LSHIFT, 0, KEY_LCTRL, KEY_Q, KEY_1, 0, 0, 0,
      KEY_Z, KEY_S, KEY_A, KEY_W, KEY_2, 0, 0, KEY_C, KEY_X,
      KEY_D, KEY_E, KEY_4, KEY_3, 0, 0, KEY_SPACE, KEY_V, KEY_F,
      KEY_T, KEY_R, KEY_5, 0, 0, KEY_N, KEY_B, KEY_H, KEY_G,
      KEY_Y, KEY_6, 0, 0, 0, KEY_M, KEY_J, KEY_U, KEY_7, KEY_8,
      0, 0, KEY_COMMA, KEY_K, KEY_I, KEY_O, KEY_0, KEY_9, 0,
      0, KEY_PERIOD, KEY_SLASH, KEY_L, KEY_SEMICOLON, KEY_P,
      KEY_DASH, 0, 0, 0, KEY_APOS, 0, KEY_LSBRACKET, KEY_EQUAL,
      0, 0, KEY_CAPSLOCK, KEY_RSHIFT, KEY_ENTER, KEY_RSBRACKET,
      0, KEY_BACKSLASH, 0, 0, 0, 0, 0, 0, 0, 0, KEY_BACKSPACE,
      0, 0, KEY_NUMPAD1, 0, KEY_NUMPAD4, KEY_NUMPAD7, 0, 0, 0,
      KEY_NUMPAD0, KEY_NUMPAD_PERIOD, KEY_NUMPAD2, KEY_NUMPAD5,
      KEY_NUMPAD6, KEY_NUMPAD8, KEY_ESCAPE, KEY_NUMLOCK, KEY_F11,
      KEY_NUMPAD_PLUS, KEY_NUMPAD3, KEY_NUMPAD_DASH,
      KEY_NUMPAD_STAR, KEY_NUMPAD9, KEY_SCROLLLOCK, 0, 0, 0, 0,
      KEY_F7]"

definition alt_scancode_table :: "u32 list" where
  "alt_scancode_table =
     [KEY_SEARCH, KEY_RALT, 0, 0, KEY_RCTRL, KEY_PREVTRACK, 0, 0,
      KEY_FAV, 0, 0, 0, 0, 0, 0, KEY_LGUI, KEY_REFRESH, KEY_DVOL,
      0, KEY_MUTE, 0, 0, 0, KEY_RGUI, KEY_WSTOP, 0, 0, KEY_CALC,
      0, 0, 0, KEY_APPS, KEY_WFORWARD, 0, KEY_UVOL, 0, KEY_PLAY,
      0, 0, KEY_POWER, KEY_WBACK, 0, KEY_WHOME, KEY_STOP, 0, 0, 0,
      KEY_SLEEP, KEY_MYPC, 0, 0, 0, 0, 0, 0, 0, KEY_EMAIL, 0,
      KEY_NUMPAD_SLASH, 0, 0, KEY_NEXTTRACK, 0, 0, KEY_MEDIA, 0,
      0, 0, 0, 0, 0, 0, 0, 0, KEY_NUMPAD_ENTER, 0, 0, 0, KEY_WAKE,
      0, 0, 0, 0, 0, 0, 0, 0, 0, 0, KEY_END, 0, KEY_LEFT, KEY_HOME,
      0, 0, 0, KEY_INSERT, KEY_DEL, KEY_DOWN, 0, KEY_RIGHT, KEY_UP,
      0, 0, 0, 0, KEY_PDOWN, 0, 0, KEY_PUP]"

section \<open>Data\<close>

datatype kb_status = KB_AVAILABLE | CMD_ACKNOW | CMD_RESPONSE

record kb_flags_t =
  shift_flag :: u8
  ctrl_flag :: u8
  alt_flag :: u8
  altgr_flag :: u8
  gui_flag :: u8
  fn_flag :: u8

record keyboard =
  command_queue :: queue_t
  status :: kb_status
  kb_flags :: kb_flags_t
  repetition :: u8
  keycodes :: "u8 list"
  len :: u32
  hold :: int
  kb_sent :: "u8 list"
  kb_typed :: "kb_keysym_t list"

section \<open>Commands\<close>

definition keyboard_send_cmd :: "keyboard \<Rightarrow> u8 \<Rightarrow> keyboard" where
  "keyboard_send_cmd k command = k\<lparr>status := CMD_ACKNOW, kb_sent := kb_sent k @ [command]\<rparr>"

definition keyboard_send_next :: "keyboard \<Rightarrow> keyboard res" where
  "keyboard_send_next k =
     (if status k = KB_AVAILABLE \<and> 0 < q_size (command_queue k) then
        rbind (queue_top (command_queue k)) (\<lambda>next_command.
          Inr (keyboard_send_cmd k (ucast next_command)))
      else Inr k)"

definition keyboard_queuecommand :: "keyboard \<Rightarrow> u8 \<Rightarrow> keyboard res" where
  "keyboard_queuecommand k command =
     rbind (queue_push (command_queue k) (ucast command)) (\<lambda>(_, q).
       let k1 = k\<lparr>command_queue := q\<rparr> in
       Inr (if q_size q = 1 then keyboard_send_cmd k1 command else k1))"

definition keyboard_handlequeue :: "keyboard \<Rightarrow> u8 \<Rightarrow> keyboard res" where
  "keyboard_handlequeue k response =
     rbind (if response = 0xFA then
              rbind (queue_top (command_queue k)) (\<lambda>top.
                let command = ucast top :: u8 in
                Inr (k\<lparr>command_queue := queue_pop (command_queue k), repetition := 0,
                        status := (if command = 0xFF then CMD_RESPONSE else KB_AVAILABLE)\<rparr>))
            else if response = 0xFE then
              let k1 = k\<lparr>repetition := repetition k + 1\<rparr>;
                  k2 = (if 3 < repetition k1
                        then k1\<lparr>command_queue := queue_pop (command_queue k1), repetition := 0\<rparr> else k1) in
              Inr (k2\<lparr>status := KB_AVAILABLE\<rparr>)
            else Inr k) (\<lambda>k3.
       if status k3 = KB_AVAILABLE then keyboard_send_next k3 else Inr k3)"

text \<open>The responses differ in the message that is printed only.\<close>

definition keyboard_handleresponse :: "keyboard \<Rightarrow> u8 \<Rightarrow> keyboard res" where
  "keyboard_handleresponse k response = keyboard_send_next (k\<lparr>status := KB_AVAILABLE\<rparr>)"

section \<open>Scan codes\<close>

definition array_geti :: "'a list \<Rightarrow> int \<Rightarrow> 'a res" where
  "array_geti xs i = (if i < 0 then Inl BadAccess else array_get xs (nat i))"

definition keyboard_scancode_to_keycode :: "keyboard \<Rightarrow> (u32 \<times> keyboard) res" where
  "keyboard_scancode_to_keycode k =
     (let c = (\<lambda>i. keycodes k ! i) in
      rbind (if len k = 1 then array_get scancode_table (unat (c 0))
             else if len k = 2 then
               (if c 0 = 0xE0 then array_geti alt_scancode_table (uint (c 1) - 0x10)
                else if c 0 = 0xF0 then
                  rbind (array_get scancode_table (unat (c 1))) (\<lambda>r. Inr (r OR KB_RELEASE_FLAG))
                else Inr 0)
             else if len k = 3 then
               (if c 0 = 0xE0 \<and> c 1 = 0xF0 then
                  rbind (array_geti alt_scancode_table (uint (c 2) - 0x10)) (\<lambda>r. Inr (r OR KB_RELEASE_FLAG))
                else Inr 0)
             else if len k = 4 then
               Inr (if memcmp (keycodes k) [0xE0, 0x12, 0xE0, 0x7C] 4 = Inr 0 then KEY_PRTSC else 0)
             else if len k = 6 then
               Inr (if memcmp (keycodes k) [0xE0, 0xF0, 0x7C, 0xE0, 0xF0, 0x12] 6 = Inr 0
                    then KEY_PRTSC OR KB_RELEASE_FLAG else 0)
             else if len k = 8 then
               Inr (if memcmp (keycodes k) [0xE1, 0x14, 0x77, 0xE1, 0xF0, 0x14, 0xF0, 0x77] 8 = Inr 0
                    then KEY_PAUSE else 0)
             else Inr 0) (\<lambda>ret.
        Inr (ret, k\<lparr>len := 0\<rparr>)))"

definition keyboard_handle_shift :: "keyboard \<Rightarrow> int \<Rightarrow> keyboard" where
  "keyboard_handle_shift k is_release =
     (if hold k = is_release
      then k\<lparr>kb_flags := (kb_flags k)\<lparr>shift_flag := 1 - shift_flag (kb_flags k)\<rparr>, hold := 1 - hold k\<rparr>
      else k)"

text \<open>The calls of \<open>stdin_send_code\<close>, which hand a symbol to the input task, are recorded; \<open>Stdio\<close> models that function.\<close>

definition kb_send_code :: "keyboard \<Rightarrow> kb_keysym_t \<Rightarrow> keyboard" where
  "kb_send_code k keysym = k\<lparr>kb_typed := kb_typed k @ [keysym]\<rparr>"

definition keyboard_handle_keycode :: "keyboard \<Rightarrow> u32 \<Rightarrow> keyboard" where
  "keyboard_handle_keycode k code =
     (let is_release = uint (drop_bit 31 code);
          flagless_code = code AND NOT KB_RELEASE_FLAG;
          f = kb_flags k;
          down = (if is_release \<noteq> 0 then 0 else 1) in
      if flagless_code = KEY_LSHIFT \<or> flagless_code = KEY_RSHIFT then keyboard_handle_shift k is_release
      else if flagless_code = KEY_CAPSLOCK then
        (if is_release = 0 then k\<lparr>kb_flags := f\<lparr>shift_flag := 1 - shift_flag f\<rparr>\<rparr> else k)
      else if flagless_code = KEY_LCTRL \<or> flagless_code = KEY_RCTRL then k\<lparr>kb_flags := f\<lparr>ctrl_flag := down\<rparr>\<rparr>
      else if flagless_code = KEY_LALT then k\<lparr>kb_flags := f\<lparr>alt_flag := down\<rparr>\<rparr>
      else if flagless_code = KEY_RALT then k\<lparr>kb_flags := f\<lparr>altgr_flag := down\<rparr>\<rparr>
      else if flagless_code = KEY_LGUI then k\<lparr>kb_flags := f\<lparr>gui_flag := down\<rparr>\<rparr>
      else if is_release \<noteq> 0 then k
      else
        let c1 = (if shift_flag f \<noteq> 0 then flagless_code OR KB_SHIFT_FLAG else flagless_code);
            c2 = (if ctrl_flag f \<noteq> 0 then c1 OR KB_CTRL_FLAG else c1);
            c3 = (if alt_flag f \<noteq> 0 then c2 OR KB_ALT_FLAG else c2);
            c4 = (if altgr_flag f \<noteq> 0 then c3 OR KB_ALTGR_FLAG else c3);
            c5 = (if gui_flag f \<noteq> 0 then c4 OR KB_GUI_FLAG else c4) in
        kb_send_code k \<lparr>ks_ascii = 0, ks_flags = ucast (drop_bit 16 c5 AND 0xFF), ks_keysym = ucast (c5 AND 0xFFFF)\<rparr>)"

definition keyboard_scancode :: "keyboard \<Rightarrow> u8 \<Rightarrow> keyboard res" where
  "keyboard_scancode k0 code =
     rbind (array_set (keycodes k0) (unat (len k0)) code) (\<lambda>kc.
       let k = k0\<lparr>keycodes := kc, len := len k0 + 1\<rparr>; c = (\<lambda>i. keycodes k ! i) in
       if code = 0xE0 \<or> code = 0xF0 \<or> code = 0xE1 then Inr k
       else if code = 0x14 \<and> (len k = 2 \<and> c 0 = 0xE1 \<or> len k = 6 \<and> c 4 = 0xF0) then Inr k
       else if code = 0x77 \<and> len k = 3 \<and> c 1 = 0x14 then Inr k
       else if code = 0x12 \<and> len k = 2 \<and> c 0 = 0xE0 then Inr k
       else if code = 0x7C \<and> len k = 3 \<and> c 0 = 0xE0 \<and> c 1 = 0xF0 then Inr k
       else rbind (keyboard_scancode_to_keycode k) (\<lambda>(keycode, k1). Inr (keyboard_handle_keycode k1 keycode)))"

text \<open>\<open>byte\<close> is what the interrupt handler reads from the data port.\<close>

definition keyboard_handlecode :: "keyboard \<Rightarrow> u8 \<Rightarrow> keyboard res" where
  "keyboard_handlecode k byte =
     (case status k of
        CMD_RESPONSE \<Rightarrow> keyboard_handleresponse k byte
      | CMD_ACKNOW \<Rightarrow> keyboard_handlequeue k byte
      | KB_AVAILABLE \<Rightarrow> keyboard_scancode k byte)"

fun keyboard_handlecodes :: "keyboard \<Rightarrow> u8 list \<Rightarrow> keyboard res" where
  "keyboard_handlecodes k [] = Inr k"
| "keyboard_handlecodes k (b # bs) = rbind (keyboard_handlecode k b) (\<lambda>k'. keyboard_handlecodes k' bs)"

text \<open>The state before \<open>keyboard_init\<close> and the commands it queues; \<open>buf\<close> is the queue's fresh block.\<close>

definition keyboard_start :: "ptr list \<Rightarrow> keyboard" where
  "keyboard_start buf = \<lparr>command_queue = queue_init buf COMMAND_QUEUE_CAP, status = KB_AVAILABLE,
     kb_flags = \<lparr>shift_flag = 0, ctrl_flag = 0, alt_flag = 0, altgr_flag = 0, gui_flag = 0, fn_flag = 0\<rparr>,
     repetition = 0, keycodes = replicate 8 0, len = 0, hold = 0, kb_sent = [], kb_typed = []\<rparr>"

definition keyboard_init :: "ptr list \<Rightarrow> keyboard res" where
  "keyboard_init buf =
     foldl (\<lambda>r c. rbind r (\<lambda>k. keyboard_queuecommand k c)) (Inr (keyboard_start buf))
       [0xFF, 0xED, 0x0, 0xF0, 0x2, 0xF4]"

section \<open>The command queue\<close>

lemma queue_size_pos: "0 < q_size q \<longleftrightarrow> queue_list q \<noteq> []"
  by (auto simp: queue_list_def word_gt_0 unat_gt_0 ring_list_def)

lemma keyboard_send_next_list:
  assumes "queue_inv (command_queue k)" "status k = KB_AVAILABLE"
  shows "keyboard_send_next k = Inr (case queue_list (command_queue k) of
      [] \<Rightarrow> k | c # _ \<Rightarrow> k\<lparr>status := CMD_ACKNOW, kb_sent := kb_sent k @ [ucast c]\<rparr>)"
  using assms rq.top_hd [OF assms(1)]
  by (auto simp: keyboard_send_next_def queue_size_pos keyboard_send_cmd_def split: list.splits)

text \<open>Fact [keyboard_acknowledge]: while a command waits for its acknowledgement, the acknowledgement takes
  exactly that command, the oldest, from the queue and sends the next one, if there is one, unless
  the command was a reset, whose response is awaited first; a request to send again sends the same
  command once more, up to three times, and the fourth request drops it; any other byte changes
  nothing.\<close>

theorem keyboard_acknowledge:
  assumes inv: "queue_inv (command_queue k)" and st: "status k = CMD_ACKNOW"
    and q: "queue_list (command_queue k) = c # cs" and rep: "repetition k \<le> 3"
  shows "\<exists>k'. keyboard_handlecode k b = Inr k' \<and> queue_inv (command_queue k') \<and> repetition k' \<le> 3 \<and>
    (if b = 0xFA then
       queue_list (command_queue k') = cs \<and>
       (if (ucast c :: u8) = 0xFF then status k' = CMD_RESPONSE \<and> kb_sent k' = kb_sent k
        else if cs = [] then status k' = KB_AVAILABLE \<and> kb_sent k' = kb_sent k
        else status k' = CMD_ACKNOW \<and> kb_sent k' = kb_sent k @ [ucast (hd cs)])
     else if b = 0xFE \<and> repetition k < 3 then
       queue_list (command_queue k') = c # cs \<and> status k' = CMD_ACKNOW \<and> kb_sent k' = kb_sent k @ [ucast c]
     else if b = 0xFE then
       queue_list (command_queue k') = cs \<and>
       (if cs = [] then status k' = KB_AVAILABLE \<and> kb_sent k' = kb_sent k
        else status k' = CMD_ACKNOW \<and> kb_sent k' = kb_sent k @ [ucast (hd cs)])
     else k' = k)"
proof -
  let ?q = "command_queue k"
  have pop: "queue_inv (queue_pop ?q)" "queue_list (queue_pop ?q) = cs"
    using rq.pop_invar [OF inv] rq.pop_list [OF inv] q by simp_all
  have top: "queue_top ?q = Inr c"
    using rq.top_hd [OF inv] q by simp
  consider "b = 0xFA" | "b = 0xFE" "repetition k < 3" | "b = 0xFE" "repetition k = 3" | "b \<noteq> 0xFA" "b \<noteq> 0xFE"
    using rep by (auto simp: less_le)
  then show ?thesis
  proof cases
    case 1
    let ?k = "k\<lparr>command_queue := queue_pop ?q, repetition := 0, status := KB_AVAILABLE\<rparr>"
    have "keyboard_send_next ?k = Inr (case cs of [] \<Rightarrow> ?k | c # _ \<Rightarrow> ?k\<lparr>status := CMD_ACKNOW, kb_sent := kb_sent k @ [ucast c]\<rparr>)"
      using keyboard_send_next_list [of ?k] pop by (simp split: list.splits)
    then show ?thesis
      using 1 st top pop by (auto simp: keyboard_handlecode_def keyboard_handlequeue_def Let_def split: list.splits)
  next
    case 2
    let ?k = "k\<lparr>repetition := repetition k + 1, status := KB_AVAILABLE\<rparr>"
    have le: "repetition k + 1 \<le> 3"
      using 2(2) by (rule inc_le)
    have "keyboard_send_next ?k = Inr (?k\<lparr>status := CMD_ACKNOW, kb_sent := kb_sent k @ [ucast c]\<rparr>)"
      using keyboard_send_next_list [of ?k] inv q by simp
    then show ?thesis
      using 2 st le leD [OF le] inv q by (simp add: keyboard_handlecode_def keyboard_handlequeue_def Let_def)
  next
    case 3
    let ?k = "k\<lparr>command_queue := queue_pop ?q, repetition := 0, status := KB_AVAILABLE\<rparr>"
    have "keyboard_send_next ?k = Inr (case cs of [] \<Rightarrow> ?k | c # _ \<Rightarrow> ?k\<lparr>status := CMD_ACKNOW, kb_sent := kb_sent k @ [ucast c]\<rparr>)"
      using keyboard_send_next_list [of ?k] pop by (simp split: list.splits)
    then show ?thesis
      using 3 st pop by (auto simp: keyboard_handlecode_def keyboard_handlequeue_def Let_def split: list.splits)
  next
    case 4
    then show ?thesis
      using st inv rep by (simp add: keyboard_handlecode_def keyboard_handlequeue_def)
  qed
qed

text \<open>The state after queueing a first command.\<close>

lemma keyboard_queue_first:
  "\<exists>k. keyboard_queuecommand (keyboard_start (replicate 15 0)) 0xED = Inr k \<and> queue_inv (command_queue k) \<and>
     status k = CMD_ACKNOW \<and> queue_list (command_queue k) = [0xED] \<and> repetition k = 0"
proof -
  have inv: "queue_inv (queue_init (replicate 15 0) COMMAND_QUEUE_CAP)"
    by (rule queue_init_inv) (simp_all add: COMMAND_QUEUE_CAP_def)
  have "length (queue_list (queue_init (replicate 15 0) COMMAND_QUEUE_CAP)) <
      unat (q_capacity (queue_init (replicate 15 0) COMMAND_QUEUE_CAP))"
    by (simp add: queue_init_def queue_list_def COMMAND_QUEUE_CAP_def)
  from rq.push_room [OF inv this, of "0xED"] obtain q where
    q: "queue_push (queue_init (replicate 15 0) COMMAND_QUEUE_CAP) 0xED = Inr (0, q)" "queue_inv q"
      "queue_list q = queue_list (queue_init (replicate 15 0) COMMAND_QUEUE_CAP) @ [0xED]"
    by blast
  then have "queue_list q = [0xED]"
    by (simp add: queue_init_def queue_list_def)
  then have "length (queue_list q) = 1"
    by simp
  then have "q_size q = 1"
    by (simp add: queue_list_def unat_u32_eq_iff)
  then show ?thesis
    using q \<open>queue_list q = [0xED]\<close>
    by (simp add: keyboard_queuecommand_def keyboard_start_def keyboard_send_cmd_def Let_def)
qed

theorem keyboard_acknowledge_witness:
  "\<exists>k k'. keyboard_queuecommand (keyboard_start (replicate 15 0)) 0xED = Inr k \<and> keyboard_handlecode k 0xFA = Inr k' \<and>
     queue_list (command_queue k') = [] \<and> status k' = KB_AVAILABLE"
proof -
  obtain k where k: "keyboard_queuecommand (keyboard_start (replicate 15 0)) 0xED = Inr k" "queue_inv (command_queue k)"
     "status k = CMD_ACKNOW" "queue_list (command_queue k) = [0xED]" "repetition k = 0"
    using keyboard_queue_first by blast
  from keyboard_acknowledge [OF k(2,3,4), of "0xFA"] k show ?thesis
    by auto
qed

text \<open>Fact [keyboard_init_sequence]: the six start-up commands are sent in their order, each after the
  acknowledgement of the one before and the second after the reset's response.\<close>

theorem keyboard_init_sequence:
  "rbind (keyboard_init (replicate 15 0)) (\<lambda>k. rbind (keyboard_handlecodes k [0xFA, 0xAA, 0xFA, 0xFA, 0xFE, 0xFA, 0xFA, 0xFA])
     (\<lambda>k'. Inr (kb_sent k, kb_sent k', status k'))) =
   Inr ([0xFF], [0xFF, 0xED, 0x0, 0xF0, 0xF0, 0x2, 0xF4], KB_AVAILABLE)"
  by code_simp

section \<open>Keys\<close>

lemma length_tables: "length scancode_table = 0x84" "length alt_scancode_table = 0x6E"
  by (simp_all add: scancode_table_def alt_scancode_table_def)

text \<open>Fact [keyboard_make_break]: for every plain scan code up to 0x83 the key that a press reports is the
  entry of the table, and the release, the code after 0xF0, reports the same key with the release
  mark; both leave the automaton ready for the next code.\<close>

theorem keyboard_make_break:
  assumes "status k = KB_AVAILABLE" "len k = 0" "length (keycodes k) = 8" "c < 0x84"
  shows "\<exists>kc1 kc2. keyboard_handlecodes k [c] =
           Inr (keyboard_handle_keycode (k\<lparr>keycodes := kc1\<rparr>) (scancode_table ! unat c)) \<and>
         keyboard_handlecodes k [0xF0, c] =
           Inr (keyboard_handle_keycode (k\<lparr>keycodes := kc2\<rparr>) (scancode_table ! unat c OR KB_RELEASE_FLAG))"
proof -
  have c: "unat c < length scancode_table" "c \<noteq> 0xE0" "c \<noteq> 0xF0" "c \<noteq> 0xE1"
    using assms(4) by (auto simp: length_tables word_less_nat_alt)
  have l0: "k\<lparr>len := 0\<rparr> = k"
    using assms(2) by simp
  let ?kc1 = "(keycodes k)[0 := c]" and ?kc2 = "(keycodes k)[0 := 0xF0, 1 := c]"
  have "keyboard_handlecodes k [c] =
      Inr (keyboard_handle_keycode (k\<lparr>keycodes := ?kc1, len := 0\<rparr>) (scancode_table ! unat c))"
    using assms c by (simp add: keyboard_handlecode_def keyboard_scancode_def keyboard_scancode_to_keycode_def Let_def)
  moreover have "keyboard_handlecodes k [0xF0, c] =
      Inr (keyboard_handle_keycode (k\<lparr>keycodes := ?kc2, len := 0\<rparr>) (scancode_table ! unat c OR KB_RELEASE_FLAG))"
    using assms c by (simp add: keyboard_handlecode_def keyboard_scancode_def keyboard_scancode_to_keycode_def Let_def)
  moreover have "k\<lparr>keycodes := kc, len := 0\<rparr> = k\<lparr>keycodes := kc\<rparr>" for kc
    using assms(2) by (metis keyboard.surjective keyboard.update_convs(5,6))
  ultimately show ?thesis
    by auto
qed

theorem keyboard_make_break_witness:
  "\<exists>kc1. keyboard_handlecodes (keyboard_start []) [0x1C] =
     Inr (keyboard_handle_keycode ((keyboard_start [])\<lparr>keycodes := kc1\<rparr>) KEY_A)"
  using keyboard_make_break [of "keyboard_start []" "0x1C"]
  by (auto simp: keyboard_start_def scancode_table_def)

text \<open>Fact [keyboard_array_overruns]: a scan code from 0x84 on, other than the prefixes, is looked up outside the
  table, an extended code below 0x10 in front of its table, and a ninth prefix byte in a row is
  stored behind the eight bytes of the code buffer.\<close>

theorem keyboard_array_overruns:
  assumes "status k = KB_AVAILABLE" "len k = 0" "length (keycodes k) = 8"
    and "0x84 \<le> c" "c \<noteq> 0xE0" "c \<noteq> 0xF0" "c \<noteq> 0xE1" and "e < 0x10"
  shows "keyboard_handlecodes k [c] = Inl BadAccess \<and> keyboard_handlecodes k [0xE0, e] = Inl BadAccess \<and>
    keyboard_handlecodes k (replicate 9 0xE0) = Inl BadAccess"
proof (intro conjI)
  have c: "length scancode_table \<le> unat c" and ne: "c \<noteq> 0x14" "c \<noteq> 0x77" "c \<noteq> 0x12" "c \<noteq> 0x7C"
    using assms(4) by (auto simp: length_tables word_le_nat_alt)
  show "keyboard_handlecodes k [c] = Inl BadAccess"
    using assms(1-7) c by (simp add: keyboard_handlecode_def keyboard_scancode_def keyboard_scancode_to_keycode_def Let_def)
  have e: "e \<noteq> 0xE0" "e \<noteq> 0xF0" "e \<noteq> 0xE1" "e \<noteq> 0x14" "e \<noteq> 0x77" "e \<noteq> 0x12" "e \<noteq> 0x7C" "uint e < 0x10"
    using assms(8) by (auto simp: word_less_def)
  show "keyboard_handlecodes k [0xE0, e] = Inl BadAccess"
    using assms(1-3) e
    by (simp add: keyboard_handlecode_def keyboard_scancode_def keyboard_scancode_to_keycode_def array_geti_def Let_def)
  have "keyboard_handlecodes k [0xE0, 0xE0, 0xE0, 0xE0, 0xE0, 0xE0, 0xE0, 0xE0, 0xE0] = Inl BadAccess"
    using assms(1-3) by (simp add: keyboard_handlecode_def keyboard_scancode_def Let_def)
  then show "keyboard_handlecodes k (replicate 9 0xE0) = Inl BadAccess"
    by (simp add: numeral_eq_Suc)
qed

theorem keyboard_array_overruns_witness:
  "keyboard_handlecodes (keyboard_start []) [0x84] = Inl BadAccess"
  using keyboard_array_overruns [of "keyboard_start []" "0x84" 0] by (simp add: keyboard_start_def)

lemma keyboard_shift_press: "keyboard_handle_keycode k KEY_LSHIFT = keyboard_handle_shift k 0"
  by (simp add: keyboard_handle_keycode_def KB_RELEASE_FLAG_def Let_def)

lemma keyboard_shift_release: "keyboard_handle_keycode k (KEY_LSHIFT OR KB_RELEASE_FLAG) = keyboard_handle_shift k 1"
  by (simp add: keyboard_handle_keycode_def KB_RELEASE_FLAG_def Let_def)

text \<open>Fact [keyboard_shift_hold]: however often the keyboard repeats the press of a held shift key, the shift
  state is inverted once, and the release puts it back as it was, also when caps lock is on.\<close>

theorem keyboard_shift_hold:
  assumes "hold k = 0"
  shows "let k' = foldl keyboard_handle_keycode k (replicate (Suc n) KEY_LSHIFT) in
    shift_flag (kb_flags k') = 1 - shift_flag (kb_flags k) \<and>
    keyboard_handle_keycode k' (KEY_LSHIFT OR KB_RELEASE_FLAG) = k"
proof -
  let ?k = "k\<lparr>kb_flags := (kb_flags k)\<lparr>shift_flag := 1 - shift_flag (kb_flags k)\<rparr>, hold := 1\<rparr>"
  have first: "keyboard_handle_keycode k KEY_LSHIFT = ?k"
    using assms unfolding keyboard_shift_press by (simp add: keyboard_handle_shift_def)
  have again: "keyboard_handle_keycode ?k KEY_LSHIFT = ?k"
    unfolding keyboard_shift_press by (simp add: keyboard_handle_shift_def)
  have "foldl keyboard_handle_keycode ?k (replicate n KEY_LSHIFT) = ?k"
    by (induction n) (simp_all add: again)
  then have k': "foldl keyboard_handle_keycode k (replicate (Suc n) KEY_LSHIFT) = ?k"
    using first by simp
  have "k\<lparr>kb_flags := (kb_flags k)\<lparr>shift_flag := shift_flag (kb_flags k)\<rparr>, hold := 0\<rparr> = k"
    using assms by simp
  then have "keyboard_handle_keycode ?k (KEY_LSHIFT OR KB_RELEASE_FLAG) = k"
    unfolding keyboard_shift_release by (simp add: keyboard_handle_shift_def)
  then show ?thesis
    unfolding k' Let_def by simp
qed

theorem keyboard_shift_hold_witness:
  "keyboard_handle_keycode (foldl keyboard_handle_keycode (keyboard_start []) (replicate (Suc 2) KEY_LSHIFT))
     (KEY_LSHIFT OR KB_RELEASE_FLAG) = keyboard_start []"
  using keyboard_shift_hold [of "keyboard_start []" 2] by (simp add: keyboard_start_def Let_def)

end
