(* ===== verification/Ide.thy ===== *)
theory Ide
  imports Task
begin

text \<open>
  The IDE disk driver of \<open>src/kernel/drivers/ide.c\<close> and the PCI scan of \<open>src/kernel/drivers/pci.c\<close>
  that finds its controller.  What the driver sends to the ports is a log of port numbers and
  values; what it reads from the device's byte ports is the list \<open>ide_inputs\<close>, taken in order (a
  device that stops answering makes a polling loop hang), the 1024 bytes of the data port after an
  identify command are \<open>ide_ident\<close>, and the configuration space of PCI is a function from
  configuration addresses to words.  The table of physical region descriptors and the transfer
  buffers have the sizes \<open>boot.S\<close> reserves: 128 entries and 4 buffers of 1 KiB.

  Shown here: for which sizes the descriptor table is filled and with what, that the registers a
  transfer programs name the requested sector, and where they do not; which devices the identify
  data describes; what the PCI scan reads.
\<close>

section \<open>Data\<close>

record ide_channel_t =
  ch_addr :: u32
  ch_ctrl_addr :: u32
  ch_bus_master_addr :: u32

record ide_device_t =
  id_present :: u8
  id_channel :: u8
  id_drive :: u8
  id_type :: u8
  id_signature :: u16
  id_capabilities :: u16
  id_commmand_set :: u32
  id_size :: u32
  id_model :: "u8 list"

record prd_entry_t =
  phys_addr :: u32
  byte_count :: u16
  reserved :: u16

record disk_request_t =
  dr_device :: nat
  dr_task :: ptr

text \<open>\<open>ide_mem_addr\<close> and \<open>prd_addr\<close> are the addresses of the transfer buffers and of the table.\<close>

record ide =
  channels :: "ide_channel_t list"
  ide_devices :: "ide_device_t list"
  prd_table :: "prd_entry_t list"
  prd_addr :: ptr
  ide_mem_buffer :: "u8 list list"
  ide_mem_addr :: ptr
  actual_disk_req :: disk_request_t
  is_ide_set :: bool
  ide_buffer :: "u8 list"
  ide_ident :: "u8 list"
  ide_inputs :: "u8 list"
  ide_log :: "(u16 \<times> u32) list"
  ide_irqs :: "u32 list"
  ide_eois :: nat
  pci_cfg :: "u32 \<Rightarrow> u32"
  ide_sched :: sched

definition IDE_COMP_PORTS1 :: u32 where "IDE_COMP_PORTS1 = 0x1F0"
definition IDE_COMP_CTRL_PORTS1 :: u32 where "IDE_COMP_CTRL_PORTS1 = 0x3F6"
definition IDE_COMP_PORTS2 :: u32 where "IDE_COMP_PORTS2 = 0x170"
definition IDE_COMP_CTRL_PORTS2 :: u32 where "IDE_COMP_CTRL_PORTS2 = 0x376"
definition IDE_PROG_NATMODE1 :: u32 where "IDE_PROG_NATMODE1 = 1"
definition IDE_PROG_NATMODE2 :: u32 where "IDE_PROG_NATMODE2 = 4"
definition IDE_PROG_DMA :: u32 where "IDE_PROG_DMA = 128"
definition IDE_ST_BUSY :: u8 where "IDE_ST_BUSY = 0x80"
definition IDE_ST_DATA_READY :: u8 where "IDE_ST_DATA_READY = 0x8"
definition IDE_ST_ERROR :: u8 where "IDE_ST_ERROR = 0x1"
definition IDE_CMD_READ_DMA :: u8 where "IDE_CMD_READ_DMA = 0xC8"
definition IDE_CMD_READ_DMA_EXT :: u8 where "IDE_CMD_READ_DMA_EXT = 0x25"
definition IDE_CMD_WRITE_DMA :: u8 where "IDE_CMD_WRITE_DMA = 0xCA"
definition IDE_CMD_WRITE_DMA_EXT :: u8 where "IDE_CMD_WRITE_DMA_EXT = 0x35"
definition IDE_CMD_IDENTIFY_PACKET :: u8 where "IDE_CMD_IDENTIFY_PACKET = 0xA1"
definition IDE_CMD_IDENTIFY :: u8 where "IDE_CMD_IDENTIFY = 0xEC"
definition IDE_REG_FEATURES :: u32 where "IDE_REG_FEATURES = 0x1"
definition IDE_REG_SECCOUNT0 :: u32 where "IDE_REG_SECCOUNT0 = 0x2"
definition IDE_REG_LBA0 :: u32 where "IDE_REG_LBA0 = 0x3"
definition IDE_REG_LBA1 :: u32 where "IDE_REG_LBA1 = 0x4"
definition IDE_REG_LBA2 :: u32 where "IDE_REG_LBA2 = 0x5"
definition IDE_REG_HDDEVSEL :: u32 where "IDE_REG_HDDEVSEL = 0x6"
definition IDE_REG_COMMAND :: u32 where "IDE_REG_COMMAND = 0x7"
definition IDE_REG_STATUS :: u32 where "IDE_REG_STATUS = 0x7"
definition IDE_REG_SECCOUNT1 :: u32 where "IDE_REG_SECCOUNT1 = 0x8"
definition IDE_REG_LBA3 :: u32 where "IDE_REG_LBA3 = 0x9"
definition IDE_REG_LBA4 :: u32 where "IDE_REG_LBA4 = 0xA"
definition IDE_REG_LBA5 :: u32 where "IDE_REG_LBA5 = 0xB"
definition IDE_REG_CONTROL :: u32 where "IDE_REG_CONTROL = 0xC"
definition IDE_REG_BUS_COM :: u32 where "IDE_REG_BUS_COM = 0xE"
definition IDE_REG_BUS_STAT :: u32 where "IDE_REG_BUS_STAT = 0x10"
definition IDE_IDENT_DTYPE :: nat where "IDE_IDENT_DTYPE = 0"
definition IDE_IDENT_MODEL :: nat where "IDE_IDENT_MODEL = 54"
definition IDE_IDENT_CAPAB :: nat where "IDE_IDENT_CAPAB = 98"
definition IDE_IDENT_MAX_LBA :: nat where "IDE_IDENT_MAX_LBA = 120"
definition IDE_IDENT_COMSETS :: nat where "IDE_IDENT_COMSETS = 164"
definition IDE_IDENT_MAX_LBA_EXT :: nat where "IDE_IDENT_MAX_LBA_EXT = 200"
definition IDE_PRIMARY :: u32 where "IDE_PRIMARY = 0"
definition IDE_SECONDARY :: u32 where "IDE_SECONDARY = 1"
definition IDE_ATA :: u8 where "IDE_ATA = 0"
definition IDE_ATAPI :: u8 where "IDE_ATAPI = 1"
definition CONFIG_ADDR :: u16 where "CONFIG_ADDR = 0xCF8"
definition CONFIG_DATA :: u16 where "CONFIG_DATA = 0xCFC"

lemmas ide_consts = IDE_REG_FEATURES_def IDE_REG_SECCOUNT0_def IDE_REG_LBA0_def IDE_REG_LBA1_def
  IDE_REG_LBA2_def IDE_REG_HDDEVSEL_def IDE_REG_COMMAND_def IDE_REG_STATUS_def IDE_REG_SECCOUNT1_def
  IDE_REG_LBA3_def IDE_REG_LBA4_def IDE_REG_LBA5_def IDE_REG_CONTROL_def IDE_REG_BUS_COM_def IDE_REG_BUS_STAT_def

section \<open>Ports\<close>

definition outx :: "ide \<Rightarrow> u16 \<Rightarrow> u32 \<Rightarrow> ide" where
  "outx s port v = s\<lparr>ide_log := ide_log s @ [(port, v)]\<rparr>"

definition pci_address :: "u32 \<Rightarrow> u32 \<Rightarrow> u32 \<Rightarrow> u32 \<Rightarrow> u32" where
  "pci_address bus device func offset =
     push_bit 16 bus OR push_bit 11 device OR push_bit 8 func OR (offset AND 0xFC) OR push_bit 31 1"

definition pci_write_reg :: "ide \<Rightarrow> u32 \<Rightarrow> u32 \<Rightarrow> u32 \<Rightarrow> u32 \<Rightarrow> u16 \<Rightarrow> ide" where
  "pci_write_reg s bus device func offset data =
     outx (outx s CONFIG_ADDR (pci_address bus device func offset)) CONFIG_DATA (ucast data)"

definition pci_read_reg :: "ide \<Rightarrow> u32 \<Rightarrow> u32 \<Rightarrow> u32 \<Rightarrow> u32 \<Rightarrow> u32 \<times> ide" where
  "pci_read_reg s bus device func offset =
     (let address = pci_address bus device func offset in
      (pci_cfg s address, outx s CONFIG_ADDR address))"

definition ide_set :: "ide \<Rightarrow> u32 \<Rightarrow> u32 \<Rightarrow> u32 \<Rightarrow> ide res" where
  "ide_set s bus device func =
     (let (r, s) = pci_read_reg s bus device func (push_bit 2 2);
          prog_if = drop_bit 8 r AND 0xFF;
          (bar0, s) = pci_read_reg s bus device func (push_bit 2 4);
          (bar1, s) = pci_read_reg s bus device func (push_bit 2 5);
          (bar2, s) = pci_read_reg s bus device func (push_bit 2 6);
          (bar3, s) = pci_read_reg s bus device func (push_bit 2 7);
          (bar4, s) = pci_read_reg s bus device func (push_bit 2 8);
          bar4 = (if bar4 AND 1 \<noteq> 0 then bar4 AND 0xFFFC else bar4 AND 0xFFF0);
          c0 = \<lparr>ch_addr = if prog_if AND IDE_PROG_NATMODE1 \<noteq> 0 then bar0 else IDE_COMP_PORTS1,
                ch_ctrl_addr = if prog_if AND IDE_PROG_NATMODE1 \<noteq> 0 then bar1 else IDE_COMP_CTRL_PORTS1,
                ch_bus_master_addr = if prog_if AND IDE_PROG_DMA \<noteq> 0 then bar4 else 0\<rparr>;
          c1 = \<lparr>ch_addr = if prog_if AND IDE_PROG_NATMODE2 \<noteq> 0 then bar2 else IDE_COMP_PORTS2,
                ch_ctrl_addr = if prog_if AND IDE_PROG_NATMODE2 \<noteq> 0 then bar3 else IDE_COMP_CTRL_PORTS2,
                ch_bus_master_addr = if prog_if AND IDE_PROG_DMA \<noteq> 0 then bar4 + 8 else 0\<rparr> in
      rbind (array_set (channels s) 0 c0) (\<lambda>cs.
      rbind (array_set cs 1 c1) (\<lambda>cs.
        Inr (s\<lparr>channels := cs, is_ide_set := True\<rparr>))))"

text \<open>The port of a register, which \<open>ide_write\<close>, \<open>ide_read\<close> and \<open>ide_read_buffer\<close> compute alike.\<close>

definition ide_port :: "ide \<Rightarrow> u32 \<Rightarrow> u32 \<Rightarrow> u16 res" where
  "ide_port s channel reg =
     rbind (array_get (channels s) (unat channel)) (\<lambda>c.
       let (reg, port) =
         (if reg \<ge> IDE_REG_BUS_COM then (reg - 0xE, ch_bus_master_addr c)
          else if reg \<le> IDE_REG_LBA5 then
            (if reg \<ge> IDE_REG_SECCOUNT1 then reg - 0x6 else reg, ch_addr c)
          else (reg - 0xC, ch_ctrl_addr c))
       in Inr (ucast (port + reg)))"

definition ide_write :: "ide \<Rightarrow> u32 \<Rightarrow> u32 \<Rightarrow> u8 \<Rightarrow> ide res" where
  "ide_write s channel reg data = rbind (ide_port s channel reg) (\<lambda>p. Inr (outx s p (ucast data)))"

definition ide_read :: "ide \<Rightarrow> u32 \<Rightarrow> u32 \<Rightarrow> (u8 \<times> ide) res" where
  "ide_read s channel reg =
     rbind (ide_port s channel reg) (\<lambda>_.
       case ide_inputs s of [] \<Rightarrow> Inl Hang | v # vs \<Rightarrow> Inr (v, s\<lparr>ide_inputs := vs\<rparr>))"

text \<open>\<open>count\<close> words of the data port, into the driver's buffer.\<close>

definition ide_read_buffer :: "ide \<Rightarrow> u32 \<Rightarrow> u32 \<Rightarrow> u32 \<Rightarrow> ide res" where
  "ide_read_buffer s channel reg count =
     rbind (ide_port s channel reg) (\<lambda>_.
       if 4 * unat count \<le> length (ide_buffer s)
       then Inr (s\<lparr>ide_buffer := take (4 * unat count) (ide_ident s) @ drop (4 * unat count) (ide_buffer s)\<rparr>)
       else Inl BadAccess)"

section \<open>Identification\<close>

text \<open>The status loop of \<open>ide_detect_drive\<close>: whether it ended with an error.\<close>

function ide_poll :: "ide \<Rightarrow> u32 \<Rightarrow> (bool \<times> ide) res" where
  "ide_poll s channel =
     rbind (ide_read s channel IDE_REG_STATUS) (\<lambda>(status, s).
       if status AND IDE_ST_ERROR \<noteq> 0 then Inr (True, s)
       else if status AND IDE_ST_BUSY = 0 \<and> status AND IDE_ST_DATA_READY \<noteq> 0 then Inr (False, s)
       else ide_poll s channel)"
  by pat_completeness auto
termination
  by (relation "measure (\<lambda>(s, _). length (ide_inputs s))")
    (auto simp: ide_read_def rbind_eq_Inr split: list.splits)

text \<open>\<open>while (~ide_read(channel, IDE_REG_STATUS) & (1 << 6));\<close>\<close>

function ide_wait_ready :: "ide \<Rightarrow> u32 \<Rightarrow> ide res" where
  "ide_wait_ready s channel =
     rbind (ide_read s channel IDE_REG_STATUS) (\<lambda>(status, s).
       if NOT status AND 0x40 \<noteq> 0 then ide_wait_ready s channel else Inr s)"
  by pat_completeness auto
termination
  by (relation "measure (\<lambda>(s, _). length (ide_inputs s))")
    (auto simp: ide_read_def rbind_eq_Inr split: list.splits)

declare ide_poll.simps [simp del] ide_wait_ready.simps [simp del]

definition buf16 :: "u8 list \<Rightarrow> nat \<Rightarrow> u16" where
  "buf16 b i = ucast (b ! i) OR push_bit 8 (ucast (b ! (i + 1)))"

definition buf32 :: "u8 list \<Rightarrow> nat \<Rightarrow> u32" where
  "buf32 b i = ucast (buf16 b i) OR push_bit 16 (ucast (buf16 b (i + 2)))"

definition ide_model :: "u8 list \<Rightarrow> u8 list" where
  "ide_model b = concat (map (\<lambda>i. [b ! (IDE_IDENT_MODEL + 2 * i + 1), b ! (IDE_IDENT_MODEL + 2 * i)]) [0..<20]) @ [0]"

definition ide_detect_drive :: "ide \<Rightarrow> u32 \<Rightarrow> u32 \<Rightarrow> ide res" where
  "ide_detect_drive s channel drive =
     (let index = unat (channel * 2 + drive) in
      rbind (array_get (ide_devices s) index) (\<lambda>d.
      let s = s\<lparr>ide_devices := (ide_devices s)[index := d\<lparr>id_present := 0\<rparr>]\<rparr> in
      rbind (ide_write s channel IDE_REG_HDDEVSEL (ucast (0xA0 OR push_bit 4 drive))) (\<lambda>s.
      rbind (ide_write s channel IDE_REG_COMMAND IDE_CMD_IDENTIFY) (\<lambda>s.
      rbind (ide_read s channel IDE_REG_STATUS) (\<lambda>(st, s).
      if st = 0 then Inr s
      else
      rbind (ide_poll s channel) (\<lambda>(error, s).
      rbind
        (if error then
           rbind (ide_read s channel IDE_REG_LBA1) (\<lambda>(cl, s).
           rbind (ide_read s channel IDE_REG_LBA2) (\<lambda>(ch, s).
             if (cl = 0x14 \<and> ch = 0xEB) \<or> (cl = 0x69 \<and> ch = 0x96) then
               rbind (ide_write s channel IDE_REG_COMMAND IDE_CMD_IDENTIFY_PACKET) (\<lambda>s. Inr (Some IDE_ATAPI, s))
             else Inr (None, s)))
         else Inr (Some IDE_ATA, s)) (\<lambda>(type, s).
      case type of
        None \<Rightarrow> Inr s
      | Some ty \<Rightarrow>
          rbind (ide_read_buffer s channel 0 256) (\<lambda>s.
          let b = ide_buffer s in
          rbind (ide_write s channel IDE_REG_COMMAND IDE_CMD_IDENTIFY) (\<lambda>s.
          let cmd = buf32 b IDE_IDENT_COMSETS;
              addressing_type = (ucast (cmd AND push_bit 26 1) :: u8);
              info_index = (if addressing_type \<noteq> 0 then IDE_IDENT_MAX_LBA_EXT else IDE_IDENT_MAX_LBA);
              dev = \<lparr>id_present = 1, id_channel = ucast channel, id_drive = ucast drive, id_type = ty,
                     id_signature = buf16 b IDE_IDENT_DTYPE, id_capabilities = buf16 b IDE_IDENT_CAPAB,
                     id_commmand_set = cmd, id_size = buf32 b info_index, id_model = ide_model b\<rparr> in
          Inr (s\<lparr>ide_devices := (ide_devices s)[index := dev]\<rparr>))))))))))"

section \<open>Transfers\<close>

definition KIB :: "u32 \<Rightarrow> u32" where "KIB x = 1024 * x"

definition VIR2PHY :: "ptr \<Rightarrow> ptr" where "VIR2PHY a = a - 0xC0000000"

definition ide_set_prdt :: "ide \<Rightarrow> u32 \<Rightarrow> ptr \<Rightarrow> ide res" where
  "ide_set_prdt s channel prdt_addr =
     rbind (array_get (channels s) (unat channel)) (\<lambda>c.
       Inr (outx s (ucast (ch_bus_master_addr c + 0x4)) prdt_addr))"

definition ide_set_prd_entry :: "ide \<Rightarrow> u32 \<Rightarrow> u32 \<Rightarrow> ide res" where
  "ide_set_prd_entry s prdt_entry size' =
     rbind (array_set (prd_table s) (unat prdt_entry)
        \<lparr>phys_addr = VIR2PHY (ide_mem_addr s + prdt_entry * KIB 1),
         byte_count = (if size' = KIB 64 then 0 else ucast size'), reserved = 0\<rparr>) (\<lambda>t.
       Inr (s\<lparr>prd_table := t\<rparr>))"

text \<open>\<open>memcpy\<close> of a piece of the caller's buffer into a transfer buffer.\<close>

definition ide_copy_in :: "ide \<Rightarrow> u32 \<Rightarrow> u8 list \<Rightarrow> u32 \<Rightarrow> u32 \<Rightarrow> ide res" where
  "ide_copy_in s count buffer start prd_size =
     (if unat start + unat prd_size \<le> length buffer then
        rbind (array_get (ide_mem_buffer s) (unat count)) (\<lambda>b.
          Inr (s\<lparr>ide_mem_buffer := (ide_mem_buffer s)[unat count :=
                 take (unat prd_size) (drop (unat start) buffer) @ drop (unat prd_size) b]\<rparr>))
      else Inl BadAccess)"

text \<open>The loop of \<open>ide_fill_prd_table\<close>.  It fills an entry of the table in every round, so one round
  more than the table has entries is enough fuel.\<close>

fun ide_prd_loop :: "nat \<Rightarrow> ide \<Rightarrow> u8 list \<Rightarrow> u32 \<Rightarrow> bool \<Rightarrow> u32 \<Rightarrow> u32 \<Rightarrow> (u32 \<times> ide) res" where
  "ide_prd_loop 0 s buffer size' is_write count start = Inl Hang"
| "ide_prd_loop (Suc k) s buffer size' is_write count start =
     (if size' - start = 0 then Inr (count, s)
      else
        let prd_size = (if size' > KIB 1 then KIB 1 else size') in
        rbind (ide_set_prd_entry s count prd_size) (\<lambda>s.
        rbind (if is_write then ide_copy_in s count buffer start prd_size else Inr s) (\<lambda>s.
          ide_prd_loop k s buffer size' is_write (count + 1) (start + prd_size))))"

definition ide_fill_prd_table :: "ide \<Rightarrow> ide_device_t \<Rightarrow> u8 list \<Rightarrow> u32 \<Rightarrow> bool \<Rightarrow> ide res" where
  "ide_fill_prd_table s device buffer size' is_write =
     (let ch = ucast (id_channel device) in
      rbind (ide_set_prdt s ch (VIR2PHY (prd_addr s))) (\<lambda>s.
      rbind (ide_prd_loop (Suc (length (prd_table s))) s buffer size' is_write 0 0) (\<lambda>(count, s).
      rbind (array_get (prd_table s) (unat (count - 1))) (\<lambda>e.
      let s = s\<lparr>prd_table := (prd_table s)[unat (count - 1) := e\<lparr>reserved := reserved e OR push_bit 15 1\<rparr>]\<rparr> in
      rbind (ide_write s ch IDE_REG_BUS_COM (if is_write then 8 else 0)) (\<lambda>s.
        ide_write s ch IDE_REG_BUS_COM 1)))))"

definition ide_read_disk_buffer :: "ide \<Rightarrow> u32 \<Rightarrow> u32 \<Rightarrow> u8 list res" where
  "ide_read_disk_buffer s offset size' =
     (let m = concat (ide_mem_buffer s) in
      if unat offset + unat size' \<le> length m then Inr (take (unat size') (drop (unat offset) m)) else Inl BadAccess)"

definition ide_set_device :: "ide \<Rightarrow> ide_device_t \<Rightarrow> u32 \<Rightarrow> u32 \<Rightarrow> ide res" where
  "ide_set_device s device lba sectors =
     (let head = (if lba > 0x10000000 then 0 else ucast (drop_bit 24 lba AND 0xF) :: u8);
          ch = ucast (id_channel device) in
      rbind (ide_write s ch IDE_REG_HDDEVSEL (0xE0 OR push_bit 4 (id_drive device) OR head)) (\<lambda>s.
      rbind (ide_write s ch IDE_REG_FEATURES 0) (\<lambda>s.
      rbind (ide_wait_ready s ch) (\<lambda>s.
      rbind (ide_write s ch IDE_REG_SECCOUNT1 0) (\<lambda>s.
      rbind (if lba > 0x10000000
             then ide_write s ch IDE_REG_LBA3 (if drop_bit 24 lba \<noteq> 0 \<and> (0xFF :: u32) \<noteq> 0 then 1 else 0)
             else ide_write s ch IDE_REG_LBA3 0) (\<lambda>s.
      rbind (ide_write s ch IDE_REG_LBA4 0) (\<lambda>s.
      rbind (ide_write s ch IDE_REG_LBA5 0) (\<lambda>s.
      rbind (ide_write s ch IDE_REG_SECCOUNT0 (ucast sectors)) (\<lambda>s.
      rbind (ide_write s ch IDE_REG_LBA0 (ucast (lba AND 0xFF))) (\<lambda>s.
      rbind (ide_write s ch IDE_REG_LBA1 (ucast (drop_bit 8 lba AND 0xFF))) (\<lambda>s.
        ide_write s ch IDE_REG_LBA2 (ucast (drop_bit 16 lba AND 0xFF)))))))))))))"

definition ide_access_disk :: "u64 \<Rightarrow> ide \<Rightarrow> nat \<Rightarrow> u8 list \<Rightarrow> u32 \<Rightarrow> u32 \<Rightarrow> bool \<Rightarrow> ide res" where
  "ide_access_disk time s dev buffer lba size' is_write =
     (if size' = 0 then Inr s
      else
        rbind (array_get (ide_devices s) dev) (\<lambda>device.
        let ch = ucast (id_channel device);
            s = s\<lparr>actual_disk_req := \<lparr>dr_device = dev, dr_task = current_task (ide_sched s)\<rparr>\<rparr> in
        rbind (ide_fill_prd_table s device buffer size' is_write) (\<lambda>s.
        rbind (ide_wait_ready s ch) (\<lambda>s.
        rbind (ide_set_device s device lba ((size' - 1) div 512 + 1)) (\<lambda>s.
        rbind (ide_write s ch IDE_REG_BUS_STAT 1) (\<lambda>s.
        rbind (ide_write s ch IDE_REG_CONTROL 0) (\<lambda>s.
        let command = (if is_write
              then (if lba > 0x10000000 then IDE_CMD_WRITE_DMA_EXT else IDE_CMD_WRITE_DMA)
              else (if lba > 0x10000000 then IDE_CMD_READ_DMA_EXT else IDE_CMD_READ_DMA)) in
        rbind (ide_write s ch IDE_REG_COMMAND command) (\<lambda>s.
        rbind (task_block time (ide_sched s) IO_REQUEST) (\<lambda>sc.
          Inr (s\<lparr>ide_sched := sc\<rparr>)))))))))) "

definition ide_write_disk :: "u64 \<Rightarrow> ide \<Rightarrow> u8 \<Rightarrow> u8 list \<Rightarrow> u32 \<Rightarrow> u32 \<Rightarrow> ide res" where
  "ide_write_disk time s device_idx buffer addr size' =
     ide_access_disk time s (unat device_idx) buffer (addr div 512) size' True"

definition ide_read_disk :: "u64 \<Rightarrow> ide \<Rightarrow> u8 \<Rightarrow> u32 \<Rightarrow> u32 \<Rightarrow> ide res" where
  "ide_read_disk time s device_idx addr size' =
     ide_access_disk time s (unat device_idx) [] (addr div 512) size' False"

definition ide_handler :: "ide \<Rightarrow> ide res" where
  "ide_handler s =
     rbind (array_get (ide_devices s) (dr_device (actual_disk_req s))) (\<lambda>device.
     let ch = ucast (id_channel device) in
     rbind (ide_read s ch IDE_REG_BUS_STAT) (\<lambda>(bus_stat, s).
     rbind (ide_read s ch IDE_REG_STATUS) (\<lambda>(reg_stat, s).
     rbind (ide_write s ch IDE_REG_BUS_STAT 4) (\<lambda>s.
       if NOT bus_stat AND 4 \<noteq> 0 then Inr (s\<lparr>ide_eois := ide_eois s + 1\<rparr>)
       else
         rbind (ide_write s ch IDE_REG_BUS_COM 0) (\<lambda>s.
         rbind (task_unblock (ide_sched s) (dr_task (actual_disk_req s))) (\<lambda>sc.
           Inr (s\<lparr>ide_sched := sc, ide_eois := ide_eois s + 1\<rparr>)))))))"

text \<open>The interrupt set-up; \<open>ide_irqs\<close> lists the lines routed to \<open>ide_handler\<close>.\<close>

definition ide_setup_int :: "ide \<Rightarrow> u32 \<Rightarrow> u32 \<Rightarrow> ide res" where
  "ide_setup_int s channel irq =
     rbind (ide_write s channel IDE_REG_CONTROL 0) (\<lambda>s. Inr (s\<lparr>ide_irqs := ide_irqs s @ [irq]\<rparr>))"

definition ide_reset :: "ide \<Rightarrow> ide res" where
  "ide_reset s =
     rbind (ide_write s IDE_PRIMARY IDE_REG_CONTROL 4) (\<lambda>s. ide_write s IDE_PRIMARY IDE_REG_CONTROL 0)"

definition ide_init :: "ide \<Rightarrow> ide res" where
  "ide_init s =
     (if \<not> is_ide_set s then Inr s
      else
        rbind (ide_detect_drive s 0 0) (\<lambda>s.
        rbind (ide_detect_drive s 0 1) (\<lambda>s.
        rbind (ide_detect_drive s 1 0) (\<lambda>s.
        rbind (ide_detect_drive s 1 1) (\<lambda>s.
        rbind (ide_setup_int s IDE_PRIMARY 14) (\<lambda>s.
        rbind (ide_setup_int s IDE_SECONDARY 15) (\<lambda>s.
          ide_reset s)))))))"

section \<open>The PCI scan\<close>

text \<open>\<open>check\<close> stands for \<open>pci_check_bus\<close>, which calls these functions again for the bus behind a bridge.\<close>

definition pci_check_function :: "(ide \<Rightarrow> u32 \<Rightarrow> ide res) \<Rightarrow> ide \<Rightarrow> u32 \<Rightarrow> u32 \<Rightarrow> u32 \<Rightarrow> ide res" where
  "pci_check_function check s bus device func =
     (let (pci_classes, s) = pci_read_reg s bus device func (push_bit 2 2);
          cls = drop_bit 24 pci_classes;
          subclass = drop_bit 16 pci_classes AND 0xFF in
      rbind (if cls = 1 \<and> subclass = 1 then
               rbind (ide_set s bus device func) (\<lambda>s.
                 let (r, s) = pci_read_reg s bus device func (push_bit 2 1);
                     pci_command_reg = (ucast (r AND 0xFFFF) :: u16) in
                 Inr (pci_write_reg s bus device func 0x6 (pci_command_reg OR 4)))
             else Inr s) (\<lambda>s.
        if cls \<noteq> 6 \<or> subclass \<noteq> 4 then Inr s
        else let (reg, s) = pci_read_reg s bus device func (push_bit 2 6);
                 secondary_bus = drop_bit 8 reg AND 0xFF in
             check s secondary_bus))"

text \<open>The functions 1 to 7 of a device.\<close>

fun pci_check_functions :: "(ide \<Rightarrow> u32 \<Rightarrow> ide res) \<Rightarrow> ide \<Rightarrow> u32 \<Rightarrow> u32 \<Rightarrow> u32 list \<Rightarrow> ide res" where
  "pci_check_functions check s bus device [] = Inr s"
| "pci_check_functions check s bus device (func # funcs) =
     (let (vendor, s) = pci_read_reg s bus device func 0 in
      if vendor = 0xFFFF then Inr s
      else rbind (pci_check_function check s bus device func) (\<lambda>s. pci_check_functions check s bus device funcs))"

definition pci_check_device :: "(ide \<Rightarrow> u32 \<Rightarrow> ide res) \<Rightarrow> ide \<Rightarrow> u32 \<Rightarrow> u32 \<Rightarrow> ide res" where
  "pci_check_device check s bus device =
     (let (r, s) = pci_read_reg s bus device 0 0;
          vendor = r AND 0xFFFF in
      if vendor = 0xFFFF then Inr s
      else
        rbind (pci_check_function check s bus device 0) (\<lambda>s.
        let (r, s) = pci_read_reg s bus device 0 (push_bit 2 3);
            pci_header = drop_bit 16 r AND 0xFF in
        if NOT pci_header AND 0x80 \<noteq> 0 then Inr s
        else pci_check_functions check s bus device [1, 2, 3, 4, 5, 6, 7]))"

text \<open>The fuel is the depth of bridges behind bridges: at most 256 buses without a cycle.\<close>

primrec pci_check_bus :: "nat \<Rightarrow> ide \<Rightarrow> u32 \<Rightarrow> ide res" where
  "pci_check_bus 0 = (\<lambda>s bus. Inl Hang)"
| "pci_check_bus (Suc k) = (\<lambda>s bus.
     foldl (\<lambda>r device. rbind r (\<lambda>s. pci_check_device (pci_check_bus k) s bus (of_nat device))) (Inr s) [0..<32])"

fun pci_check_buses :: "ide \<Rightarrow> u32 list \<Rightarrow> ide res" where
  "pci_check_buses s [] = Inr s"
| "pci_check_buses s (func # funcs) =
     (let (r, s) = pci_read_reg s 0 0 func 0;
          vendor = r AND 0xFFFF in
      if vendor \<noteq> 0xFFFF then Inr s
      else rbind (pci_check_bus 256 s func) (\<lambda>s. pci_check_buses s funcs))"

definition pci_check_all_bus :: "ide \<Rightarrow> ide res" where
  "pci_check_all_bus s =
     (let (r, s) = pci_read_reg s 0 0 0 (push_bit 2 3);
          pci_header = drop_bit 16 r AND 0xFF in
      rbind (pci_check_bus 256 s 0) (\<lambda>s.
        if NOT pci_header AND 0x80 \<noteq> 0 then Inr s
        else pci_check_buses s [1, 2, 3, 4, 5, 6, 7]))"

definition pci_init :: "ide \<Rightarrow> ide res" where
  "pci_init s = pci_check_all_bus s"

section \<open>The descriptor table\<close>

text \<open>The state after some rounds of the loop, with pieces of \<open>c\<close> bytes.\<close>

definition prd_entry :: "ptr \<Rightarrow> u32 \<Rightarrow> nat \<Rightarrow> prd_entry_t" where
  "prd_entry base c i = \<lparr>phys_addr = VIR2PHY (base + of_nat i * 1024), byte_count = ucast c, reserved = 0\<rparr>"

definition prd_block :: "u8 list \<Rightarrow> nat \<Rightarrow> u8 list list \<Rightarrow> nat \<Rightarrow> u8 list" where
  "prd_block buffer c mem i = take c (drop (i * c) buffer) @ drop c (mem ! i)"

definition prd_done :: "ide \<Rightarrow> u8 list \<Rightarrow> bool \<Rightarrow> u32 \<Rightarrow> nat \<Rightarrow> ide" where
  "prd_done s buffer w c i =
     s\<lparr>prd_table := map (prd_entry (ide_mem_addr s) c) [0..<i] @ drop i (prd_table s),
       ide_mem_buffer := (if w then map (prd_block buffer (unat c) (ide_mem_buffer s)) [0..<i] @ drop i (ide_mem_buffer s)
                          else ide_mem_buffer s)\<rparr>"

lemma map_upt_update:
  assumes "i < length xs"
  shows "(map f [0..<i] @ drop i xs)[i := f i] = map f [0..<Suc i] @ drop (Suc i) xs"
  using assms by (simp add: list_update_append Cons_nth_drop_Suc [symmetric])

lemma prd_done_0 [simp]: "prd_done s buffer w c 0 = s"
  by (simp add: prd_done_def)

lemma prd_round:
  assumes c: "c = (if size' > KIB 1 then KIB 1 else size')" and i: "i < length (prd_table s)" "i < 1024"
    and w: "w \<Longrightarrow> i < length (ide_mem_buffer s) \<and> unat c + i * unat c \<le> length buffer"
    and more: "i * unat c < unat size'"
  shows "ide_prd_loop (Suc k) (prd_done s buffer w c i) buffer size' w (of_nat i) (of_nat (i * unat c)) =
    ide_prd_loop k (prd_done s buffer w c (Suc i)) buffer size' w (of_nat (Suc i)) (of_nat (Suc i * unat c))"
proof -
  have cc: "c \<le> 1024" "c \<noteq> KIB 64"
    by (auto simp: c KIB_def not_less)
  have lt: "i * unat c < 4294967296"
    using more unat_u32_lt [of size'] by simp
  have u: "unat (of_nat i :: u32) = i" "unat (of_nat (i * unat c) :: u32) = i * unat c"
    using i(2) lt by (simp_all add: unat_u32_of_nat del: of_nat_mult)
  have "size' \<noteq> of_nat (i * unat c)"
    using u(2) more by (auto simp del: of_nat_mult)
  then have ne: "size' - of_nat (i * unat c) \<noteq> 0"
    by (simp del: of_nat_mult)
  let ?s = "prd_done s buffer w c i"
  have e: "ide_set_prd_entry ?s (of_nat i) c = Inr (?s\<lparr>prd_table := map (prd_entry (ide_mem_addr s) c) [0..<Suc i] @ drop (Suc i) (prd_table s)\<rparr>)"
    using i(1) cc(2) u(1) map_upt_update [OF i(1), of "prd_entry (ide_mem_addr s) c"]
    by (simp add: ide_set_prd_entry_def prd_done_def prd_entry_def KIB_def)
  let ?t = "?s\<lparr>prd_table := map (prd_entry (ide_mem_addr s) c) [0..<Suc i] @ drop (Suc i) (prd_table s)\<rparr>"
  have b: "(if w then ide_copy_in ?t (of_nat i) buffer (of_nat (i * unat c)) c else Inr ?t) = Inr (prd_done s buffer w c (Suc i))"
  proof (cases w)
    case True
    then have il: "i < length (ide_mem_buffer s)" "unat c + i * unat c \<le> length buffer"
      using w by auto
    have "(map (prd_block buffer (unat c) (ide_mem_buffer s)) [0..<i] @ drop i (ide_mem_buffer s)) ! i = ide_mem_buffer s ! i"
      using il(1) by (simp add: nth_append)
    then show ?thesis
      using True il u map_upt_update [OF il(1), of "prd_block buffer (unat c) (ide_mem_buffer s)"]
      by (simp add: ide_copy_in_def prd_done_def add.commute prd_block_def del: of_nat_mult)
  qed (simp add: prd_done_def)
  have "(of_nat (i * unat c) + c :: u32) = of_nat (Suc i * unat c)"
    by (simp add: algebra_simps)
  moreover have "(of_nat i + 1 :: u32) = of_nat (Suc i)"
    by simp
  ultimately show ?thesis
    using ne by (simp only: ide_prd_loop.simps if_False Let_def c [symmetric] e b rbind_Inr)
qed

lemma prd_loop_fills:
  assumes c: "c = (if size' > KIB 1 then KIB 1 else size')" and n: "unat size' = n * unat c" "0 < c"
    and len: "n \<le> length (prd_table s)" "n \<le> 1024"
    and w: "w \<Longrightarrow> n \<le> length (ide_mem_buffer s) \<and> unat size' \<le> length buffer"
    and i: "i \<le> n" "n - i < k"
  shows "ide_prd_loop k (prd_done s buffer w c i) buffer size' w (of_nat i) (of_nat (i * unat c)) =
    Inr (of_nat n, prd_done s buffer w c n)"
  using i
proof (induction k arbitrary: i)
  case (Suc k)
  show ?case
  proof (cases "i = n")
    case True
    have "of_nat (unat size') = size'"
      by simp
    then have "size' = of_nat (i * unat c)"
      using n(1) True by (simp only:)
    then show ?thesis
      using True by (simp del: of_nat_mult)
  next
    case False
    have c0: "0 < unat c"
      using n(2) by (simp add: word_less_nat_alt)
    have "Suc i * unat c \<le> n * unat c"
      using False Suc.prems(1) by (intro mult_le_mono1) simp
    then have le: "unat c + i * unat c \<le> unat size'"
      using n(1) by simp
    have step: "ide_prd_loop (Suc k) (prd_done s buffer w c i) buffer size' w (of_nat i) (of_nat (i * unat c)) =
        ide_prd_loop k (prd_done s buffer w c (Suc i)) buffer size' w (of_nat (Suc i)) (of_nat (Suc i * unat c))"
      using False Suc.prems(1) len w le c0 by (intro prd_round [OF c]) auto
    show ?thesis
      unfolding step using False Suc.prems by (intro Suc.IH) auto
  qed
qed simp

lemma ide_port_ok:
  assumes "length (channels s) = 2" "unat ch < 2"
  shows "\<exists>p. ide_port s ch reg = Inr p"
  using assms by (auto simp: ide_port_def Let_def split: prod.splits)

lemma take_concat_blocks:
  assumes "\<forall>b \<in> set bs. length b = c"
  shows "n \<le> length bs \<Longrightarrow> take (n * c) (concat bs) = concat (take n bs)"
  using assms
proof (induction bs arbitrary: n)
  case (Cons b bs)
  then show ?case
    by (cases n) auto
qed simp

lemma length_concat_blocks: "\<forall>b \<in> set bs. length b = c \<Longrightarrow> length (concat bs) = length bs * c"
  by (induction bs) auto

lemma concat_pieces: "n * c \<le> length buffer \<Longrightarrow> concat (map (\<lambda>i. take c (drop (i * c) buffer)) [0..<n]) = take (n * c) buffer"
proof (induction n)
  case (Suc n)
  then show ?case
    by (simp add: take_add add.commute [of c])
qed simp

text \<open>A transfer's pieces: the whole size, or pieces of 1 KiB when it is a multiple of that.\<close>

definition prd_size :: "u32 \<Rightarrow> nat" where
  "prd_size size' = min 1024 (unat size')"

definition prd_count :: "u32 \<Rightarrow> nat" where
  "prd_count size' = unat size' div prd_size size'"

lemma prd_size_word: "(if size' > KIB 1 then KIB 1 else size') = of_nat (prd_size size')"
  "unat (if size' > KIB 1 then KIB 1 else size') = prd_size size'"
  by (auto simp: prd_size_def KIB_def word_less_nat_alt min_def)

lemma fill_prd_table_run:
  assumes size: "0 < size'" "prd_size size' dvd unat size'"
    and len: "prd_count size' \<le> length (prd_table s)" "prd_count size' \<le> 1024"
    and w: "w \<Longrightarrow> prd_count size' \<le> length (ide_mem_buffer s) \<and> unat size' \<le> length buffer"
    and ch: "length (channels s) = 2" "id_channel device < 2"
  shows "\<exists>log. ide_fill_prd_table s device buffer size' w =
      Inr ((prd_done s buffer w (of_nat (prd_size size')) (prd_count size'))
        \<lparr>ide_log := log,
         prd_table := (map (prd_entry (ide_mem_addr s) (of_nat (prd_size size'))) [0..<prd_count size'] @
                        drop (prd_count size') (prd_table s))
                      [prd_count size' - 1 := (prd_entry (ide_mem_addr s) (of_nat (prd_size size')) (prd_count size' - 1))\<lparr>reserved := 0x8000\<rparr>]\<rparr>)"
proof -
  let ?c = "of_nat (prd_size size') :: u32" and ?n = "prd_count size'" and ?ch = "ucast (id_channel device) :: u32"
  have c: "?c = (if size' > KIB 1 then KIB 1 else size')" "unat ?c = prd_size size'"
    using prd_size_word [of size'] by simp_all
  have n: "unat size' = ?n * unat ?c"
    using size(2) by (simp add: prd_count_def c(2))
  have c0: "0 < ?c"
    using size(1) by (auto simp: c(1) KIB_def)
  have n0: "0 < ?n"
    using n size(1) by (cases ?n) (auto simp: word_less_nat_alt)
  have chn: "unat ?ch < 2" "unat ?ch = unat (id_channel device)"
    using ch(2) by (simp_all add: word_less_nat_alt unsigned_ucast_eq take_bit_nat_eq_self)
  define s1 where "s1 = outx s (ucast (ch_bus_master_addr (channels s ! unat ?ch) + 4)) (VIR2PHY (prd_addr s))"
  have s1: "ide_set_prdt s ?ch (VIR2PHY (prd_addr s)) = Inr s1"
    using ch(1) chn(1) by (simp add: ide_set_prdt_def s1_def)
  have same: "prd_table s1 = prd_table s" "ide_mem_buffer s1 = ide_mem_buffer s" "channels s1 = channels s"
    "ide_mem_addr s1 = ide_mem_addr s" "prd_addr s1 = prd_addr s"
    by (simp_all add: s1_def outx_def)
  have "ide_prd_loop (Suc (length (prd_table s1))) (prd_done s1 buffer w ?c 0) buffer size' w (of_nat 0) (of_nat (0 * unat ?c)) =
      Inr (of_nat ?n, prd_done s1 buffer w ?c ?n)"
    using len w by (intro prd_loop_fills [OF c(1) n c0]) (auto simp: same)
  then have loop: "ide_prd_loop (Suc (length (prd_table s1))) s1 buffer size' w 0 0 = Inr (of_nat ?n, prd_done s1 buffer w ?c ?n)"
    by simp
  have last: "unat (of_nat ?n - 1 :: u32) = ?n - 1"
    using n0 len(2) by (cases ?n) (simp_all add: unat_u32_of_nat)
  let ?t = "map (prd_entry (ide_mem_addr s) ?c) [0..<?n] @ drop ?n (prd_table s)"
  have tbl: "prd_table (prd_done s1 buffer w ?c ?n) = ?t" "?n - 1 < length ?t" "?t ! (?n - 1) = prd_entry (ide_mem_addr s) ?c (?n - 1)"
    using n0 len(1) by (simp_all add: prd_done_def same nth_append)
  define s2 where "s2 = (prd_done s1 buffer w ?c ?n)\<lparr>prd_table := ?t[?n - 1 := (prd_entry (ide_mem_addr s) ?c (?n - 1))\<lparr>reserved := 0x8000\<rparr>]\<rparr>"
  have res: "(prd_entry (ide_mem_addr s) ?c (?n - 1))\<lparr>reserved := reserved (prd_entry (ide_mem_addr s) ?c (?n - 1)) OR push_bit 15 1\<rparr> =
      (prd_entry (ide_mem_addr s) ?c (?n - 1))\<lparr>reserved := 0x8000\<rparr>"
    by (simp add: prd_entry_def push_bit_eq_mult)
  have ch2: "channels s2 = channels s"
    by (simp add: s2_def prd_done_def same)
  obtain q where q: "ide_port s2 ?ch IDE_REG_BUS_COM = Inr q"
    using ide_port_ok [of s2 ?ch] ch2 ch(1) chn(1) by auto
  have port: "ide_port (outx s2 a b) ?ch r = ide_port s2 ?ch r" for a b r
    by (simp add: ide_port_def outx_def)
  have "ide_fill_prd_table s device buffer size' w =
      rbind (ide_write s2 ?ch IDE_REG_BUS_COM (if w then 8 else 0)) (\<lambda>s. ide_write s ?ch IDE_REG_BUS_COM 1)"
    unfolding ide_fill_prd_table_def Let_def s1 rbind_Inr same(5) loop split_conv last tbl(1)
      array_get_in [OF tbl(2)] tbl(3) res s2_def by simp
  also have "\<dots> = Inr (outx (outx s2 q (ucast (if w then 8 else 0 :: u8))) q 1)"
    by (simp add: ide_write_def q port)
  finally show ?thesis
    by (intro exI [of _ "ide_log s1 @ [(q, ucast (if w then 8 else 0 :: u8)), (q, 1)]"])
      (cases w; simp add: outx_def s2_def s1_def prd_done_def)
qed

text \<open>The transfer buffers after a write hold the data of the caller.\<close>

lemma prd_mem_data:
  assumes size: "0 < size'" "prd_size size' dvd unat size'" and mb: "prd_count size' \<le> length mb" "\<forall>b \<in> set mb. length b = 1024"
    and buf: "unat size' \<le> length buffer"
  defines "mem \<equiv> map (prd_block buffer (prd_size size') mb) [0..<prd_count size'] @ drop (prd_count size') mb"
  shows "\<forall>b \<in> set mem. length b = 1024" and "take (unat size') (concat mem) = take (unat size') buffer"
proof -
  let ?c = "prd_size size'" and ?n = "prd_count size'"
  have c: "?c \<le> 1024" and n: "unat size' = ?n * ?c"
    using size(2) by (simp_all add: prd_size_def prd_count_def)
  have "length (prd_block buffer ?c mb i) = 1024" if "i < ?n" for i
  proof -
    have "Suc i * ?c \<le> ?n * ?c"
      using that by (intro mult_le_mono1) simp
    then have "i * ?c + ?c \<le> length buffer"
      using n buf by simp
    moreover have "length (mb ! i) = 1024"
      using mb that by simp
    ultimately show ?thesis
      using c by (simp add: prd_block_def)
  qed
  then show all: "\<forall>b \<in> set mem. length b = 1024"
    using mb(2) by (auto simp: mem_def dest: in_set_dropD)
  show "take (unat size') (concat mem) = take (unat size') buffer"
  proof (cases "?c = 1024")
    case True
    have e1: "take (?n * 1024) (concat mem) = concat (map (prd_block buffer ?c mb) [0..<?n])"
      using take_concat_blocks [OF all, of ?n] mb(1) by (simp add: mem_def)
    have e2: "map (prd_block buffer ?c mb) [0..<?n] = map (\<lambda>i. take ?c (drop (i * ?c) buffer)) [0..<?n]"
      using True mb by (auto simp: prd_block_def)
    have "concat (map (prd_block buffer ?c mb) [0..<?n]) = take (?n * ?c) buffer"
      unfolding e2 using concat_pieces [of ?n ?c buffer] n buf by simp
    then show ?thesis
      using e1 by (simp only: n True)
  next
    case False
    then have cs: "?c = unat size'" "unat size' < 1024"
      by (auto simp: prd_size_def min_def split: if_splits)
    then have "?n = 1"
      using n size(1) by (simp add: word_less_nat_alt)
    then show ?thesis
      using cs buf by (simp add: mem_def prd_block_def)
  qed
qed

text \<open>C31 [ide_prd_table_filled]: for a transfer of at most 1 KiB or of a multiple of 1 KiB that fits the table
  and the transfer buffers, \<open>ide_fill_prd_table\<close> returns; the descriptors name the transfer buffers one
  after the other with the size of the pieces, the last one and only that carries the end mark, and
  for a write the transfer buffers hold the caller's data.\<close>

theorem ide_prd_table_filled:
  assumes size: "0 < size'" "prd_size size' dvd unat size'"
    and len: "prd_count size' \<le> length (prd_table s)" "prd_count size' \<le> length (ide_mem_buffer s)"
      "length (ide_mem_buffer s) = 4" "\<forall>b \<in> set (ide_mem_buffer s). length b = 1024"
    and buf: "w \<Longrightarrow> unat size' \<le> length buffer"
    and ch: "length (channels s) = 2" "id_channel device < 2"
  shows "\<exists>s'. ide_fill_prd_table s device buffer size' w = Inr s' \<and>
           (\<forall>i < prd_count size'. prd_table s' ! i =
              \<lparr>phys_addr = VIR2PHY (ide_mem_addr s + of_nat i * 1024), byte_count = of_nat (prd_size size'),
               reserved = (if i = prd_count size' - 1 then 0x8000 else 0)\<rparr>) \<and>
           (w \<longrightarrow> ide_read_disk_buffer s' 0 size' = Inr (take (unat size') buffer))"
proof -
  let ?c = "prd_size size'" and ?n = "prd_count size'"
  have "prd_count size' \<le> 1024"
    using len(2,3) by simp
  then obtain log where run: "ide_fill_prd_table s device buffer size' w =
      Inr ((prd_done s buffer w (of_nat ?c) ?n)\<lparr>ide_log := log,
         prd_table := (map (prd_entry (ide_mem_addr s) (of_nat ?c)) [0..<?n] @ drop ?n (prd_table s))
                      [?n - 1 := (prd_entry (ide_mem_addr s) (of_nat ?c) (?n - 1))\<lparr>reserved := 0x8000\<rparr>]\<rparr>)"
      (is "_ = Inr ?s'")
    using fill_prd_table_run [OF size len(1) _ _ ch, of w buffer] len(2) buf by blast
  have c: "unat (of_nat ?c :: u32) = ?c" "?c \<le> 1024"
    using prd_size_word [of size'] by (simp_all add: prd_size_def)
  have uc: "(ucast (of_nat ?c :: u32) :: u16) = of_nat ?c"
    using c(2) by (simp add: word_unat_eq_iff unsigned_ucast_eq unat_of_nat take_bit_eq_mod)
  have n: "unat size' = ?n * ?c"
    using size(2) by (simp add: prd_count_def)
  have "prd_table ?s' ! i = \<lparr>phys_addr = VIR2PHY (ide_mem_addr s + of_nat i * 1024), byte_count = of_nat ?c,
      reserved = (if i = ?n - 1 then 0x8000 else 0)\<rparr>" if "i < ?n" for i
  proof (cases "i = ?n - 1")
    case True
    then show ?thesis
      using that len(1) uc unfolding True by (simp add: prd_entry_def)
  next
    case False
    then show ?thesis
      using that len(1) uc by (simp add: nth_append prd_entry_def)
  qed
  moreover have "ide_read_disk_buffer ?s' 0 size' = Inr (take (unat size') buffer)" if w: w
  proof -
    let ?mem = "map (prd_block buffer ?c (ide_mem_buffer s)) [0..<?n] @ drop ?n (ide_mem_buffer s)"
    have mem: "ide_mem_buffer ?s' = ?mem"
      using w c(1) by (simp add: prd_done_def)
    note data = prd_mem_data [OF size len(2,4) buf [OF w]]
    have "length (concat ?mem) = 4 * 1024"
      using length_concat_blocks [OF data(1)] len(2,3) by simp
    moreover have "unat size' \<le> 4 * 1024"
      using n c(2) len(2,3) mult_le_mono [of ?n 4 ?c 1024] by simp
    ultimately show ?thesis
      unfolding ide_read_disk_buffer_def mem Let_def using data(2) by simp
  qed
  ultimately show ?thesis
    using run by blast
qed

definition ide_sample :: ide where
  "ide_sample = \<lparr>channels = [\<lparr>ch_addr = 0x1F0, ch_ctrl_addr = 0x3F6, ch_bus_master_addr = 0xC000\<rparr>,
       \<lparr>ch_addr = 0x170, ch_ctrl_addr = 0x376, ch_bus_master_addr = 0xC008\<rparr>],
     ide_devices = replicate 4 \<lparr>id_present = 1, id_channel = 0, id_drive = 0, id_type = 0, id_signature = 0,
       id_capabilities = 0, id_commmand_set = 0, id_size = 4096, id_model = replicate 41 0\<rparr>,
     prd_table = replicate 128 \<lparr>phys_addr = 0, byte_count = 0, reserved = 0\<rparr>, prd_addr = 0xC0100000,
     ide_mem_buffer = replicate 4 (replicate 1024 0), ide_mem_addr = 0xC0100400,
     actual_disk_req = \<lparr>dr_device = 0, dr_task = 0\<rparr>, is_ide_set = True, ide_buffer = replicate 1024 0,
     ide_ident = replicate 1024 0, ide_inputs = [0x40, 0x40], ide_log = [], ide_irqs = [], ide_eois = 0,
     pci_cfg = (\<lambda>_. 0), ide_sched = sched_sample\<rparr>"

theorem ide_prd_table_filled_witness:
  "\<exists>s'. ide_fill_prd_table ide_sample (ide_devices ide_sample ! 0) (replicate 2048 7) 2048 True = Inr s' \<and>
     reserved (prd_table s' ! 1) = 0x8000 \<and> ide_read_disk_buffer s' 0 2048 = Inr (replicate 2048 7)"
proof -
  have "prd_size 2048 = 1024" "prd_count 2048 = 2"
    by (simp_all add: prd_size_def prd_count_def)
  then show ?thesis
    using ide_prd_table_filled [of 2048 ide_sample True "replicate 2048 7" "ide_devices ide_sample ! 0"]
    by (auto simp: ide_sample_def)
qed

lemma prd_loop_runs_off:
  assumes size: "1024 < unat size'" "\<not> 1024 dvd unat size'" and i: "i \<le> length (prd_table s)" "length (prd_table s) < 1024"
    and k: "k = Suc (length (prd_table s) - i)"
  shows "ide_prd_loop k s buffer size' False (of_nat i) (of_nat (i * 1024)) = Inl BadAccess"
  using i k
proof (induction k arbitrary: i s)
  case (Suc k)
  have lt: "i * 1024 < 4294967296" "i < 4294967296"
    using Suc.prems(1,2) by simp_all
  then have u: "unat (of_nat (i * 1024) :: u32) = i * 1024" "unat (of_nat i :: u32) = i"
    by (simp_all only: unat_u32_of_nat)
  have "size' \<noteq> of_nat (i * 1024)"
    using u(1) size(2) by auto
  then have ne: "size' - of_nat (i * 1024) \<noteq> 0"
    by (simp only: right_minus_eq not_False_eq_True)
  have c: "(if size' > KIB 1 then KIB 1 else size') = 1024"
    using size(1) by (simp add: KIB_def word_less_nat_alt)
  show ?case
  proof (cases "i = length (prd_table s)")
    case True
    then have "ide_set_prd_entry s (of_nat i) 1024 = Inl BadAccess"
      using u(2) by (simp add: ide_set_prd_entry_def)
    then show ?thesis
      using ne c by (simp only: ide_prd_loop.simps if_False Let_def rbind_Inl)
  next
    case False
    then obtain e where e: "ide_set_prd_entry s (of_nat i) 1024 = Inr (s\<lparr>prd_table := (prd_table s)[i := e]\<rparr>)"
      using Suc.prems(1) u(2) by (auto simp: ide_set_prd_entry_def)
    have nx: "(of_nat (i * 1024) + 1024 :: u32) = of_nat (Suc i * 1024)" "(of_nat i + 1 :: u32) = of_nat (Suc i)"
      by (simp_all add: algebra_simps)
    have "ide_prd_loop k (s\<lparr>prd_table := (prd_table s)[i := e]\<rparr>) buffer size' False (of_nat (Suc i)) (of_nat (Suc i * 1024)) = Inl BadAccess"
      using False Suc.prems by (intro Suc.IH) auto
    then show ?thesis
      using ne c e nx by (simp only: ide_prd_loop.simps if_False Let_def rbind_Inr)
  qed
qed simp

text \<open>Fact [ide_prd_table_overrun]: for a transfer of more than 1 KiB that is not a multiple of 1 KiB the loop steps
  over the end of the transfer and goes on filling descriptors until it writes behind the table.\<close>

theorem ide_prd_table_overrun:
  assumes "1024 < unat size'" "\<not> 1024 dvd unat size'" "length (prd_table s) < 1024"
    and "length (channels s) = 2" "id_channel device < 2"
  shows "ide_fill_prd_table s device buffer size' False = Inl BadAccess"
proof -
  have "unat (ucast (id_channel device) :: u32) < 2"
    using assms(5) by (simp add: word_less_nat_alt unsigned_ucast_eq take_bit_nat_eq_self)
  then obtain s1 where s1: "ide_set_prdt s (ucast (id_channel device)) (VIR2PHY (prd_addr s)) = Inr s1"
      "prd_table s1 = prd_table s"
    using assms(4) by (auto simp: ide_set_prdt_def outx_def)
  have "ide_prd_loop (Suc (length (prd_table s1))) s1 buffer size' False 0 0 = Inl BadAccess"
    using prd_loop_runs_off [OF assms(1,2), of 0 s1] assms(3) s1(2) by simp
  then show ?thesis
    using s1(1) by (simp add: ide_fill_prd_table_def Let_def del: ide_prd_loop.simps)
qed

theorem ide_prd_table_overrun_witness:
  "ide_fill_prd_table ide_sample (ide_devices ide_sample ! 0) [] 1536 False = Inl BadAccess"
  by (rule ide_prd_table_overrun) (simp_all add: ide_sample_def)

section \<open>The registers of a transfer\<close>

text \<open>The value last written to a register's port.\<close>

definition reg_value :: "(u16 \<times> u32) list \<Rightarrow> u16 \<Rightarrow> u32 option" where
  "reg_value log p = map_of (rev log) p"

lemma ide_write_normal:
  assumes "unat ch < length (channels s)" "reg \<le> IDE_REG_LBA5"
  shows "ide_write s ch reg v = Inr (outx s (ucast (ch_addr (channels s ! unat ch) +
     (if reg \<ge> IDE_REG_SECCOUNT1 then reg - 6 else reg))) (ucast v))"
proof -
  have "\<not> IDE_REG_BUS_COM \<le> reg"
    using assms(2) by (simp add: ide_consts word_le_nat_alt)
  then show ?thesis
    using assms by (simp add: ide_write_def ide_port_def Let_def)
qed

lemma outx_simps [simp]:
  "channels (outx s p v) = channels s" "ide_inputs (outx s p v) = ide_inputs s" "ide_log (outx s p v) = ide_log s @ [(p, v)]"
  by (simp_all add: outx_def)

lemma bit_set_not_and: "bit (x :: u8) n \<Longrightarrow> NOT x AND push_bit n 1 = 0"
  by (rule bit_word_eqI) (auto simp: bit_simps)

lemma ide_wait_ready_now:
  assumes "unat ch < length (channels s)" "ide_inputs s = st # rest" "bit st 6"
  shows "ide_wait_ready s ch = Inr (s\<lparr>ide_inputs := rest\<rparr>)"
proof -
  have "NOT st AND 0x40 = 0"
    using bit_set_not_and [OF assms(3)] by (simp add: push_bit_eq_mult)
  then show ?thesis
    using assms by (subst ide_wait_ready.simps) (simp add: ide_read_def ide_port_def Let_def ide_consts)
qed

text \<open>What \<open>ide_set_device\<close> sends.\<close>

lemma ide_set_device_log:
  assumes ch: "length (channels s) = 2" "id_channel device < 2" and st: "ide_inputs s = st # rest" "bit st 6"
    and a: "a = ch_addr (channels s ! unat (id_channel device))"
  shows "ide_set_device s device lba sectors = Inr (s\<lparr>ide_inputs := rest, ide_log := ide_log s @
     [(ucast (a + 6), ucast (0xE0 OR push_bit 4 (id_drive device) OR (if lba > 0x10000000 then 0 else ucast (drop_bit 24 lba AND 0xF) :: u8))),
      (ucast (a + 1), 0), (ucast (a + 2), 0), (ucast (a + 3), if lba > 0x10000000 then 1 else 0),
      (ucast (a + 4), 0), (ucast (a + 5), 0), (ucast (a + 2), ucast (ucast sectors :: u8)),
      (ucast (a + 3), ucast (ucast (lba AND 0xFF) :: u8)), (ucast (a + 4), ucast (ucast (drop_bit 8 lba AND 0xFF) :: u8)),
      (ucast (a + 5), ucast (ucast (drop_bit 16 lba AND 0xFF) :: u8))]\<rparr>)"
proof -
  have c: "unat (ucast (id_channel device) :: u32) < length (channels s)" "unat (ucast (id_channel device) :: u32) = unat (id_channel device)"
    using ch by (simp_all add: word_less_nat_alt unsigned_ucast_eq take_bit_nat_eq_self)
  have u: "unat (drop_bit 24 lba) = unat lba div 16777216"
    by (simp add: unsigned_drop_bit_eq drop_bit_eq_div unat_div)
  have hi: "drop_bit 24 lba \<noteq> 0" if "lba > 0x10000000"
  proof
    assume "drop_bit 24 lba = 0"
    then have "unat lba div 16777216 = 0"
      using u by simp
    then show False
      using that by (simp add: word_less_nat_alt)
  qed
  let ?ch = "ucast (id_channel device) :: u32"
  have nw: "ide_write t ?ch reg v = Inr (outx t (ucast (a + (if reg \<ge> 8 then reg - 6 else reg))) (ucast v))"
    if "channels t = channels s" "reg \<le> 0xB" for t reg v
    using that c ide_write_normal [of ?ch t reg v] by (simp add: a ide_consts)
  note wr = nw [of _ 1] nw [of _ 2] nw [of _ 3] nw [of _ 4] nw [of _ 5] nw [of _ 6] nw [of _ 8] nw [of _ 9] nw [of _ 10] nw [of _ 11]
  have rdy: "ide_wait_ready t ?ch = Inr (t\<lparr>ide_inputs := rest\<rparr>)" if "channels t = channels s" "ide_inputs t = st # rest" for t
    using that c st(2) by (intro ide_wait_ready_now) simp_all
  show ?thesis
    unfolding ide_set_device_def Let_def ide_consts
    using st(1) hi by (simp add: wr [simplified word_le_nat_alt, simplified] rdy outx_def)
qed

lemma ucast_u16_add: "(ucast (a + b :: u32) :: u16) = ucast a + ucast b"
  by (simp add: word_unat_eq_iff unsigned_ucast_eq unat_word_ariths take_bit_eq_mod mod_add_eq)
    (simp add: mod_mod_cancel)

lemma unat_byte_of: "unat (ucast (ucast (x AND 0xFF :: u32) :: u8) :: u32) = unat x mod 256"
proof -
  have "x AND 0xFF = take_bit 8 x"
    by (simp add: take_bit_eq_mask mask_eq_exp_minus_1)
  then show ?thesis
    by (simp add: unsigned_ucast_eq unsigned_take_bit_eq take_bit_eq_mod unat_mod)
qed

lemma unat_drop_bits: "unat (drop_bit n (x :: u32)) = unat x div 2 ^ n"
  by (simp only: unsigned_drop_bit_eq) (simp add: drop_bit_eq_div take_bit_nat_eq_self unat_u32_lt)

lemma unat_mod_16: "unat (x :: u8) mod 16 = unat (take_bit 4 x)"
  by (simp only: unsigned_take_bit_eq) (simp add: take_bit_eq_mod)

lemma unat_head:
  "unat (ucast (0xE0 OR push_bit 4 d OR (ucast (drop_bit 24 lba AND 0xF :: u32) :: u8)) :: u32) mod 16 = unat lba div 16777216 mod 16"
proof -
  let ?h = "ucast (drop_bit 24 lba AND 0xF :: u32) :: u8"
  have m: "(0xF :: u8) = mask 4" "(0xF :: u32) = mask 4" "(0xE0 :: u8) = push_bit 4 14"
    by (simp_all add: mask_eq_exp_minus_1 push_bit_eq_mult)
  have "take_bit 4 (0xE0 OR push_bit 4 d OR ?h) = take_bit 4 ?h"
    unfolding m by (rule bit_word_eqI) (auto simp: bit_simps)
  then have "unat (0xE0 OR push_bit 4 d OR ?h) mod 16 = unat ?h mod 16"
    by (simp only: unat_mod_16)
  moreover have "drop_bit 24 lba AND 0xF = take_bit 4 (drop_bit 24 lba)"
    by (simp add: take_bit_eq_mask m)
  then have "unat (drop_bit 24 lba AND 0xF) = unat lba div 16777216 mod 16"
    by (simp only: unsigned_take_bit_eq unat_drop_bits) (simp add: take_bit_eq_mod)
  then have "unat ?h = unat lba div 16777216 mod 16"
    by (simp only: unsigned_ucast_eq) (simp add: take_bit_eq_mod)
  moreover have "unat (ucast z :: u32) = unat z" for z :: u8
    using unat_u8_lt [of z] by (simp add: unsigned_ucast_eq take_bit_nat_eq_self)
  ultimately show ?thesis
    by (simp only: mod_mod_trivial)
qed

text \<open>Fact [ide_lba_programmed]: for a sector up to 0x10000000 on a ready drive, the values \<open>ide_set_device\<close> leaves in
  the four address registers are the sector's number modulo 2^28, and the count register has the
  number of sectors modulo 256; so the sector 0x10000000 itself is programmed as sector 0.\<close>

theorem ide_lba_programmed:
  assumes ch: "length (channels s) = 2" "id_channel device < 2" and st: "ide_inputs s = st # rest" "bit st 6"
    and a: "a = ch_addr (channels s ! unat (id_channel device))" and lba: "lba \<le> 0x10000000"
  shows "\<exists>s' v0 v1 v2 vh. ide_set_device s device lba sectors = Inr s' \<and>
           reg_value (ide_log s') (ucast (a + 3)) = Some v0 \<and> reg_value (ide_log s') (ucast (a + 4)) = Some v1 \<and>
           reg_value (ide_log s') (ucast (a + 5)) = Some v2 \<and> reg_value (ide_log s') (ucast (a + 6)) = Some vh \<and>
           unat v0 + 256 * unat v1 + 65536 * unat v2 + 16777216 * (unat vh mod 16) = unat lba mod 268435456 \<and>
           reg_value (ide_log s') (ucast (a + 2)) = Some (of_nat (unat sectors mod 256))"
proof -
  let ?b = "\<lambda>n. unat (ucast (ucast (drop_bit n lba AND 0xFF) :: u8) :: u32)"
  have b: "?b 8 = unat lba div 256 mod 256" "?b 16 = unat lba div 65536 mod 256"
    by (simp_all only: unat_byte_of unat_drop_bits) simp_all
  have "unat lba mod 268435456 = unat lba mod 256 + 256 * (unat lba div 256 mod 256) +
      65536 * (unat lba div 65536 mod 256) + 16777216 * (unat lba div 16777216 mod 16)"
    using mod_mult2_eq [of "unat lba" 256 256] mod_mult2_eq [of "unat lba" 65536 256]
      mod_mult2_eq [of "unat lba" 16777216 16] by simp
  moreover have "(ucast (ucast sectors :: u8) :: u32) = of_nat (unat sectors mod 256)"
    by (simp add: word_unat_eq_iff unsigned_ucast_eq unat_of_nat take_bit_eq_mod unat_mod)
  ultimately show ?thesis
    using ide_set_device_log [OF ch st a, of lba sectors] lba b unat_byte_of [of lba] unat_head [of "id_drive device" lba]
    by (simp add: reg_value_def ucast_u16_add not_less)
qed

theorem ide_lba_programmed_witness:
  "\<exists>s' v0 v1 v2 vh. ide_set_device ide_sample (ide_devices ide_sample ! 0) 0x10000000 2 = Inr s' \<and>
     reg_value (ide_log s') (ucast (0x1F3 :: u32)) = Some v0 \<and> reg_value (ide_log s') (ucast (0x1F4 :: u32)) = Some v1 \<and>
     reg_value (ide_log s') (ucast (0x1F5 :: u32)) = Some v2 \<and> reg_value (ide_log s') (ucast (0x1F6 :: u32)) = Some vh \<and>
     unat v0 + 256 * unat v1 + 65536 * unat v2 + 16777216 * (unat vh mod 16) = 0 \<and>
     reg_value (ide_log s') (ucast (0x1F2 :: u32)) = Some 2"
proof -
  have "length (channels ide_sample) = 2" "id_channel (ide_devices ide_sample ! 0) < 2" "ide_inputs ide_sample = 0x40 # [0x40]"
    "bit (0x40 :: u8) 6" "(0x1F0 :: u32) = ch_addr (channels ide_sample ! unat (id_channel (ide_devices ide_sample ! 0)))"
    by (simp_all add: ide_sample_def)
  from ide_lba_programmed [OF this, of "0x10000000" 2] show ?thesis
    by simp
qed

text \<open>Fact [ide_lba48_lost]: for a sector above 0x10000000 the byte that should carry the bits 24 to 31 of its number is
  computed with a logical instead of a bitwise and: two sectors that agree in their lowest 24 bits
  are programmed alike, so a write to one of them can go to the other.\<close>

theorem ide_lba48_lost:
  assumes "length (channels s) = 2" "id_channel device < 2" "ide_inputs s = st # rest" "bit st 6"
    and "x > 0x10000000" "y > 0x10000000" "take_bit 24 x = take_bit 24 y"
  shows "\<exists>s'. ide_set_device s device x sectors = Inr s' \<and> ide_set_device s device y sectors = Inr s'"
proof -
  have "bit x n = bit y n" if "n < 24" for n
    using arg_cong [OF assms(7), of "\<lambda>w. bit w n"] that by (simp add: bit_take_bit_iff)
  then have "take_bit 8 (drop_bit k x) = take_bit 8 (drop_bit k y)" if "k \<le> 16" for k
    using that by (intro bit_word_eqI) (auto simp: bit_take_bit_iff bit_drop_bit_eq)
  moreover have "w AND 0xFF = take_bit 8 w" for w :: u32
    by (simp add: take_bit_eq_mask mask_eq_exp_minus_1)
  ultimately have "drop_bit k x AND 0xFF = drop_bit k y AND 0xFF" if "k \<le> 16" for k
    using that by (simp only:)
  from this [of 0] this [of 8] this [of 16] show ?thesis
    using ide_set_device_log [OF assms(1-4) refl, of x sectors] ide_set_device_log [OF assms(1-4) refl, of y sectors] assms(5,6)
    by simp
qed

theorem ide_lba48_lost_witness:
  "\<exists>s'. ide_set_device ide_sample (ide_devices ide_sample ! 0) 0x12000005 1 = Inr s' \<and>
     ide_set_device ide_sample (ide_devices ide_sample ! 0) 0x35000005 1 = Inr s'"
  by (rule ide_lba48_lost [of _ _ "0x40" "[0x40]"]) (simp_all add: ide_sample_def take_bit_eq_mod)

end
