(* ===== verification/DList.thy ===== *)
theory DList
  imports BulbPrelude
begin

text \<open>
  The doubly linked lists that the block cache (\<open>src/kernel/fs/bio.c\<close>) and the inode cache
  (\<open>src/kernel/fs/inode.c\<close>) keep of their unused objects.  The objects live in a store; \<open>nx\<close> and \<open>pv\<close> read
  their links.  The backward link of the first object is not used and not constrained, because neither
  cache sets it.
\<close>

text \<open>The addresses on the list along the forward links, and the agreement of the backward links with them.\<close>

fun bl :: "('x \<Rightarrow> ptr) \<Rightarrow> (ptr \<Rightarrow> 'x option) \<Rightarrow> ptr \<Rightarrow> ptr list \<Rightarrow> bool" where
  "bl nx f p [] \<longleftrightarrow> p = NULL"
| "bl nx f p (q # qs) \<longleftrightarrow> p = q \<and> p \<noteq> NULL \<and> (\<exists>x. f p = Some x \<and> bl nx f (nx x) qs)"

fun pl :: "('x \<Rightarrow> ptr) \<Rightarrow> (ptr \<Rightarrow> 'x option) \<Rightarrow> ptr list \<Rightarrow> bool" where
  "pl pv f (p # q # qs) \<longleftrightarrow> (\<exists>y. f q = Some y \<and> pv y = p) \<and> pl pv f (q # qs)"
| "pl pv f [p] \<longleftrightarrow> True"
| "pl pv f [] \<longleftrightarrow> True"

lemma bl_cong:
  assumes "bl nx f p L" "\<And>q x. q \<in> set L \<Longrightarrow> f q = Some x \<Longrightarrow> \<exists>y. g q = Some y \<and> nx y = nx x"
  shows "bl nx g p L"
  using assms
proof (induction L arbitrary: p)
  case (Cons q L)
  then obtain x where x: "p = q" "p \<noteq> NULL" "f q = Some x" "bl nx f (nx x) L"
    by auto
  then obtain y where "g q = Some y" "nx y = nx x"
    using Cons.prems(2) [of q x] by auto
  then show ?case
    using x Cons.IH [of "nx x"] Cons.prems(2) by auto
qed simp

lemma pl_cong:
  assumes "pl pv f L" "\<And>q x. q \<in> set (tl L) \<Longrightarrow> f q = Some x \<Longrightarrow> \<exists>y. g q = Some y \<and> pv y = pv x"
  shows "pl pv g L"
  using assms
proof (induction pv f L rule: pl.induct)
  case (1 pv f p q qs)
  then obtain x where x: "f q = Some x" "pv x = p"
    by auto
  then obtain y where "g q = Some y" "pv y = p"
    using 1(3) [of q x] by auto
  moreover have "pl pv g (q # qs)"
    using 1 by auto
  ultimately show ?case
    by auto
qed auto

lemma bl_mem: "bl nx f p L \<Longrightarrow> q \<in> set L \<Longrightarrow> \<exists>x. f q = Some x \<and> q \<noteq> NULL"
  by (induction L arbitrary: p) auto

lemma bl_head: "bl nx f h (q # qs) \<Longrightarrow> h = q"
  by simp

lemma bl_head_null: "bl nx f h L \<Longrightarrow> h = NULL \<longleftrightarrow> L = []"
  by (cases L) auto

lemma bl_split:
  "bl nx f p (xs @ q # ys) \<Longrightarrow> \<exists>x. f q = Some x \<and> q \<noteq> NULL \<and> bl nx f (nx x) ys"
  by (induction xs arbitrary: p) auto

lemma bl_last: "bl nx f h (xs @ [p]) \<Longrightarrow> \<exists>x. f p = Some x \<and> nx x = NULL \<and> p \<noteq> NULL"
  by (induction xs arbitrary: h) auto

lemma pl_split:
  "pl pv f (xs @ p # q # ys) \<Longrightarrow> \<exists>y. f q = Some y \<and> pv y = p"
proof (induction xs)
  case (Cons x xs)
  then show ?case
    by (cases xs) auto
qed auto

lemma pl_append: "pl pv f (xs @ p # ys) \<longleftrightarrow> pl pv f (xs @ [p]) \<and> pl pv f (p # ys)"
proof (induction xs)
  case (Cons x xs)
  then show ?case
    by (cases xs) auto
qed simp

lemma bl_unlink:
  assumes "bl nx f h (xs @ a # p # ys)" "f p = Some x" "distinct (xs @ a # p # ys)"
    and "g a = Some y" "nx y = nx x" "\<And>q u. q \<noteq> a \<Longrightarrow> f q = Some u \<Longrightarrow> \<exists>v. g q = Some v \<and> nx v = nx u"
  shows "bl nx g h (xs @ a # ys)"
  using assms(1-3)
proof (induction xs arbitrary: h)
  case Nil
  then have a: "bl nx f (nx x) ys" "h = a" "a \<noteq> NULL" "a \<notin> set ys"
    by auto
  have "bl nx g (nx x) ys"
    using a(1) by (rule bl_cong) (use a(4) assms(6) in metis)
  then show ?case
    using a assms(4,5) by simp
next
  case (Cons q xs)
  then show ?case
    using assms(6) [of q] by auto
qed

text \<open>Taking an object with two neighbours out of the list.\<close>

lemma dlist_unlink:
  assumes list: "bl nx f h (xs @ a # p # c # ys)" "pl pv f (xs @ a # p # c # ys)" "distinct (xs @ a # p # c # ys)"
    and a: "g a = Some ya" "nx ya = c" "\<And>u. f a = Some u \<Longrightarrow> pv ya = pv u"
    and c: "g c = Some yc" "pv yc = a" "\<And>u. f c = Some u \<Longrightarrow> nx yc = nx u"
    and other: "\<And>q. q \<noteq> a \<Longrightarrow> q \<noteq> c \<Longrightarrow> g q = f q"
  shows "bl nx g h (xs @ a # c # ys) \<and> pl pv g (xs @ a # c # ys)"
proof
  obtain x where x: "f p = Some x" "nx x = c"
    using bl_split [of nx f h "xs @ [a]" p "c # ys"] list(1) by auto
  show "bl nx g h (xs @ a # c # ys)"
  proof (rule bl_unlink [where f = f and g = g and x = x and y = ya, OF list(1) x(1) list(3) a(1)])
    show "nx ya = nx x"
      using a(2) x(2) by simp
    show "\<exists>v. g q = Some v \<and> nx v = nx u" if "q \<noteq> a" "f q = Some u" for q u
      using that c(1,3) other [of q] by (cases "q = c") auto
  qed
  have parts: "pl pv f (xs @ [a])" "pl pv f (c # ys)"
    using list(2) pl_append [of pv f xs a "p # c # ys"] by auto
  have "pl pv g (xs @ [a])"
    using parts(1)
  proof (rule pl_cong)
    fix q u
    assume q: "q \<in> set (tl (xs @ [a]))" "f q = Some u"
    then have "q \<noteq> c"
      using list(3) by (cases xs) auto
    then show "\<exists>v. g q = Some v \<and> pv v = pv u"
      using q(2) a(1,3) other [of q] by (cases "q = a") auto
  qed
  moreover have "pl pv g (c # ys)"
    using parts(2) by (rule pl_cong) (use list(3) other in fastforce)
  ultimately show "pl pv g (xs @ a # c # ys)"
    unfolding pl_append [of pv g xs a "c # ys"] using c(1,2) by simp
qed

text \<open>Putting an object in front of the list.\<close>

lemma dlist_push:
  assumes list: "bl nx f h L" "pl pv f L" "distinct L" "p \<notin> set L" "p \<noteq> NULL"
    and p: "g p = Some x" "nx x = h"
    and h: "\<And>u. h \<noteq> NULL \<Longrightarrow> f h = Some u \<Longrightarrow> \<exists>v. g h = Some v \<and> pv v = p \<and> nx v = nx u"
    and other: "\<And>q. q \<noteq> p \<Longrightarrow> q \<noteq> h \<Longrightarrow> g q = f q"
  shows "bl nx g p (p # L) \<and> pl pv g (p # L)"
proof
  have "bl nx g h L"
    using list(1)
  proof (rule bl_cong)
    fix q u
    assume q: "q \<in> set L" "f q = Some u"
    then have "q \<noteq> p" "q \<noteq> NULL"
      using list(4) bl_mem [OF list(1)] by auto
    then show "\<exists>v. g q = Some v \<and> nx v = nx u"
      using q(2) h [of u] other [of q] by (cases "q = h") auto
  qed
  then show "bl nx g p (p # L)"
    using p list(5) by simp
  show "pl pv g (p # L)"
  proof (cases L)
    case (Cons k L')
    then have k: "h = k" "k \<noteq> NULL" "k \<notin> set L'" "\<exists>u. f k = Some u"
      using list(1,3) by auto
    have "pl pv g L"
      using list(2) by (rule pl_cong) (use Cons k(1,3) list(4) other in fastforce)
    then show ?thesis
      using Cons k h by auto
  qed simp
qed

end
