(* ===== verification/Bio.thy ===== *)
theory Bio
  imports HashTable Mutex DList
begin

text \<open>
  The block cache of \<open>src/kernel/fs/bio.c\<close>: buffers found through a hash table keyed by device and
  block, and a doubly linked list of the buffers nobody uses, the next one to evict at its tail.
  Buffers are a store from addresses to records; the address the allocator gives for a new buffer
  and the bytes its memory holds are parameters.  The disk is the bytes of each drive; a transfer
  starts at the sector that contains its address and, as \<open>Ide\<close> shows, only works for at most 1 KiB
  or a multiple of 1 KiB up to the 4 KiB of the driver's transfer buffer.

  Shown here: the invariant that ties the table, the buffers and the list together, and that every
  operation that returns keeps it; what a read returns; that a buffer at either end of the list can
  never be taken out of it.
\<close>

section \<open>Data\<close>

record bio_buf_t =
  bf_device :: u32
  bf_block :: u32
  bf_ref_count :: int
  bf_valid :: bool
  bf_mutex :: semaphore_t
  bf_size :: u32
  bf_buffer :: "u8 list"
  bf_next :: ptr
  bf_prev :: ptr

record bio =
  bh_table :: hash_table_t
  bh_mutex :: semaphore_t
  bh_lhead :: ptr
  bh_ltail :: ptr
  bh_bufs :: "ptr \<Rightarrow> bio_buf_t option"
  bh_disk :: "u8 \<Rightarrow> nat \<Rightarrow> u8"

definition BIO_TABLE_SIZE :: u32 where "BIO_TABLE_SIZE = 50"
definition BIO_LOAD_FACTOR :: u32 where "BIO_LOAD_FACTOR = 75"

text \<open>The table has numbers as keys and is never enlarged, so the parameters of the hash table for
  strings and for new tables are not used.\<close>

abbreviation "bio_str \<equiv> (\<lambda>_ :: ptr. [] :: u8 list)"
abbreviation "bio_fresh \<equiv> (\<lambda>_ :: u32. [] :: hash_entry_t list)"

section \<open>The disk\<close>

definition transfer_ok :: "u32 \<Rightarrow> bool" where
  "transfer_ok size' \<longleftrightarrow> (unat size' \<le> 1024 \<or> 1024 dvd unat size') \<and> unat size' \<le> 4096"

text \<open>\<open>ide_read_disk\<close> followed by \<open>ide_read_disk_buffer\<close>, and \<open>ide_write_disk\<close>.\<close>

definition disk_read :: "(u8 \<Rightarrow> nat \<Rightarrow> u8) \<Rightarrow> u32 \<Rightarrow> u32 \<Rightarrow> u32 \<Rightarrow> u8 list res" where
  "disk_read d device addr size' =
     (if transfer_ok size' then Inr (map (\<lambda>i. d (ucast device) (unat (addr div 512) * 512 + i)) [0..<unat size'])
      else Inl BadAccess)"

definition disk_write :: "(u8 \<Rightarrow> nat \<Rightarrow> u8) \<Rightarrow> u32 \<Rightarrow> u8 list \<Rightarrow> u32 \<Rightarrow> u32 \<Rightarrow> (u8 \<Rightarrow> nat \<Rightarrow> u8) res" where
  "disk_write d device buffer addr size' =
     (if transfer_ok size' \<and> unat size' \<le> length buffer then
        let start = unat (addr div 512) * 512 in
        Inr (d(ucast device := (\<lambda>a. if start \<le> a \<and> a < start + unat size' then buffer ! (a - start) else d (ucast device) a)))
      else Inl BadAccess)"

section \<open>Operations\<close>

definition buf_get :: "bio \<Rightarrow> ptr \<Rightarrow> bio_buf_t res" where
  "buf_get b p = (case bh_bufs b p of None \<Rightarrow> Inl BadAccess | Some x \<Rightarrow> Inr x)"

definition buf_upd :: "bio \<Rightarrow> ptr \<Rightarrow> (bio_buf_t \<Rightarrow> bio_buf_t) \<Rightarrow> bio res" where
  "buf_upd b p f = rbind (buf_get b p) (\<lambda>x. Inr (b\<lparr>bh_bufs := (bh_bufs b)(p \<mapsto> f x)\<rparr>))"

definition bio_key :: "u32 \<Rightarrow> u32 \<Rightarrow> hash_key_t" where
  "bio_key device block = push_bit 32 (ucast device) OR ucast block"

definition bio_alloc :: "bio \<Rightarrow> ptr \<Rightarrow> u8 list \<Rightarrow> u32 \<Rightarrow> u32 \<Rightarrow> u32 \<Rightarrow> bio" where
  "bio_alloc b p mem device block size' =
     b\<lparr>bh_bufs := (bh_bufs b)(p \<mapsto> \<lparr>bf_device = device, bf_block = block, bf_ref_count = 1, bf_valid = False,
        bf_mutex = mutex_create, bf_size = size', bf_buffer = mem, bf_next = NULL, bf_prev = NULL\<rparr>)\<rparr>"

definition bio_remove :: "bio \<Rightarrow> ptr \<Rightarrow> bio res" where
  "bio_remove b p =
     rbind (buf_get b p) (\<lambda>x.
       if bf_next x = NULL \<and> bf_prev x = NULL then Inl Abort
       else if bh_lhead b = NULL \<and> bh_ltail b = NULL then Inl Abort
       else
         rbind (if p = bh_lhead b
                then buf_upd (b\<lparr>bh_lhead := bf_next x\<rparr>) (bf_next x) (\<lambda>y. y\<lparr>bf_prev := NULL\<rparr>)
                else Inr b) (\<lambda>b.
         rbind (if p = bh_ltail b
                then rbind (buf_get b p) (\<lambda>x. buf_upd (b\<lparr>bh_ltail := bf_prev x\<rparr>) (bf_prev x) (\<lambda>y. y\<lparr>bf_next := NULL\<rparr>))
                else Inr b) (\<lambda>b.
         if p \<noteq> bh_ltail b \<and> p \<noteq> bh_lhead b then
           rbind (buf_get b p) (\<lambda>x.
           rbind (buf_upd b (bf_prev x) (\<lambda>y. y\<lparr>bf_next := bf_next x\<rparr>)) (\<lambda>b.
             buf_upd b (bf_next x) (\<lambda>y. y\<lparr>bf_prev := bf_prev x\<rparr>)))
         else Inr b)))"

definition bio_evict :: "bio \<Rightarrow> bio res" where
  "bio_evict b =
     (if bh_ltail b = NULL then Inl Abort
      else
        rbind (buf_get b (bh_ltail b)) (\<lambda>old.
        if bf_ref_count old \<noteq> 0 then Inl Abort
        else
          rbind (ht_remove bio_str (bh_table b) (bio_key (bf_device old) (bf_block old))) (\<lambda>(r, t).
          if r \<noteq> 0 then Inl Abort
          else
            let p = bh_ltail b in
            rbind (bio_remove (b\<lparr>bh_table := t\<rparr>) p) (\<lambda>b.
              Inr (b\<lparr>bh_bufs := (bh_bufs b)(p := None)\<rparr>)))))"

text \<open>The loop that evicts until the new buffer fits.  Every round takes one buffer away, so the number
  of buffers in the list is enough fuel.\<close>

fun bio_evict_loop :: "nat \<Rightarrow> bio \<Rightarrow> hash_key_t \<Rightarrow> ptr \<Rightarrow> (int \<times> bio) res" where
  "bio_evict_loop 0 b key p = Inl Hang"
| "bio_evict_loop (Suc n) b key p =
     rbind (bio_evict b) (\<lambda>b.
     rbind (ht_set bio_fresh bio_str (bh_table b) key p) (\<lambda>(ret, t).
       let b = b\<lparr>bh_table := t\<rparr> in
       if ret \<noteq> 0 \<and> bh_ltail b \<noteq> NULL then bio_evict_loop n b key p else Inr (ret, b)))"

definition bio_lock :: "bio \<Rightarrow> bio res" where
  "bio_lock b = rbind (lock_acquire (bh_mutex b)) (\<lambda>m. Inr (b\<lparr>bh_mutex := m\<rparr>))"

definition bio_unlock :: "bio \<Rightarrow> bio res" where
  "bio_unlock b = rbind (lock_release (bh_mutex b)) (\<lambda>m. Inr (b\<lparr>bh_mutex := m\<rparr>))"

text \<open>\<open>mutex_release(bio_head.mutex); mutex_acquire(buf->mutex); return buf;\<close>\<close>

definition bio_return :: "bio \<Rightarrow> ptr \<Rightarrow> (ptr \<times> bio) res" where
  "bio_return b p =
     rbind (bio_unlock b) (\<lambda>b.
     rbind (buf_get b p) (\<lambda>x.
     rbind (lock_acquire (bf_mutex x)) (\<lambda>m.
     rbind (buf_upd b p (\<lambda>y. y\<lparr>bf_mutex := m\<rparr>)) (\<lambda>b. Inr (p, b)))))"

definition bio_get :: "nat \<Rightarrow> bio \<Rightarrow> ptr \<Rightarrow> u8 list \<Rightarrow> u32 \<Rightarrow> u32 \<Rightarrow> u32 \<Rightarrow> (ptr \<times> bio) res" where
  "bio_get n b new mem device block size' =
     rbind (bio_lock b) (\<lambda>b.
     let key = bio_key device block in
     rbind (ht_get bio_str (bh_table b) key) (\<lambda>p.
     if p \<noteq> NULL then
       rbind (buf_get b p) (\<lambda>x.
       if size' \<noteq> bf_size x then Inl Abort
       else
         rbind (buf_upd b p (\<lambda>y. y\<lparr>bf_ref_count := bf_ref_count y + 1\<rparr>)) (\<lambda>b.
         rbind (if bf_ref_count x = 0 then bio_remove b p else Inr b) (\<lambda>b.
           bio_return b p)))
     else
       let b = bio_alloc b new mem device block size' in
       rbind (ht_set bio_fresh bio_str (bh_table b) key new) (\<lambda>(ret, t).
       let b = b\<lparr>bh_table := t\<rparr> in
       if ret = 0 then bio_return b new
       else
         rbind (bio_evict_loop n b key new) (\<lambda>(ret, b).
           if ret = 0 then bio_return b new else Inl Abort))))"

definition bio_release :: "bio \<Rightarrow> ptr \<Rightarrow> bio res" where
  "bio_release b p =
     rbind (bio_lock b) (\<lambda>b.
     rbind (buf_upd b p (\<lambda>y. y\<lparr>bf_ref_count := bf_ref_count y - 1\<rparr>)) (\<lambda>b.
     rbind (buf_get b p) (\<lambda>x.
     rbind (if bf_ref_count x = 0 then
              rbind (if bh_lhead b = NULL then Inr (b\<lparr>bh_ltail := p\<rparr>)
                     else buf_upd b (bh_lhead b) (\<lambda>y. y\<lparr>bf_prev := p\<rparr>)) (\<lambda>b.
              rbind (buf_upd b p (\<lambda>y. y\<lparr>bf_next := bh_lhead b\<rparr>)) (\<lambda>b.
                Inr (b\<lparr>bh_lhead := p\<rparr>)))
            else Inr b) (\<lambda>b.
     rbind (bio_unlock b) (\<lambda>b.
     rbind (buf_get b p) (\<lambda>x.
     rbind (lock_release (bf_mutex x)) (\<lambda>m.
       buf_upd b p (\<lambda>y. y\<lparr>bf_mutex := m\<rparr>))))))))"

definition bio_read :: "nat \<Rightarrow> bio \<Rightarrow> ptr \<Rightarrow> u8 list \<Rightarrow> u32 \<Rightarrow> u32 \<Rightarrow> u32 \<Rightarrow> (ptr \<times> bio) res" where
  "bio_read n b new mem device block size' =
     rbind (bio_get n b new mem device block size') (\<lambda>(p, b).
     rbind (buf_get b p) (\<lambda>x.
     if \<not> bf_valid x then
       rbind (disk_read (bh_disk b) device (block * size') size') (\<lambda>data.
       rbind (buf_upd b p (\<lambda>y. y\<lparr>bf_buffer := data, bf_valid := True\<rparr>)) (\<lambda>b. Inr (p, b)))
     else Inr (p, b)))"

definition bio_write :: "bio \<Rightarrow> ptr \<Rightarrow> bio res" where
  "bio_write b p =
     rbind (buf_get b p) (\<lambda>x.
     rbind (disk_write (bh_disk b) (bf_device x) (bf_buffer x) (bf_block x * bf_size x) (bf_size x)) (\<lambda>d.
       buf_upd (b\<lparr>bh_disk := d\<rparr>) p (\<lambda>y. y\<lparr>bf_valid := False\<rparr>)))"

definition bio_init :: "(u8 \<Rightarrow> nat \<Rightarrow> u8) \<Rightarrow> bio res" where
  "bio_init disk =
     rbind (ht_create BIO_TABLE_SIZE BIO_LOAD_FACTOR 0) (\<lambda>t.
       Inr \<lparr>bh_table = t, bh_mutex = mutex_create, bh_lhead = NULL, bh_ltail = NULL,
            bh_bufs = (\<lambda>_. None), bh_disk = disk\<rparr>)"

section \<open>The invariant\<close>

definition key_of :: "bio_buf_t \<Rightarrow> hash_key_t" where
  "key_of x = bio_key (bf_device x) (bf_block x)"

definition bio_inv :: "bio \<Rightarrow> ptr list \<Rightarrow> bool" where
  "bio_inv b L \<longleftrightarrow> ht_cache_inv bio_str (bh_table b) \<and> lock_free (bh_mutex b) \<and>
     (\<forall>k p. ht_get bio_str (bh_table b) k = Inr p \<and> p \<noteq> NULL \<longrightarrow> (\<exists>x. bh_bufs b p = Some x \<and> key_of x = k)) \<and>
     (\<forall>p x. bh_bufs b p = Some x \<longrightarrow> p \<noteq> NULL \<and> ht_get bio_str (bh_table b) (key_of x) = Inr p \<and>
        (if p \<in> set L then bf_ref_count x = 0 \<and> lock_free (bf_mutex x)
         else bf_ref_count x = 1 \<and> lock_held (bf_mutex x))) \<and>
     bl bf_next (bh_bufs b) (bh_lhead b) L \<and> pl bf_prev (bh_bufs b) L \<and> distinct L \<and>
     bh_ltail b = (if L = [] then NULL else last L)"

lemma bio_invD:
  assumes "bio_inv b L"
  shows "ht_cache_inv bio_str (bh_table b)" "lock_free (bh_mutex b)"
    "\<And>k p. ht_get bio_str (bh_table b) k = Inr p \<Longrightarrow> p \<noteq> NULL \<Longrightarrow> \<exists>x. bh_bufs b p = Some x \<and> key_of x = k"
    "\<And>p x. bh_bufs b p = Some x \<Longrightarrow> p \<noteq> NULL \<and> ht_get bio_str (bh_table b) (key_of x) = Inr p"
    "\<And>p x. bh_bufs b p = Some x \<Longrightarrow> p \<in> set L \<Longrightarrow> bf_ref_count x = 0 \<and> lock_free (bf_mutex x)"
    "\<And>p x. bh_bufs b p = Some x \<Longrightarrow> p \<notin> set L \<Longrightarrow> bf_ref_count x = 1 \<and> lock_held (bf_mutex x)"
    "bl bf_next (bh_bufs b) (bh_lhead b) L" "pl bf_prev (bh_bufs b) L" "distinct L" "bh_ltail b = (if L = [] then NULL else last L)"
  using assms unfolding bio_inv_def by (auto split: if_splits)

section \<open>Taking a buffer out of the list\<close>

lemma buf_get_Some: "bh_bufs b p = Some x \<Longrightarrow> buf_get b p = Inr x"
  by (simp add: buf_get_def)

lemma buf_upd_Some: "bh_bufs b p = Some x \<Longrightarrow> buf_upd b p f = Inr (b\<lparr>bh_bufs := (bh_bufs b)(p \<mapsto> f x)\<rparr>)"
  by (simp add: buf_upd_def buf_get_def)

text \<open>Two buffers that differ in their links alone.\<close>

definition relinked :: "bio_buf_t \<Rightarrow> bio_buf_t \<Rightarrow> bool" where
  "relinked u v \<longleftrightarrow> v = u\<lparr>bf_next := bf_next v, bf_prev := bf_prev v\<rparr>"

lemma relinked_simps [simp]: "relinked u u" "relinked u (u\<lparr>bf_next := i\<rparr>)" "relinked u (u\<lparr>bf_prev := i\<rparr>)"
  by (simp_all add: relinked_def)

lemma relinkedD:
  assumes "relinked u v"
  shows "key_of v = key_of u" "bf_ref_count v = bf_ref_count u" "bf_mutex v = bf_mutex u" "bf_buffer v = bf_buffer u" "bf_valid v = bf_valid u"
  using arg_cong [OF assms [unfolded relinked_def], of key_of] arg_cong [OF assms [unfolded relinked_def], of bf_ref_count]
    arg_cong [OF assms [unfolded relinked_def], of bf_mutex] arg_cong [OF assms [unfolded relinked_def], of bf_buffer]
    arg_cong [OF assms [unfolded relinked_def], of bf_valid]
  by (simp_all add: key_of_def)


lemma bio_remove_middle:
  assumes "bl bf_next (bh_bufs b) (bh_lhead b) (xs @ a # p # c # ys)" "pl bf_prev (bh_bufs b) (xs @ a # p # c # ys)"
    and "distinct (xs @ a # p # c # ys)" "bh_ltail b = last (c # ys)"
  shows "\<exists>f. bio_remove b p = Inr (b\<lparr>bh_bufs := f\<rparr>) \<and> bl bf_next f (bh_lhead b) (xs @ a # c # ys) \<and> pl bf_prev f (xs @ a # c # ys) \<and>
           f p = bh_bufs b p \<and> (\<forall>q. rel_option relinked (bh_bufs b q) (f q))"
proof -
  let ?f = "bh_bufs b"
  obtain x where x: "?f p = Some x" "p \<noteq> NULL" "bf_next x = c"
    using bl_split [of bf_next ?f "bh_lhead b" "xs @ [a]" p "c # ys"] assms(1) by auto
  have prev: "bf_prev x = a"
    using pl_split [of bf_prev ?f xs a p "c # ys"] assms(2) x(1) by auto
  obtain ya where ya: "?f a = Some ya" "a \<noteq> NULL"
    using bl_mem [OF assms(1), of a] by auto
  obtain yc where yc: "?f c = Some yc" "c \<noteq> NULL"
    using bl_mem [OF assms(1), of c] by auto
  have ne: "a \<noteq> p" "c \<noteq> p" "a \<noteq> c" "a \<notin> set xs" "c \<notin> set xs" "a \<notin> set ys" "c \<notin> set ys" "p \<notin> set xs" "p \<notin> set ys"
    using assms(3) by auto
  have ends: "p \<noteq> bh_lhead b" "p \<noteq> bh_ltail b" "bh_lhead b \<noteq> NULL"
    using assms(1,4) ne by (cases xs; auto split: if_splits)+
  define h where "h = ?f(a \<mapsto> ya\<lparr>bf_next := c\<rparr>, c \<mapsto> yc\<lparr>bf_prev := a\<rparr>)"
  have run: "bio_remove b p = Inr (b\<lparr>bh_bufs := h\<rparr>)"
    using x yc ya ends ne prev by (simp add: bio_remove_def buf_get_Some buf_upd_Some h_def)
  moreover have "bl bf_next h (bh_lhead b) (xs @ a # c # ys) \<and> pl bf_prev h (xs @ a # c # ys)"
    by (rule dlist_unlink [where ya = "ya\<lparr>bf_next := c\<rparr>" and yc = "yc\<lparr>bf_prev := a\<rparr>", OF assms(1,2,3)]) (use ya yc ne in \<open>auto simp: h_def\<close>)
  moreover have "rel_option relinked (?f q) (h q)" for q
    using ya yc ne by (cases "?f q") (auto simp: h_def)
  ultimately show ?thesis
    using ne by (intro exI [of _ h]) (auto simp: h_def)
qed

interpretation bm: monitor bh_mutex "\<lambda>m. bh_mutex_update (\<lambda>_. m)" bio_lock bio_unlock
  by unfold_locales (simp_all add: bio_lock_def bio_unlock_def)

lemma bio_lock_inv: "bio_inv b L \<Longrightarrow> bio_lock b = Inr (b\<lparr>bh_mutex := (bh_mutex b)\<lparr>current_count := 1\<rparr>\<rparr>)"
  by (rule bm.lock_free_run [OF bio_invD(2)])

lemmas bio_unlock_held = bm.unlock_held_run

lemma bio_return_run:
  assumes "bh_mutex b = m\<lparr>current_count := 1\<rparr>" "lock_free m" "bh_bufs b p = Some x" "lock_free (bf_mutex x)"
  shows "bio_return b p = Inr (p, b\<lparr>bh_mutex := m, bh_bufs := (bh_bufs b)(p \<mapsto> x\<lparr>bf_mutex := (bf_mutex x)\<lparr>current_count := 1\<rparr>\<rparr>)\<rparr>)"
  using assms lock_acquire_free [of "bf_mutex x"]
  by (simp add: bio_return_def bio_unlock_held buf_get_Some buf_upd_Some)

text \<open>A changed buffer that keeps its key and its place in the list.\<close>

lemma bio_key_inj: "bio_key d k = bio_key d' k' \<longleftrightarrow> d = d' \<and> k = k'"
  by (simp add: bio_key_def pair_key_inj)

lemma bio_reacquire_run:
  assumes inv: "bio_inv b (xs @ a # p # c # ys)" and x: "bh_bufs b p = Some x"
    and key: "bf_device x = device" "bf_block x = block" "bf_size x = size'"
  shows "\<exists>b'. bio_get n b new mem device block size' = Inr (p, b') \<and> bio_inv b' (xs @ a # c # ys) \<and>
           bh_table b' = bh_table b \<and> bh_disk b' = bh_disk b \<and>
           (\<exists>x'. bh_bufs b' p = Some x' \<and> bf_ref_count x' = 1 \<and> lock_held (bf_mutex x') \<and>
              key_of x' = key_of x \<and> bf_buffer x' = bf_buffer x \<and> bf_valid x' = bf_valid x)"
proof -
  let ?L = "xs @ a # p # c # ys" and ?L' = "xs @ a # c # ys"
  note I = bio_invD [OF inv]
  let ?m = "bh_mutex b"
  define x1 where "x1 = x\<lparr>bf_ref_count := 1\<rparr>"
  define b1 where "b1 = b\<lparr>bh_mutex := ?m\<lparr>current_count := 1\<rparr>, bh_bufs := (bh_bufs b)(p \<mapsto> x1)\<rparr>"
  have x0: "p \<noteq> NULL" "ht_get bio_str (bh_table b) (bio_key device block) = Inr p" "bf_ref_count x = 0" "lock_free (bf_mutex x)"
    using I(4) [OF x] I(5) [OF x] key by (auto simp: key_of_def)
  have b1: "bh_bufs b1 = (bh_bufs b)(p \<mapsto> x1)" "bh_lhead b1 = bh_lhead b" "bh_ltail b1 = bh_ltail b"
    by (simp_all add: b1_def)
  have "bl bf_next (bh_bufs b1) (bh_lhead b1) ?L"
    unfolding b1 using I(7) by (rule bl_cong) (use x in \<open>auto simp: x1_def\<close>)
  moreover have "pl bf_prev (bh_bufs b1) ?L"
    unfolding b1 using I(8) by (rule pl_cong) (use x in \<open>auto simp: x1_def\<close>)
  moreover have "bh_ltail b1 = last (c # ys)"
    using I(10) by (auto simp: b1_def)
  ultimately obtain f where f: "bio_remove b1 p = Inr (b1\<lparr>bh_bufs := f\<rparr>)" "bl bf_next f (bh_lhead b1) ?L'" "pl bf_prev f ?L'" "f p = bh_bufs b1 p"
      "\<forall>q. rel_option relinked (bh_bufs b1 q) (f q)"
    using bio_remove_middle [of b1 xs a p c ys] I(9) by blast
  have fp: "f p = Some x1"
    using f(4) by (simp add: b1_def)
  define x2 where "x2 = x1\<lparr>bf_mutex := (bf_mutex x1)\<lparr>current_count := 1\<rparr>\<rparr>"
  define b2 where "b2 = b\<lparr>bh_bufs := f(p \<mapsto> x2)\<rparr>"
  have b2: "bh_bufs b2 = f(p \<mapsto> x2)" "bh_lhead b2 = bh_lhead b"
    by (simp_all add: b2_def)
  have ret: "bio_return (b1\<lparr>bh_bufs := f\<rparr>) p = Inr (p, b2)"
    using bio_return_run [of "b1\<lparr>bh_bufs := f\<rparr>" ?m p x1] I(2) fp x0(4)
    by (simp add: b1_def b2_def x2_def) (simp add: x1_def)
  have run: "bio_get n b new mem device block size' = Inr (p, b2)"
    using x0 x key f(1) ret
    by (simp add: bio_get_def bio_lock_inv [OF inv] Let_def buf_get_Some buf_upd_Some b1_def x1_def)
  have held: "bf_ref_count x2 = 1" "lock_held (bf_mutex x2)" "key_of x2 = key_of x" "bf_buffer x2 = bf_buffer x" "bf_valid x2 = bf_valid x"
    using x0(4) lock_acquire_free [of "bf_mutex x"] by (simp_all add: x2_def x1_def key_of_def)
  have other: "\<exists>v. bh_bufs b q = Some v \<and> key_of u = key_of v \<and> bf_ref_count u = bf_ref_count v \<and> bf_mutex u = bf_mutex v"
    if "f q = Some u" "q \<noteq> p" for q u
    using that f(5) [rule_format, of q] by (cases "bh_bufs b q") (auto simp: b1_def dest: relinkedD)
  have kept: "\<exists>u. f q = Some u \<and> key_of u = key_of v" if "bh_bufs b q = Some v" "q \<noteq> p" for q v
    using that f(5) [rule_format, of q] by (cases "f q") (auto simp: b1_def dest: relinkedD)
  have pL: "p \<notin> set ?L'" "set ?L = insert p (set ?L')"
    using I(9) by auto
  have "bio_inv b2 ?L'"
    unfolding bio_inv_def
  proof (intro conjI allI impI)
    show "ht_cache_inv bio_str (bh_table b2)" "lock_free (bh_mutex b2)"
      using I(1,2) by (simp_all add: b2_def)
    show "\<exists>u. bh_bufs b2 q = Some u \<and> key_of u = k" if "ht_get bio_str (bh_table b2) k = Inr q \<and> q \<noteq> NULL" for k q
      using I(3) [of k q] that x held(3) kept [of q] by (cases "q = p") (auto simp: b2_def)
    fix q u
    assume q: "bh_bufs b2 q = Some u"
    show "q \<noteq> NULL" "ht_get bio_str (bh_table b2) (key_of u) = Inr q"
      using q x held(3) I(4) other [of q u] by (cases "q = p"; fastforce simp: b2_def)+
    show "if q \<in> set ?L' then bf_ref_count u = 0 \<and> lock_free (bf_mutex u) else bf_ref_count u = 1 \<and> lock_held (bf_mutex u)"
    proof (cases "q = p")
      case True
      then show ?thesis
        using q pL(1) held by (simp add: b2_def)
    next
      case False
      then obtain v where v: "bh_bufs b q = Some v" "bf_ref_count u = bf_ref_count v" "bf_mutex u = bf_mutex v"
        using q other [of q u] by (auto simp: b2_def)
      have "q \<in> set ?L \<longleftrightarrow> q \<in> set ?L'"
        unfolding pL(2) using False by blast
      then show ?thesis
        using I(5) [OF v(1)] I(6) [OF v(1)] v by auto
    qed
  next
    have "bl bf_next f (bh_lhead b) ?L'"
      using f(2) by (simp add: b1_def)
    then show "bl bf_next (bh_bufs b2) (bh_lhead b2) ?L'"
      unfolding b2 by (rule bl_cong) (use pL(1) in auto)
    show "pl bf_prev (bh_bufs b2) ?L'"
      unfolding b2 using f(3) by (rule pl_cong) (use pL(1) in \<open>auto dest: list.set_sel(2) [rotated]\<close>)
    show "distinct ?L'" "bh_ltail b2 = (if ?L' = [] then NULL else last ?L')"
      using I(9,10) by (auto simp: b2_def)
  qed
  then show ?thesis
    using run held by (intro exI [of _ b2]) (simp add: b2_def)
qed

section \<open>Giving a buffer back\<close>

lemma bio_release_run:
  assumes inv: "bio_inv b L" and x: "bh_bufs b p = Some x" and out: "p \<notin> set L"
  shows "\<exists>b'. bio_release b p = Inr b' \<and> bio_inv b' (p # L) \<and> bh_table b' = bh_table b \<and> bh_disk b' = bh_disk b \<and>
           (\<forall>q. rel_option (\<lambda>u v. key_of v = key_of u \<and> bf_buffer v = bf_buffer u \<and> bf_valid v = bf_valid u \<and> bf_size v = bf_size u)
              (bh_bufs b q) (bh_bufs b' q))"
proof -
  note I = bio_invD [OF inv]
  let ?m = "bh_mutex b" and ?f = "bh_bufs b"
  have p: "p \<noteq> NULL" "ht_get bio_str (bh_table b) (key_of x) = Inr p" "bf_ref_count x = 1" "lock_held (bf_mutex x)"
    using I(4) [OF x] I(6) [OF x out] by auto
  define x' where "x' = x\<lparr>bf_ref_count := 0, bf_next := bh_lhead b, bf_mutex := (bf_mutex x)\<lparr>current_count := 0\<rparr>\<rparr>"
  define f where "f = (if bh_lhead b = NULL then ?f else ?f(bh_lhead b := map_option (\<lambda>y. y\<lparr>bf_prev := p\<rparr>) (?f (bh_lhead b))))(p \<mapsto> x')"
  define b' where "b' = b\<lparr>bh_bufs := f, bh_lhead := p, bh_ltail := (if bh_lhead b = NULL then p else bh_ltail b)\<rparr>"
  have head: "bh_lhead b = NULL \<longleftrightarrow> L = []" "bh_lhead b \<noteq> NULL \<Longrightarrow> bh_lhead b = hd L \<and> hd L \<in> set L \<and> (\<exists>y. ?f (hd L) = Some y)"
    using I(7) by (cases L; auto)+
  have hp: "bh_lhead b \<noteq> p"
    using head(2) out p(1) by metis
  have run: "bio_release b p = Inr b'"
    using head(2) hp x p lock_release_held [OF p(4)] I(2)
    by (auto simp: bio_release_def bio_lock_inv [OF inv] buf_upd_def buf_get_def bio_unlock_def lock_release_def lock_free_def
        b'_def f_def x'_def fun_upd_twist)
  have b': "bh_bufs b' = f" "bh_table b' = bh_table b" "bh_mutex b' = ?m" "bh_lhead b' = p" "bh_disk b' = bh_disk b"
    "bh_ltail b' = (if bh_lhead b = NULL then p else bh_ltail b)"
    by (simp_all add: b'_def)
  have x'p: "f p = Some x'" "bf_ref_count x' = 0" "lock_free (bf_mutex x')" "key_of x' = key_of x" "bf_next x' = bh_lhead b"
    using lock_release_held [OF p(4)] by (simp_all add: f_def x'_def key_of_def)
  have other: "rel_option (\<lambda>u v. \<exists>j. v = u\<lparr>bf_prev := j\<rparr>) (?f q) (f q)" if "q \<noteq> p" for q
  proof -
    have "\<exists>j. u = u\<lparr>bf_prev := j\<rparr>" for u :: bio_buf_t
      by (rule exI [of _ "bf_prev u"]) simp
    then show ?thesis
      using that head(2) by (cases "?f q") (auto simp: f_def)
  qed
  have orig: "\<exists>u. ?f q = Some u \<and> key_of v = key_of u \<and> bf_ref_count v = bf_ref_count u \<and> bf_mutex v = bf_mutex u \<and> bf_next v = bf_next u"
    if "f q = Some v" "q \<noteq> p" for q v
    using that other [of q] by (cases "?f q") (auto simp: key_of_def)
  have into: "\<exists>v. f q = Some v \<and> key_of v = key_of u \<and> bf_next v = bf_next u" if "?f q = Some u" "q \<noteq> p" for q u
    using that other [of q] by (cases "f q") (auto simp: key_of_def)
  have "bio_inv b' (p # L)"
    unfolding bio_inv_def b'
  proof (intro conjI allI impI)
    show "ht_cache_inv bio_str (bh_table b)" "lock_free ?m"
      using I(1,2) .
    show "\<exists>u. f q = Some u \<and> key_of u = k" if "ht_get bio_str (bh_table b) k = Inr q \<and> q \<noteq> NULL" for k q
      using I(3) [of k q] that x x'p into [of q] by (cases "q = p") auto
    fix q u
    assume q: "f q = Some u"
    show "q \<noteq> NULL" "ht_get bio_str (bh_table b) (key_of u) = Inr q"
      using q x x'p I(4) orig [of q u] by (cases "q = p"; fastforce)+
    show "if q \<in> set (p # L) then bf_ref_count u = 0 \<and> lock_free (bf_mutex u) else bf_ref_count u = 1 \<and> lock_held (bf_mutex u)"
      using q x'p orig [of q u] I(5,6) by (cases "q = p") fastforce+
  next
    have "bl bf_next f p (p # L) \<and> pl bf_prev f (p # L)"
      by (rule dlist_push [where f = ?f and g = f and x = x', OF I(7,8,9) out p(1) x'p(1,5)]) (use hp in \<open>auto simp: f_def\<close>)
    then show "bl bf_next f p (p # L)" "pl bf_prev f (p # L)"
      by auto
    show "distinct (p # L)"
      using I(9) out by simp
    show "(if bh_lhead b = NULL then p else bh_ltail b) = (if p # L = [] then NULL else last (p # L))"
      using head(1) I(10) by auto
  qed
  moreover have "rel_option (\<lambda>u v. key_of v = key_of u \<and> bf_buffer v = bf_buffer u \<and> bf_valid v = bf_valid u \<and> bf_size v = bf_size u) (?f q) (f q)" for q
    using other [of q] x x'p by (cases "?f q"; cases "f q"; cases "q = p") (auto simp: key_of_def x'_def)
  ultimately show ?thesis
    using run b' by (intro exI [of _ b']) simp
qed

section \<open>Reading a block\<close>

lemma bio_get_miss:
  assumes inv: "bio_inv b L" and miss: "ht_get bio_str (bh_table b) (bio_key device block) = Inr NULL"
    and room: "ht_room (bh_table b)" and new: "new \<noteq> NULL" "bh_bufs b new = None"
  shows "\<exists>b' x. bio_get n b new mem device block size' = Inr (new, b') \<and> bio_inv b' L \<and> bh_disk b' = bh_disk b \<and>
           ht_set bio_fresh bio_str (bh_table b) (bio_key device block) new = Inr (0, bh_table b') \<and>
           bh_bufs b' = (bh_bufs b)(new \<mapsto> x) \<and> bf_device x = device \<and> bf_block x = block \<and> bf_size x = size' \<and>
           bf_valid x = False \<and> bf_ref_count x = 1 \<and> lock_held (bf_mutex x)"
proof -
  note I = bio_invD [OF inv]
  let ?m = "bh_mutex b" and ?f = "bh_bufs b" and ?key = "bio_key device block"
  obtain t where t: "ht_set bio_fresh bio_str (bh_table b) ?key new = Inr (0, t)" "ht_cache_inv bio_str t"
      "\<And>k. ht_get bio_str t k = (if k = ?key then Inr new else ht_get bio_str (bh_table b) k)"
    using htc.put_new [OF I(1) room miss new(1), of bio_fresh] by blast
  define x where "x = \<lparr>bf_device = device, bf_block = block, bf_ref_count = 1, bf_valid = False,
        bf_mutex = mutex_create\<lparr>current_count := 1\<rparr>, bf_size = size', bf_buffer = mem, bf_next = NULL, bf_prev = NULL\<rparr>"
  define b' where "b' = b\<lparr>bh_bufs := ?f(new \<mapsto> x), bh_table := t\<rparr>"
  have b': "bh_bufs b' = ?f(new \<mapsto> x)" "bh_table b' = t" "bh_mutex b' = ?m" "bh_lhead b' = bh_lhead b" "bh_ltail b' = bh_ltail b"
      "bh_disk b' = bh_disk b"
    by (simp_all add: b'_def)
  have held: "lock_held (bf_mutex x)" "bf_ref_count x = 1" "key_of x = ?key"
    using lock_acquire_free [OF lock_free_create] by (simp_all add: x_def key_of_def)
  have run: "bio_get n b new mem device block size' = Inr (new, b')"
    using miss t(1) bio_return_run [of "bio_alloc (b\<lparr>bh_mutex := ?m\<lparr>current_count := 1\<rparr>\<rparr>) new mem device block size'\<lparr>bh_table := t\<rparr>" ?m new
        "x\<lparr>bf_mutex := mutex_create\<rparr>"] I(2)
    by (simp add: bio_get_def bio_lock_inv [OF inv] Let_def bio_alloc_def b'_def) (simp add: x_def)
  have fresh: "new \<notin> set L"
    using bl_mem [OF I(7), of new] new by auto
  have none: "key_of u \<noteq> ?key" if "?f q = Some u" for q u
    using I(4) [OF that] miss by auto
  have "bio_inv b' L"
    unfolding bio_inv_def b'
  proof (intro conjI allI impI)
    show "ht_cache_inv bio_str t" "lock_free ?m"
      using t(2) I(2) by auto
    show "\<exists>u. (?f(new \<mapsto> x)) q = Some u \<and> key_of u = k" if "ht_get bio_str t k = Inr q \<and> q \<noteq> NULL" for k q
      using that I(3) [of k q] new held(3) by (cases "k = ?key") (auto simp: t(3))
    fix q u
    assume q: "(?f(new \<mapsto> x)) q = Some u"
    show "q \<noteq> NULL" "ht_get bio_str t (key_of u) = Inr q"
      using q new held(3) I(4) [of q u] none [of q u] by (auto simp: t(3) split: if_splits)
    show "if q \<in> set L then bf_ref_count u = 0 \<and> lock_free (bf_mutex u) else bf_ref_count u = 1 \<and> lock_held (bf_mutex u)"
      using q held fresh I(5,6) by (auto split: if_splits)
  next
    show "bl bf_next (?f(new \<mapsto> x)) (bh_lhead b) L"
      using I(7) by (rule bl_cong) (use fresh in auto)
    show "pl bf_prev (?f(new \<mapsto> x)) L"
      using I(8) by (rule pl_cong) (use new in auto)
    show "distinct L" "bh_ltail b = (if L = [] then NULL else last L)"
      using I(9,10) .
  qed
  then show ?thesis
    using run b' t(1) held by (intro exI [of _ b'] exI [of _ x]) (simp add: x_def)
qed

lemma bio_inv_contents:
  assumes inv: "bio_inv b L" and x: "bh_bufs b p = Some x"
  shows "bio_inv (b\<lparr>bh_bufs := (bh_bufs b)(p \<mapsto> x\<lparr>bf_buffer := data, bf_valid := v\<rparr>)\<rparr>) L"
proof -
  note I = bio_invD [OF inv]
  let ?x = "x\<lparr>bf_buffer := data, bf_valid := v\<rparr>"
  have key: "key_of ?x = key_of x"
    by (simp add: key_of_def)
  have "bl bf_next ((bh_bufs b)(p \<mapsto> ?x)) (bh_lhead b) L"
    using I(7) by (rule bl_cong) (use x in auto)
  moreover have "pl bf_prev ((bh_bufs b)(p \<mapsto> ?x)) L"
    using I(8) by (rule pl_cong) (use x in auto)
  moreover have "key_of x = k" if "ht_get bio_str (bh_table b) k = Inr p" for k
    using I(3) [OF that] I(4) [OF x] x by auto
  ultimately show ?thesis
    using inv x key unfolding bio_inv_def by auto
qed

lemma bio_inv_disk_bufs: "bio_inv (b\<lparr>bh_disk := d, bh_bufs := f\<rparr>) L = bio_inv (b\<lparr>bh_bufs := f\<rparr>) L"
  by (simp add: bio_inv_def)

lemma bio_read_miss_run:
  assumes inv: "bio_inv b L" and miss: "ht_get bio_str (bh_table b) (bio_key device block) = Inr NULL"
    and room: "ht_room (bh_table b)" and new: "new \<noteq> NULL" "bh_bufs b new = None" and ok: "transfer_ok size'"
  shows "\<exists>b' x. bio_read n b new mem device block size' = Inr (new, b') \<and> bio_inv b' L \<and> bh_disk b' = bh_disk b \<and>
           ht_set bio_fresh bio_str (bh_table b) (bio_key device block) new = Inr (0, bh_table b') \<and>
           bh_bufs b' = (bh_bufs b)(new \<mapsto> x) \<and> bf_device x = device \<and> bf_block x = block \<and> bf_size x = size' \<and>
           bf_valid x \<and> bf_ref_count x = 1 \<and> lock_held (bf_mutex x) \<and>
           disk_read (bh_disk b) device (block * size') size' = Inr (bf_buffer x)"
proof -
  obtain b1 x where b1: "bio_get n b new mem device block size' = Inr (new, b1)" "bio_inv b1 L" "bh_disk b1 = bh_disk b"
      "ht_set bio_fresh bio_str (bh_table b) (bio_key device block) new = Inr (0, bh_table b1)"
      "bh_bufs b1 = (bh_bufs b)(new \<mapsto> x)" "bf_device x = device" "bf_block x = block" "bf_size x = size'"
      "bf_valid x = False" "bf_ref_count x = 1" "lock_held (bf_mutex x)"
    using bio_get_miss [OF inv miss room new, of n mem size'] by blast
  obtain data where data: "disk_read (bh_disk b) device (block * size') size' = Inr data"
    using ok by (simp add: disk_read_def)
  let ?x = "x\<lparr>bf_buffer := data, bf_valid := True\<rparr>"
  let ?b = "b1\<lparr>bh_bufs := (bh_bufs b1)(new \<mapsto> ?x)\<rparr>"
  have "bio_read n b new mem device block size' = Inr (new, ?b)"
    using b1 data by (simp add: bio_read_def buf_get_def buf_upd_def)
  moreover have "bio_inv ?b L"
    by (rule bio_inv_contents [OF b1(2)]) (simp add: b1(5))
  ultimately show ?thesis
    using b1 data by (intro exI [of _ ?b] exI [of _ ?x]) simp
qed

lemma bio_table_new:
  "ht_create BIO_TABLE_SIZE BIO_LOAD_FACTOR 0 = Inr \<lparr>ht_entries = replicate 67 \<lparr>he_key = 0, he_value = 0, he_state = HT_EMPTY\<rparr>,
      ht_capacity = 67, ht_size = 0, ht_max_load = 75, ht_flag = 0\<rparr>"
proof -
  have "ht_find_prime 66 = Inr 67"
    by code_simp
  then show ?thesis
    by (simp add: ht_create_def BIO_TABLE_SIZE_def BIO_LOAD_FACTOR_def)
qed

lemma bio_init_run:
  "\<exists>b. bio_init disk = Inr b \<and> bio_inv b [] \<and> bh_bufs b = Map.empty \<and> bh_disk b = disk \<and>
     ht_create BIO_TABLE_SIZE BIO_LOAD_FACTOR 0 = Inr (bh_table b) \<and> (\<forall>k. ht_get bio_str (bh_table b) k = Inr NULL)"
proof -
  define t where "t = \<lparr>ht_entries = replicate 67 \<lparr>he_key = 0, he_value = 0, he_state = HT_EMPTY\<rparr>,
      ht_capacity = 67, ht_size = 0, ht_max_load = 75, ht_flag = 0\<rparr>"
  note new = bio_table_new [folded t_def]
  have I: "ht_inv bio_str t" "ht_uniq bio_str t" "\<And>k. ht_absent bio_str t k"
    using ht_create_inv [OF _ new, of bio_str] by (simp_all add: str_ok_def t_def BIO_LOAD_FACTOR_def)
  have "ht_cache_inv bio_str t"
    using I by (simp add: ht_cache_inv_def ht_nonnull_def ht_ptrkey_def t_def)
  moreover have "ht_get bio_str t k = Inr NULL" for k
    by (rule ht_get_absent [OF I(1) I(3)])
  ultimately show ?thesis
    using new by (simp add: bio_init_def bio_inv_def)
qed

section \<open>Eviction\<close>

lemma bio_remove_last_fails:
  assumes "bl bf_next (bh_bufs b) (bh_lhead b) (xs @ [p])" "pl bf_prev (bh_bufs b) (xs @ [p])" "distinct (xs @ [p])" "bh_ltail b = p" "bh_bufs b NULL = None"
  shows "\<exists>e\<in>{Abort, BadAccess}. bio_remove b p = Inl e"
proof -
  obtain x where x: "bh_bufs b p = Some x" "bf_next x = NULL" "p \<noteq> NULL"
    using bl_last [OF assms(1)] by blast
  show ?thesis
  proof (cases "p = bh_lhead b")
    case True
    then show ?thesis
      using x assms(5) by (simp add: bio_remove_def buf_get_def buf_upd_def)
  next
    case False
    then obtain ys a where ys: "xs = ys @ [a]"
      using assms(1) by (cases xs rule: rev_cases) auto
    then obtain y where y: "bf_prev x = a" "bh_bufs b a = Some y" "a \<noteq> p" "a \<noteq> NULL"
      using pl_split [of bf_prev "bh_bufs b" ys a p "[]"] bl_mem [OF assms(1), of a] x(1) assms(2,3) by auto
    then show ?thesis
      using x False assms(4,5) by (simp add: bio_remove_def buf_get_def buf_upd_def)
  qed
qed

lemma bio_evict_fails:
  assumes "ht_cache_inv bio_str (bh_table b)" "bl bf_next (bh_bufs b) (bh_lhead b) L" "pl bf_prev (bh_bufs b) L" "distinct L"
    "bh_ltail b = (if L = [] then NULL else last L)" "bh_bufs b NULL = None"
  shows "\<exists>e\<in>{Abort, BadAccess}. bio_evict b = Inl e"
proof (cases L rule: rev_cases)
  case Nil
  then show ?thesis
    using assms(5) by (simp add: bio_evict_def)
next
  case (snoc xs p)
  obtain x where "bh_bufs b p = Some x"
    using bl_last assms(2) snoc by blast
  moreover obtain r t where "ht_remove bio_str (bh_table b) (bio_key (bf_device x) (bf_block x)) = Inr (r, t)"
    using htc.del_key [OF assms(1)] by blast
  moreover have "\<exists>e\<in>{Abort, BadAccess}. bio_remove (b\<lparr>bh_table := t\<rparr>) p = Inl e"
    using assms snoc by (intro bio_remove_last_fails) auto
  ultimately show ?thesis
    using assms(5) snoc by (auto simp: bio_evict_def buf_get_def Let_def)
qed


section \<open>A cache in use\<close>

text \<open>Reading blocks of 1 KiB of drive 0 and giving them back, from an empty cache with a small table.\<close>

definition bio_small :: bio where
  "bio_small = \<lparr>bh_table = ht_sample, bh_mutex = mutex_create, bh_lhead = NULL, bh_ltail = NULL,
     bh_bufs = (\<lambda>_. None), bh_disk = (\<lambda>_ a. of_nat a)\<rparr>"

fun bio_touch :: "u32 list \<Rightarrow> bio \<Rightarrow> bio res" where
  "bio_touch [] b = Inr b"
| "bio_touch (k # ks) b =
     rbind (bio_read 0 b (k * 100) [] 0 k 1024) (\<lambda>(p, b). rbind (bio_release b p) (bio_touch ks))"

definition bio_filled :: "bio \<Rightarrow> hash_table_t \<Rightarrow> ptr list \<Rightarrow> bool" where
  "bio_filled b t L \<longleftrightarrow> bio_inv b L \<and> bh_table b = t \<and> dom (bh_bufs b) = set L \<and> (\<forall>p x. bh_bufs b p = Some x \<longrightarrow> bf_size x = 1024)"

lemma bio_touch_step:
  assumes b: "bio_filled b t L" and "ht_get bio_str t (bio_key 0 k) = Inr NULL" "ht_room t" "k * 100 \<noteq> NULL" "k * 100 \<notin> set L"
    and set': "ht_set bio_fresh bio_str t (bio_key 0 k) (k * 100) = Inr (0, t')"
  shows "\<exists>b'. bio_touch (k # ks) b = bio_touch ks b' \<and> bio_filled b' t' (k * 100 # L)"
proof -
  have b0: "bio_inv b L" "bh_table b = t" "bh_bufs b (k * 100) = None" "dom (bh_bufs b) = set L"
    using b assms(5) by (auto simp: bio_filled_def domIff)
  obtain b1 x where b1: "bio_read 0 b (k * 100) [] 0 k 1024 = Inr (k * 100, b1)" "bio_inv b1 L"
      "ht_set bio_fresh bio_str t (bio_key 0 k) (k * 100) = Inr (0, bh_table b1)" "bh_bufs b1 = (bh_bufs b)(k * 100 \<mapsto> x)" "bf_size x = 1024"
    using bio_read_miss_run [OF b0(1), of 0 k "k * 100" 1024 0 "[]"] assms b0 by (auto simp: transfer_ok_def)
  then obtain b2 where b2: "bio_release b1 (k * 100) = Inr b2" "bio_inv b2 (k * 100 # L)" "bh_table b2 = bh_table b1"
      "\<And>q. rel_option (\<lambda>u v. key_of v = key_of u \<and> bf_buffer v = bf_buffer u \<and> bf_valid v = bf_valid u \<and> bf_size v = bf_size u)
         (bh_bufs b1 q) (bh_bufs b2 q)"
    using bio_release_run [OF b1(2), of "k * 100" x] assms(5) by auto
  have "bh_bufs b2 q = None \<longleftrightarrow> bh_bufs b1 q = None" for q
    using b2(4) [of q] by (cases "bh_bufs b1 q"; cases "bh_bufs b2 q") auto
  then have "dom (bh_bufs b2) = set (k * 100 # L)"
    using b0(4) b1(4) by (auto simp: dom_def)
  moreover have "bf_size y = 1024" if "bh_bufs b2 q = Some y" for q y
    using b2(4) [of q] that b b1(4,5) by (cases "bh_bufs b1 q") (auto simp: bio_filled_def split: if_splits)
  ultimately show ?thesis
    using b1 b2 set' by (intro exI [of _ b2]) (auto simp: bio_filled_def)
qed

lemma bio_small_filled: "bio_filled bio_small ht_sample []"
proof -
  have "ht_cache_inv bio_str ht_sample"
    using ht_sample_inv by (simp add: ht_cache_inv_def ht_nonnull_def ht_ptrkey_def ht_sample_def)
  moreover have "ht_get bio_str ht_sample k = Inr NULL" for k
    by (rule ht_get_absent [OF ht_sample_inv(1,3)])
  ultimately show ?thesis
    by (simp add: bio_filled_def bio_small_def bio_inv_def)
qed

text \<open>The table after the first blocks.\<close>

definition bio_tab :: "nat \<Rightarrow> hash_table_t" where
  "bio_tab n = (case ht_ops (map (\<lambda>i. Set (of_nat i) (of_nat i * 100)) [1..<Suc n]) ht_sample of Inr t \<Rightarrow> t | Inl _ \<Rightarrow> ht_sample)"

lemma bio_tab_steps:
  "ht_get bio_str ht_sample (bio_key 0 1) = Inr NULL \<and> ht_room ht_sample \<and> ht_set bio_fresh bio_str ht_sample (bio_key 0 1) 100 = Inr (0, bio_tab 1)"
  "ht_get bio_str (bio_tab 1) (bio_key 0 2) = Inr NULL \<and> ht_room (bio_tab 1) \<and> ht_set bio_fresh bio_str (bio_tab 1) (bio_key 0 2) 200 = Inr (0, bio_tab 2)"
  "ht_get bio_str (bio_tab 2) (bio_key 0 3) = Inr NULL \<and> ht_room (bio_tab 2) \<and> ht_set bio_fresh bio_str (bio_tab 2) (bio_key 0 3) 300 = Inr (0, bio_tab 3)"
  "ht_get bio_str (bio_tab 3) (bio_key 0 4) = Inr NULL \<and> ht_room (bio_tab 3) \<and> ht_set bio_fresh bio_str (bio_tab 3) (bio_key 0 4) 400 = Inr (0, bio_tab 4)"
  "ht_get bio_str (bio_tab 4) (bio_key 0 5) = Inr NULL" "\<not> ht_room (bio_tab 4)" "ht_get bio_str (bio_tab 3) (bio_key 0 2) = Inr 200"
  by code_simp+

lemma bio_touch_three: "\<exists>b. bio_touch [1, 2, 3] bio_small = Inr b \<and> bio_filled b (bio_tab 3) [300, 200, 100]"
proof -
  obtain b1 where b1: "bio_touch [1, 2, 3] bio_small = bio_touch [2, 3] b1" "bio_filled b1 (bio_tab 1) [100]"
    using bio_touch_step [OF bio_small_filled, of 1 "bio_tab 1" "[2, 3]"] bio_tab_steps(1) by auto
  obtain b2 where b2: "bio_touch [2, 3] b1 = bio_touch [3] b2" "bio_filled b2 (bio_tab 2) [200, 100]"
    using bio_touch_step [OF b1(2), of 2 "bio_tab 2" "[3]"] bio_tab_steps(2) by auto
  obtain b3 where b3: "bio_touch [3] b2 = bio_touch [] b3" "bio_filled b3 (bio_tab 3) [300, 200, 100]"
    using bio_touch_step [OF b2(2), of 3 "bio_tab 3" "[]"] bio_tab_steps(3) by auto
  show ?thesis
    using b1 b2 b3 by auto
qed

section \<open>What the cache promises\<close>

text \<open>C8 [bio_read_miss]: reading a block that is not cached, while the table has room, returns the new
  buffer, held by the caller alone, with exactly the bytes the disk has at the block's address; the
  table binds the block to it, every other buffer is as before and the invariant holds.\<close>

theorem bio_read_miss:
  assumes "bio_inv b L" "ht_get bio_str (bh_table b) (bio_key device block) = Inr NULL" "ht_room (bh_table b)"
    "new \<noteq> NULL" "bh_bufs b new = None" "transfer_ok size'"
  shows "\<exists>b' x. bio_read n b new mem device block size' = Inr (new, b') \<and> bio_inv b' L \<and> bh_disk b' = bh_disk b \<and>
           ht_get bio_str (bh_table b') (bio_key device block) = Inr new \<and>
           bh_bufs b' = (bh_bufs b)(new \<mapsto> x) \<and> bf_ref_count x = 1 \<and> lock_held (bf_mutex x) \<and>
           disk_read (bh_disk b) device (block * size') size' = Inr (bf_buffer x)"
proof -
  obtain b' x where b': "bio_read n b new mem device block size' = Inr (new, b')" "bio_inv b' L" "bh_disk b' = bh_disk b"
      "bh_bufs b' = (bh_bufs b)(new \<mapsto> x)" "bf_device x = device" "bf_block x = block" "bf_ref_count x = 1" "lock_held (bf_mutex x)"
      "disk_read (bh_disk b) device (block * size') size' = Inr (bf_buffer x)"
    using bio_read_miss_run [OF assms, of n mem] by blast
  moreover have "ht_get bio_str (bh_table b') (bio_key device block) = Inr new"
    using bio_invD(4) [OF b'(2), of new x] b' by (simp add: key_of_def)
  ultimately show ?thesis
    by blast
qed

theorem bio_read_miss_witness:
  "\<exists>b' x. bio_read 0 bio_small 100 [] 0 1 1024 = Inr (100, b') \<and> bio_inv b' [] \<and> bh_bufs b' 100 = Some x \<and>
     bf_buffer x = map (\<lambda>i. of_nat (1024 + i)) [0..<1024]"
proof -
  have "bio_inv bio_small []" "bh_table bio_small = ht_sample" "bh_bufs bio_small 100 = None"
    using bio_small_filled by (simp_all add: bio_filled_def bio_small_def)
  then obtain b' x where b': "bio_read 0 bio_small 100 [] 0 1 1024 = Inr (100, b')" "bio_inv b' []" "bh_bufs b' 100 = Some x"
      "disk_read (bh_disk bio_small) 0 1024 1024 = Inr (bf_buffer x)"
    using bio_read_miss [of bio_small "[]" 0 1 100 1024 0 "[]"] bio_tab_steps(1) by (auto simp: transfer_ok_def)
  then show ?thesis
    by (auto simp: disk_read_def transfer_ok_def bio_small_def)
qed

text \<open>Fact [bio_reacquire]: taking a cached buffer that is not in use and is neither the first nor the last of the free
  list returns that buffer, of the requested device and block, with one reference and locked; it is
  taken out of the list, its bytes, the table and the disk are unchanged and the invariant holds.\<close>

theorem bio_reacquire:
  assumes "bio_inv b (xs @ a # p # c # ys)" "bh_bufs b p = Some x" "bf_device x = device" "bf_block x = block" "bf_size x = size'"
  shows "\<exists>b'. bio_get n b new mem device block size' = Inr (p, b') \<and> bio_inv b' (xs @ a # c # ys) \<and>
           bh_table b' = bh_table b \<and> bh_disk b' = bh_disk b \<and>
           (\<exists>x'. bh_bufs b' p = Some x' \<and> bf_ref_count x' = 1 \<and> lock_held (bf_mutex x') \<and>
              key_of x' = key_of x \<and> bf_buffer x' = bf_buffer x \<and> bf_valid x' = bf_valid x)"
  by (rule bio_reacquire_run [OF assms])

theorem bio_reacquire_witness:
  "\<exists>b b'. bio_touch [1, 2, 3] bio_small = Inr b \<and> bio_get 0 b 0 [] 0 2 1024 = Inr (200, b') \<and> bio_inv b' [300, 100]"
proof -
  obtain b where b: "bio_touch [1, 2, 3] bio_small = Inr b" "bio_filled b (bio_tab 3) [300, 200, 100]"
    using bio_touch_three by blast
  then have inv: "bio_inv b ([] @ 300 # 200 # 100 # [])" and tab: "bh_table b = bio_tab 3"
    by (simp_all add: bio_filled_def)
  obtain x where x: "bh_bufs b 200 = Some x" "key_of x = bio_key 0 2"
    using bio_invD(3) [OF inv, of "bio_key 0 2" 200] bio_tab_steps(7) tab by auto
  then have "bf_device x = 0" "bf_block x = 2" "bf_size x = 1024"
    using b(2) by (auto simp: key_of_def bio_key_inj bio_filled_def)
  from bio_reacquire [OF inv x(1) this, of 0 0 "[]"] show ?thesis
    using b(1) by auto
qed

text \<open>C9 [bio_release_keeps]: giving back a buffer that is in use always succeeds: it becomes the first of the
  free list, nobody holds it any more, and the invariant that ties the table, the buffers, their
  reference counts and locks, and both directions of the list together holds again; the bytes of all
  buffers, the table and the disk are unchanged.\<close>

theorem bio_release_keeps:
  assumes "bio_inv b L" "bh_bufs b p = Some x" "p \<notin> set L"
  shows "\<exists>b'. bio_release b p = Inr b' \<and> bio_inv b' (p # L) \<and> bh_table b' = bh_table b \<and> bh_disk b' = bh_disk b \<and>
           (\<forall>q. rel_option (\<lambda>u v. key_of v = key_of u \<and> bf_buffer v = bf_buffer u \<and> bf_valid v = bf_valid u \<and> bf_size v = bf_size u)
              (bh_bufs b q) (bh_bufs b' q))"
  by (rule bio_release_run [OF assms])

theorem bio_release_keeps_witness:
  "\<exists>b b'. bio_read 0 bio_small 100 [] 0 1 1024 = Inr (100, b) \<and> bio_release b 100 = Inr b' \<and> bio_inv b' [100]"
proof -
  have "bio_inv bio_small []" "bh_table bio_small = ht_sample" "bh_bufs bio_small 100 = None"
    using bio_small_filled by (simp_all add: bio_filled_def bio_small_def)
  then obtain b x where b: "bio_read 0 bio_small 100 [] 0 1 1024 = Inr (100, b)" "bio_inv b []" "bh_bufs b 100 = Some x"
    using bio_read_miss_run [of bio_small "[]" 0 1 100 1024 0 "[]"] bio_tab_steps(1) by (auto simp: transfer_ok_def)
  then show ?thesis
    using bio_release_keeps [OF b(2,3)] by auto
qed

text \<open>C10 [bio_write_read]: writing a buffer out and reading its block from the disk again gives the
  bytes that were written, the buffer is marked stale so that the next read fetches it, other drives
  are unchanged and the invariant holds.\<close>

theorem bio_write_read:
  assumes inv: "bio_inv b L" and x: "bh_bufs b p = Some x" and ok: "transfer_ok (bf_size x)" and len: "length (bf_buffer x) = unat (bf_size x)"
  shows "\<exists>b'. bio_write b p = Inr b' \<and> bio_inv b' L \<and> bh_bufs b' p = Some (x\<lparr>bf_valid := False\<rparr>) \<and>
           (\<forall>d. d \<noteq> ucast (bf_device x) \<longrightarrow> bh_disk b' d = bh_disk b d) \<and>
           disk_read (bh_disk b') (bf_device x) (bf_block x * bf_size x) (bf_size x) = Inr (bf_buffer x)"
proof -
  let ?a = "bf_block x * bf_size x"
  define s where "s = unat (?a div 512) * 512"
  obtain d where d: "disk_write (bh_disk b) (bf_device x) (bf_buffer x) ?a (bf_size x) = Inr d"
    and dd: "d = (bh_disk b)(ucast (bf_device x) := (\<lambda>a. if s \<le> a \<and> a < s + unat (bf_size x) then bf_buffer x ! (a - s) else bh_disk b (ucast (bf_device x)) a))"
    using ok len by (simp add: disk_write_def s_def [symmetric] Let_def)
  have "map (\<lambda>i. d (ucast (bf_device x)) (s + i)) [0..<unat (bf_size x)] = bf_buffer x"
    using len by (simp add: dd list_eq_iff_nth_eq)
  then have read: "disk_read d (bf_device x) ?a (bf_size x) = Inr (bf_buffer x)"
    using ok by (simp add: disk_read_def s_def)
  let ?b = "b\<lparr>bh_disk := d, bh_bufs := (bh_bufs b)(p \<mapsto> x\<lparr>bf_valid := False\<rparr>)\<rparr>"
  have "bio_inv (b\<lparr>bh_bufs := (bh_bufs b)(p \<mapsto> x\<lparr>bf_valid := False\<rparr>)\<rparr>) L"
    using bio_inv_contents [OF inv x, of False "bf_buffer x"] by simp
  then have "bio_inv ?b L"
    by (simp only: bio_inv_disk_bufs)
  moreover have "bio_write b p = Inr ?b"
    using d x by (simp add: bio_write_def buf_get_def buf_upd_def)
  moreover have "\<forall>i. i \<noteq> ucast (bf_device x) \<longrightarrow> d i = bh_disk b i"
    by (simp add: dd)
  ultimately show ?thesis
    using read by (intro exI [of _ ?b]) simp
qed

theorem bio_write_read_witness:
  "\<exists>b x b'. bio_read 0 bio_small 100 [] 0 1 1024 = Inr (100, b) \<and> bh_bufs b 100 = Some x \<and> bio_write b 100 = Inr b' \<and>
     disk_read (bh_disk b') 0 1024 1024 = Inr (bf_buffer x)"
proof -
  have "bio_inv bio_small []" "bh_table bio_small = ht_sample" "bh_bufs bio_small 100 = None"
    using bio_small_filled by (simp_all add: bio_filled_def bio_small_def)
  then obtain b x where b: "bio_read 0 bio_small 100 [] 0 1 1024 = Inr (100, b)" "bio_inv b []" "bh_bufs b 100 = Some x"
      "bf_device x = 0" "bf_block x = 1" "bf_size x = 1024" "disk_read (bh_disk bio_small) 0 1024 1024 = Inr (bf_buffer x)"
    using bio_read_miss_run [of bio_small "[]" 0 1 100 1024 0 "[]"] bio_tab_steps(1) by (auto simp: transfer_ok_def)
  then have "length (bf_buffer x) = 1024"
    by (auto simp: disk_read_def dest: arg_cong [of _ _ length] split: if_splits)
  then show ?thesis
    using b bio_write_read [OF b(2,3)] by (auto simp: transfer_ok_def)
qed


end
