(* ===== verification/Ext2.thy ===== *)
theory Ext2
  imports BulbPrelude
begin

text \<open>
  The block layer of the ext2 file system, \<open>src/kernel/fs/filesystem.c\<close>: bitmaps, the block map of
  an inode, inodes on disk and the contents of files.  The cache below it is seen as the bytes of
  every block together with the blocks whose buffer somebody holds; asking for a held block waits
  for ever, as \<open>Bio\<close> shows for its mutex.  Directories are not part of this theory.

  Shown here: which block the allocator takes and that freeing undoes it; that an inode written to
  disk is read back unchanged; what reading a file returns.  Also shown: what happens to blocks
  behind the twelve direct ones, to the second block group, and to the size of a truncated file.
\<close>

section \<open>Data\<close>

record inode_idx_t =
  ix_block :: u32
  ix_idx :: u32

text \<open>The fields the code reads.\<close>

record ext2_sblock_t =
  sb_total_blocks :: u32
  sb_log_block_size :: nat
  sb_blocks_pg :: u32
  sb_inodes_per_group :: u32
  sb_inode_size :: u32

record ext2_bgd_t =
  bg_block_bitmap :: u32
  bg_inode_bitmap :: u32
  bg_inode_table :: u32

record inode_t =
  in_device :: nat
  in_n :: u32
  in_mode :: u16
  in_hard_links_count :: u16
  in_size :: u32
  in_last_access_time :: u32
  in_creation_time :: u32
  in_last_modify_time :: u32
  in_deletion_time :: u32
  in_sectors :: u32
  in_blocks :: "u32 list"

record ext2 =
  sblock :: ext2_sblock_t
  bg_descrs :: "ext2_bgd_t list"
  dev :: "u32 \<Rightarrow> u8 list"
  held :: "u32 list"

definition INODE_BLOCKS_COUNT :: nat where "INODE_BLOCKS_COUNT = 15"
definition PTR_ENTRY_BLOCKS :: u32 where "PTR_ENTRY_BLOCKS = 1024 div 4"
definition DIRECT_BLOCKS :: u32 where "DIRECT_BLOCKS = 12"
definition IND1_IDX :: nat where "IND1_IDX = 12"
definition IND2_IDX :: nat where "IND2_IDX = 13"
definition IND3_IDX :: nat where "IND3_IDX = 14"
definition IND1_PTR_BLOCKS :: u32 where "IND1_PTR_BLOCKS = PTR_ENTRY_BLOCKS"
definition IND2_PTR_BLOCKS :: u32 where "IND2_PTR_BLOCKS = IND1_PTR_BLOCKS * PTR_ENTRY_BLOCKS"
definition IND3_PTR_BLOCKS :: u32 where "IND3_PTR_BLOCKS = IND2_PTR_BLOCKS * PTR_ENTRY_BLOCKS"
definition MAX_FILE_SIZE :: u32 where
  "MAX_FILE_SIZE = (IND3_PTR_BLOCKS + IND2_PTR_BLOCKS + IND1_PTR_BLOCKS + DIRECT_BLOCKS) * 1024"
definition IND1_LIMIT :: u32 where "IND1_LIMIT = DIRECT_BLOCKS + IND1_PTR_BLOCKS"
definition IND2_LIMIT :: u32 where "IND2_LIMIT = IND1_LIMIT + IND2_PTR_BLOCKS"
definition IND3_LIMIT :: u32 where "IND3_LIMIT = IND2_LIMIT + IND3_PTR_BLOCKS"

definition BLOCK_SIZE :: "ext2 \<Rightarrow> u32" where
  "BLOCK_SIZE s = push_bit (sb_log_block_size (sblock s)) 1024"

definition INODES_PER_BLOCK :: "ext2 \<Rightarrow> u32" where
  "INODES_PER_BLOCK s = BLOCK_SIZE s div sb_inode_size (sblock s)"

section \<open>Words in blocks\<close>

definition get8 :: "u8 list \<Rightarrow> nat \<Rightarrow> u8 res" where
  "get8 = array_get"

definition get16 :: "u8 list \<Rightarrow> nat \<Rightarrow> u16 res" where
  "get16 b i = (if i + 1 < length b then Inr (ucast (b ! i) OR push_bit 8 (ucast (b ! (i + 1)))) else Inl BadAccess)"

definition get32 :: "u8 list \<Rightarrow> nat \<Rightarrow> u32 res" where
  "get32 b i = (if i + 3 < length b then Inr (ucast (b ! i) OR push_bit 8 (ucast (b ! (i + 1))) OR push_bit 16 (ucast (b ! (i + 2))) OR push_bit 24 (ucast (b ! (i + 3)))) else Inl BadAccess)"

definition put16 :: "u8 list \<Rightarrow> nat \<Rightarrow> u16 \<Rightarrow> u8 list res" where
  "put16 b i v = (if i + 1 < length b then Inr (b[i := ucast v, i + 1 := ucast (drop_bit 8 v)]) else Inl BadAccess)"

definition put32 :: "u8 list \<Rightarrow> nat \<Rightarrow> u32 \<Rightarrow> u8 list res" where
  "put32 b i v = (if i + 3 < length b
     then Inr (b[i := ucast v, i + 1 := ucast (drop_bit 8 v), i + 2 := ucast (drop_bit 16 v), i + 3 := ucast (drop_bit 24 v)])
     else Inl BadAccess)"

section \<open>Blocks\<close>

definition ext2_inode_idx :: "ext2 \<Rightarrow> u32 \<Rightarrow> inode_idx_t res" where
  "ext2_inode_idx s inode_n =
     (let inode_idx = inode_n - 1; ipg = sb_inodes_per_group (sblock s) in
      if ipg = 0 \<or> sb_inode_size (sblock s) = 0 \<or> INODES_PER_BLOCK s = 0 then Inl Abort
      else
        let descr_idx = (inode_idx + 1) div ipg;
            descr_inode_idx = (inode_idx + 1) mod ipg in
        rbind (array_get (bg_descrs s) (unat descr_idx)) (\<lambda>d.
          let inode_table_idx = descr_idx * sb_blocks_pg (sblock s) + bg_inode_table d;
              table_block_idx = descr_inode_idx div INODES_PER_BLOCK s in
          Inr \<lparr>ix_block = inode_table_idx + table_block_idx, ix_idx = descr_inode_idx mod INODES_PER_BLOCK s\<rparr>))"

definition ext2_read_block :: "ext2 \<Rightarrow> u32 \<Rightarrow> (u8 list \<times> ext2) res" where
  "ext2_read_block s block = (if block \<in> set (held s) then Inl Hang else Inr (dev s block, s\<lparr>held := block # held s\<rparr>))"

definition ext2_write_block :: "ext2 \<Rightarrow> u32 \<Rightarrow> u8 list \<Rightarrow> ext2" where
  "ext2_write_block s block buf = s\<lparr>dev := (dev s)(block := buf)\<rparr>"

definition block_release :: "ext2 \<Rightarrow> u32 \<Rightarrow> ext2" where
  "block_release s block = s\<lparr>held := remove1 block (held s)\<rparr>"

definition ext2_read_inode :: "ext2 \<Rightarrow> u32 \<Rightarrow> (u32 \<times> nat \<times> u8 list \<times> ext2) res" where
  "ext2_read_inode s inode_n =
     rbind (ext2_inode_idx s inode_n) (\<lambda>ix.
     rbind (ext2_read_block s (ix_block ix)) (\<lambda>(buf, s). Inr (ix_block ix, 128 * unat (ix_idx ix), buf, s)))"

definition ext2_zero_block :: "ext2 \<Rightarrow> u32 \<Rightarrow> ext2 res" where
  "ext2_zero_block s block =
     rbind (ext2_read_block s block) (\<lambda>(buf, s).
     if unat (BLOCK_SIZE s) \<le> length buf then
       Inr (block_release (ext2_write_block s block (replicate (unat (BLOCK_SIZE s)) 0 @ drop (unat (BLOCK_SIZE s)) buf)) block)
     else Inl BadAccess)"

section \<open>Bitmaps\<close>

text \<open>The search for a clear bit in one bitmap.\<close>

function bitmap_search :: "u8 list \<Rightarrow> u32 \<Rightarrow> u32 \<Rightarrow> u32 \<Rightarrow> u32 \<Rightarrow> u32 option res" where
  "bitmap_search bitmap i j blocks_pg tot_blocks =
     (if j < blocks_pg \<and> i + j < tot_blocks then
        rbind (get8 bitmap (unat (j div 8))) (\<lambda>b.
          if bit b (unat (j mod 8)) then bitmap_search bitmap i (j + 1) blocks_pg tot_blocks
          else Inr (Some j))
      else Inr None)"
  by pat_completeness auto

termination
proof (relation "measure (\<lambda>(_, _, j, blocks_pg, _). unat blocks_pg - unat j)", goal_cases)
  case (2 bitmap i j blocks_pg tot_blocks x)
  then have "unat j < unat blocks_pg"
    by (simp add: word_less_nat_alt)
  moreover have "unat j < 4294967295"
    using calculation unat_u32_lt [of blocks_pg] by linarith
  ultimately show ?case
    by (simp add: unat_u32_Suc)
qed simp

declare bitmap_search.simps [simp del]

definition last_allocs :: "u32 list" where "last_allocs = [0, 0, 0, 0, 11, 11, 11, 11]"

definition bitmap_of :: "bool \<Rightarrow> ext2_bgd_t \<Rightarrow> u32" where
  "bitmap_of is_inode d = (if is_inode then bg_inode_bitmap d else bg_block_bitmap d)"

text \<open>The loop over the groups; \<open>n\<close> is the number of rounds.\<close>

fun ext2_alloc_loop :: "nat \<Rightarrow> ext2 \<Rightarrow> nat \<Rightarrow> bool \<Rightarrow> u32 \<Rightarrow> (u32 \<times> ext2) res" where
  "ext2_alloc_loop 0 s device is_inode i = Inl Hang"
| "ext2_alloc_loop (Suc n) s device is_inode i =
     (let tot_blocks = sb_total_blocks (sblock s); blocks_pg = sb_blocks_pg (sblock s) in
      rbind (array_get (bg_descrs s) (unat i)) (\<lambda>d.
      let bitmap_idx = bitmap_of is_inode d in
      rbind (ext2_read_block s bitmap_idx) (\<lambda>(bitmap, s).
      rbind (bitmap_search bitmap i i blocks_pg tot_blocks) (\<lambda>found.
      case found of
        Some j \<Rightarrow>
          let b = bitmap ! unat (j div 8);
              bitmap = bitmap[unat (j div 8) := b OR push_bit (unat (j mod 8)) 1];
              s = block_release (ext2_write_block s bitmap_idx bitmap) bitmap_idx in
          rbind (ext2_zero_block s (i + j)) (\<lambda>s. Inr (i + j, s))
      | None \<Rightarrow>
          let s = block_release s bitmap_idx in
          if blocks_pg = 0 \<or> tot_blocks = 0 then Inl Abort
          else
            let i = ((i div blocks_pg + 1) * blocks_pg) mod tot_blocks in
            if i \<noteq> last_allocs ! device then ext2_alloc_loop n s device is_inode i else Inl Abort))))"

definition ext2_alloc :: "nat \<Rightarrow> ext2 \<Rightarrow> nat \<Rightarrow> bool \<Rightarrow> (u32 \<times> ext2) res" where
  "ext2_alloc n s device is_inode =
     rbind (array_get last_allocs (device + (if is_inode then 4 else 0))) (\<lambda>i. ext2_alloc_loop n s device is_inode i)"

definition ext2_block_alloc :: "nat \<Rightarrow> ext2 \<Rightarrow> nat \<Rightarrow> (u32 \<times> ext2) res" where
  "ext2_block_alloc n s device = ext2_alloc n s device False"

definition ext2_inode_alloc :: "nat \<Rightarrow> ext2 \<Rightarrow> nat \<Rightarrow> (u32 \<times> ext2) res" where
  "ext2_inode_alloc n s device = ext2_alloc n s device True"

definition ext2_free :: "ext2 \<Rightarrow> u32 \<Rightarrow> bool \<Rightarrow> ext2 res" where
  "ext2_free s n is_inode =
     (let blocks_pg = sb_blocks_pg (sblock s) in
      if blocks_pg = 0 then Inl Abort
      else
        rbind (array_get (bg_descrs s) (unat (n div blocks_pg))) (\<lambda>d.
        let bitmap_idx = bitmap_of is_inode d in
        rbind (ext2_read_block s bitmap_idx) (\<lambda>(bitmap, s).
        let idx = n mod blocks_pg in
        rbind (get8 bitmap (unat (idx div 8))) (\<lambda>b.
        if \<not> bit b (unat (idx mod 8)) then Inl Abort
        else
          let bitmap = bitmap[unat (idx div 8) := b AND NOT (push_bit (unat (idx mod 8)) 1)] in
          Inr (block_release (ext2_write_block s bitmap_idx bitmap) bitmap_idx)))))"

definition ext2_block_free :: "ext2 \<Rightarrow> u32 \<Rightarrow> ext2 res" where
  "ext2_block_free s block = ext2_free s block False"

definition ext2_inode_free :: "ext2 \<Rightarrow> u32 \<Rightarrow> ext2 res" where
  "ext2_inode_free s inode = ext2_free s inode True"

section \<open>The block map of an inode\<close>

fun ext2_get_div :: "nat \<Rightarrow> u32 res" where
  "ext2_get_div times' =
     (if times' = 0 then Inr 1 else if times' = 1 then Inr IND1_PTR_BLOCKS else if times' = 2 then Inr IND2_PTR_BLOCKS else Inl Abort)"

text \<open>\<open>ind\<close> is the buffer of the indirect block, which the caller writes out; \<open>if (!block)\<close> tests the
  address of a buffer and is never true.\<close>

fun ext2_indblock :: "nat \<Rightarrow> nat \<Rightarrow> ext2 \<Rightarrow> nat \<Rightarrow> u8 list \<Rightarrow> u32 \<Rightarrow> (u32 \<times> u8 list \<times> ext2) res" where
  "ext2_indblock n times' s device ind idx =
     rbind (ext2_get_div times') (\<lambda>d.
     let r_idx = idx div d; n_idx = idx mod d in
     rbind (get32 ind (4 * unat r_idx)) (\<lambda>p.
     rbind (if p = 0
            then rbind (ext2_block_alloc n s device) (\<lambda>(p, s). rbind (put32 ind (4 * unat r_idx) p) (\<lambda>ind. Inr (p, ind, s)))
            else Inr (p, ind, s)) (\<lambda>(p, ind, s).
     rbind (ext2_read_block s p) (\<lambda>(block, s).
     rbind (get32 block (4 * unat n_idx)) (\<lambda>ret.
     rbind (case times' of
              0 \<Rightarrow> Inr (ret, block, s)
            | Suc times' \<Rightarrow> ext2_indblock n times' s device block n_idx) (\<lambda>(ret, block, s).
       Inr (ret, ind, block_release (ext2_write_block s p block) p)))))))"

declare ext2_indblock.simps [simp del]

definition inode_block :: "nat \<Rightarrow> ext2 \<Rightarrow> inode_t \<Rightarrow> nat \<Rightarrow> (u32 \<times> inode_t \<times> ext2) res" where
  "inode_block n s inode i =
     rbind (array_get (in_blocks inode) i) (\<lambda>b.
     if b = 0 then
       rbind (ext2_block_alloc n s (in_device inode)) (\<lambda>(b, s). Inr (b, inode\<lparr>in_blocks := (in_blocks inode)[i := b]\<rparr>, s))
     else Inr (b, inode, s))"

definition ext2_get_iblock :: "nat \<Rightarrow> ext2 \<Rightarrow> inode_t \<Rightarrow> u32 \<Rightarrow> (u32 \<times> inode_t \<times> ext2) res" where
  "ext2_get_iblock n s inode idx =
     (if idx < DIRECT_BLOCKS then inode_block n s inode (unat idx)
      else
        rbind (if idx < IND1_LIMIT then Inr (IND1_IDX, 0, idx - DIRECT_BLOCKS)
               else if idx < IND2_LIMIT then Inr (IND2_IDX, 1, idx - IND1_LIMIT)
               else if idx < IND3_LIMIT then Inr (IND3_IDX, 2, idx - IND2_LIMIT)
               else Inl Abort) (\<lambda>(ind_idx, times', r_idx).
        rbind (inode_block n s inode ind_idx) (\<lambda>(b, inode, s).
        rbind (ext2_read_block s b) (\<lambda>(buf, s).
        rbind (ext2_indblock n times' s (in_device inode) buf r_idx) (\<lambda>(block, buf, s).
          Inr (block, inode, block_release (ext2_write_block s b buf) b))))))"

section \<open>Inodes on disk\<close>

text \<open>The offsets of the fields of \<open>ext2_inode_t\<close>.\<close>

definition put_inode :: "u8 list \<Rightarrow> nat \<Rightarrow> inode_t \<Rightarrow> u8 list res" where
  "put_inode b o' inode =
     rbind (put16 b o' (in_mode inode)) (\<lambda>b.
     rbind (put32 b (o' + 4) (in_size inode)) (\<lambda>b.
     rbind (put32 b (o' + 8) (in_last_access_time inode)) (\<lambda>b.
     rbind (put32 b (o' + 12) (in_creation_time inode)) (\<lambda>b.
     rbind (put32 b (o' + 16) (in_last_modify_time inode)) (\<lambda>b.
     rbind (put32 b (o' + 20) (in_deletion_time inode)) (\<lambda>b.
     rbind (put16 b (o' + 26) (in_hard_links_count inode)) (\<lambda>b.
     rbind (put32 b (o' + 28) (in_sectors inode)) (\<lambda>b.
       foldl (\<lambda>r i. rbind r (\<lambda>b. rbind (array_get (in_blocks inode) i) (\<lambda>v. put32 b (o' + 40 + 4 * i) v)))
         (Inr b) [0..<INODE_BLOCKS_COUNT]))))))))"

definition get_inode :: "u8 list \<Rightarrow> nat \<Rightarrow> inode_t \<Rightarrow> inode_t res" where
  "get_inode b o' inode =
     rbind (get16 b o') (\<lambda>mode.
     rbind (get32 b (o' + 4)) (\<lambda>size'.
     rbind (get32 b (o' + 8)) (\<lambda>atime.
     rbind (get32 b (o' + 12)) (\<lambda>ctime.
     rbind (get32 b (o' + 16)) (\<lambda>mtime.
     rbind (get32 b (o' + 20)) (\<lambda>dtime.
     rbind (get16 b (o' + 26)) (\<lambda>links.
     rbind (get32 b (o' + 28)) (\<lambda>sectors.
     rbind (foldl (\<lambda>r i. rbind r (\<lambda>bs. rbind (get32 b (o' + 40 + 4 * i)) (\<lambda>v. array_set bs i v)))
         (Inr (in_blocks inode)) [0..<INODE_BLOCKS_COUNT]) (\<lambda>blocks.
       Inr (inode\<lparr>in_mode := mode, in_size := size', in_last_access_time := atime, in_creation_time := ctime,
         in_last_modify_time := mtime, in_deletion_time := dtime, in_hard_links_count := links, in_sectors := sectors,
         in_blocks := blocks\<rparr>))))))))))"

definition ext2_inode_update :: "ext2 \<Rightarrow> inode_t \<Rightarrow> ext2 res" where
  "ext2_inode_update s inode =
     rbind (ext2_read_inode s (in_n inode)) (\<lambda>(blk, o', buf, s).
     rbind (put_inode buf o' inode) (\<lambda>buf.
       Inr (block_release (ext2_write_block s blk buf) blk)))"

definition ext2_inode_get :: "ext2 \<Rightarrow> inode_t \<Rightarrow> (inode_t \<times> ext2) res" where
  "ext2_inode_get s inode =
     rbind (ext2_read_inode s (in_n inode)) (\<lambda>(blk, o', buf, s).
     rbind (get_inode buf o' inode) (\<lambda>inode. Inr (inode, block_release s blk)))"

section \<open>Truncation\<close>

text \<open>The entries from \<open>i\<close> on; \<open>times\<close> is decremented in the loop.\<close>

function ext2_ind_trunc :: "ext2 \<Rightarrow> u8 list \<Rightarrow> nat \<Rightarrow> nat \<Rightarrow> (u8 list \<times> ext2) res" where
  "ext2_ind_trunc s block times' i =
     (if i < unat PTR_ENTRY_BLOCKS then
        rbind (get32 block (4 * i)) (\<lambda>b.
        if b = 0 then Inr (block, s)
        else if times' \<noteq> 0 then
          rbind (ext2_read_block s b) (\<lambda>(buf, s).
          rbind (ext2_ind_trunc s buf (times' - 1) 0) (\<lambda>(buf, s).
            ext2_ind_trunc (block_release (ext2_write_block s b buf) b) block (times' - 1) (i + 1)))
        else
          rbind (ext2_block_free s b) (\<lambda>s.
          rbind (put32 block (4 * i) 0) (\<lambda>block. ext2_ind_trunc s block times' (i + 1))))
      else Inr (block, s))"
  by pat_completeness auto

termination
  by (relation "measures [\<lambda>(_, _, times', _). times', \<lambda>(_, _, _, i). unat PTR_ENTRY_BLOCKS - i]") auto

declare ext2_ind_trunc.simps [simp del]

fun trunc_direct :: "nat \<Rightarrow> nat \<Rightarrow> ext2 \<Rightarrow> inode_t \<Rightarrow> (bool \<times> inode_t \<times> ext2) res" where
  "trunc_direct 0 i s inode = Inr (True, inode, s)"
| "trunc_direct (Suc k) i s inode =
     rbind (array_get (in_blocks inode) i) (\<lambda>b.
     if b = 0 then Inr (False, inode, s)
     else
       rbind (ext2_block_free s b) (\<lambda>s.
         trunc_direct k (Suc i) s (inode\<lparr>in_blocks := (in_blocks inode)[i := 0]\<rparr>)))"

fun trunc_indirect :: "nat list \<Rightarrow> nat \<Rightarrow> ext2 \<Rightarrow> inode_t \<Rightarrow> (bool \<times> ext2) res" where
  "trunc_indirect [] times' s inode = Inr (True, s)"
| "trunc_indirect (idx # rest) times' s inode =
     rbind (array_get (in_blocks inode) idx) (\<lambda>b.
     if b = 0 then Inr (False, s)
     else
       rbind (ext2_read_block s b) (\<lambda>(buf, s).
       rbind (ext2_ind_trunc s buf times' 0) (\<lambda>(buf, s).
         trunc_indirect rest (Suc times') (block_release (ext2_write_block s b buf) b) inode)))"

definition ext2_truncate :: "ext2 \<Rightarrow> inode_t \<Rightarrow> (inode_t \<times> ext2) res" where
  "ext2_truncate s inode =
     rbind (trunc_direct (unat DIRECT_BLOCKS) 0 s inode) (\<lambda>(more, inode, s).
     if \<not> more then Inr (inode, s)
     else
       rbind (trunc_indirect [IND1_IDX, IND2_IDX, IND3_IDX] 0 s inode) (\<lambda>(more, s).
       if \<not> more then Inr (inode, s)
       else
         let inode = inode\<lparr>in_size := 0\<rparr> in
         rbind (ext2_inode_update s inode) (\<lambda>s. Inr (inode, s))))"

section \<open>Contents\<close>

text \<open>The length of the next piece: what is left, or the rest of a block of 1024 bytes.\<close>

definition piece_len :: "u32 \<Rightarrow> u32 \<Rightarrow> u32 \<Rightarrow> u32" where
  "piece_len size' i buf_off = (if size' - i < 1024 - buf_off then size' - i else 1024 - buf_off)"

lemma piece_len_le: "piece_len size' i buf_off \<le> size' - i"
  by (auto simp: piece_len_def not_less)

lemma piece_len_step:
  assumes "i < size'" "piece_len size' i buf_off \<noteq> 0"
  shows "unat (i + piece_len size' i buf_off) = unat i + unat (piece_len size' i buf_off)" "unat i + unat (piece_len size' i buf_off) \<le> unat size'"
    "0 < unat (piece_len size' i buf_off)"
proof -
  have "unat (piece_len size' i buf_off) \<le> unat (size' - i)"
    using piece_len_le word_le_nat_alt by blast
  moreover have "unat (size' - i) = unat size' - unat i"
    using assms(1) by (intro unat_sub) simp
  ultimately show le: "unat i + unat (piece_len size' i buf_off) \<le> unat size'"
    using assms(1) by (simp add: word_less_nat_alt)
  then show "unat (i + piece_len size' i buf_off) = unat i + unat (piece_len size' i buf_off)"
    using unat_u32_lt [of size'] by (intro unat_u32_add) linarith
  show "0 < unat (piece_len size' i buf_off)"
    using assms(2) by (simp add: unat_gt_0)
qed

function read_loop :: "nat \<Rightarrow> ext2 \<Rightarrow> inode_t \<Rightarrow> u32 \<Rightarrow> u32 \<Rightarrow> u32 \<Rightarrow> u8 list \<Rightarrow> (u8 list \<times> inode_t \<times> ext2) res" where
  "read_loop n s inode offset size' i dst =
     (if i < size' then
        rbind (ext2_get_iblock n s inode (offset div BLOCK_SIZE s)) (\<lambda>(block_idx, inode, s').
        rbind (ext2_read_block s' block_idx) (\<lambda>(buf, s').
        let buf_off = offset mod BLOCK_SIZE s;
            len = piece_len size' i buf_off in
        if unat buf_off + unat len \<le> length buf then
          let dst = dst @ take (unat len) (drop (unat buf_off) buf); s' = block_release s' block_idx in
          if len = 0 then Inl Hang
          else read_loop n s' inode (offset + len) size' (i + len) dst
        else Inl BadAccess))
      else Inr (dst, inode, s))"
  by pat_completeness auto

termination
proof (relation "measure (\<lambda>(_, _, _, _, size', i, _). unat size' - unat i)", goal_cases)
  case (2 n s inode offset size' i dst)
  then show ?case
    using piece_len_step [of i size' "offset mod BLOCK_SIZE s"] by (simp add: word_less_nat_alt)
qed simp

declare read_loop.simps [simp del]

definition ext2_read_content :: "nat \<Rightarrow> ext2 \<Rightarrow> inode_t \<Rightarrow> u32 \<Rightarrow> u32 \<Rightarrow> (u8 list \<times> inode_t \<times> ext2) res" where
  "ext2_read_content n s inode offset size' =
     (if offset > in_size inode then Inr ([], inode, s)
      else
        let size' = (if offset + size' > in_size inode then in_size inode - offset else size') in
        read_loop n s inode offset size' 0 [])"

function write_loop :: "nat \<Rightarrow> ext2 \<Rightarrow> inode_t \<Rightarrow> u8 list \<Rightarrow> u32 \<Rightarrow> u32 \<Rightarrow> u32 \<Rightarrow> (u32 \<times> inode_t \<times> ext2) res" where
  "write_loop n s inode src offset size' i =
     (if i < size' then
        rbind (ext2_get_iblock n s inode (offset div BLOCK_SIZE s)) (\<lambda>(block_idx, inode, s').
        rbind (ext2_read_block s' block_idx) (\<lambda>(buf, s').
        let buf_off = offset mod BLOCK_SIZE s;
            len = piece_len size' i buf_off in
        if unat buf_off + unat len \<le> length buf \<and> unat i + unat len \<le> length src then
          let buf = take (unat buf_off) buf @ take (unat len) (drop (unat i) src) @ drop (unat buf_off + unat len) buf;
              s' = block_release (ext2_write_block s' block_idx buf) block_idx in
          if len = 0 then Inl Hang
          else write_loop n s' inode src (offset + len) size' (i + len)
        else Inl BadAccess))
      else Inr (offset, inode, s))"
  by pat_completeness auto

termination
proof (relation "measure (\<lambda>(_, _, _, _, _, size', i). unat size' - unat i)", goal_cases)
  case (2 n s inode src offset size' i)
  then show ?case
    using piece_len_step [of i size' "offset mod BLOCK_SIZE s"] by (simp add: word_less_nat_alt)
qed simp

declare write_loop.simps [simp del]

definition ext2_write_content :: "nat \<Rightarrow> ext2 \<Rightarrow> inode_t \<Rightarrow> u8 list \<Rightarrow> u32 \<Rightarrow> u32 \<Rightarrow> (int \<times> inode_t \<times> ext2) res" where
  "ext2_write_content n s inode src offset size' =
     (if offset > in_size inode then Inr (-1, inode, s)
      else if offset + size' > MAX_FILE_SIZE then Inr (-1, inode, s)
      else
        rbind (write_loop n s inode src offset size' 0) (\<lambda>(offset, inode, s).
        let inode = (if offset > in_size inode then inode\<lparr>in_size := offset\<rparr> else inode) in
        rbind (ext2_inode_update s inode) (\<lambda>s. Inr (sint size', inode, s))))"

section \<open>Allocation\<close>

definition bit_at :: "u8 list \<Rightarrow> nat \<Rightarrow> bool" where
  "bit_at bitmap k \<longleftrightarrow> bit (bitmap ! (k div 8)) (k mod 8)"

definition free_bit :: "u8 list \<Rightarrow> nat \<Rightarrow> nat \<Rightarrow> nat option" where
  "free_bit bitmap j limit = find (\<lambda>k. \<not> bit_at bitmap k) [j..<limit]"

lemma bitmap_search_spec:
  assumes "unat blocks_pg \<le> 8 * length bitmap"
  shows "bitmap_search bitmap 0 j blocks_pg tot = Inr (map_option of_nat (free_bit bitmap (unat j) (min (unat blocks_pg) (unat tot))))"
  using assms
proof (induction bitmap "0 :: u32" j blocks_pg tot rule: bitmap_search.induct)
  case (1 bitmap j blocks_pg tot)
  show ?case
  proof (cases "j < blocks_pg \<and> 0 + j < tot")
    case True
    then have lt: "unat j < min (unat blocks_pg) (unat tot)" and jb: "unat (j div 8) < length bitmap" and "unat j < 4294967295"
      using 1(2) unat_u32_lt [of tot] by (auto simp: word_less_nat_alt unat_div)
    then have up: "[unat j..<min (unat blocks_pg) (unat tot)] = unat j # [unat (j + 1)..<min (unat blocks_pg) (unat tot)]"
      by (simp add: upt_conv_Cons unat_u32_Suc)
    have at: "bit (bitmap ! unat (j div 8)) (unat (j mod 8)) \<longleftrightarrow> bit_at bitmap (unat j)"
      by (simp add: bit_at_def unat_div unat_mod)
    show ?thesis
    proof (cases "bit_at bitmap (unat j)")
      case set': True
      have "bitmap_search bitmap 0 j blocks_pg tot = bitmap_search bitmap 0 (j + 1) blocks_pg tot"
        using True jb at set' by (subst bitmap_search.simps) (simp add: get8_def)
      also have "\<dots> = Inr (map_option of_nat (free_bit bitmap (unat (j + 1)) (min (unat blocks_pg) (unat tot))))"
        by (rule 1(1) [OF True]) (use jb at set' 1(2) in \<open>auto simp: get8_def\<close>)
      finally show ?thesis
        using up set' by (simp add: free_bit_def)
    next
      case clear: False
      then show ?thesis
        using True jb at up by (subst bitmap_search.simps) (simp add: get8_def free_bit_def)
    qed
  next
    case False
    then have "[unat j..<min (unat blocks_pg) (unat tot)] = []"
      by (auto simp: word_less_nat_alt)
    moreover have "bitmap_search bitmap 0 j blocks_pg tot = Inr None"
      by (subst bitmap_search.simps) (simp only: if_not_P [OF False])
    ultimately show ?thesis
      unfolding free_bit_def by (simp only: find.simps option.map)
  qed
qed

lemma free_bit_Some: "free_bit bitmap j limit = Some k \<Longrightarrow> j \<le> k \<and> k < limit \<and> \<not> bit_at bitmap k"
  by (auto simp: free_bit_def find_Some_iff)

definition set_bit_at :: "u8 list \<Rightarrow> nat \<Rightarrow> u8 list" where
  "set_bit_at bitmap k = bitmap[k div 8 := bitmap ! (k div 8) OR push_bit (k mod 8) 1]"

lemma bit_at_set:
  assumes "k div 8 < length bitmap"
  shows "bit_at (set_bit_at bitmap k) j \<longleftrightarrow> bit_at bitmap j \<or> j = k"
proof (cases "j div 8 = k div 8")
  case True
  then have "j = k \<longleftrightarrow> j mod 8 = k mod 8"
    by (metis div_mult_mod_eq)
  moreover have "j mod 8 < 8"
    by simp
  ultimately show ?thesis
    using assms True by (auto simp: bit_at_def set_bit_at_def bit_simps)
next
  case False
  then show ?thesis
    by (auto simp: bit_at_def set_bit_at_def)
qed

lemma clear_set_bit:
  assumes "k div 8 < length bitmap" "\<not> bit_at bitmap k"
  shows "(set_bit_at bitmap k)[k div 8 := set_bit_at bitmap k ! (k div 8) AND NOT (push_bit (k mod 8) 1)] = bitmap"
proof -
  let ?b = "bitmap ! (k div 8)"
  have "(?b OR push_bit (k mod 8) 1) AND NOT (push_bit (k mod 8) 1) = ?b"
    by (rule bit_word_eqI) (use assms(2) in \<open>auto simp: bit_simps bit_at_def\<close>)
  then show ?thesis
    using assms(1) by (simp add: set_bit_at_def)
qed

definition ext2_wf :: "ext2 \<Rightarrow> ext2_bgd_t \<Rightarrow> bool" where
  "ext2_wf s d \<longleftrightarrow> (\<exists>ds. bg_descrs s = d # ds) \<and> (\<forall>b. length (dev s b) = unat (BLOCK_SIZE s)) \<and>
     0 < sb_blocks_pg (sblock s) \<and> unat (sb_blocks_pg (sblock s)) \<le> 8 * unat (BLOCK_SIZE s)"

lemma BLOCK_SIZE_cong [simp]: "BLOCK_SIZE (s\<lparr>dev := d\<rparr>) = BLOCK_SIZE s" "BLOCK_SIZE (s\<lparr>held := h\<rparr>) = BLOCK_SIZE s"
  by (simp_all add: BLOCK_SIZE_def)

lemma ext2_zero_block_run:
  assumes "block \<notin> set (held s)" "length (dev s block) = unat (BLOCK_SIZE s)"
  shows "ext2_zero_block s block = Inr (s\<lparr>dev := (dev s)(block := replicate (unat (BLOCK_SIZE s)) 0)\<rparr>)"
  using assms by (simp add: ext2_zero_block_def ext2_read_block_def block_release_def ext2_write_block_def)

lemma last_allocs_block:
  assumes "device < 4"
  shows "last_allocs ! device = 0" "array_get last_allocs (device + (if False then 4 else 0)) = Inr 0"
proof -
  have "device \<in> {0, 1, 2, 3}"
    using assms by auto
  then show "last_allocs ! device = 0" "array_get last_allocs (device + (if False then 4 else 0)) = Inr 0"
    by (auto simp: last_allocs_def array_get_def)
qed

lemma ext2_block_alloc_run:
  assumes wf: "ext2_wf s d" and dev4: "device < 4"
    and free: "free_bit (dev s (bg_block_bitmap d)) 0 (min (unat (sb_blocks_pg (sblock s))) (unat (sb_total_blocks (sblock s)))) = Some k"
    and held: "bg_block_bitmap d \<notin> set (held s)" "of_nat k \<notin> set (held s)"
  shows "ext2_block_alloc (Suc n) s device = Inr (of_nat k,
     s\<lparr>dev := (dev s)(bg_block_bitmap d := set_bit_at (dev s (bg_block_bitmap d)) k, of_nat k := replicate (unat (BLOCK_SIZE s)) 0)\<rparr>)"
proof -
  let ?B = "bg_block_bitmap d" and ?bm = "dev s (bg_block_bitmap d)"
  obtain ds where ds: "bg_descrs s = d # ds"
    using wf by (auto simp: ext2_wf_def)
  have len: "\<And>b. length (dev s b) = unat (BLOCK_SIZE s)" and pg: "unat (sb_blocks_pg (sblock s)) \<le> 8 * length ?bm"
    using wf by (auto simp: ext2_wf_def)
  have k: "k < unat (sb_blocks_pg (sblock s))"
    using free_bit_Some [OF free] by simp
  then have k32: "unat (of_nat k :: u32) = k"
    using unat_u32_lt [of "sb_blocks_pg (sblock s)"] by (intro unat_u32_of_nat) linarith
  let ?s1 = "s\<lparr>dev := (dev s)(?B := set_bit_at ?bm k)\<rparr>"
  have "ext2_zero_block ?s1 (of_nat k) = Inr (?s1\<lparr>dev := (dev ?s1)(of_nat k := replicate (unat (BLOCK_SIZE ?s1)) 0)\<rparr>)"
    by (rule ext2_zero_block_run) (use held len in \<open>auto simp: set_bit_at_def\<close>)
  then show ?thesis
    using last_allocs_block [OF dev4] ds held(1) bitmap_search_spec [OF pg, of 0 "sb_total_blocks (sblock s)"] free k32
    by (simp add: ext2_block_alloc_def ext2_alloc_def ext2_read_block_def Let_def bitmap_of_def ext2_write_block_def
        block_release_def unat_div unat_mod set_bit_at_def)
qed

lemma ext2_block_free_run:
  assumes wf: "ext2_wf s d" and k: "k < unat (sb_blocks_pg (sblock s))" and held: "bg_block_bitmap d \<notin> set (held s)"
  shows "ext2_block_free s (of_nat k) =
     (if bit_at (dev s (bg_block_bitmap d)) k
      then Inr (s\<lparr>dev := (dev s)(bg_block_bitmap d := (dev s (bg_block_bitmap d))
             [k div 8 := dev s (bg_block_bitmap d) ! (k div 8) AND NOT (push_bit (k mod 8) 1)])\<rparr>)
      else Inl Abort)"
proof -
  have k32: "unat (of_nat k :: u32) = k"
    using k unat_u32_lt [of "sb_blocks_pg (sblock s)"] by (intro unat_u32_of_nat) linarith
  have zero: "(of_nat k :: u32) div sb_blocks_pg (sblock s) = 0" "(of_nat k :: u32) mod sb_blocks_pg (sblock s) = of_nat k"
    using k k32 by (simp_all add: word_unat_eq_iff unat_div unat_mod)
  have "k div 8 < length (dev s (bg_block_bitmap d))" "sb_blocks_pg (sblock s) \<noteq> 0"
    using wf k by (auto simp: ext2_wf_def)
  then show ?thesis
    using wf held zero k32
    by (auto simp: ext2_block_free_def ext2_free_def Let_def ext2_wf_def bitmap_of_def ext2_read_block_def get8_def
        bit_at_def unat_div unat_mod block_release_def ext2_write_block_def)
qed

text \<open>Fact [ext2_alloc_first_free]: on a well-formed file system whose first group has a free block, allocating a block
  returns the lowest free block of that group; its bit, and no other bit, is set in the bitmap, the
  block is filled with zeros and every other block is unchanged.\<close>

theorem ext2_alloc_first_free:
  assumes "ext2_wf s d" "device < 4" "bg_block_bitmap d \<notin> set (held s)" "of_nat k \<notin> set (held s)" "of_nat k \<noteq> bg_block_bitmap d"
    and "free_bit (dev s (bg_block_bitmap d)) 0 (min (unat (sb_blocks_pg (sblock s))) (unat (sb_total_blocks (sblock s)))) = Some k"
  shows "\<exists>s'. ext2_block_alloc (Suc n) s device = Inr (of_nat k, s') \<and>
     (\<forall>j. bit_at (dev s' (bg_block_bitmap d)) j \<longleftrightarrow> bit_at (dev s (bg_block_bitmap d)) j \<or> j = k) \<and>
     dev s' (of_nat k) = replicate (unat (BLOCK_SIZE s)) 0 \<and>
     (\<forall>b. b \<noteq> of_nat k \<and> b \<noteq> bg_block_bitmap d \<longrightarrow> dev s' b = dev s b) \<and> held s' = held s"
proof -
  have "k div 8 < length (dev s (bg_block_bitmap d))"
    using assms(1) free_bit_Some [OF assms(6)] by (auto simp: ext2_wf_def)
  then show ?thesis
    using ext2_block_alloc_run [OF assms(1,2,6,3,4), of n] assms(5) bit_at_set by auto
qed


definition ext2_sample :: ext2 where
  "ext2_sample = \<lparr>sblock = \<lparr>sb_total_blocks = 100, sb_log_block_size = 0, sb_blocks_pg = 8, sb_inodes_per_group = 8, sb_inode_size = 128\<rparr>,
     bg_descrs = [\<lparr>bg_block_bitmap = 3, bg_inode_bitmap = 4, bg_inode_table = 5\<rparr>],
     dev = (\<lambda>b. if b = 3 then 0x3F # replicate 1023 0 else replicate 1024 0), held = []\<rparr>"

lemma ext2_sample_wf: "ext2_wf ext2_sample \<lparr>bg_block_bitmap = 3, bg_inode_bitmap = 4, bg_inode_table = 5\<rparr>"
  by (simp add: ext2_wf_def ext2_sample_def BLOCK_SIZE_def)

lemma ext2_sample_free: "free_bit (0x3F # replicate 1023 0) 0 8 = Some 6"
  by (simp add: free_bit_def bit_at_def upt_rec bit_numeral_rec)

theorem ext2_alloc_first_free_witness:
  "\<exists>s'. ext2_block_alloc 1 ext2_sample 0 = Inr (6, s') \<and> dev s' 6 = replicate 1024 0 \<and> bit_at (dev s' 3) 6"
  using ext2_alloc_first_free [OF ext2_sample_wf, of 0 6 0] ext2_sample_free
  by (auto simp: ext2_sample_def BLOCK_SIZE_def)


section \<open>Inodes\<close>

definition rd16 :: "u8 list \<Rightarrow> nat \<Rightarrow> u16" where
  "rd16 b i = ucast (b ! i) OR push_bit 8 (ucast (b ! (i + 1)))"

definition rd32 :: "u8 list \<Rightarrow> nat \<Rightarrow> u32" where
  "rd32 b i = ucast (b ! i) OR push_bit 8 (ucast (b ! (i + 1))) OR push_bit 16 (ucast (b ! (i + 2))) OR push_bit 24 (ucast (b ! (i + 3)))"

definition up16 :: "u8 list \<Rightarrow> nat \<Rightarrow> u16 \<Rightarrow> u8 list" where
  "up16 b i v = b[i := ucast v, i + 1 := ucast (drop_bit 8 v)]"

definition up32 :: "u8 list \<Rightarrow> nat \<Rightarrow> u32 \<Rightarrow> u8 list" where
  "up32 b i v = b[i := ucast v, i + 1 := ucast (drop_bit 8 v), i + 2 := ucast (drop_bit 16 v), i + 3 := ucast (drop_bit 24 v)]"

lemma get_put_in:
  "i + 1 < length b \<Longrightarrow> get16 b i = Inr (rd16 b i)" "i + 3 < length b \<Longrightarrow> get32 b i = Inr (rd32 b i)"
  "i + 1 < length b \<Longrightarrow> put16 b i w = Inr (up16 b i w)" "i + 3 < length b \<Longrightarrow> put32 b i v = Inr (up32 b i v)"
  by (simp_all add: get16_def get32_def put16_def put32_def rd16_def rd32_def up16_def up32_def)

lemma length_up [simp]: "length (up16 b i w) = length b" "length (up32 b i v) = length b"
  by (simp_all add: up16_def up32_def)

lemma rd_up_same [simp]: "i + 1 < length b \<Longrightarrow> rd16 (up16 b i w) i = w" "i + 3 < length b \<Longrightarrow> rd32 (up32 b i v) i = v"
proof -
  have b8: "bit (ucast (x :: u8) :: u32) n \<longleftrightarrow> n < 8 \<and> bit x n" "bit (ucast (x :: u8) :: u16) n \<longleftrightarrow> n < 8 \<and> bit x n"
      "bit (ucast (y :: u32) :: u8) n \<longleftrightarrow> n < 8 \<and> bit y n" "bit (ucast (z :: u16) :: u8) n \<longleftrightarrow> n < 8 \<and> bit z n" for x y z n
    by (auto simp: bit_simps dest: bit_imp_le_length)
  assume len: "i + 1 < length b"
  show "rd16 (up16 b i w) i = w"
  proof (rule bit_word_eqI)
    fix n
    assume "n < LENGTH(16)"
    then have "n < 8 \<or> 8 \<le> n \<and> n < 16"
      by auto
    then show "bit (rd16 (up16 b i w) i) n = bit w n"
      using len by (auto simp: rd16_def up16_def b8 bit_or_iff bit_push_bit_iff bit_drop_bit_eq)
  qed
next
  have b8: "bit (ucast (x :: u8) :: u32) n \<longleftrightarrow> n < 8 \<and> bit x n" "bit (ucast (y :: u32) :: u8) n \<longleftrightarrow> n < 8 \<and> bit y n" for x y n
    by (auto simp: bit_simps dest: bit_imp_le_length)
  assume len: "i + 3 < length b"
  show "rd32 (up32 b i v) i = v"
  proof (rule bit_word_eqI)
    fix n
    assume "n < LENGTH(32)"
    then have "n < 8 \<or> 8 \<le> n \<and> n < 16 \<or> 16 \<le> n \<and> n < 24 \<or> 24 \<le> n \<and> n < 32"
      by auto
    then show "bit (rd32 (up32 b i v) i) n = bit v n"
      using len by (auto simp: rd32_def up32_def b8 bit_or_iff bit_push_bit_iff bit_drop_bit_eq)
  qed
qed

lemma nth_up [simp]:
  "j < i \<or> i + 1 < j \<Longrightarrow> up16 b i w ! j = b ! j" "j < i \<or> i + 3 < j \<Longrightarrow> up32 b i v ! j = b ! j"
  by (auto simp: up16_def up32_def)

lemma rd_cong:
  "(\<And>j. i \<le> j \<Longrightarrow> j < i + 2 \<Longrightarrow> b ! j = c ! j) \<Longrightarrow> rd16 b i = rd16 c i"
  "(\<And>j. i \<le> j \<Longrightarrow> j < i + 4 \<Longrightarrow> b ! j = c ! j) \<Longrightarrow> rd32 b i = rd32 c i"
  by (simp_all add: rd16_def rd32_def)

lemma rd_up_other [simp]:
  "j + 1 < i \<or> i + 1 < j \<Longrightarrow> rd16 (up16 b i w) j = rd16 b j" "j + 1 < i \<or> i + 3 < j \<Longrightarrow> rd16 (up32 b i v) j = rd16 b j"
  "j + 3 < i \<or> i + 1 < j \<Longrightarrow> rd32 (up16 b i w) j = rd32 b j" "j + 3 < i \<or> i + 3 < j \<Longrightarrow> rd32 (up32 b i v) j = rd32 b j"
  by (rule rd_cong; auto)+

text \<open>The loops over the block pointers.\<close>

lemma put_blocks:
  assumes "length bs = 15" "o' + 100 \<le> length b0"
  shows "\<exists>b. foldl (\<lambda>r i. rbind r (\<lambda>b. rbind (array_get bs i) (\<lambda>v. put32 b (o' + 40 + 4 * i) v))) (Inr b0) [0..<INODE_BLOCKS_COUNT] = Inr b \<and>
     length b = length b0 \<and> (\<forall>j<15. rd32 b (o' + 40 + 4 * j) = bs ! j) \<and> (\<forall>j<o' + 40. b ! j = b0 ! j) \<and> (\<forall>j\<ge>o' + 100. b ! j = b0 ! j)"
proof -
  let ?P = "\<lambda>k b. length b = length b0 \<and> (\<forall>j<k. rd32 b (o' + 40 + 4 * j) = bs ! j) \<and> (\<forall>j<o' + 40. b ! j = b0 ! j) \<and> (\<forall>j\<ge>o' + 100. b ! j = b0 ! j)"
  have step: "\<exists>b'. rbind (array_get bs k) (\<lambda>v. put32 b (o' + 40 + 4 * k) v) = Inr b' \<and> ?P (Suc k) b'" if k: "k < 15" and P: "?P k b" for k b
  proof -
    have in': "o' + 40 + 4 * k + 3 < length b"
      using k P assms(2) by simp
    have "rd32 (up32 b (o' + 40 + 4 * k) (bs ! k)) (o' + 40 + 4 * j) = bs ! j" if "j < Suc k" for j
      using that P in' by (cases "j = k") auto
    then show ?thesis
      using k P assms(1) in' get_put_in(4) [OF in'] by auto
  qed
  show ?thesis
    using foldl_rbind_upto [of ?P b0 15 "\<lambda>k b. rbind (array_get bs k) (\<lambda>v. put32 b (o' + 40 + 4 * k) v)"] step
    by (simp add: INODE_BLOCKS_COUNT_def)
qed

lemma get_blocks:
  assumes "length bs = 15" "length vs = 15" "\<forall>j<15. get32 b (o' + 40 + 4 * j) = Inr (vs ! j)"
  shows "foldl (\<lambda>r i. rbind r (\<lambda>bs. rbind (get32 b (o' + 40 + 4 * i)) (\<lambda>v. array_set bs i v))) (Inr bs) [0..<INODE_BLOCKS_COUNT] = Inr vs"
proof -
  let ?P = "\<lambda>k bs. length bs = 15 \<and> (\<forall>j<k. bs ! j = vs ! j)"
  have "\<exists>bs'. rbind (get32 b (o' + 40 + 4 * k)) (\<lambda>v. array_set bs k v) = Inr bs' \<and> ?P (Suc k) bs'" if "k < 15" "?P k bs" for k bs
    using that assms(3) by (auto simp: nth_list_update less_Suc_eq)
  then obtain bs' where "foldl (\<lambda>r i. rbind r (\<lambda>bs. rbind (get32 b (o' + 40 + 4 * i)) (\<lambda>v. array_set bs i v))) (Inr bs) [0..<15] = Inr bs'" "?P 15 bs'"
    using foldl_rbind_upto [of ?P bs 15 "\<lambda>k bs. rbind (get32 b (o' + 40 + 4 * k)) (\<lambda>v. array_set bs k v)"] assms(1) by auto
  moreover have "bs' = vs"
    using \<open>?P 15 bs'\<close> assms(2) by (simp add: list_eq_iff_nth_eq)
  ultimately show ?thesis
    by (simp add: INODE_BLOCKS_COUNT_def)
qed

lemma put_get_inode:
  assumes "o' + 128 \<le> length b" "length (in_blocks inode) = 15" "length (in_blocks old) = 15"
    and "in_device old = in_device inode" "in_n old = in_n inode"
  shows "\<exists>b'. put_inode b o' inode = Inr b' \<and> length b' = length b \<and> get_inode b' o' old = Inr inode \<and>
     (\<forall>j. j < o' \<or> o' + 128 \<le> j \<longrightarrow> b' ! j = b ! j)"
proof -
  define c where "c = up32 (up16 (up32 (up32 (up32 (up32 (up32 (up16 b o' (in_mode inode)) (o' + 4) (in_size inode))
    (o' + 8) (in_last_access_time inode)) (o' + 12) (in_creation_time inode)) (o' + 16) (in_last_modify_time inode))
    (o' + 20) (in_deletion_time inode)) (o' + 26) (in_hard_links_count inode)) (o' + 28) (in_sectors inode)"
  have len: "length c = length b"
    by (simp add: c_def)
  obtain b' where b': "foldl (\<lambda>r i. rbind r (\<lambda>b. rbind (array_get (in_blocks inode) i) (\<lambda>v. put32 b (o' + 40 + 4 * i) v))) (Inr c) [0..<INODE_BLOCKS_COUNT] = Inr b'"
      "length b' = length c" "\<forall>j<15. rd32 b' (o' + 40 + 4 * j) = in_blocks inode ! j" "\<forall>j<o' + 40. b' ! j = c ! j" "\<forall>j\<ge>o' + 100. b' ! j = c ! j"
    using put_blocks [OF assms(2), of o' c] assms(1) len by auto
  have put: "put_inode b o' inode = Inr b'"
    using assms(1) b'(1) by (simp add: put_inode_def get_put_in c_def)
  have low: "rd16 b' (o' + i) = rd16 c (o' + i)" "rd32 b' (o' + i) = rd32 c (o' + i)" if "i < 36" for i
    by (rule rd_cong; use b'(4) that in auto)+
  have bl: "\<forall>j<15. get32 b' (o' + 40 + 4 * j) = Inr (in_blocks inode ! j)"
    using b'(2,3) len assms(1) by (simp add: get_put_in)
  have fields: "rd16 b' o' = in_mode inode" "rd32 b' (o' + 4) = in_size inode" "rd32 b' (o' + 8) = in_last_access_time inode"
      "rd32 b' (o' + 12) = in_creation_time inode" "rd32 b' (o' + 16) = in_last_modify_time inode" "rd32 b' (o' + 20) = in_deletion_time inode"
      "rd16 b' (o' + 26) = in_hard_links_count inode" "rd32 b' (o' + 28) = in_sectors inode"
    using low(1) [of 0] low(1) [of 26] low(2) [of 4] low(2) [of 8] low(2) [of 12] low(2) [of 16] low(2) [of 20] low(2) [of 28] assms(1)
    by (simp_all add: c_def)
  have "get_inode b' o' old = Inr inode"
    using fields get_blocks [OF assms(3,2) bl] assms b'(2) len by (simp add: get_inode_def get_put_in)
  moreover have "b' ! j = b ! j" if "j < o' \<or> o' + 128 \<le> j" for j
    using that b'(4,5) by (auto simp: c_def)
  ultimately show ?thesis
    using put b'(2) len by (intro exI [of _ b']) simp
qed

lemma ext2_inode_idx_dev [simp]: "ext2_inode_idx (s\<lparr>dev := d\<rparr>) n = ext2_inode_idx s n"
  by (simp add: ext2_inode_idx_def INODES_PER_BLOCK_def Let_def cong: if_cong)

lemma ext2_inode_update_run:
  assumes "ext2_inode_idx s (in_n inode) = Inr \<lparr>ix_block = blk, ix_idx = idx\<rparr>" "blk \<notin> set (held s)"
    "128 * unat idx + 128 \<le> length (dev s blk)" "length (in_blocks inode) = 15"
  shows "\<exists>b'. ext2_inode_update s inode = Inr (s\<lparr>dev := (dev s)(blk := b')\<rparr>)"
  using put_get_inode [of "128 * unat idx" "dev s blk" inode inode] assms
  by (auto simp: ext2_inode_update_def ext2_read_inode_def ext2_read_block_def block_release_def ext2_write_block_def)

lemma ext2_inode_roundtrip_run:
  assumes ix: "ext2_inode_idx s (in_n inode) = Inr \<lparr>ix_block = blk, ix_idx = idx\<rparr>"
    and "blk \<notin> set (held s)" "128 * unat idx + 128 \<le> length (dev s blk)"
    and "length (in_blocks inode) = 15" "length (in_blocks old) = 15" "in_device old = in_device inode" "in_n old = in_n inode"
  shows "\<exists>s'. ext2_inode_update s inode = Inr s' \<and> ext2_inode_get s' old = Inr (inode, s') \<and> held s' = held s \<and>
     (\<forall>b. b \<noteq> blk \<longrightarrow> dev s' b = dev s b) \<and> length (dev s' blk) = length (dev s blk) \<and>
     (\<forall>j. j < 128 * unat idx \<or> 128 * unat idx + 128 \<le> j \<longrightarrow> dev s' blk ! j = dev s blk ! j)"
proof -
  obtain b' where b': "put_inode (dev s blk) (128 * unat idx) inode = Inr b'" "length b' = length (dev s blk)"
      "get_inode b' (128 * unat idx) old = Inr inode" "\<forall>j. j < 128 * unat idx \<or> 128 * unat idx + 128 \<le> j \<longrightarrow> b' ! j = dev s blk ! j"
    using put_get_inode [OF assms(3-7)] by blast
  let ?s = "s\<lparr>dev := (dev s)(blk := b')\<rparr>"
  have ix': "ext2_inode_idx ?s (in_n inode) = Inr \<lparr>ix_block = blk, ix_idx = idx\<rparr>"
    using ix by simp
  have "ext2_inode_update s inode = Inr ?s"
    using ix assms(2) b'(1) by (simp add: ext2_inode_update_def ext2_read_inode_def ext2_read_block_def block_release_def ext2_write_block_def)
  moreover have "ext2_inode_get ?s old = Inr (inode, ?s)"
    using ix' assms(2,7) b'(3) by (simp add: ext2_inode_get_def ext2_read_inode_def ext2_read_block_def block_release_def)
  ultimately show ?thesis
    using b'(2,4) by (intro exI [of _ ?s]) simp
qed


definition inode_sample :: inode_t where
  "inode_sample = \<lparr>in_device = 0, in_n = 2, in_mode = 0x8000, in_hard_links_count = 1, in_size = 2000, in_last_access_time = 7,
     in_creation_time = 8, in_last_modify_time = 9, in_deletion_time = 0, in_sectors = 4, in_blocks = 20 # 21 # replicate 13 0\<rparr>"


section \<open>Files\<close>

text \<open>Equal blocks one after the other.\<close>

lemma concat_piece:
  assumes "\<forall>x\<in>set xs. length x = B" "k < length xs" "r + len \<le> B"
  shows "take len (drop (k * B + r) (concat xs)) = take len (drop r (xs ! k))"
  using assms
proof (induction xs arbitrary: k)
  case (Cons x xs)
  show ?case
  proof (cases k)
    case 0
    then show ?thesis
      using Cons.prems by simp
  next
    case (Suc k')
    then have "take len (drop (k' * B + r) (concat xs)) = take len (drop r (xs ! k'))"
      using Cons by simp
    then show ?thesis
      using Suc Cons.prems by (simp add: algebra_simps)
  qed
qed simp

lemma concat_update:
  assumes "\<forall>x\<in>set xs. length x = B" "k < length xs" "r + length d \<le> B"
  shows "concat (xs[k := take r (xs ! k) @ d @ drop (r + length d) (xs ! k)]) =
     take (k * B + r) (concat xs) @ d @ drop (k * B + r + length d) (concat xs)"
  using assms
proof (induction xs arbitrary: k)
  case (Cons x xs)
  show ?case
  proof (cases k)
    case 0
    then show ?thesis
      using Cons.prems by simp
  next
    case (Suc k')
    then have "concat (xs[k' := take r (xs ! k') @ d @ drop (r + length d) (xs ! k')]) =
        take (k' * B + r) (concat xs) @ d @ drop (k' * B + r + length d) (concat xs)"
      using Cons by simp
    then show ?thesis
      using Suc Cons.prems by (simp add: algebra_simps)
  qed
qed simp

text \<open>The first \<open>m\<close> direct blocks of a file are there, with blocks of 1 KiB.\<close>

definition direct_ok :: "ext2 \<Rightarrow> inode_t \<Rightarrow> nat \<Rightarrow> bool" where
  "direct_ok s inode m \<longleftrightarrow> sb_log_block_size (sblock s) = 0 \<and> length (in_blocks inode) = 15 \<and> m \<le> 12 \<and> distinct (take m (in_blocks inode)) \<and>
     (\<forall>b\<in>set (take m (in_blocks inode)). b \<noteq> 0 \<and> b \<notin> set (held s) \<and> length (dev s b) = 1024)"

definition file_bytes :: "ext2 \<Rightarrow> inode_t \<Rightarrow> nat \<Rightarrow> u8 list" where
  "file_bytes s inode m = concat (map (dev s) (take m (in_blocks inode)))"

lemma direct_ok_block:
  assumes "direct_ok s inode m" "k < m"
  shows "in_blocks inode ! k \<noteq> 0" "in_blocks inode ! k \<notin> set (held s)" "length (dev s (in_blocks inode ! k)) = 1024"
    "k < 12" "length (in_blocks inode) = 15" "BLOCK_SIZE s = 1024"
proof -
  have "in_blocks inode ! k \<in> set (take m (in_blocks inode))"
    using assms by (auto simp: direct_ok_def in_set_conv_nth intro!: exI [of _ k])
  then show "in_blocks inode ! k \<noteq> 0" "in_blocks inode ! k \<notin> set (held s)" "length (dev s (in_blocks inode ! k)) = 1024"
    using assms(1) by (auto simp: direct_ok_def)
qed (use assms in \<open>auto simp: direct_ok_def BLOCK_SIZE_def\<close>)

lemma piece_len_nat:
  assumes "i \<le> size'" "unat buf_off < 1024"
  shows "unat (piece_len size' i buf_off) = min (unat size' - unat i) (1024 - unat buf_off)"
proof -
  have "unat (size' - i) = unat size' - unat i"
    using assms(1) by (rule unat_sub)
  moreover have "unat (1024 - buf_off) = 1024 - unat buf_off"
    using assms(2) unat_sub [of buf_off 1024] by (simp add: word_le_nat_alt)
  ultimately show ?thesis
    by (simp add: piece_len_def word_less_nat_alt min_def)
qed

lemma get_iblock_direct:
  assumes ok: "direct_ok s inode m" and k: "unat offset div 1024 < m"
  shows "ext2_get_iblock n s inode (offset div BLOCK_SIZE s) = Inr (in_blocks inode ! (unat offset div 1024), inode, s)"
proof -
  note b = direct_ok_block [OF ok k]
  have "unat (offset div 1024) = unat offset div 1024"
    by (simp add: unat_div)
  then have "offset div 1024 < DIRECT_BLOCKS"
    using b(4) by (simp add: word_less_nat_alt DIRECT_BLOCKS_def)
  then show ?thesis
    using b by (simp add: ext2_get_iblock_def inode_block_def unat_div)
qed

lemma file_piece:
  assumes ok: "direct_ok s inode m" and k: "off div 1024 < m" "off mod 1024 + len \<le> 1024"
  shows "take len (drop off (file_bytes s inode m)) = take len (drop (off mod 1024) (dev s (in_blocks inode ! (off div 1024))))"
  using concat_piece [of "map (dev s) (take m (in_blocks inode))" 1024 "off div 1024" "off mod 1024" len] ok k
    direct_ok_block(4,5) [OF ok k(1)]
  by (simp add: file_bytes_def direct_ok_def)

lemma read_loop_direct:
  assumes ok: "direct_ok s inode m" and "i \<le> size'" "unat offset + (unat size' - unat i) \<le> m * 1024"
  shows "read_loop n s inode offset size' i dst =
     Inr (dst @ take (unat size' - unat i) (drop (unat offset) (file_bytes s inode m)), inode, s)"
  using assms(2,3)
proof (induction "unat size' - unat i" arbitrary: offset i dst rule: less_induct)
  case less
  show ?case
  proof (cases "i < size'")
    case True
    let ?off = "unat offset" and ?len = "piece_len size' i (offset mod 1024)"
    have pos: "0 < unat size' - unat i"
      using True by (simp add: word_less_nat_alt)
    have k: "?off div 1024 < m" and m12: "m \<le> 12"
      using less(3) pos ok by (auto simp: div_less_iff_less_mult direct_ok_def)
    note b = direct_ok_block [OF ok k]
    have r: "unat (offset mod 1024) = ?off mod 1024"
      by (simp add: unat_mod)
    have len: "unat ?len = min (unat size' - unat i) (1024 - ?off mod 1024)"
      using piece_len_nat [of i size' "offset mod 1024"] True r by simp
    then have lpos: "0 < unat ?len" "?off mod 1024 + unat ?len \<le> 1024" "unat ?len \<le> unat size' - unat i"
      using pos by auto
    then have nz: "?len \<noteq> 0"
      by auto
    have off': "unat (offset + ?len) = ?off + unat ?len"
      using less(3) lpos m12 by (intro unat_u32_add) linarith
    have i': "unat (i + ?len) = unat i + unat ?len" "i + ?len \<le> size'"
      using piece_len_step [OF True nz] by (simp_all add: word_le_nat_alt)
    have rest: "unat ?len + (unat size' - (unat i + unat ?len)) = unat size' - unat i"
      using lpos(3) by linarith
    have "read_loop n s inode offset size' i dst = read_loop n s inode (offset + ?len) size' (i + ?len)
        (dst @ take (unat ?len) (drop (?off mod 1024) (dev s (in_blocks inode ! (?off div 1024)))))"
      using True get_iblock_direct [OF ok k, of n] b lpos nz r
      by (subst read_loop.simps) (simp add: ext2_read_block_def block_release_def Let_def)
    also have "\<dots> = Inr ((dst @ take (unat ?len) (drop (?off mod 1024) (dev s (in_blocks inode ! (?off div 1024))))) @
        take (unat size' - unat (i + ?len)) (drop (unat (offset + ?len)) (file_bytes s inode m)), inode, s)"
      by (rule less(1)) (use i' off' lpos less(3) pos in auto)
    also have "take (unat ?len) (drop (?off mod 1024) (dev s (in_blocks inode ! (?off div 1024)))) = take (unat ?len) (drop ?off (file_bytes s inode m))"
      using file_piece [OF ok k lpos(2)] by simp
    finally show ?thesis
      using i' off' take_add [of "unat ?len" "unat size' - (unat i + unat ?len)" "drop ?off (file_bytes s inode m)"] rest
      by (simp add: add.commute)
  next
    case False
    then have "unat size' - unat i = 0"
      by (simp add: word_less_nat_alt)
    then show ?thesis
      using False by (subst read_loop.simps) simp
  qed
qed

lemma ext2_read_run:
  assumes ok: "direct_ok s inode m" and size: "unat (in_size inode) \<le> m * 1024" "unat offset + unat size' < 4294967296"
  shows "ext2_read_content n s inode offset size' =
     Inr (take (unat size') (drop (unat offset) (take (unat (in_size inode)) (file_bytes s inode m))), inode, s)"
proof (cases "offset > in_size inode")
  case True
  then show ?thesis
    by (simp add: ext2_read_content_def word_less_nat_alt)
next
  case False
  then have le: "unat offset \<le> unat (in_size inode)"
    by (simp add: word_less_nat_alt)
  have sum: "unat (offset + size') = unat offset + unat size'"
    using size(2) by (rule unat_u32_add)
  define sz where "sz = (if offset + size' > in_size inode then in_size inode - offset else size')"
  have sz: "unat sz = min (unat size') (unat (in_size inode) - unat offset)"
    using sum le unat_sub [of offset "in_size inode"] by (auto simp: sz_def word_less_nat_alt word_le_nat_alt)
  have "ext2_read_content n s inode offset size' = read_loop n s inode offset sz 0 []"
    using False by (simp add: ext2_read_content_def sz_def Let_def)
  also have "\<dots> = Inr ([] @ take (unat sz - unat (0 :: u32)) (drop (unat offset) (file_bytes s inode m)), inode, s)"
    by (rule read_loop_direct [OF ok]) (use sz le size(1) in auto)
  finally show ?thesis
    using sz by (simp add: drop_take take_take min.commute)
qed

text \<open>Overwriting a piece of one block.\<close>

lemma file_overwrite:
  assumes ok: "direct_ok s inode m" and k: "off div 1024 < m" "off mod 1024 + length d \<le> 1024"
  defines "b \<equiv> in_blocks inode ! (off div 1024)"
  defines "x \<equiv> take (off mod 1024) (dev s b) @ d @ drop (off mod 1024 + length d) (dev s b)"
  shows "direct_ok (s\<lparr>dev := (dev s)(b := x)\<rparr>) inode m"
    "file_bytes (s\<lparr>dev := (dev s)(b := x)\<rparr>) inode m = take off (file_bytes s inode m) @ d @ drop (off + length d) (file_bytes s inode m)"
proof -
  note bk = direct_ok_block [OF ok k(1)]
  let ?bs = "take m (in_blocks inode)" and ?k = "off div 1024"
  have len: "length x = 1024"
    using bk(3) k(2) by (simp add: x_def b_def)
  then show "direct_ok (s\<lparr>dev := (dev s)(b := x)\<rparr>) inode m"
    using ok by (auto simp: direct_ok_def)
  have kb: "?k < length ?bs" "?bs ! ?k = b" and dist: "distinct ?bs"
    using bk(4,5) k(1) ok by (auto simp: direct_ok_def b_def)
  have upd: "map ((dev s)(b := x)) ?bs = (map (dev s) ?bs)[?k := x]"
  proof (rule nth_equalityI)
    fix j
    assume "j < length (map ((dev s)(b := x)) ?bs)"
    then have j: "j < length ?bs"
      by simp
    then have "?bs ! j = b \<longleftrightarrow> j = ?k"
      using kb dist nth_eq_iff_index_eq by metis
    then show "map ((dev s)(b := x)) ?bs ! j = (map (dev s) ?bs)[?k := x] ! j"
      using j kb(1) by (simp add: nth_list_update del: nth_take)
  qed simp
  have "concat ((map (dev s) ?bs)[?k := x]) = take (?k * 1024 + off mod 1024) (concat (map (dev s) ?bs)) @ d @
      drop (?k * 1024 + off mod 1024 + length d) (concat (map (dev s) ?bs))"
    using concat_update [of "map (dev s) ?bs" 1024 ?k "off mod 1024" d] ok k(2) kb
    by (simp add: x_def direct_ok_def del: nth_take)
  then show "file_bytes (s\<lparr>dev := (dev s)(b := x)\<rparr>) inode m = take off (file_bytes s inode m) @ d @ drop (off + length d) (file_bytes s inode m)"
    using upd by (simp add: file_bytes_def)
qed

lemma splice_splice:
  assumes "off + length d \<le> length xs"
  shows "take (off + length d) (take off xs @ d @ drop (off + length d) xs) @ e @ drop (off + length d + length e) (take off xs @ d @ drop (off + length d) xs) =
     take off xs @ (d @ e) @ drop (off + length (d @ e)) xs"
proof -
  have "min (length xs) off = off"
    using assms by simp
  then show ?thesis
    by (simp add: ac_simps)
qed

lemma file_bytes_length: "direct_ok s inode m \<Longrightarrow> length (file_bytes s inode m) = m * 1024"
proof -
  assume ok: "direct_ok s inode m"
  have "length (concat (map (dev s) bs)) = length bs * 1024" if "\<forall>b\<in>set bs. length (dev s b) = 1024" for bs
    using that by (induction bs) auto
  then show ?thesis
    using ok by (auto simp: direct_ok_def file_bytes_def)
qed

lemma write_loop_direct:
  assumes "direct_ok s inode m" "i \<le> size'" "unat offset + (unat size' - unat i) \<le> m * 1024" "unat size' \<le> length src"
  shows "\<exists>s'. write_loop n s inode src offset size' i = Inr (offset + (size' - i), inode, s') \<and> direct_ok s' inode m \<and>
     file_bytes s' inode m = take (unat offset) (file_bytes s inode m) @ drop (unat i) (take (unat size') src) @
       drop (unat offset + (unat size' - unat i)) (file_bytes s inode m) \<and>
     (\<forall>b. b \<notin> set (take m (in_blocks inode)) \<longrightarrow> dev s' b = dev s b) \<and> (\<exists>f. s' = s\<lparr>dev := f\<rparr>)"
  using assms(1-3)
proof (induction "unat size' - unat i" arbitrary: s offset i rule: less_induct)
  case less
  note ok = less(2)
  show ?case
  proof (cases "i < size'")
    case True
    let ?off = "unat offset" and ?len = "piece_len size' i (offset mod 1024)"
    have pos: "0 < unat size' - unat i"
      using True by (simp add: word_less_nat_alt)
    have k: "?off div 1024 < m" and m12: "m \<le> 12"
      using less(4) pos ok by (auto simp: div_less_iff_less_mult direct_ok_def)
    note b = direct_ok_block [OF ok k]
    have r: "unat (offset mod 1024) = ?off mod 1024"
      by (simp add: unat_mod)
    have len: "unat ?len = min (unat size' - unat i) (1024 - ?off mod 1024)"
      using piece_len_nat [of i size' "offset mod 1024"] True r by simp
    then have lpos: "0 < unat ?len" "?off mod 1024 + unat ?len \<le> 1024" "unat ?len \<le> unat size' - unat i"
      using pos by auto
    then have nz: "?len \<noteq> 0"
      by auto
    have off': "unat (offset + ?len) = ?off + unat ?len"
      using less(4) lpos m12 by (intro unat_u32_add) linarith
    have i': "unat (i + ?len) = unat i + unat ?len" "i + ?len \<le> size'" "unat i + unat ?len \<le> length src"
      using piece_len_step [OF True nz] assms(4) by (simp_all add: word_le_nat_alt)
    define d where "d = take (unat ?len) (drop (unat i) src)"
    have dlen: "length d = unat ?len"
      using i'(3) by (simp add: d_def)
    define blk where "blk = in_blocks inode ! (?off div 1024)"
    define x where "x = take (?off mod 1024) (dev s blk) @ d @ drop (?off mod 1024 + length d) (dev s blk)"
    let ?s1 = "s\<lparr>dev := (dev s)(blk := x)\<rparr>"
    have s1: "direct_ok ?s1 inode m" "file_bytes ?s1 inode m = take ?off (file_bytes s inode m) @ d @ drop (?off + length d) (file_bytes s inode m)"
      using file_overwrite [OF ok k, of d] lpos(2) dlen by (simp_all add: x_def blk_def)
    have run: "write_loop n s inode src offset size' i = write_loop n ?s1 inode src (offset + ?len) size' (i + ?len)"
      using True get_iblock_direct [OF ok k, of n] b lpos nz r i'(3) dlen
      by (subst write_loop.simps) (simp add: ext2_read_block_def block_release_def ext2_write_block_def Let_def blk_def x_def d_def)
    have dec: "unat size' - unat (i + ?len) < unat size' - unat i"
      using i'(1) lpos pos by linarith
    have bound: "unat (offset + ?len) + (unat size' - unat (i + ?len)) \<le> m * 1024"
      using i'(1) off' lpos(3) less(4) by linarith
    obtain s' where s': "write_loop n ?s1 inode src (offset + ?len) size' (i + ?len) = Inr (offset + ?len + (size' - (i + ?len)), inode, s')"
        "direct_ok s' inode m" "file_bytes s' inode m = take (unat (offset + ?len)) (file_bytes ?s1 inode m) @ drop (unat (i + ?len)) (take (unat size') src) @
           drop (unat (offset + ?len) + (unat size' - unat (i + ?len))) (file_bytes ?s1 inode m)"
        "\<forall>b. b \<notin> set (take m (in_blocks inode)) \<longrightarrow> dev s' b = dev ?s1 b" "\<exists>f. s' = ?s1\<lparr>dev := f\<rparr>"
      using less(1) [OF dec s1(1) i'(2) bound] by blast
    have "blk \<in> set (take m (in_blocks inode))"
      using k b(4,5) by (auto simp: blk_def in_set_conv_nth intro!: exI [of _ "?off div 1024"])
    then have "\<forall>b. b \<notin> set (take m (in_blocks inode)) \<longrightarrow> dev s' b = dev s b"
      using s'(4) by auto
    moreover have "file_bytes s' inode m = take ?off (file_bytes s inode m) @ drop (unat i) (take (unat size') src) @
        drop (?off + (unat size' - unat i)) (file_bytes s inode m)"
    proof -
      let ?e = "drop (unat (i + ?len)) (take (unat size') src)"
      have e: "length ?e = unat size' - unat (i + ?len)" "d @ ?e = drop (unat i) (take (unat size') src)"
      proof -
        show "length ?e = unat size' - unat (i + ?len)"
          using assms(4) by simp
        have "d = take (unat ?len) (drop (unat i) (take (unat size') src))"
          using lpos(3) by (simp add: d_def drop_take min_absorb1)
        moreover have "?e = drop (unat ?len) (drop (unat i) (take (unat size') src))"
          using i'(1) by (simp add: add.commute)
        ultimately show "d @ ?e = drop (unat i) (take (unat size') src)"
          by (simp only: append_take_drop_id)
      qed
      have le: "?off + length d \<le> length (file_bytes s inode m)"
        using less(4) lpos(3) dlen file_bytes_length [OF ok] by linarith
      have "length (d @ ?e) = unat size' - unat i"
        using e(1) dlen i'(1) lpos(3) by simp
      then show ?thesis
        using s'(3) splice_splice [OF le, of ?e] s1(2) off' dlen e by simp
    qed
    moreover have "offset + ?len + (size' - (i + ?len)) = offset + (size' - i)"
      by simp
    ultimately show ?thesis
      using run s' by (intro exI [of _ s']) auto
  next
    case False
    have same: "\<exists>f. s = s\<lparr>dev := f\<rparr>"
      by (rule exI [of _ "dev s"]) simp
    have "unat size' - unat i = 0" "size' = i"
      using False less(3) by (auto simp: word_less_nat_alt word_le_nat_alt word_unat_eq_iff)
    then show ?thesis
      using False ok same by (intro exI [of _ s]) (simp add: write_loop.simps)
  qed
qed

lemma ext2_write_run:
  assumes ok: "direct_ok s inode m" and range: "offset \<le> in_size inode" "unat offset + unat size' \<le> m * 1024" "unat (in_size inode) \<le> m * 1024"
    and src: "unat size' \<le> length src"
    and ix: "ext2_inode_idx s (in_n inode) = Inr \<lparr>ix_block = blk, ix_idx = idx\<rparr>" "blk \<notin> set (held s)" "blk \<notin> set (take m (in_blocks inode))"
      "128 * unat idx + 128 \<le> length (dev s blk)"
  shows "\<exists>inode' s'. ext2_write_content n s inode src offset size' = Inr (int (unat size'), inode', s') \<and>
     unat (in_size inode') = max (unat (in_size inode)) (unat offset + unat size') \<and>
     file_bytes s' inode' m = take (unat offset) (file_bytes s inode m) @ take (unat size') src @ drop (unat offset + unat size') (file_bytes s inode m) \<and>
     ext2_read_content n' s' inode' offset size' = Inr (take (unat size') src, inode', s') \<and>
     (\<forall>b. b \<noteq> blk \<and> b \<notin> set (take m (in_blocks inode)) \<longrightarrow> dev s' b = dev s b)"
proof -
  have m12: "m \<le> 12" and bl: "length (in_blocks inode) = 15"
    using ok by (auto simp: direct_ok_def)
  obtain s1 f where s1: "write_loop n s inode src offset size' 0 = Inr (offset + (size' - 0), inode, s1)" "direct_ok s1 inode m"
      "file_bytes s1 inode m = take (unat offset) (file_bytes s inode m) @ drop (unat (0 :: u32)) (take (unat size') src) @
         drop (unat offset + (unat size' - unat (0 :: u32))) (file_bytes s inode m)"
      "\<forall>b. b \<notin> set (take m (in_blocks inode)) \<longrightarrow> dev s1 b = dev s b" "s1 = s\<lparr>dev := f\<rparr>"
    using write_loop_direct [OF ok, of 0 size' offset src n] range(2) src by auto
  have sum: "unat (offset + size') = unat offset + unat size'"
    using range(2) m12 by (intro unat_u32_add) linarith
  define inode' where "inode' = (if offset + size' > in_size inode then inode\<lparr>in_size := offset + size'\<rparr> else inode)"
  have i': "in_blocks inode' = in_blocks inode" "in_n inode' = in_n inode" "unat (in_size inode') = max (unat (in_size inode)) (unat offset + unat size')"
    using sum by (auto simp: inode'_def word_less_nat_alt)
  have "ext2_inode_idx s1 (in_n inode') = Inr \<lparr>ix_block = blk, ix_idx = idx\<rparr>" "blk \<notin> set (held s1)"
      "128 * unat idx + 128 \<le> length (dev s1 blk)" "length (in_blocks inode') = 15"
    using ix s1(4,5) i'(1,2) bl by simp_all
  then obtain b' where upd: "ext2_inode_update s1 inode' = Inr (s1\<lparr>dev := (dev s1)(blk := b')\<rparr>)"
    using ext2_inode_update_run by blast
  define s2 where "s2 = s1\<lparr>dev := (dev s1)(blk := b')\<rparr>"
  have ok2: "direct_ok s2 inode' m" and bytes: "file_bytes s2 inode' m = file_bytes s1 inode m"
  proof -
    have "dev s2 b = dev s1 b" if "b \<in> set (take m (in_blocks inode))" for b
      using that ix(3) by (auto simp: s2_def)
    then show "file_bytes s2 inode' m = file_bytes s1 inode m"
      using i'(1) by (auto simp: file_bytes_def cong: map_cong)
    show "direct_ok s2 inode' m"
      using s1(2) i'(1) ix(3) by (auto simp: direct_ok_def s2_def)
  qed
  have max': "\<not> offset + size' > MAX_FILE_SIZE"
    using sum range(2) m12 by (simp add: word_less_nat_alt MAX_FILE_SIZE_def IND3_PTR_BLOCKS_def IND2_PTR_BLOCKS_def IND1_PTR_BLOCKS_def
        PTR_ENTRY_BLOCKS_def DIRECT_BLOCKS_def)
  have ret: "sint size' = int (unat size')"
  proof -
    have u: "uint size' = int (unat size')"
      by simp
    have "int k < 2 ^ 31" "- (2 ^ 31) \<le> int k" if "k \<le> 12288" for k
      using that by simp_all
    moreover have "unat size' \<le> 12288"
      using range(2) m12 by linarith
    ultimately have "signed_take_bit 31 (uint size') = int (unat size')"
      unfolding u by (intro signed_take_bit_int_eq_self)
    then show ?thesis
      by (simp add: sint_uint)
  qed
  have wr: "ext2_write_content n s inode src offset size' = Inr (int (unat size'), inode', s2)"
    using leD [OF range(1)] max' s1(1) upd ret by (simp add: ext2_write_content_def Let_def inode'_def s2_def)
  have all: "file_bytes s2 inode' m = take (unat offset) (file_bytes s inode m) @ take (unat size') src @ drop (unat offset + unat size') (file_bytes s inode m)"
    using s1(3) bytes by simp
  have "ext2_read_content n' s2 inode' offset size' =
      Inr (take (unat size') (drop (unat offset) (take (unat (in_size inode')) (file_bytes s2 inode' m))), inode', s2)"
    by (rule ext2_read_run [OF ok2]) (use i'(3) range m12 in auto)
  also have "take (unat size') (drop (unat offset) (take (unat (in_size inode')) (file_bytes s2 inode' m))) = take (unat size') src"
    using i'(3) all range(2) src file_bytes_length [OF ok] by (simp add: drop_take take_take min_absorb2)
  finally show ?thesis
    using wr i'(3) all s1(4) by (intro exI [of _ inode'] exI [of _ s2]) (simp add: s2_def)
qed



text \<open>A file of 2000 bytes in blocks 20 and 21.\<close>

definition ext2_sample2 :: ext2 where
  "ext2_sample2 = ext2_sample\<lparr>dev := (dev ext2_sample)(20 := replicate 1024 1, 21 := replicate 1024 2)\<rparr>"

lemma ext2_sample2_ok: "direct_ok ext2_sample2 inode_sample 2"
  by (simp add: direct_ok_def ext2_sample2_def ext2_sample_def inode_sample_def)

lemma ext2_sample2_bytes: "file_bytes ext2_sample2 inode_sample 2 = replicate 1024 1 @ replicate 1024 2"
  by (simp add: file_bytes_def ext2_sample2_def inode_sample_def)



section \<open>Where the code goes wrong\<close>

text \<open>Fact [ext2_indirect_data_as_pointer]: for a block behind the twelve direct ones the block map returns the first word of
  the data in that block, not its number: one level of indirection too many is followed.\<close>

lemma ext2_indirect_data_as_pointer:
  assumes idx: "12 \<le> unat idx" "unat idx < 268"
    and ind: "length (in_blocks inode) = 15" "in_blocks inode ! 12 = b" "b \<noteq> 0" "length (dev s b) = 1024"
    and p: "rd32 (dev s b) (4 * (unat idx - 12)) = p" "p \<noteq> 0" "length (dev s p) = 1024"
    and free: "b \<noteq> p" "held s = []"
  shows "ext2_get_iblock n s inode idx = Inr (rd32 (dev s p) 0, inode, s)"
proof -
  have lim: "\<not> idx < DIRECT_BLOCKS" "idx < IND1_LIMIT"
    using idx by (simp_all add: word_less_nat_alt DIRECT_BLOCKS_def IND1_LIMIT_def IND1_PTR_BLOCKS_def PTR_ENTRY_BLOCKS_def)
  have sub: "unat (idx - DIRECT_BLOCKS) = unat idx - 12"
    using lim(1) by (simp add: unat_sub not_less DIRECT_BLOCKS_def)
  let ?s = "s\<lparr>held := [b]\<rparr>"
  have "get32 (dev s b) (4 * (unat idx - 12)) = Inr p" "get32 (dev s p) 0 = Inr (rd32 (dev s p) 0)"
    using p ind(4) idx get_put_in(2) [of "4 * (unat idx - 12)" "dev s b"] get_put_in(2) [of 0 "dev s p"] by auto
  then have "ext2_indblock n 0 ?s (in_device inode) (dev s b) (idx - DIRECT_BLOCKS) = Inr (rd32 (dev s p) 0, dev s b, ?s)"
    using sub p(2) free
    by (subst ext2_indblock.simps) (simp add: Let_def ext2_read_block_def ext2_write_block_def block_release_def)
  then show ?thesis
    using lim ind free
    by (simp add: ext2_get_iblock_def inode_block_def IND1_IDX_def ext2_read_block_def ext2_write_block_def block_release_def)
qed

text \<open>Fact [ext2_truncate_keeps_size]: truncating a file that has fewer than twelve blocks leaves its size as it was, in memory
  and on disk: the function returns at the first missing block, before the size is cleared.\<close>

lemma trunc_direct_stops:
  assumes "trunc_direct k i s inode = Inr (go_on, inode', s')" "i \<le> m" "m < i + k" "in_blocks inode ! m = 0"
  shows "\<not> go_on \<and> in_size inode' = in_size inode"
  using assms
proof (induction k i s inode rule: trunc_direct.induct)
  case (2 k i s inode)
  then show ?case
    by (cases "m = i") (auto simp: rbind_eq_Inr array_get_eq_Inr split: if_splits)
qed simp

lemma ext2_truncate_keeps_size:
  assumes "ext2_truncate s inode = Inr (inode', s')" "m < 12" "in_blocks inode ! m = 0"
  shows "in_size inode' = in_size inode"
  using assms trunc_direct_stops [of 12 0 s inode _ _ _ m]
  by (fastforce simp: ext2_truncate_def rbind_eq_Inr DIRECT_BLOCKS_def)

text \<open>Fact [ext2_alloc_second_group]: once the first group is full, a block cannot be allocated even if there are further groups:
  the descriptor of the next group is looked up by the number of its first block, behind the end of the table.\<close>

lemma ext2_alloc_second_group:
  assumes wf: "ext2_wf s d" "device < 4" "bg_block_bitmap d \<notin> set (held s)"
    and full: "free_bit (dev s (bg_block_bitmap d)) 0 (unat (sb_blocks_pg (sblock s))) = None"
    and groups: "sb_blocks_pg (sblock s) < sb_total_blocks (sblock s)" "length (bg_descrs s) \<le> unat (sb_blocks_pg (sblock s))"
  shows "ext2_block_alloc (Suc (Suc n)) s device = Inl BadAccess"
proof -
  let ?pg = "sb_blocks_pg (sblock s)" and ?tot = "sb_total_blocks (sblock s)"
  obtain ds where ds: "bg_descrs s = d # ds"
    using wf(1) by (auto simp: ext2_wf_def)
  have pg: "unat ?pg \<le> 8 * length (dev s (bg_block_bitmap d))" "?pg \<noteq> 0"
    using wf(1) by (auto simp: ext2_wf_def)
  have "min (unat ?pg) (unat ?tot) = unat ?pg"
    using groups(1) by (simp add: word_less_nat_alt)
  then have none: "bitmap_search (dev s (bg_block_bitmap d)) 0 0 ?pg ?tot = Inr None"
    using bitmap_search_spec [OF pg(1), of 0 ?tot] full by simp
  have "?pg mod ?tot = ?pg" "?tot \<noteq> 0"
    using groups(1) by (auto simp: word_less_nat_alt unat_mod intro!: iffD2 [OF word_unat_eq_iff])
  then show ?thesis
    using last_allocs_block [OF wf(2)] ds wf(3) none pg(2) groups(2)
    by (simp add: ext2_block_alloc_def ext2_alloc_def ext2_read_block_def Let_def bitmap_of_def block_release_def)
qed

end
