(* ===== verification/File.thy ===== *)
theory File
  imports Mutex
begin

text \<open>
  The open file table of \<open>src/kernel/fs/file.c\<close>: reference-counted files in an address-indexed store,
  those that are free linked through their \<open>next\<close> field, and the descriptors of the running task.
  Function pointers are the names of the functions they point to; calling a null one is a fault.
  \<open>file_open\<close> belongs to the directory layer and is not part of this theory.

  Shown here: the free list holds exactly the files without references and every operation that
  returns keeps it so; which descriptor a file gets; and that the last close of a file never returns.
\<close>

section \<open>Data\<close>

datatype fn = Fn_null | Fn_file_close | Fn_pipe_close | Fn_pipe_read | Fn_pipe_write | Fn_inode_read | Fn_inode_write | Fn_inode_stat

text \<open>The pipe or inode of a file share their storage, and so do its offset and major number.\<close>

record file_t =
  fi_ref_count :: u32
  fi_readp :: bool
  fi_writep :: bool
  fi_object :: ptr
  fi_offset :: u32
  fi_close :: fn
  fi_read :: fn
  fi_write :: fn
  fi_stat :: fn
  fi_next :: ptr

record ftable =
  fh_mutex :: semaphore_t
  fh_flist :: ptr
  fh_ulist :: ptr
  fh_files :: "ptr \<Rightarrow> file_t option"

definition file_zero :: file_t where
  "file_zero = \<lparr>fi_ref_count = 0, fi_readp = False, fi_writep = False, fi_object = NULL, fi_offset = 0,
     fi_close = Fn_null, fi_read = Fn_null, fi_write = Fn_null, fi_stat = Fn_null, fi_next = NULL\<rparr>"

section \<open>Operations\<close>

definition file_get :: "ftable \<Rightarrow> ptr \<Rightarrow> file_t res" where
  "file_get t p = (case fh_files t p of None \<Rightarrow> Inl BadAccess | Some f \<Rightarrow> Inr f)"

definition file_upd :: "ftable \<Rightarrow> ptr \<Rightarrow> (file_t \<Rightarrow> file_t) \<Rightarrow> ftable res" where
  "file_upd t p g = rbind (file_get t p) (\<lambda>f. Inr (t\<lparr>fh_files := (fh_files t)(p \<mapsto> g f)\<rparr>))"

definition file_lock :: "ftable \<Rightarrow> ftable res" where
  "file_lock t = rbind (lock_acquire (fh_mutex t)) (\<lambda>m. Inr (t\<lparr>fh_mutex := m\<rparr>))"

definition file_unlock :: "ftable \<Rightarrow> ftable res" where
  "file_unlock t = rbind (lock_release (fh_mutex t)) (\<lambda>m. Inr (t\<lparr>fh_mutex := m\<rparr>))"

text \<open>The address the allocator gives, and what the new memory holds, are parameters.\<close>

definition file_alloc :: "ftable \<Rightarrow> ptr \<Rightarrow> file_t \<Rightarrow> (ptr \<times> ftable) res" where
  "file_alloc t new mem =
     rbind (file_lock t) (\<lambda>t.
     rbind (if fh_flist t \<noteq> NULL
            then rbind (file_get t (fh_flist t)) (\<lambda>f. Inr (fh_flist t, t\<lparr>fh_flist := fi_next f\<rparr>))
            else Inr (new, t\<lparr>fh_files := (fh_files t)(new \<mapsto> mem)\<rparr>)) (\<lambda>(file, t).
     rbind (file_upd t file (\<lambda>f. f\<lparr>fi_ref_count := 1, fi_next := fh_ulist t, fi_close := Fn_null, fi_read := Fn_null,
              fi_write := Fn_null, fi_stat := Fn_null\<rparr>)) (\<lambda>t.
     rbind (file_unlock (t\<lparr>fh_ulist := file\<rparr>)) (\<lambda>t. Inr (file, t)))))"

definition file_dup :: "ftable \<Rightarrow> ptr \<Rightarrow> (ptr \<times> ftable) res" where
  "file_dup t file =
     rbind (file_lock t) (\<lambda>t.
     rbind (file_upd t file (\<lambda>f. f\<lparr>fi_ref_count := fi_ref_count f + 1\<rparr>)) (\<lambda>t.
     rbind (file_unlock t) (\<lambda>t. Inr (file, t))))"

text \<open>\<open>call\<close> is what the function a pointer names does.\<close>

definition file_close :: "(fn \<Rightarrow> ptr \<Rightarrow> ftable \<Rightarrow> ftable res) \<Rightarrow> ftable \<Rightarrow> ptr \<Rightarrow> ftable res" where
  "file_close call t file =
     rbind (file_lock t) (\<lambda>t.
     rbind (file_upd t file (\<lambda>f. f\<lparr>fi_ref_count := fi_ref_count f - 1\<rparr>)) (\<lambda>t.
     rbind (file_get t file) (\<lambda>f.
     if fi_ref_count f > 0 then file_unlock t
     else
       rbind (file_upd t file (\<lambda>_. file_zero)) (\<lambda>t.
       rbind (file_upd t file (\<lambda>f. f\<lparr>fi_next := fh_flist t\<rparr>)) (\<lambda>t.
       let t = t\<lparr>fh_flist := file\<rparr> in
       rbind (file_get t file) (\<lambda>f.
       let close = fi_close f in
       rbind (file_unlock t) (\<lambda>t.
         if close = Fn_null then Inl BadAccess else call close file t)))))))"

definition file_read :: "(fn \<Rightarrow> ptr \<Rightarrow> 's \<Rightarrow> (int \<times> 's) res) \<Rightarrow> ftable \<Rightarrow> ptr \<Rightarrow> 's \<Rightarrow> (int \<times> 's) res" where
  "file_read call t file s =
     rbind (file_get t file) (\<lambda>f.
     if \<not> fi_readp f then Inr (-1, s)
     else if fi_read f = Fn_null then Inr (-1, s)
     else call (fi_read f) file s)"

definition file_write :: "(fn \<Rightarrow> ptr \<Rightarrow> 's \<Rightarrow> (int \<times> 's) res) \<Rightarrow> ftable \<Rightarrow> ptr \<Rightarrow> 's \<Rightarrow> (int \<times> 's) res" where
  "file_write call t file s =
     rbind (file_get t file) (\<lambda>f.
     if \<not> fi_writep f then Inr (-1, s)
     else if fi_write f = Fn_null then Inr (-1, s)
     else call (fi_write f) file s)"

definition file_stat :: "(fn \<Rightarrow> ptr \<Rightarrow> 's \<Rightarrow> 's res) \<Rightarrow> ftable \<Rightarrow> ptr \<Rightarrow> 's \<Rightarrow> (int \<times> 's) res" where
  "file_stat call t file s =
     rbind (file_get t file) (\<lambda>f.
     if fi_stat f = Fn_null then Inr (-1, s)
     else rbind (call (fi_stat f) file s) (\<lambda>s. Inr (0, s)))"

text \<open>The descriptors are the \<open>open_files\<close> array of the running task.\<close>

fun fd_alloc_from :: "nat \<Rightarrow> nat \<Rightarrow> ftable \<Rightarrow> ptr list \<Rightarrow> ptr \<Rightarrow> (int \<times> ptr list \<times> ftable) res" where
  "fd_alloc_from 0 i t open_files file = Inr (-1, open_files, t)"
| "fd_alloc_from (Suc n) i t open_files file =
     rbind (array_get open_files i) (\<lambda>f.
     if f = NULL then
       rbind (file_dup t file) (\<lambda>(file, t).
       rbind (array_set open_files i file) (\<lambda>open_files. Inr (int i, open_files, t)))
     else fd_alloc_from n (Suc i) t open_files file)"

definition fd_alloc :: "ftable \<Rightarrow> ptr list \<Rightarrow> ptr \<Rightarrow> (int \<times> ptr list \<times> ftable) res" where
  "fd_alloc t open_files file = fd_alloc_from OPEN_FILES_COUNT 0 t open_files file"

definition file_init :: ftable where
  "file_init = \<lparr>fh_mutex = mutex_create, fh_flist = NULL, fh_ulist = NULL, fh_files = (\<lambda>_. None)\<rparr>"

section \<open>The free list\<close>

fun fl :: "(ptr \<Rightarrow> file_t option) \<Rightarrow> ptr \<Rightarrow> ptr list \<Rightarrow> bool" where
  "fl g p [] \<longleftrightarrow> p = NULL"
| "fl g p (q # qs) \<longleftrightarrow> p = q \<and> p \<noteq> NULL \<and> (\<exists>f. g p = Some f \<and> fl g (fi_next f) qs)"

definition file_inv :: "ftable \<Rightarrow> ptr list \<Rightarrow> bool" where
  "file_inv t L \<longleftrightarrow> lock_free (fh_mutex t) \<and> fl (fh_files t) (fh_flist t) L \<and> distinct L \<and>
     (\<forall>p f. fh_files t p = Some f \<longrightarrow> p \<noteq> NULL \<and> (p \<in> set L \<longleftrightarrow> fi_ref_count f = 0))"

lemma fl_cong:
  assumes "fl g p L" "\<And>q f. q \<in> set L \<Longrightarrow> g q = Some f \<Longrightarrow> \<exists>f'. g' q = Some f' \<and> fi_next f' = fi_next f"
  shows "fl g' p L"
  using assms
proof (induction L arbitrary: p)
  case (Cons q L)
  then obtain f where f: "p = q" "p \<noteq> NULL" "g q = Some f" "fl g (fi_next f) L"
    by auto
  then obtain f' where "g' q = Some f'" "fi_next f' = fi_next f"
    using Cons.prems(2) [of q f] by auto
  then show ?case
    using f Cons.IH [of "fi_next f"] Cons.prems(2) by auto
qed simp

lemma fl_other: "fl g p L \<Longrightarrow> q \<notin> set L \<Longrightarrow> fl (g(q := x)) p L"
  by (rule fl_cong) auto

interpretation fm: monitor fh_mutex "\<lambda>m. fh_mutex_update (\<lambda>_. m)" file_lock file_unlock
  by unfold_locales (simp_all add: file_lock_def file_unlock_def)

lemmas file_lock_free = fm.lock_free_run and file_unlock_held = fm.unlock_held_run

lemma file_alloc_reuse:
  assumes inv: "file_inv t (p # L)"
  shows "\<exists>t' f. file_alloc t new mem = Inr (p, t') \<and> file_inv t' L \<and> fh_files t' = (fh_files t)(p \<mapsto> f) \<and>
           fi_ref_count f = 1 \<and> fi_close f = Fn_null \<and> fi_read f = Fn_null \<and> fi_write f = Fn_null \<and> fi_stat f = Fn_null"
proof -
  let ?m = "fh_mutex t" and ?g = "fh_files t"
  have I: "lock_free ?m" "fl ?g (fh_flist t) (p # L)" "distinct (p # L)"
      "\<And>q f. ?g q = Some f \<Longrightarrow> q \<noteq> NULL \<and> (q \<in> set (p # L) \<longleftrightarrow> fi_ref_count f = 0)"
    using inv unfolding file_inv_def by auto
  then obtain f where f: "fh_flist t = p" "p \<noteq> NULL" "?g p = Some f" "fl ?g (fi_next f) L"
    by auto
  define f' where "f' = f\<lparr>fi_ref_count := 1, fi_next := fh_ulist t, fi_close := Fn_null, fi_read := Fn_null,
              fi_write := Fn_null, fi_stat := Fn_null\<rparr>"
  define t' where "t' = t\<lparr>fh_flist := fi_next f, fh_files := ?g(p \<mapsto> f'), fh_ulist := p\<rparr>"
  have "file_alloc t new mem = Inr (p, t')"
    using f by (simp add: file_alloc_def file_lock_free [OF I(1)] file_get_def file_upd_def
        file_unlock_held [OF _ I(1)] t'_def f'_def)
  moreover have "file_inv t' L"
    unfolding file_inv_def
  proof (intro conjI allI impI)
    show "lock_free (fh_mutex t')" "distinct L"
      using I(1,3) by (simp_all add: t'_def)
    show "fl (fh_files t') (fh_flist t') L"
      using f(4) I(3) by (simp add: t'_def fl_other)
    fix q u
    assume "fh_files t' q = Some u"
    then have q: "(?g(p \<mapsto> f')) q = Some u"
      by (simp add: t'_def)
    show "q \<noteq> NULL" "q \<in> set L \<longleftrightarrow> fi_ref_count u = 0"
      using q f(2) I(3) I(4) [of q u] by (auto simp: f'_def split: if_splits)
  qed
  ultimately show ?thesis
    by (intro exI [of _ t'] exI [of _ f']) (simp add: t'_def f'_def)
qed

lemma file_alloc_new:
  assumes inv: "file_inv t []" and new: "new \<noteq> NULL"
  shows "\<exists>t' f. file_alloc t new mem = Inr (new, t') \<and> file_inv t' [] \<and> fh_files t' = (fh_files t)(new \<mapsto> f) \<and>
           fi_ref_count f = 1 \<and> fi_close f = Fn_null \<and> fi_read f = Fn_null \<and> fi_write f = Fn_null \<and> fi_stat f = Fn_null"
  using inv new unfolding file_inv_def
  by (auto simp: file_alloc_def file_lock_free file_upd_def file_get_def file_unlock_held)

section \<open>Files\<close>

text \<open>C30 [file_alloc_fresh]: allocating a file always succeeds and never hands out one that is in use: the
  file is the first of the free list when there is one, else new memory, it had no references, it
  has one now and no operations, every other file is as before and the free list still holds exactly
  the files without references.\<close>

theorem file_alloc_fresh:
  assumes "file_inv t L" "new \<noteq> NULL" "fh_files t new = None"
  shows "\<exists>p t' f. file_alloc t new mem = Inr (p, t') \<and> file_inv t' (tl L) \<and> fh_files t' = (fh_files t)(p \<mapsto> f) \<and>
           (\<forall>g. fh_files t p = Some g \<longrightarrow> fi_ref_count g = 0) \<and> fi_ref_count f = 1 \<and>
           fi_close f = Fn_null \<and> fi_read f = Fn_null \<and> fi_write f = Fn_null \<and> fi_stat f = Fn_null"
proof (cases L)
  case Nil
  then show ?thesis
    using file_alloc_new [of t new mem] assms by fastforce
next
  case (Cons p L')
  then obtain t' f where "file_alloc t new mem = Inr (p, t')" "file_inv t' L'" "fh_files t' = (fh_files t)(p \<mapsto> f)"
      "fi_ref_count f = 1" "fi_close f = Fn_null" "fi_read f = Fn_null" "fi_write f = Fn_null" "fi_stat f = Fn_null"
    using file_alloc_reuse [of t p L' new mem] assms(1) by blast
  moreover have "fi_ref_count g = 0" if "fh_files t p = Some g" for g
    using that assms(1) Cons by (auto simp: file_inv_def)
  ultimately show ?thesis
    using Cons by (intro exI [of _ p] exI [of _ t'] exI [of _ f]) simp
qed

definition file_sample :: ftable where
  "file_sample = \<lparr>fh_mutex = mutex_create, fh_flist = 0x30, fh_ulist = 0x10,
     fh_files = [0x10 \<mapsto> file_zero\<lparr>fi_ref_count := 1, fi_close := Fn_pipe_close, fi_next := 0x30\<rparr>, 0x20 \<mapsto> file_zero, 0x30 \<mapsto> file_zero\<lparr>fi_next := 0x20\<rparr>]\<rparr>"

lemma file_sample_inv: "file_inv file_sample [0x30, 0x20]"
  by (auto simp: file_inv_def file_sample_def file_zero_def split: if_splits)

theorem file_alloc_fresh_witness:
  "\<exists>p t'. file_alloc file_sample 0x40 file_zero = Inr (p, t') \<and> file_inv t' [0x20]"
  using file_alloc_fresh [OF file_sample_inv, of "0x40" file_zero] by (auto simp: file_sample_def)

text \<open>Fact [file_dup_close]: duplicating a file in use, as long as its count does not wrap, and closing it
  again gives back the table as it was.\<close>

theorem file_dup_close:
  assumes inv: "file_inv t L" and f: "fh_files t p = Some f" "fi_ref_count f \<noteq> 0" "fi_ref_count f + 1 \<noteq> 0"
  shows "\<exists>t'. file_dup t p = Inr (p, t') \<and> file_inv t' L \<and> file_close call t' p = Inr t"
proof -
  have I: "lock_free (fh_mutex t)" "fl (fh_files t) (fh_flist t) L" "distinct L"
      "\<And>q u. fh_files t q = Some u \<Longrightarrow> q \<noteq> NULL \<and> (q \<in> set L \<longleftrightarrow> fi_ref_count u = 0)"
    using inv unfolding file_inv_def by auto
  let ?t = "t\<lparr>fh_files := (fh_files t)(p \<mapsto> f\<lparr>fi_ref_count := fi_ref_count f + 1\<rparr>)\<rparr>"
  have "file_dup t p = Inr (p, ?t)"
    using f by (simp add: file_dup_def file_lock_free [OF I(1)] file_upd_def file_get_def file_unlock_held [OF _ I(1)])
  moreover have "file_close call ?t p = Inr t"
    using f I(1) by (simp add: file_close_def file_lock_free file_upd_def file_get_def file_unlock_held [OF _ I(1)]
        fun_upd_idem word_greater_zero_iff)
  moreover have "file_inv ?t L"
    using I f fl_other [OF I(2), of p] I(4) [OF f(1)] unfolding file_inv_def by auto
  ultimately show ?thesis
    by blast
qed

theorem file_dup_close_witness:
  "\<exists>t'. file_dup file_sample 0x10 = Inr (0x10, t') \<and> file_close (\<lambda>_ _ t. Inr t) t' 0x10 = Inr file_sample"
  using file_dup_close [OF file_sample_inv, of "0x10"] by (fastforce simp: file_sample_def file_zero_def)

text \<open>Fact [file_close_last]: closing the last reference of a file never returns: the file is cleared before its
  close function is read, so the call goes through a null pointer, whatever function was set.\<close>

theorem file_close_last:
  assumes "lock_free (fh_mutex t)" "fh_files t p = Some f" "fi_ref_count f = 1"
  shows "file_close call t p = Inl BadAccess"
  using assms by (simp add: file_close_def file_lock_free file_upd_def file_get_def file_unlock_held Let_def file_zero_def)

theorem file_close_last_witness: "file_close (\<lambda>_ _ t. Inr t) file_sample 0x10 = Inl BadAccess"
  by (rule file_close_last [where f = "file_zero\<lparr>fi_ref_count := 1, fi_close := Fn_pipe_close, fi_next := 0x30\<rparr>"])
    (simp_all add: file_sample_def file_zero_def)

section \<open>Descriptors\<close>

lemma fd_alloc_from_spec:
  assumes "lock_free (fh_mutex t)" "fh_files t p = Some f" "i + n = length fs"
  shows "fd_alloc_from n i t fs p =
     (if \<exists>j<n. fs ! (i + j) = NULL
      then let j = (LEAST j. fs ! (i + j) = NULL) in
        Inr (int (i + j), fs[i + j := p], t\<lparr>fh_files := (fh_files t)(p \<mapsto> f\<lparr>fi_ref_count := fi_ref_count f + 1\<rparr>)\<rparr>)
      else Inr (-1, fs, t))"
  using assms(3)
proof (induction n arbitrary: i)
  case (Suc n)
  have dup: "file_dup t p = Inr (p, t\<lparr>fh_files := (fh_files t)(p \<mapsto> f\<lparr>fi_ref_count := fi_ref_count f + 1\<rparr>)\<rparr>)"
    using assms by (simp add: file_dup_def file_lock_free file_upd_def file_get_def file_unlock_held)
  show ?case
  proof (cases "fs ! i = NULL")
    case True
    then have "(LEAST j. fs ! (i + j) = NULL) = 0"
      by (simp add: Least_eq_0)
    moreover have "\<exists>j<Suc n. fs ! (i + j) = NULL"
      using True by (intro exI [of _ 0]) simp
    ultimately show ?thesis
      using True Suc.prems dup by (simp add: Let_def)
  next
    case False
    have ex: "(\<exists>j<Suc n. fs ! (i + j) = NULL) \<longleftrightarrow> (\<exists>j<n. fs ! (Suc i + j) = NULL)"
      using False by (subst Ex_less_Suc2) simp
    have least: "(LEAST j. fs ! (i + j) = NULL) = Suc (LEAST j. fs ! (Suc i + j) = NULL)" if free: "\<exists>j<n. fs ! (Suc i + j) = NULL"
    proof -
      obtain j where "fs ! (i + Suc j) = NULL"
        using free by auto
      from Least_Suc [of "\<lambda>j. fs ! (i + j) = NULL", OF this] False show ?thesis
        by simp
    qed
    have "fd_alloc_from (Suc n) i t fs p = fd_alloc_from n (Suc i) t fs p"
      using False Suc.prems by simp
    also have "\<dots> = (if \<exists>j<n. fs ! (Suc i + j) = NULL
      then let j = (LEAST j. fs ! (Suc i + j) = NULL) in
        Inr (int (Suc i + j), fs[Suc i + j := p], t\<lparr>fh_files := (fh_files t)(p \<mapsto> f\<lparr>fi_ref_count := fi_ref_count f + 1\<rparr>)\<rparr>)
      else Inr (-1, fs, t))"
      using Suc.prems by (intro Suc.IH) simp
    finally show ?thesis
      unfolding ex using least by (auto simp: Let_def fun_upd_def)
  qed
qed simp

text \<open>Fact [fd_alloc_lowest]: a file gets the lowest descriptor that is free, which then refers to it with one
  more reference; the other descriptors are unchanged; with no free descriptor the answer is -1 and
  nothing changes.\<close>

theorem fd_alloc_lowest:
  assumes "lock_free (fh_mutex t)" "fh_files t p = Some f" "length fs = OPEN_FILES_COUNT"
  shows "fd_alloc t fs p =
     (if NULL \<in> set fs
      then let i = (LEAST i. fs ! i = NULL) in
        Inr (int i, fs[i := p], t\<lparr>fh_files := (fh_files t)(p \<mapsto> f\<lparr>fi_ref_count := fi_ref_count f + 1\<rparr>)\<rparr>)
      else Inr (-1, fs, t))"
  using fd_alloc_from_spec [OF assms(1,2), of 0 OPEN_FILES_COUNT fs] assms(3)
  by (auto simp: fd_alloc_def in_set_conv_nth Let_def)

theorem fd_alloc_lowest_witness:
  "\<exists>t'. fd_alloc file_sample (0x50 # 0x60 # replicate 14 0) 0x10 = Inr (2, 0x50 # 0x60 # 0x10 # replicate 13 0, t')"
proof -
  let ?fs = "0x50 # 0x60 # replicate 14 0 :: ptr list"
  have two: "(LEAST i. ?fs ! i = NULL) = Suc (Suc 0)"
  proof (rule Least_equality)
    show "Suc (Suc 0) \<le> i" if "?fs ! i = NULL" for i
      using that by (cases i rule: nat.exhaust; cases "i - 1" rule: nat.exhaust) auto
  qed simp
  have "replicate 14 (0 :: ptr) = 0 # replicate 13 0"
    by (simp add: eval_nat_numeral)
  then have upd: "?fs[Suc (Suc 0) := 0x10] = 0x50 # 0x60 # 0x10 # replicate 13 0"
    by simp
  have "fd_alloc file_sample ?fs 0x10 = (if NULL \<in> set ?fs
      then let i = (LEAST i. ?fs ! i = NULL) in Inr (int i, ?fs[i := 0x10], file_sample\<lparr>fh_files := (fh_files file_sample)(0x10 \<mapsto>
        file_zero\<lparr>fi_ref_count := 1, fi_close := Fn_pipe_close, fi_next := 0x30\<rparr>\<lparr>fi_ref_count := fi_ref_count
          (file_zero\<lparr>fi_ref_count := 1, fi_close := Fn_pipe_close, fi_next := 0x30\<rparr>) + 1\<rparr>)\<rparr>)
      else Inr (-1, ?fs, file_sample))"
    by (rule fd_alloc_lowest) (simp_all add: file_sample_def OPEN_FILES_COUNT_def)
  then show ?thesis
    unfolding two Let_def upd by (simp del: replicate_Suc)
qed

end
