(* ===== verification/Inode.thy ===== *)
theory Inode
  imports HashTable DList File Ext2
begin

text \<open>
  The inode cache of \<open>src/kernel/fs/inode.c\<close>.  It looks like the block cache: cached inodes are found
  through a hash table keyed by device and number, and those without references are on a doubly
  linked list.  Every device has an interface of functions that load, update and truncate an inode and
  allocate one; the interface of an ext2 device is made of the functions of \<open>Ext2\<close>.  Inodes are a
  store from addresses to records; the address and the contents of new memory are parameters.

  Shown here: the reference counts are those of an abstract counter per inode, what locking an
  inode does, that reads and writes through an open file move its offset over the bytes of the
  file, that no inode is ever truncated when its last link is gone, and which inodes cannot be taken
  from the list of unused ones.
\<close>

section \<open>Data\<close>

text \<open>What \<open>inode->read\<close> and \<open>inode->write\<close> point to.\<close>

record 's iops =
  io_write :: "inode_t \<Rightarrow> u8 list \<Rightarrow> u32 \<Rightarrow> u32 \<Rightarrow> 's \<Rightarrow> (int \<times> inode_t \<times> 's) res"
  io_read :: "inode_t \<Rightarrow> u32 \<Rightarrow> u32 \<Rightarrow> 's \<Rightarrow> (u8 list \<times> inode_t \<times> 's) res"

text \<open>The fields of \<open>inode_t\<close> that the file system reads and writes are the record of \<open>Ext2\<close>.  The
  pointers to the operations are \<open>None\<close> as long as nothing was stored in them.\<close>

record 's cinode =
  ci_valid :: bool
  ci_ref_count :: int
  ci_mutex :: semaphore_t
  ci_inode :: inode_t
  ci_ops :: "'s iops option"
  ci_next :: ptr
  ci_prev :: ptr

record 's fs_itf =
  itf_load :: "inode_t \<Rightarrow> 's \<Rightarrow> (inode_t \<times> 's iops \<times> 's) res"
  itf_update :: "inode_t \<Rightarrow> 's \<Rightarrow> 's res"
  itf_trunc :: "inode_t \<Rightarrow> 's \<Rightarrow> (inode_t \<times> 's) res"
  itf_dinode_alloc :: "nat \<Rightarrow> 's \<Rightarrow> (u32 \<times> 's) res"

text \<open>The global state, with the state \<open>'s\<close> of the file system below.\<close>

record 's ihead =
  fs_itfs :: "'s fs_itf option list"
  ih_table :: hash_table_t
  ih_mutex :: semaphore_t
  ih_lhead :: ptr
  ih_ltail :: ptr
  ih_inodes :: "ptr \<Rightarrow> 's cinode option"
  ih_fs :: 's

definition INODE_TABLE_SIZE :: u32 where "INODE_TABLE_SIZE = 50"
definition INODE_LOAD_FACTOR :: u32 where "INODE_LOAD_FACTOR = 75"

abbreviation "ino_str \<equiv> (\<lambda>_ :: ptr. [] :: u8 list)"
abbreviation "ino_fresh \<equiv> (\<lambda>_ :: u32. [] :: hash_entry_t list)"

section \<open>Operations\<close>

definition ino_get :: "'s ihead \<Rightarrow> ptr \<Rightarrow> 's cinode res" where
  "ino_get h p = (case ih_inodes h p of None \<Rightarrow> Inl BadAccess | Some x \<Rightarrow> Inr x)"

definition ino_upd :: "'s ihead \<Rightarrow> ptr \<Rightarrow> ('s cinode \<Rightarrow> 's cinode) \<Rightarrow> 's ihead res" where
  "ino_upd h p f = rbind (ino_get h p) (\<lambda>x. Inr (h\<lparr>ih_inodes := (ih_inodes h)(p \<mapsto> f x)\<rparr>))"

definition itf_of :: "'s ihead \<Rightarrow> nat \<Rightarrow> 's fs_itf res" where
  "itf_of h device =
     rbind (array_get (fs_itfs h) device) (\<lambda>i. case i of None \<Rightarrow> Inl BadAccess | Some i \<Rightarrow> Inr i)"

definition inode_key :: "nat \<Rightarrow> u32 \<Rightarrow> hash_key_t" where
  "inode_key device inode_n = push_bit 32 (ucast (of_nat device :: u32)) OR ucast inode_n"

text \<open>\<open>new\<close> is the address of the new memory and \<open>mem\<close> what it holds: the links are not set.\<close>

definition inode_alloc :: "'s ihead \<Rightarrow> ptr \<Rightarrow> 's cinode \<Rightarrow> nat \<Rightarrow> u32 \<Rightarrow> 's ihead" where
  "inode_alloc h new mem device inode_n =
     h\<lparr>ih_inodes := (ih_inodes h)(new \<mapsto> mem\<lparr>ci_ref_count := 1, ci_valid := False,
        ci_inode := (ci_inode mem)\<lparr>in_device := device, in_n := inode_n\<rparr>, ci_mutex := mutex_create\<rparr>)\<rparr>"

definition inode_remove :: "'s ihead \<Rightarrow> ptr \<Rightarrow> 's ihead res" where
  "inode_remove h p =
     rbind (ino_get h p) (\<lambda>x.
       if ci_next x = NULL \<and> ci_prev x = NULL then Inl Abort
       else if ih_lhead h = NULL \<and> ih_ltail h = NULL then Inl Abort
       else
         rbind (if p = ih_lhead h
                then ino_upd (h\<lparr>ih_lhead := ci_next x\<rparr>) (ci_next x) (\<lambda>y. y\<lparr>ci_prev := NULL\<rparr>)
                else Inr h) (\<lambda>h.
         rbind (if p = ih_ltail h
                then rbind (ino_get h p) (\<lambda>x. ino_upd (h\<lparr>ih_ltail := ci_prev x\<rparr>) (ci_prev x) (\<lambda>y. y\<lparr>ci_next := NULL\<rparr>))
                else Inr h) (\<lambda>h.
         if p \<noteq> ih_ltail h \<and> p \<noteq> ih_lhead h then
           rbind (ino_get h p) (\<lambda>x.
           rbind (ino_upd h (ci_prev x) (\<lambda>y. y\<lparr>ci_next := ci_next x\<rparr>)) (\<lambda>h.
           rbind (ino_get h p) (\<lambda>x.
             ino_upd h (ci_next x) (\<lambda>y. y\<lparr>ci_prev := ci_prev x\<rparr>))))
         else Inr h)))"

definition inode_evict :: "'s ihead \<Rightarrow> 's ihead res" where
  "inode_evict h =
     (if ih_ltail h = NULL then Inl Abort
      else
        rbind (ino_get h (ih_ltail h)) (\<lambda>old.
        if ci_ref_count old \<noteq> 0 then Inl Abort
        else
          rbind (ht_remove ino_str (ih_table h) (inode_key (in_device (ci_inode old)) (in_n (ci_inode old)))) (\<lambda>(r, t).
          if r \<noteq> 0 then Inl Abort
          else
            let p = ih_ltail h in
            rbind (inode_remove (h\<lparr>ih_table := t\<rparr>) p) (\<lambda>h.
              Inr (h\<lparr>ih_inodes := (ih_inodes h)(p := None)\<rparr>)))))"

text \<open>Every round takes one inode from the list, so their number is enough fuel.\<close>

fun inode_evict_loop :: "nat \<Rightarrow> 's ihead \<Rightarrow> hash_key_t \<Rightarrow> ptr \<Rightarrow> (int \<times> 's ihead) res" where
  "inode_evict_loop 0 h key p = Inl Hang"
| "inode_evict_loop (Suc n) h key p =
     rbind (inode_evict h) (\<lambda>h.
     rbind (ht_set ino_fresh ino_str (ih_table h) key p) (\<lambda>(ret, t).
       let h = h\<lparr>ih_table := t\<rparr> in
       if ret \<noteq> 0 \<and> ih_ltail h \<noteq> NULL then inode_evict_loop n h key p else Inr (ret, h)))"

definition ihead_lock :: "'s ihead \<Rightarrow> 's ihead res" where
  "ihead_lock h = rbind (lock_acquire (ih_mutex h)) (\<lambda>m. Inr (h\<lparr>ih_mutex := m\<rparr>))"

definition ihead_unlock :: "'s ihead \<Rightarrow> 's ihead res" where
  "ihead_unlock h = rbind (lock_release (ih_mutex h)) (\<lambda>m. Inr (h\<lparr>ih_mutex := m\<rparr>))"

definition inode_get :: "nat \<Rightarrow> 's ihead \<Rightarrow> ptr \<Rightarrow> 's cinode \<Rightarrow> nat \<Rightarrow> u32 \<Rightarrow> (ptr \<times> 's ihead) res" where
  "inode_get n h new mem device inode_n =
     rbind (ihead_lock h) (\<lambda>h.
     let key = inode_key device inode_n in
     rbind (ht_get ino_str (ih_table h) key) (\<lambda>p.
     if p \<noteq> NULL then
       rbind (ino_get h p) (\<lambda>x.
       rbind (ino_upd h p (\<lambda>y. y\<lparr>ci_ref_count := ci_ref_count y + 1\<rparr>)) (\<lambda>h.
       rbind (if ci_ref_count x = 0 then inode_remove h p else Inr h) (\<lambda>h.
       rbind (ihead_unlock h) (\<lambda>h. Inr (p, h)))))
     else
       let h = inode_alloc h new mem device inode_n in
       rbind (ht_set ino_fresh ino_str (ih_table h) key new) (\<lambda>(ret, t).
       let h = h\<lparr>ih_table := t\<rparr> in
       if ret = 0 then rbind (ihead_unlock h) (\<lambda>h. Inr (new, h))
       else
         rbind (inode_evict_loop n h key new) (\<lambda>(ret, h).
           if ret = 0 then rbind (ihead_unlock h) (\<lambda>h. Inr (new, h)) else Inl Abort))))"

definition inode_release :: "'s ihead \<Rightarrow> ptr \<Rightarrow> 's ihead res" where
  "inode_release h p =
     rbind (ihead_lock h) (\<lambda>h.
     rbind (ino_upd h p (\<lambda>y. y\<lparr>ci_ref_count := ci_ref_count y - 1\<rparr>)) (\<lambda>h.
     rbind (ino_get h p) (\<lambda>x.
     rbind (if ci_ref_count x = 0 then
              rbind (if ih_lhead h = NULL then Inr (h\<lparr>ih_ltail := p\<rparr>)
                     else ino_upd h (ih_lhead h) (\<lambda>y. y\<lparr>ci_prev := p\<rparr>)) (\<lambda>h.
              rbind (ino_upd h p (\<lambda>y. y\<lparr>ci_next := ih_lhead h\<rparr>)) (\<lambda>h.
              let h = h\<lparr>ih_lhead := p\<rparr> in
              rbind (ino_get h p) (\<lambda>x.
              if ci_valid x \<and> in_hard_links_count (ci_inode x) = 0 then
                rbind (itf_of h (in_device (ci_inode x))) (\<lambda>itf.
                rbind (itf_trunc itf (ci_inode x) (ih_fs h)) (\<lambda>(i, s).
                  ino_upd (h\<lparr>ih_fs := s\<rparr>) p (\<lambda>y. y\<lparr>ci_inode := i, ci_valid := False\<rparr>)))
              else Inr h)))
            else Inr h) (\<lambda>h.
       ihead_unlock h))))"

definition inode_dup :: "'s ihead \<Rightarrow> ptr \<Rightarrow> (ptr \<times> 's ihead) res" where
  "inode_dup h p =
     rbind (ihead_lock h) (\<lambda>h.
     rbind (ino_upd h p (\<lambda>y. y\<lparr>ci_ref_count := ci_ref_count y + 1\<rparr>)) (\<lambda>h.
     rbind (ihead_unlock h) (\<lambda>h. Inr (p, h))))"

text \<open>The pointer \<open>inode->mutex\<close> is followed, so the mutex is a field of the inode in this model.\<close>

definition inode_lock :: "'s ihead \<Rightarrow> ptr \<Rightarrow> 's ihead res" where
  "inode_lock h p =
     rbind (ino_get h p) (\<lambda>x.
     if ci_ref_count x = 0 then Inl Abort
     else
       rbind (lock_acquire (ci_mutex x)) (\<lambda>m.
       rbind (ino_upd h p (\<lambda>y. y\<lparr>ci_mutex := m\<rparr>)) (\<lambda>h.
       if \<not> ci_valid x then
         rbind (itf_of h (in_device (ci_inode x))) (\<lambda>itf.
         rbind (itf_load itf (ci_inode x) (ih_fs h)) (\<lambda>(i, ops, s).
           ino_upd (h\<lparr>ih_fs := s\<rparr>) p (\<lambda>y. y\<lparr>ci_inode := i, ci_ops := Some ops\<rparr>)))
       else Inr h)))"

definition inode_unlock :: "'s ihead \<Rightarrow> ptr \<Rightarrow> 's ihead res" where
  "inode_unlock h p =
     rbind (ino_get h p) (\<lambda>x.
     if ci_ref_count x = 0 then Inl Abort
     else
       rbind (lock_release (ci_mutex x)) (\<lambda>m.
         ino_upd h p (\<lambda>y. y\<lparr>ci_mutex := m\<rparr>)))"

definition inode_update :: "'s ihead \<Rightarrow> ptr \<Rightarrow> 's ihead res" where
  "inode_update h p =
     rbind (ino_get h p) (\<lambda>x.
     rbind (itf_of h (in_device (ci_inode x))) (\<lambda>itf.
     rbind (itf_update itf (ci_inode x) (ih_fs h)) (\<lambda>s. Inr (h\<lparr>ih_fs := s\<rparr>))))"

definition inode_trunc :: "'s ihead \<Rightarrow> ptr \<Rightarrow> 's ihead res" where
  "inode_trunc h p =
     rbind (ino_get h p) (\<lambda>x.
     rbind (itf_of h (in_device (ci_inode x))) (\<lambda>itf.
     rbind (itf_trunc itf (ci_inode x) (ih_fs h)) (\<lambda>(i, s).
       ino_upd (h\<lparr>ih_fs := s\<rparr>) p (\<lambda>y. y\<lparr>ci_inode := i\<rparr>))))"

definition dinode_alloc :: "nat \<Rightarrow> 's ihead \<Rightarrow> ptr \<Rightarrow> 's cinode \<Rightarrow> nat \<Rightarrow> u16 \<Rightarrow> (ptr \<times> 's ihead) res" where
  "dinode_alloc n h new mem device mode =
     rbind (itf_of h device) (\<lambda>itf.
     rbind (itf_dinode_alloc itf device (ih_fs h)) (\<lambda>(inode_n, s).
     rbind (inode_get n (h\<lparr>ih_fs := s\<rparr>) new mem device inode_n) (\<lambda>(p, h).
     rbind (inode_lock h p) (\<lambda>h.
     rbind (ino_upd h p (\<lambda>y. y\<lparr>ci_inode := (ci_inode y)\<lparr>in_mode := mode, in_hard_links_count := 1, in_size := 0, in_sectors := 0\<rparr>\<rparr>)) (\<lambda>h.
     rbind (inode_update h p) (\<lambda>h. Inr (p, h)))))))"

section \<open>Open files\<close>

record stat_t =
  st_device :: nat
  st_inode_n :: u32
  st_hlinks :: u32
  st_mode :: u32
  st_size :: u32
  st_last_access_time :: u32
  st_creation_time :: u32
  st_last_modify_time :: u32
  st_deletion_time :: u32

definition inode_stat :: "'s ihead \<Rightarrow> ftable \<Rightarrow> ptr \<Rightarrow> stat_t res" where
  "inode_stat h t file =
     rbind (file_get t file) (\<lambda>f.
     rbind (ino_get h (fi_object f)) (\<lambda>x.
     let i = ci_inode x in
     Inr \<lparr>st_device = in_device i, st_inode_n = in_n i, st_hlinks = ucast (in_hard_links_count i), st_mode = ucast (in_mode i),
       st_size = in_size i, st_last_access_time = in_last_access_time i, st_creation_time = in_creation_time i,
       st_last_modify_time = in_last_modify_time i, st_deletion_time = in_deletion_time i\<rparr>))"

definition inode_close :: "'s ihead \<Rightarrow> ftable \<Rightarrow> ptr \<Rightarrow> 's ihead res" where
  "inode_close h t file = rbind (file_get t file) (\<lambda>f. inode_release h (fi_object f))"

definition inode_read :: "'s ihead \<Rightarrow> ftable \<Rightarrow> ptr \<Rightarrow> u32 \<Rightarrow> (u8 list \<times> 's ihead \<times> ftable) res" where
  "inode_read h t file size' =
     rbind (file_get t file) (\<lambda>f.
     rbind (ino_get h (fi_object f)) (\<lambda>x.
     case ci_ops x of
       None \<Rightarrow> Inl BadAccess
     | Some ops \<Rightarrow>
         rbind (io_read ops (ci_inode x) (fi_offset f) size' (ih_fs h)) (\<lambda>(data, i, s).
         rbind (ino_upd (h\<lparr>ih_fs := s\<rparr>) (fi_object f) (\<lambda>y. y\<lparr>ci_inode := i\<rparr>)) (\<lambda>h.
         rbind (if data \<noteq> [] then file_upd t file (\<lambda>f. f\<lparr>fi_offset := fi_offset f + of_nat (length data)\<rparr>) else Inr t) (\<lambda>t.
           Inr (data, h, t))))))"

definition inode_write :: "'s ihead \<Rightarrow> ftable \<Rightarrow> ptr \<Rightarrow> u8 list \<Rightarrow> u32 \<Rightarrow> (int \<times> 's ihead \<times> ftable) res" where
  "inode_write h t file src size' =
     rbind (file_get t file) (\<lambda>f.
     rbind (ino_get h (fi_object f)) (\<lambda>x.
     case ci_ops x of
       None \<Rightarrow> Inl BadAccess
     | Some ops \<Rightarrow>
         rbind (io_write ops (ci_inode x) src (fi_offset f) size' (ih_fs h)) (\<lambda>(bwrite, i, s).
         rbind (ino_upd (h\<lparr>ih_fs := s\<rparr>) (fi_object f) (\<lambda>y. y\<lparr>ci_inode := i\<rparr>)) (\<lambda>h.
         rbind (if bwrite \<noteq> 0 then file_upd t file (\<lambda>f. f\<lparr>fi_offset := fi_offset f + of_int bwrite\<rparr>) else Inr t) (\<lambda>t.
           Inr (bwrite, h, t))))))"

section \<open>Initialisation\<close>

definition inode_add_itf :: "'s ihead \<Rightarrow> nat \<Rightarrow> 's fs_itf \<Rightarrow> 's ihead res" where
  "inode_add_itf h device itf = rbind (array_set (fs_itfs h) device (Some itf)) (\<lambda>l. Inr (h\<lparr>fs_itfs := l\<rparr>))"

definition inode_init :: "'s fs_itf option list \<Rightarrow> 's \<Rightarrow> 's ihead res" where
  "inode_init itfs s =
     rbind (ht_create INODE_TABLE_SIZE INODE_LOAD_FACTOR 0) (\<lambda>t.
       Inr \<lparr>fs_itfs = itfs, ih_table = t, ih_mutex = mutex_create, ih_lhead = NULL, ih_ltail = NULL,
            ih_inodes = (\<lambda>_. None), ih_fs = s\<rparr>)"

text \<open>The interface that \<open>ext2_init\<close> registers; \<open>n\<close> is the number of block groups the allocator may visit.\<close>

definition ext2_ops :: "nat \<Rightarrow> ext2 iops" where
  "ext2_ops n = \<lparr>io_write = (\<lambda>i src offset size' s. ext2_write_content n s i src offset size'),
     io_read = (\<lambda>i offset size' s. ext2_read_content n s i offset size')\<rparr>"

definition ext2_itf :: "nat \<Rightarrow> ext2 fs_itf" where
  "ext2_itf n = \<lparr>itf_load = (\<lambda>i s. rbind (ext2_inode_get s i) (\<lambda>(i, s). Inr (i, ext2_ops n, s))),
     itf_update = (\<lambda>i s. ext2_inode_update s i),
     itf_trunc = (\<lambda>i s. ext2_truncate s i),
     itf_dinode_alloc = (\<lambda>device s. ext2_inode_alloc n s device)\<rparr>"

section \<open>The invariant\<close>

definition ikey :: "'s cinode \<Rightarrow> hash_key_t" where
  "ikey x = inode_key (in_device (ci_inode x)) (in_n (ci_inode x))"

lemma inode_key_inj: "d < 4294967296 \<Longrightarrow> d' < 4294967296 \<Longrightarrow> inode_key d k = inode_key d' k' \<longleftrightarrow> d = d' \<and> k = k'"
  by (metis inode_key_def pair_key_inj unat_u32_of_nat)

text \<open>The table and the store agree.\<close>

definition indexed :: "hash_table_t \<Rightarrow> (ptr \<Rightarrow> 's cinode option) \<Rightarrow> bool" where
  "indexed t f \<longleftrightarrow>
     (\<forall>k p. ht_get ino_str t k = Inr p \<and> p \<noteq> NULL \<longrightarrow> (\<exists>x. f p = Some x \<and> ikey x = k)) \<and>
     (\<forall>p x. f p = Some x \<longrightarrow> p \<noteq> NULL \<and> ht_get ino_str t (ikey x) = Inr p)"

text \<open>\<open>L\<close> lists the inodes without references.\<close>

definition inode_inv :: "'s ihead \<Rightarrow> ptr list \<Rightarrow> bool" where
  "inode_inv h L \<longleftrightarrow> ht_cache_inv ino_str (ih_table h) \<and> lock_free (ih_mutex h) \<and> indexed (ih_table h) (ih_inodes h) \<and>
     (\<forall>p x. ih_inodes h p = Some x \<longrightarrow> 0 \<le> ci_ref_count x \<and> (ci_ref_count x = 0 \<longleftrightarrow> p \<in> set L) \<and> \<not> ci_valid x) \<and>
     bl ci_next (ih_inodes h) (ih_lhead h) L \<and> pl ci_prev (ih_inodes h) L \<and> distinct L \<and>
     ih_ltail h = (if L = [] then NULL else last L)"

lemma inode_invD:
  assumes "inode_inv h L"
  shows "ht_cache_inv ino_str (ih_table h)" "lock_free (ih_mutex h)" "indexed (ih_table h) (ih_inodes h)"
    "\<And>p x. ih_inodes h p = Some x \<Longrightarrow> 0 \<le> ci_ref_count x"
    "\<And>p x. ih_inodes h p = Some x \<Longrightarrow> ci_ref_count x = 0 \<longleftrightarrow> p \<in> set L"
    "\<And>p x. ih_inodes h p = Some x \<Longrightarrow> \<not> ci_valid x"
    "bl ci_next (ih_inodes h) (ih_lhead h) L" "pl ci_prev (ih_inodes h) L" "distinct L"
    "ih_ltail h = (if L = [] then NULL else last L)"
  using assms unfolding inode_inv_def by auto

lemma indexedD:
  assumes "indexed t f"
  shows "\<And>k p. ht_get ino_str t k = Inr p \<Longrightarrow> p \<noteq> NULL \<Longrightarrow> \<exists>x. f p = Some x \<and> ikey x = k"
    "\<And>p x. f p = Some x \<Longrightarrow> p \<noteq> NULL" "\<And>p x. f p = Some x \<Longrightarrow> ht_get ino_str t (ikey x) = Inr p"
  using assms unfolding indexed_def by auto

lemma indexed_null: "indexed t f \<Longrightarrow> f NULL = None"
  using indexedD(2) [of t f NULL] by (cases "f NULL") auto

text \<open>A store whose inodes have the same addresses and keys is indexed by the same table.\<close>

lemma indexed_cong:
  assumes "indexed t f" "\<And>p. rel_option (\<lambda>x y. ikey y = ikey x) (f p) (g p)"
  shows "indexed t g"
  unfolding indexed_def
proof (intro conjI allI impI)
  fix k p
  assume "ht_get ino_str t k = Inr p \<and> p \<noteq> NULL"
  then obtain x where "f p = Some x" "ikey x = k"
    using indexedD(1) [OF assms(1)] by blast
  then show "\<exists>x. g p = Some x \<and> ikey x = k"
    using assms(2) [of p] by (cases "g p") auto
next
  fix p y
  assume "g p = Some y"
  then obtain x where "f p = Some x" "ikey y = ikey x"
    using assms(2) [of p] by (cases "f p") auto
  then show "p \<noteq> NULL" "ht_get ino_str t (ikey y) = Inr p"
    using indexedD [OF assms(1)] by auto
qed

lemma indexed_new:
  assumes "indexed t f" "ht_get ino_str t (ikey x) = Inr NULL" "new \<noteq> NULL" "f new = None"
    and t': "\<And>k. ht_get ino_str t' k = (if k = ikey x then Inr new else ht_get ino_str t k)"
  shows "indexed t' (f(new \<mapsto> x))"
proof -
  have "ikey y \<noteq> ikey x" if "f p = Some y" for p y
    using indexedD(2,3) [OF assms(1) that] assms(2) by auto
  moreover have "ht_get ino_str t k \<noteq> Inr new" for k
    using indexedD(1) [OF assms(1), of k new] assms(3,4) by auto
  ultimately show ?thesis
    using assms unfolding indexed_def by (auto simp: t' split: if_splits)
qed

text \<open>Changing fields other than the key, the count, the flag and the links of one inode.\<close>

definition same_place :: "'s cinode \<Rightarrow> 's cinode \<Rightarrow> bool" where
  "same_place x y \<longleftrightarrow> ikey y = ikey x \<and> ci_valid y = ci_valid x \<and> ci_next y = ci_next x \<and> ci_prev y = ci_prev x"

lemma inode_inv_upd:
  assumes inv: "inode_inv h L" and x: "ih_inodes h p = Some x" and y: "same_place x y"
    and count: "0 \<le> ci_ref_count y" "ci_ref_count y = 0 \<longleftrightarrow> ci_ref_count x = 0"
    and h': "ih_table h' = ih_table h" "ih_mutex h' = ih_mutex h" "ih_lhead h' = ih_lhead h" "ih_ltail h' = ih_ltail h"
      "ih_inodes h' = (ih_inodes h)(p \<mapsto> y)"
  shows "inode_inv h' L"
proof -
  note I = inode_invD [OF inv]
  have "indexed (ih_table h) ((ih_inodes h)(p \<mapsto> y))"
    using I(3) by (rule indexed_cong) (use x y in \<open>auto simp: same_place_def option.rel_refl\<close>)
  moreover have "bl ci_next ((ih_inodes h)(p \<mapsto> y)) (ih_lhead h) L"
    using I(7) by (rule bl_cong) (use x y in \<open>auto simp: same_place_def\<close>)
  moreover have "pl ci_prev ((ih_inodes h)(p \<mapsto> y)) L"
    using I(8) by (rule pl_cong) (use x y in \<open>auto simp: same_place_def\<close>)
  ultimately show ?thesis
    using I x y count unfolding inode_inv_def h' by (auto simp: same_place_def)
qed

lemma inode_inv_fs: "inode_inv (h\<lparr>ih_fs := s\<rparr>) L = inode_inv h L"
  by (simp add: inode_inv_def)

section \<open>Locks of the cache\<close>

interpretation im: monitor ih_mutex "\<lambda>m. ih_mutex_update (\<lambda>_. m)" ihead_lock ihead_unlock
  by unfold_locales (simp_all add: ihead_lock_def ihead_unlock_def)

lemma ihead_lock_inv: "inode_inv h L \<Longrightarrow> ihead_lock h = Inr (h\<lparr>ih_mutex := (ih_mutex h)\<lparr>current_count := 1\<rparr>\<rparr>)"
  by (rule im.lock_free_run [OF inode_invD(2)])

lemmas ihead_unlock_held = im.unlock_held_run

lemma ino_get_Some: "ih_inodes h p = Some x \<Longrightarrow> ino_get h p = Inr x"
  by (simp add: ino_get_def)

lemma ino_upd_Some: "ih_inodes h p = Some x \<Longrightarrow> ino_upd h p f = Inr (h\<lparr>ih_inodes := (ih_inodes h)(p \<mapsto> f x)\<rparr>)"
  by (simp add: ino_upd_def ino_get_def)

section \<open>Reference counts\<close>

text \<open>The abstract view: how many references each cached inode has.\<close>

definition refs :: "'s ihead \<Rightarrow> hash_key_t \<rightharpoonup> int" where
  "refs h k = (case ht_get ino_str (ih_table h) k of
     Inr p \<Rightarrow> map_option ci_ref_count (ih_inodes h p) | Inl _ \<Rightarrow> None)"

lemma refs_key:
  assumes "inode_inv h L" "ih_inodes h p = Some x"
  shows "refs h (ikey x) = Some (ci_ref_count x)"
  using indexedD(3) [OF inode_invD(3) [OF assms(1)] assms(2)] assms(2) by (simp add: refs_def)

lemma refs_upd:
  assumes inv: "inode_inv h L" and x: "ih_inodes h p = Some x"
    and h': "ih_table h' = ih_table h" "ih_inodes h' p = Some y" "ci_ref_count y = c"
      "\<And>q. q \<noteq> p \<Longrightarrow> rel_option (\<lambda>u v. ci_ref_count v = ci_ref_count u) (ih_inodes h q) (ih_inodes h' q)"
  shows "refs h' = (refs h)(ikey x \<mapsto> c)"
proof
  fix k
  note I = indexedD [OF inode_invD(3) [OF inv]]
  obtain q where q: "ht_get ino_str (ih_table h) k = Inr q"
    using htc.get_returns [OF inode_invD(1) [OF inv]] by blast
  have "q = p \<longleftrightarrow> k = ikey x"
    using I(1) [of k q] I(2,3) [OF x] q x by auto
  moreover have "map_option ci_ref_count (ih_inodes h' q) = map_option ci_ref_count (ih_inodes h q)" if "q \<noteq> p"
    using h'(4) [OF that] by (cases "ih_inodes h q"; cases "ih_inodes h' q") auto
  ultimately show "refs h' k = ((refs h)(ikey x \<mapsto> c)) k"
    using q h' by (auto simp: refs_def)
qed

lemma inode_dup_run:
  assumes inv: "inode_inv h L" and x: "ih_inodes h p = Some x" and out: "p \<notin> set L"
  shows "\<exists>h'. inode_dup h p = Inr (p, h') \<and> inode_inv h' L \<and> refs h' = (refs h)(ikey x \<mapsto> ci_ref_count x + 1) \<and>
           h' = h\<lparr>ih_inodes := (ih_inodes h)(p \<mapsto> x\<lparr>ci_ref_count := ci_ref_count x + 1\<rparr>)\<rparr>"
proof -
  note I = inode_invD [OF inv]
  let ?y = "x\<lparr>ci_ref_count := ci_ref_count x + 1\<rparr>"
  let ?h = "h\<lparr>ih_inodes := (ih_inodes h)(p \<mapsto> ?y)\<rparr>"
  have "inode_dup h p = Inr (p, ?h)"
    using x I(2) by (simp add: inode_dup_def ihead_lock_inv [OF inv] ino_upd_Some ihead_unlock_held [of _ "ih_mutex h"])
  moreover have "inode_inv ?h L"
    by (rule inode_inv_upd [OF inv x, of ?y]) (use I(4,5) [OF x] out in \<open>auto simp: same_place_def ikey_def\<close>)
  moreover have "refs ?h = (refs h)(ikey x \<mapsto> ci_ref_count x + 1)"
    by (rule refs_upd [OF inv x]) (auto simp: option.rel_refl)
  ultimately show ?thesis
    by blast
qed

section \<open>Taking an inode\<close>

text \<open>Two inodes that differ in their links alone.\<close>

definition relinked_i :: "'s cinode \<Rightarrow> 's cinode \<Rightarrow> bool" where
  "relinked_i u v \<longleftrightarrow> (\<exists>i j. v = u\<lparr>ci_next := i, ci_prev := j\<rparr>)"

lemma relinked_i_intros [simp]: "relinked_i u u" "relinked_i u (u\<lparr>ci_next := i\<rparr>)" "relinked_i u (u\<lparr>ci_prev := j\<rparr>)"
proof -
  have "u = u\<lparr>ci_next := ci_next u, ci_prev := ci_prev u\<rparr>" "u\<lparr>ci_next := i\<rparr> = u\<lparr>ci_next := i, ci_prev := ci_prev u\<rparr>"
    "u\<lparr>ci_prev := j\<rparr> = u\<lparr>ci_next := ci_next u, ci_prev := j\<rparr>"
    by simp_all
  then show "relinked_i u u" "relinked_i u (u\<lparr>ci_next := i\<rparr>)" "relinked_i u (u\<lparr>ci_prev := j\<rparr>)"
    unfolding relinked_i_def by blast+
qed

lemma relinked_i_fields:
  "relinked_i u v \<Longrightarrow> ikey v = ikey u \<and> ci_ref_count v = ci_ref_count u \<and> ci_valid v = ci_valid u \<and> ci_inode v = ci_inode u \<and> ci_mutex v = ci_mutex u \<and> ci_ops v = ci_ops u"
  by (auto simp: relinked_i_def ikey_def)

lemma inode_remove_middle:
  assumes "bl ci_next (ih_inodes h) (ih_lhead h) (xs @ a # p # c # ys)" "pl ci_prev (ih_inodes h) (xs @ a # p # c # ys)"
    and "distinct (xs @ a # p # c # ys)" "ih_ltail h = last (c # ys)"
  shows "\<exists>f. inode_remove h p = Inr (h\<lparr>ih_inodes := f\<rparr>) \<and> bl ci_next f (ih_lhead h) (xs @ a # c # ys) \<and>
           pl ci_prev f (xs @ a # c # ys) \<and> f p = ih_inodes h p \<and> (\<forall>q. rel_option relinked_i (ih_inodes h q) (f q))"
proof -
  let ?f = "ih_inodes h"
  obtain x where x: "?f p = Some x" "p \<noteq> NULL" "ci_next x = c"
    using bl_split [of ci_next ?f "ih_lhead h" "xs @ [a]" p "c # ys"] assms(1) by auto
  have prev: "ci_prev x = a"
    using pl_split [of ci_prev ?f xs a p "c # ys"] assms(2) x(1) by auto
  obtain ya where ya: "?f a = Some ya" "a \<noteq> NULL"
    using bl_mem [OF assms(1), of a] by auto
  obtain yc where yc: "?f c = Some yc" "c \<noteq> NULL"
    using bl_mem [OF assms(1), of c] by auto
  have ne: "a \<noteq> p" "c \<noteq> p" "a \<noteq> c" "p \<notin> set xs" "p \<notin> set ys"
    using assms(3) by auto
  have ends: "p \<noteq> ih_lhead h" "p \<noteq> ih_ltail h" "ih_lhead h \<noteq> NULL"
    using assms(1,4) ne by (cases xs; auto split: if_splits)+
  define g where "g = ?f(a \<mapsto> ya\<lparr>ci_next := c\<rparr>, c \<mapsto> yc\<lparr>ci_prev := a\<rparr>)"
  have "inode_remove h p = Inr (h\<lparr>ih_inodes := g\<rparr>)"
    using x yc ya ends ne prev by (simp add: inode_remove_def ino_get_Some ino_upd_Some g_def)
  moreover have "bl ci_next g (ih_lhead h) (xs @ a # c # ys) \<and> pl ci_prev g (xs @ a # c # ys)"
    by (rule dlist_unlink [where ya = "ya\<lparr>ci_next := c\<rparr>" and yc = "yc\<lparr>ci_prev := a\<rparr>", OF assms(1,2,3)])
      (use ya yc ne in \<open>auto simp: g_def\<close>)
  moreover have "rel_option relinked_i (?f q) (g q)" for q
    using ya yc ne by (cases "?f q") (auto simp: g_def)
  ultimately show ?thesis
    using ne by (intro exI [of _ g]) (auto simp: g_def)
qed

lemma inode_get_used:
  assumes inv: "inode_inv h L" and x: "ih_inodes h p = Some x" and out: "p \<notin> set L" and key: "ikey x = inode_key device k"
  shows "\<exists>h'. inode_get n h new mem device k = Inr (p, h') \<and> inode_inv h' L \<and>
           refs h' = (refs h)(inode_key device k \<mapsto> ci_ref_count x + 1) \<and>
           h' = h\<lparr>ih_inodes := (ih_inodes h)(p \<mapsto> x\<lparr>ci_ref_count := ci_ref_count x + 1\<rparr>)\<rparr>"
proof -
  note I = inode_invD [OF inv]
  have p: "ht_get ino_str (ih_table h) (inode_key device k) = Inr p" "p \<noteq> NULL" "ci_ref_count x \<noteq> 0"
    using indexedD(2,3) [OF I(3) x] I(5) [OF x] out key by auto
  let ?h = "h\<lparr>ih_inodes := (ih_inodes h)(p \<mapsto> x\<lparr>ci_ref_count := ci_ref_count x + 1\<rparr>)\<rparr>"
  have "inode_get n h new mem device k = Inr (p, ?h)"
    using p x I(2) by (simp add: inode_get_def ihead_lock_inv [OF inv] Let_def ino_get_Some ino_upd_Some ihead_unlock_held [of _ "ih_mutex h"])
  moreover obtain h' where "inode_inv h' L" "refs h' = (refs h)(ikey x \<mapsto> ci_ref_count x + 1)" "h' = ?h"
    using inode_dup_run [OF inv x out] by blast
  ultimately show ?thesis
    using key by auto
qed

lemma inode_get_unused:
  assumes inv: "inode_inv h (xs @ a # p # c # ys)" and x: "ih_inodes h p = Some x" and key: "ikey x = inode_key device k"
  shows "\<exists>h' x'. inode_get n h new mem device k = Inr (p, h') \<and> inode_inv h' (xs @ a # c # ys) \<and>
           refs h' = (refs h)(inode_key device k \<mapsto> 1) \<and> ih_table h' = ih_table h \<and> ih_fs h' = ih_fs h \<and> fs_itfs h' = fs_itfs h \<and>
           ih_inodes h' p = Some x' \<and> ci_inode x' = ci_inode x \<and> ci_mutex x' = ci_mutex x"
proof -
  let ?L = "xs @ a # p # c # ys" and ?L' = "xs @ a # c # ys" and ?m = "ih_mutex h"
  note I = inode_invD [OF inv]
  define x1 where "x1 = x\<lparr>ci_ref_count := 1\<rparr>"
  define h1 where "h1 = h\<lparr>ih_mutex := ?m\<lparr>current_count := 1\<rparr>, ih_inodes := (ih_inodes h)(p \<mapsto> x1)\<rparr>"
  have x0: "p \<noteq> NULL" "ht_get ino_str (ih_table h) (inode_key device k) = Inr p" "ci_ref_count x = 0"
    using indexedD(2,3) [OF I(3) x] I(5) [OF x] key by auto
  have h1: "ih_inodes h1 = (ih_inodes h)(p \<mapsto> x1)" "ih_lhead h1 = ih_lhead h" "ih_ltail h1 = ih_ltail h"
    by (simp_all add: h1_def)
  have "bl ci_next (ih_inodes h1) (ih_lhead h1) ?L"
    unfolding h1 using I(7) by (rule bl_cong) (use x in \<open>auto simp: x1_def\<close>)
  moreover have "pl ci_prev (ih_inodes h1) ?L"
    unfolding h1 using I(8) by (rule pl_cong) (use x in \<open>auto simp: x1_def\<close>)
  moreover have "ih_ltail h1 = last (c # ys)"
    using I(10) by (auto simp: h1_def)
  ultimately obtain f where f: "inode_remove h1 p = Inr (h1\<lparr>ih_inodes := f\<rparr>)" "bl ci_next f (ih_lhead h1) ?L'" "pl ci_prev f ?L'"
      "f p = ih_inodes h1 p" "\<forall>q. rel_option relinked_i (ih_inodes h1 q) (f q)"
    using inode_remove_middle [of h1 xs a p c ys] I(9) by blast
  have fp: "f p = Some x1" "ikey x1 = ikey x" "ci_ref_count x1 = 1" "\<not> ci_valid x1"
    using f(4) I(6) [OF x] by (simp_all add: h1_def x1_def ikey_def)
  define h2 where "h2 = h\<lparr>ih_inodes := f\<rparr>"
  have h2: "ih_inodes h2 = f" "ih_table h2 = ih_table h" "ih_mutex h2 = ?m" "ih_lhead h2 = ih_lhead h" "ih_ltail h2 = ih_ltail h"
    by (simp_all add: h2_def)
  have run: "inode_get n h new mem device k = Inr (p, h2)"
    using x0 x f(1) I(2) ihead_unlock_held [of "h1\<lparr>ih_inodes := f\<rparr>" ?m]
    by (simp add: inode_get_def ihead_lock_inv [OF inv] Let_def ino_get_Some ino_upd_Some h1_def h2_def x1_def)
  have rel: "rel_option (\<lambda>u v. ikey v = ikey u \<and> ci_ref_count v = ci_ref_count u \<and> ci_valid v = ci_valid u) (ih_inodes h q) (f q)" if "q \<noteq> p" for q
    using that f(5) [rule_format, of q] by (auto simp: h1_def elim!: option.rel_mono_strong dest: relinked_i_fields)
  have pL: "p \<notin> set ?L'" "set ?L = insert p (set ?L')"
    using I(9) by auto
  have "inode_inv h2 ?L'"
    unfolding inode_inv_def h2
  proof (intro conjI allI impI)
    show "indexed (ih_table h) f"
    proof (rule indexed_cong [OF I(3)])
      fix q
      show "rel_option (\<lambda>x y. ikey y = ikey x) (ih_inodes h q) (f q)"
        using x fp rel [of q] by (cases "q = p") (auto elim!: option.rel_mono_strong)
    qed
    fix q u
    assume q: "f q = Some u"
    have "0 \<le> ci_ref_count u \<and> (ci_ref_count u = 0 \<longleftrightarrow> q \<in> set ?L') \<and> \<not> ci_valid u"
    proof (cases "q = p")
      case False
      then obtain v where v: "ih_inodes h q = Some v" "ci_ref_count u = ci_ref_count v" "ci_valid u = ci_valid v"
        using q rel [of q] by (cases "ih_inodes h q") auto
      have "q \<in> set ?L \<longleftrightarrow> q \<in> set ?L'"
        unfolding pL(2) using False by blast
      then show ?thesis
        using I(4,5,6) [OF v(1)] v by auto
    qed (use q fp pL(1) in auto)
    then show "0 \<le> ci_ref_count u" "(ci_ref_count u = 0) = (q \<in> set ?L')" "\<not> ci_valid u"
      by auto
  qed (use I f(2,3) in \<open>auto simp: h1_def\<close>)
  moreover have "refs h2 = (refs h)(ikey x \<mapsto> 1)"
    by (rule refs_upd [OF inv x]) (use fp in \<open>auto simp: h2_def intro: option.rel_mono_strong [OF rel]\<close>)
  ultimately show ?thesis
    using run key fp(1) by (intro exI [of _ h2] exI [of _ x1]) (simp add: h2_def x1_def)
qed

lemma inode_get_new:
  assumes inv: "inode_inv h L" and miss: "ht_get ino_str (ih_table h) (inode_key device k) = Inr NULL"
    and room: "ht_room (ih_table h)" and new: "new \<noteq> NULL" "ih_inodes h new = None"
  shows "\<exists>h' x. inode_get n h new mem device k = Inr (new, h') \<and> inode_inv h' L \<and> refs h' = (refs h)(inode_key device k \<mapsto> 1) \<and>
           ih_fs h' = ih_fs h \<and> fs_itfs h' = fs_itfs h \<and>
           ht_set ino_fresh ino_str (ih_table h) (inode_key device k) new = Inr (0, ih_table h') \<and>
           ih_inodes h' = (ih_inodes h)(new \<mapsto> x) \<and> in_device (ci_inode x) = device \<and> in_n (ci_inode x) = k \<and>
           ci_ref_count x = 1 \<and> \<not> ci_valid x \<and> lock_free (ci_mutex x)"
proof -
  note I = inode_invD [OF inv]
  let ?m = "ih_mutex h" and ?f = "ih_inodes h" and ?key = "inode_key device k"
  obtain t where t: "ht_set ino_fresh ino_str (ih_table h) ?key new = Inr (0, t)" "ht_cache_inv ino_str t"
      "\<And>k. ht_get ino_str t k = (if k = ?key then Inr new else ht_get ino_str (ih_table h) k)"
    using htc.put_new [OF I(1) room miss new(1), of ino_fresh] by blast
  define x where "x = mem\<lparr>ci_ref_count := 1, ci_valid := False, ci_inode := (ci_inode mem)\<lparr>in_device := device, in_n := k\<rparr>, ci_mutex := mutex_create\<rparr>"
  define h' where "h' = h\<lparr>ih_inodes := ?f(new \<mapsto> x), ih_table := t\<rparr>"
  have h': "ih_inodes h' = ?f(new \<mapsto> x)" "ih_table h' = t" "ih_mutex h' = ?m" "ih_lhead h' = ih_lhead h" "ih_ltail h' = ih_ltail h"
    by (simp_all add: h'_def)
  have key: "ikey x = ?key" "ci_ref_count x = 1" "\<not> ci_valid x"
    by (simp_all add: x_def ikey_def)
  have run: "inode_get n h new mem device k = Inr (new, h')"
    using miss t(1) I(2)
    by (simp add: inode_get_def ihead_lock_inv [OF inv] Let_def inode_alloc_def h'_def x_def ihead_unlock_held [of _ "ih_mutex h"])
  have fresh: "new \<notin> set L"
    using bl_mem [OF I(7), of new] new by auto
  have "indexed t (?f(new \<mapsto> x))"
    by (rule indexed_new [OF I(3)]) (use key miss new t(3) in auto)
  moreover have "bl ci_next (?f(new \<mapsto> x)) (ih_lhead h) L"
    using I(7) by (rule bl_cong) (use fresh in auto)
  moreover have "pl ci_prev (?f(new \<mapsto> x)) L"
    using I(8) by (rule pl_cong) (use new in auto)
  ultimately have "inode_inv h' L"
    using I t(2) key fresh unfolding inode_inv_def h' by auto
  moreover have "refs h' = (refs h)(?key \<mapsto> 1)"
  proof
    fix j
    have "ht_get ino_str (ih_table h) j \<noteq> Inr new"
      using indexedD(1) [OF I(3), of j new] new by auto
    then show "refs h' j = ((refs h)(?key \<mapsto> 1)) j"
      using key by (auto simp: refs_def h' t(3) split: sum.splits)
  qed
  ultimately show ?thesis
    using run t(1) by (intro exI [of _ h'] exI [of _ x]) (simp add: h'_def x_def)
qed

section \<open>Giving an inode back\<close>

text \<open>A reference that is not the last.\<close>

lemma inode_release_shared:
  assumes inv: "inode_inv h L" and x: "ih_inodes h p = Some x" and more: "1 < ci_ref_count x"
  shows "\<exists>h'. inode_release h p = Inr h' \<and> inode_inv h' L \<and> refs h' = (refs h)(ikey x \<mapsto> ci_ref_count x - 1) \<and> ih_fs h' = ih_fs h"
proof -
  note I = inode_invD [OF inv]
  let ?y = "x\<lparr>ci_ref_count := ci_ref_count x - 1\<rparr>"
  let ?h = "h\<lparr>ih_inodes := (ih_inodes h)(p \<mapsto> ?y)\<rparr>"
  have "inode_release h p = Inr ?h"
    using x more I(2) by (simp add: inode_release_def ihead_lock_inv [OF inv] ino_upd_Some ino_get_Some ihead_unlock_held [of _ "ih_mutex h"])
  moreover have "inode_inv ?h L"
    by (rule inode_inv_upd [OF inv x, of ?y]) (use more in \<open>auto simp: same_place_def ikey_def\<close>)
  moreover have "refs ?h = (refs h)(ikey x \<mapsto> ci_ref_count x - 1)"
    by (rule refs_upd [OF inv x]) (auto simp: option.rel_refl)
  ultimately show ?thesis
    by auto
qed

lemma inode_release_last:
  assumes inv: "inode_inv h L" and x: "ih_inodes h p = Some x" and last: "ci_ref_count x = 1"
  shows "\<exists>h'. inode_release h p = Inr h' \<and> inode_inv h' (p # L) \<and> refs h' = (refs h)(ikey x \<mapsto> 0) \<and> ih_fs h' = ih_fs h \<and>
           ih_table h' = ih_table h \<and> fs_itfs h' = fs_itfs h \<and> dom (ih_inodes h') = dom (ih_inodes h)"
proof -
  note I = inode_invD [OF inv]
  let ?m = "ih_mutex h" and ?f = "ih_inodes h"
  have p: "p \<noteq> NULL" "p \<notin> set L" "\<not> ci_valid x"
    using indexedD(2) [OF I(3) x] I(5,6) [OF x] last by auto
  define x' where "x' = x\<lparr>ci_ref_count := 0, ci_next := ih_lhead h\<rparr>"
  define f where "f = (if ih_lhead h = NULL then ?f else ?f(ih_lhead h := map_option (\<lambda>y. y\<lparr>ci_prev := p\<rparr>) (?f (ih_lhead h))))(p \<mapsto> x')"
  define h' where "h' = h\<lparr>ih_inodes := f, ih_lhead := p, ih_ltail := (if ih_lhead h = NULL then p else ih_ltail h)\<rparr>"
  have head: "ih_lhead h = NULL \<longleftrightarrow> L = []" "ih_lhead h \<noteq> NULL \<Longrightarrow> ih_lhead h = hd L \<and> hd L \<in> set L \<and> (\<exists>y. ?f (hd L) = Some y)"
    using I(7) by (cases L; auto)+
  have hp: "ih_lhead h \<noteq> p"
    using head(2) p by metis
  have run: "inode_release h p = Inr h'"
    using head(2) hp x p last I(2)
    by (auto simp: inode_release_def ihead_lock_inv [OF inv] ino_upd_def ino_get_def ihead_unlock_def lock_release_def lock_free_def
        h'_def f_def x'_def fun_upd_twist Let_def)
  have h': "ih_inodes h' = f" "ih_table h' = ih_table h" "ih_mutex h' = ?m" "ih_lhead h' = p"
    "ih_ltail h' = (if ih_lhead h = NULL then p else ih_ltail h)"
    by (simp_all add: h'_def)
  have x'p: "f p = Some x'" "ci_next x' = ih_lhead h" "ci_ref_count x' = 0" "\<not> ci_valid x'" "ikey x' = ikey x"
    using p by (simp_all add: f_def x'_def ikey_def)
  have rel: "rel_option (\<lambda>u v. ikey v = ikey u \<and> ci_ref_count v = ci_ref_count u \<and> ci_valid v = ci_valid u) (?f q) (f q)" if "q \<noteq> p" for q
    using that head(2) by (cases "?f q") (auto simp: f_def ikey_def)
  have list: "bl ci_next f p (p # L) \<and> pl ci_prev f (p # L)"
    by (rule dlist_push [where f = ?f and g = f and x = x', OF I(7,8,9) p(2,1) x'p(1,2)]) (use hp in \<open>auto simp: f_def\<close>)
  have "indexed (ih_table h) f"
  proof (rule indexed_cong [OF I(3)])
    fix q
    show "rel_option (\<lambda>x y. ikey y = ikey x) (?f q) (f q)"
      using x x'p by (cases "q = p") (auto intro: option.rel_mono_strong [OF rel])
  qed
  moreover have "0 \<le> ci_ref_count u \<and> (ci_ref_count u = 0 \<longleftrightarrow> q \<in> set (p # L)) \<and> \<not> ci_valid u" if q: "f q = Some u" for q u
  proof (cases "q = p")
    case False
    then obtain v where "?f q = Some v" "ci_ref_count u = ci_ref_count v" "ci_valid u = ci_valid v"
      using q rel [of q] by (cases "?f q") auto
    then show ?thesis
      using I(4,5,6) [of q v] False by auto
  qed (use q x'p in auto)
  ultimately have "inode_inv h' (p # L)"
    using list I(1,2,9,10) p(2) head(1) unfolding inode_inv_def h' by auto
  moreover have "refs h' = (refs h)(ikey x \<mapsto> 0)"
    by (rule refs_upd [OF inv x]) (use x'p in \<open>auto simp: h' intro: option.rel_mono_strong [OF rel]\<close>)
  moreover have "dom f = dom ?f"
  proof -
    have "f q = None \<longleftrightarrow> ?f q = None" for q
      using rel [of q] x x'p(1) by (cases "q = p"; cases "f q"; cases "?f q") auto
    then show ?thesis
      by (auto simp: dom_def)
  qed
  ultimately show ?thesis
    using run by (intro exI [of _ h']) (simp add: h'_def)
qed

section \<open>Locking\<close>

text \<open>Locking an inode that is not held always loads it: the flag \<open>valid\<close> is never set.\<close>

lemma inode_lock_run:
  assumes inv: "inode_inv h L" and x: "ih_inodes h p = Some x" and out: "p \<notin> set L" and free: "lock_free (ci_mutex x)"
    and itf: "itf_of h (in_device (ci_inode x)) = Inr itf" "itf_load itf (ci_inode x) (ih_fs h) = Inr (i, ops, s)"
    and key: "in_device i = in_device (ci_inode x)" "in_n i = in_n (ci_inode x)"
  shows "\<exists>h' x'. inode_lock h p = Inr h' \<and> inode_inv h' L \<and> refs h' = refs h \<and> ih_fs h' = s \<and> fs_itfs h' = fs_itfs h \<and>
           ih_inodes h' = (ih_inodes h)(p \<mapsto> x') \<and> ci_inode x' = i \<and> ci_ops x' = Some ops \<and> lock_held (ci_mutex x') \<and>
           ci_ref_count x' = ci_ref_count x"
proof -
  note I = inode_invD [OF inv]
  define y where "y = x\<lparr>ci_mutex := (ci_mutex x)\<lparr>current_count := 1\<rparr>, ci_inode := i, ci_ops := Some ops\<rparr>"
  define h' where "h' = h\<lparr>ih_inodes := (ih_inodes h)(p \<mapsto> y), ih_fs := s\<rparr>"
  have "ci_ref_count x \<noteq> 0" "\<not> ci_valid x"
    using I(5,6) [OF x] out by auto
  then have "inode_lock h p = Inr h'"
    using x itf lock_acquire_free [OF free]
    by (simp add: inode_lock_def ino_get_Some ino_upd_def ino_get_def itf_of_def y_def h'_def)
  moreover have "inode_inv h' L"
    by (rule inode_inv_upd [OF inv x, of y]) (use I(4) [OF x] key in \<open>auto simp: h'_def y_def same_place_def ikey_def\<close>)
  moreover have "refs h' = refs h"
  proof -
    have "refs h' = (refs h)(ikey x \<mapsto> ci_ref_count x)"
      by (rule refs_upd [where y = y, OF inv x]) (auto simp: h'_def y_def option.rel_refl)
    then show ?thesis
      using refs_key [OF inv x] by auto
  qed
  ultimately show ?thesis
    using lock_acquire_free [OF free] by (intro exI [of _ h'] exI [of _ y]) (simp add: h'_def y_def)
qed

lemma inode_lock_twice:
  assumes "ih_inodes h p = Some x" "lock_held (ci_mutex x)" "ci_ref_count x \<noteq> 0"
  shows "inode_lock h p = Inl Hang"
  using assms by (simp add: inode_lock_def ino_get_def lock_acquire_held)

section \<open>What the inode cache promises\<close>

text \<open>C18 [inode_get_counts]: \<open>inode_get\<close> is an increment of the abstract reference counter of the inode: when the
  inode is not cached and the table has room, or it is in use, or it is unused and has neighbours on
  both sides in the list, the call returns an inode with the requested key, its counter is one more
  than before (1 if it was not cached), all other counters and the file system are unchanged, and the invariant
  of the cache holds.\<close>

theorem inode_get_counts:
  assumes inv: "inode_inv h L"
    and "case refs h (inode_key device k) of
        None \<Rightarrow> ht_room (ih_table h) \<and> new \<noteq> NULL \<and> ih_inodes h new = None
      | Some c \<Rightarrow> 0 < c \<or> (\<exists>xs a p b ys. L = xs @ a # p # b # ys \<and> ht_get ino_str (ih_table h) (inode_key device k) = Inr p)"
  shows "\<exists>p h' L' x. inode_get n h new mem device k = Inr (p, h') \<and> inode_inv h' L' \<and> ih_fs h' = ih_fs h \<and>
     refs h' = (refs h)(inode_key device k \<mapsto> 1 + (case refs h (inode_key device k) of None \<Rightarrow> 0 | Some c \<Rightarrow> c)) \<and>
     ih_inodes h' p = Some x \<and> ikey x = inode_key device k"
proof -
  note I = inode_invD [OF inv]
  let ?key = "inode_key device k"
  obtain p where p: "ht_get ino_str (ih_table h) ?key = Inr p"
    using htc.get_returns [OF I(1)] by blast
  show ?thesis
  proof (cases "p = NULL")
    case True
    then have "refs h ?key = None"
      using p indexed_null [OF I(3)] by (simp add: refs_def)
    then show ?thesis
      using inode_get_new [OF inv, of device k new n mem] assms(2) p True by (fastforce simp: ikey_def)
  next
    case False
    then obtain x where x: "ih_inodes h p = Some x" "ikey x = ?key"
      using indexedD(1) [OF I(3) p] by auto
    then have r: "refs h ?key = Some (ci_ref_count x)"
      using refs_key [OF inv] by metis
    show ?thesis
    proof (cases "p \<in> set L")
      case True
      then have "ci_ref_count x = 0"
        using I(5) [OF x(1)] by simp
      then obtain xs a b ys where L: "L = xs @ a # p # b # ys"
        using assms(2) r p by auto
      obtain h' x' where "inode_get n h new mem device k = Inr (p, h')" "inode_inv h' (xs @ a # b # ys)" "refs h' = (refs h)(?key \<mapsto> 1)"
          "ih_fs h' = ih_fs h" "ih_inodes h' p = Some x'" "ci_inode x' = ci_inode x"
        using inode_get_unused [OF inv [unfolded L] x] by blast
      then show ?thesis
        using r \<open>ci_ref_count x = 0\<close> x(2) by (fastforce simp: ikey_def)
    next
      case False
      then obtain h' where "inode_get n h new mem device k = Inr (p, h')" "inode_inv h' L" "refs h' = (refs h)(?key \<mapsto> ci_ref_count x + 1)"
          "h' = h\<lparr>ih_inodes := (ih_inodes h)(p \<mapsto> x\<lparr>ci_ref_count := ci_ref_count x + 1\<rparr>)\<rparr>"
        using inode_get_used [OF inv x(1) _ x(2)] by blast
      then show ?thesis
        using r x(2) by (intro exI [of _ p] exI [of _ h'] exI [of _ L]) (simp add: ikey_def add.commute)
    qed
  qed
qed

text \<open>C19 [inode_release_counts]: \<open>inode_release\<close> of an inode in use is a decrement of its abstract reference counter and changes no
  other one; the invariant holds, so the inode is on the list of unused inodes exactly when the counter is 0.  The file
  system is unchanged, whatever the number of links: an inode is never truncated when its last
  link and its last reference are gone.\<close>

theorem inode_release_counts:
  assumes inv: "inode_inv h L" and x: "ih_inodes h p = Some x" "0 < ci_ref_count x"
  shows "\<exists>h' L'. inode_release h p = Inr h' \<and> inode_inv h' L' \<and> refs h' = (refs h)(ikey x \<mapsto> ci_ref_count x - 1) \<and> ih_fs h' = ih_fs h \<and>
     (p \<in> set L' \<longleftrightarrow> ci_ref_count x = 1)"
proof (cases "ci_ref_count x = 1")
  case True
  then show ?thesis
    using inode_release_last [OF inv x(1)] by fastforce
next
  case False
  moreover have "p \<notin> set L"
    using inode_invD(5) [OF inv x(1)] x(2) by simp
  ultimately show ?thesis
    using inode_release_shared [OF inv x(1)] x(2) by fastforce
qed

text \<open>Fact [inode_lock_reloads]: on an ext2 device, after a task that holds an inode wrote it out with \<open>inode_update\<close> and unlocked it,
  locking it again loads exactly the fields that were written; the invariant and the reference counts
  are unchanged.\<close>

theorem inode_lock_reloads:
  assumes inv: "inode_inv h L" and x: "ih_inodes h p = Some x" "0 < ci_ref_count x" "lock_held (ci_mutex x)"
    and itf: "itf_of h (in_device (ci_inode x)) = Inr (ext2_itf n)"
    and disk: "ext2_inode_idx (ih_fs h) (in_n (ci_inode x)) = Inr \<lparr>ix_block = blk, ix_idx = idx\<rparr>" "blk \<notin> set (held (ih_fs h))"
      "128 * unat idx + 128 \<le> length (dev (ih_fs h) blk)" "length (in_blocks (ci_inode x)) = 15"
  shows "\<exists>h1 h2 h3 x'. inode_update h p = Inr h1 \<and> inode_unlock h1 p = Inr h2 \<and> inode_lock h2 p = Inr h3 \<and>
     inode_inv h3 L \<and> refs h3 = refs h \<and> ih_inodes h3 p = Some x' \<and> ci_inode x' = ci_inode x \<and> lock_held (ci_mutex x')"
proof -
  let ?i = "ci_inode x"
  obtain s where s: "ext2_inode_update (ih_fs h) ?i = Inr s" "ext2_inode_get s ?i = Inr (?i, s)"
    using ext2_inode_roundtrip_run [OF disk(1,2,3,4,4)] by auto
  let ?h1 = "h\<lparr>ih_fs := s\<rparr>"
  let ?y = "x\<lparr>ci_mutex := (ci_mutex x)\<lparr>current_count := 0\<rparr>\<rparr>"
  let ?h2 = "h\<lparr>ih_fs := s, ih_inodes := (ih_inodes h)(p \<mapsto> ?y)\<rparr>"
  have rel: "lock_release (ci_mutex x) = Inr ((ci_mutex x)\<lparr>current_count := 0\<rparr>)" "lock_free (ci_mutex ?y)"
    using lock_release_held [OF x(3)] by auto
  have runs: "inode_update h p = Inr ?h1" "inode_unlock ?h1 p = Inr ?h2"
    using x itf s(1) rel(1) by (simp_all add: inode_update_def inode_unlock_def ino_get_def ino_upd_def ext2_itf_def)
  have inv2: "inode_inv ?h2 L"
    by (rule inode_inv_upd [OF inv x(1), of ?y]) (use x in \<open>auto simp: same_place_def ikey_def\<close>)
  have "refs ?h2 = (refs h)(ikey x \<mapsto> ci_ref_count x)"
    by (rule refs_upd [where y = ?y, OF inv x(1)]) (auto simp: option.rel_refl)
  then have refs2: "refs ?h2 = refs h"
    using refs_key [OF inv x(1)] by auto
  have out: "p \<notin> set L"
    using inode_invD(5) [OF inv x(1)] x(2) by simp
  have y: "ih_inodes ?h2 p = Some ?y" "ci_inode ?y = ?i"
    by simp_all
  have itf2: "itf_of ?h2 (in_device (ci_inode ?y)) = Inr (ext2_itf n)"
    using itf by (simp add: itf_of_def)
  have load: "itf_load (ext2_itf n) (ci_inode ?y) (ih_fs ?h2) = Inr (?i, ext2_ops n, s)"
    using s(2) by (simp add: ext2_itf_def)
  obtain h3 x' where "inode_lock ?h2 p = Inr h3" "inode_inv h3 L" "refs h3 = refs ?h2" "ih_inodes h3 = (ih_inodes ?h2)(p \<mapsto> x')"
      "ci_inode x' = ?i" "lock_held (ci_mutex x')"
    using inode_lock_run [OF inv2 y(1) out rel(2) itf2 load] y(2) by metis
  then show ?thesis
    using runs refs2 by auto
qed

text \<open>Fact [inode_read_advances]: two reads one after the other through an open file on an ext2 device deliver consecutive
  pieces of the file, as long as there are bytes left, and leave the offset behind the last byte
  delivered; neither the inode nor the disk changes.\<close>

theorem inode_read_advances:
  assumes f: "fh_files t file = Some f" and x: "ih_inodes h (fi_object f) = Some x" "ci_ops x = Some (ext2_ops n)"
    and ok: "direct_ok (ih_fs h) (ci_inode x) m" "unat (in_size (ci_inode x)) \<le> m * 1024"
    and size: "unat (fi_offset f) + unat a + unat b < 4294967296"
  shows "\<exists>t1 t2 f2. let rest = drop (unat (fi_offset f)) (take (unat (in_size (ci_inode x))) (file_bytes (ih_fs h) (ci_inode x) m)) in
     inode_read h t file a = Inr (take (unat a) rest, h, t1) \<and>
     inode_read h t1 file b = Inr (take (unat b) (drop (unat a) rest), h, t2) \<and>
     fh_files t2 file = Some f2 \<and> unat (fi_offset f2) = unat (fi_offset f) + length (take (unat a + unat b) rest)"
proof -
  define F where "F = take (unat (in_size (ci_inode x))) (file_bytes (ih_fs h) (ci_inode x) m)"
  define rd where "rd g k = take (unat k) (drop (unat (fi_offset g)) F)" for g :: file_t and k :: u32
  define mv where "mv g k = g\<lparr>fi_offset := fi_offset g + of_nat (length (rd g k))\<rparr>" for g :: file_t and k :: u32
  have one: "inode_read h t' file k = Inr (rd g k, h, if rd g k = [] then t' else t'\<lparr>fh_files := (fh_files t')(file \<mapsto> mv g k)\<rparr>)"
    if "fh_files t' file = Some g" "fi_object g = fi_object f" "unat (fi_offset g) + unat k < 4294967296" for t' g and k :: u32
    using that x ext2_read_run [OF ok that(3), of n]
    by (auto simp: inode_read_def file_get_def file_upd_def ino_get_def ino_upd_def ext2_ops_def rd_def F_def mv_def fun_upd_idem)
  have off: "unat (fi_offset (mv g k)) = unat (fi_offset g) + length (rd g k)" if "unat (fi_offset g) + unat k < 4294967296" for g k
  proof -
    have "length (rd g k) \<le> unat k"
      by (simp add: rd_def)
    then show ?thesis
      using that by (simp add: mv_def unat_u32_add unat_u32_of_nat)
  qed
  have mv_id: "mv g k = g" if "rd g k = []" for g k
    using that by (simp add: mv_def)
  define t1 where "t1 = (if rd f a = [] then t else t\<lparr>fh_files := (fh_files t)(file \<mapsto> mv f a)\<rparr>)"
  have f1: "fh_files t1 file = Some (mv f a)" "fi_object (mv f a) = fi_object f"
    using f mv_id [of f a] by (simp_all add: t1_def) (simp add: mv_def)
  have len: "length (rd f a) \<le> unat a"
    by (simp add: rd_def)
  have r1: "inode_read h t file a = Inr (rd f a, h, t1)"
    using one [OF f] size by (simp add: t1_def)
  define t2 where "t2 = (if rd (mv f a) b = [] then t1 else t1\<lparr>fh_files := (fh_files t1)(file \<mapsto> mv (mv f a) b)\<rparr>)"
  have s1: "unat (fi_offset (mv f a)) + unat b < 4294967296"
    using off [of f a] size len by simp
  then have r2: "inode_read h t1 file b = Inr (rd (mv f a) b, h, t2)"
    using one [OF f1, of b] by (simp add: t2_def)
  have f2: "fh_files t2 file = Some (mv (mv f a) b)"
    using f1 mv_id [of "mv f a" b] by (simp add: t2_def)
  have snd: "rd (mv f a) b = take (unat b) (drop (unat a) (drop (unat (fi_offset f)) F))"
    using off [of f a] size by (auto simp: rd_def min_def add.commute)
  have "unat (fi_offset (mv (mv f a) b)) = unat (fi_offset f) + length (take (unat a + unat b) (drop (unat (fi_offset f)) F))"
    using off [OF s1] off [of f a] size unfolding snd by (auto simp: rd_def min_def)
  then show ?thesis
    using r1 r2 f2 snd by (intro exI [of _ t1] exI [of _ t2] exI [of _ "mv (mv f a) b"]) (simp add: rd_def F_def Let_def)
qed

section \<open>Where the code goes wrong\<close>

text \<open>Fact [inode_get_last_fails]: an unused inode that is the last one of the list, in particular the only one, cannot be taken
  again: the call aborts or follows a null pointer.\<close>

lemma inode_get_last_fails:
  assumes inv: "inode_inv h (xs @ [p])" and x: "ih_inodes h p = Some x" and key: "ikey x = inode_key device k"
  shows "\<exists>e\<in>{Abort, BadAccess}. inode_get n h new mem device k = Inl e"
proof -
  note I = inode_invD [OF inv]
  let ?y = "x\<lparr>ci_ref_count := 1\<rparr>"
  let ?h = "h\<lparr>ih_mutex := (ih_mutex h)\<lparr>current_count := 1\<rparr>, ih_inodes := (ih_inodes h)(p \<mapsto> ?y)\<rparr>"
  have p: "p \<noteq> NULL" "ht_get ino_str (ih_table h) (inode_key device k) = Inr p" "ci_ref_count x = 0" "ih_inodes h NULL = None"
      "ih_ltail h = p" "ci_next x = NULL"
    using indexedD(2,3) [OF I(3) x] I(5) [OF x] key indexed_null [OF I(3)] I(10) bl_last [OF I(7)] x by auto
  have "\<exists>e\<in>{Abort, BadAccess}. inode_remove ?h p = Inl e"
  proof (cases "p = ih_lhead h")
    case True
    then show ?thesis
      using p by (simp add: inode_remove_def ino_get_def ino_upd_def)
  next
    case False
    then obtain ys a where ys: "xs = ys @ [a]"
      using I(7) by (cases xs rule: rev_cases) auto
    then obtain y where "ci_prev x = a" "ih_inodes h a = Some y" "a \<noteq> p" "a \<noteq> NULL"
      using pl_split [of ci_prev "ih_inodes h" ys a p "[]"] bl_mem [OF I(7), of a] x I(8,9) by auto
    then show ?thesis
      using False p by (simp add: inode_remove_def ino_get_def ino_upd_def)
  qed
  then show ?thesis
    using p x by (auto simp: inode_get_def ihead_lock_inv [OF inv] Let_def ino_get_def ino_upd_def)
qed

text \<open>Fact [inode_write_error_moves_back]: a write that fails moves the offset of the file back by one byte, because the error
  value is added to it like a number of bytes.\<close>

lemma inode_write_error_moves_back:
  assumes "fh_files t file = Some f" "ih_inodes h (fi_object f) = Some x" "ci_ops x = Some (ext2_ops n)"
    and "MAX_FILE_SIZE < fi_offset f + size'" "\<not> in_size (ci_inode x) < fi_offset f"
  shows "inode_write h t file src size' = Inr (-1, h, t\<lparr>fh_files := (fh_files t)(file \<mapsto> f\<lparr>fi_offset := fi_offset f - 1\<rparr>)\<rparr>)"
  using assms by (simp add: inode_write_def file_get_def file_upd_def ino_get_def ino_upd_def ext2_ops_def ext2_write_content_def fun_upd_idem)

text \<open>Fact [dinode_alloc_stays_locked]: the inode that \<open>dinode_alloc\<close> returns is still locked; \<open>dir_create\<close>, which gets it from there, locks
  it a second time and waits for ever.\<close>

lemma dinode_alloc_stays_locked:
  assumes "dinode_alloc n h new mem device mode = Inr (p, h')"
    and one: "\<And>s k q g. inode_get n (h\<lparr>ih_fs := s\<rparr>) new mem device k = Inr (q, g) \<Longrightarrow> \<exists>x. ih_inodes g q = Some x \<and> max_count (ci_mutex x) = 1"
  shows "inode_lock h' p = Inl Hang"
proof -
  obtain s k g g1 g2 where g: "inode_get n (h\<lparr>ih_fs := s\<rparr>) new mem device k = Inr (p, g)" "inode_lock g p = Inr g1"
      "ino_upd g1 p (\<lambda>y. y\<lparr>ci_inode := (ci_inode y)\<lparr>in_mode := mode, in_hard_links_count := 1, in_size := 0, in_sectors := 0\<rparr>\<rparr>) = Inr g2"
      "inode_update g2 p = Inr h'"
    using assms(1) by (auto simp: dinode_alloc_def rbind_eq_Inr split: prod.splits)
  obtain x where x: "ih_inodes g p = Some x" "max_count (ci_mutex x) = 1"
    using one [OF g(1)] by blast
  have "current_count (ci_mutex x) = 0" if "current_count (ci_mutex x) < 1"
    using that by (simp add: word_less_nat_alt unat_eq_0)
  then obtain y where y: "ih_inodes g1 p = Some y" "ci_ref_count y \<noteq> 0" "current_count (ci_mutex y) = 1" "max_count (ci_mutex y) = 1"
    using g(2) x by (auto simp: inode_lock_def ino_get_def ino_upd_def rbind_eq_Inr lock_acquire_def split: if_splits prod.splits)
  then obtain z where "ih_inodes g2 p = Some z" "ci_ref_count z \<noteq> 0" "ci_mutex z = ci_mutex y"
    using g(3) by (auto simp: ino_upd_def ino_get_def)
  moreover have "ih_inodes h' = ih_inodes g2"
    using g(4) by (auto simp: inode_update_def rbind_eq_Inr)
  ultimately show ?thesis
    using y(3,4) by (simp add: inode_lock_def ino_get_def lock_acquire_def)
qed

section \<open>A cache in use\<close>

definition ih_small :: "ext2 ihead" where
  "ih_small = \<lparr>fs_itfs = [Some (ext2_itf 1), None, None, None], ih_table = ht_sample, ih_mutex = mutex_create, ih_lhead = NULL,
     ih_ltail = NULL, ih_inodes = (\<lambda>_. None), ih_fs = ext2_sample2\<rparr>"

definition mem_small :: "ext2 cinode" where
  "mem_small = \<lparr>ci_valid = True, ci_ref_count = 17, ci_mutex = mutex_create, ci_inode = inode_sample, ci_ops = None, ci_next = 5, ci_prev = 6\<rparr>"

lemma ih_small_inv: "inode_inv ih_small []"
proof -
  have "ht_cache_inv ino_str ht_sample"
    using ht_sample_inv by (simp add: ht_cache_inv_def ht_nonnull_def ht_ptrkey_def ht_sample_def)
  moreover have "ht_get ino_str ht_sample k = Inr NULL" for k
    by (rule ht_get_absent [OF ht_sample_inv(1,3)])
  ultimately show ?thesis
    by (simp add: inode_inv_def ih_small_def indexed_def)
qed

lemma ih_small_facts: "refs ih_small k = None" "ht_room (ih_table ih_small)" "ht_get ino_str (ih_table ih_small) k = Inr NULL"
proof -
  show "ht_get ino_str (ih_table ih_small) k = Inr NULL"
    unfolding ih_small_def by (simp add: ht_get_absent [OF ht_sample_inv(1,3)])
  then show "refs ih_small k = None"
    by (simp add: refs_def ih_small_def)
  show "ht_room (ih_table ih_small)"
    unfolding ih_small_def ihead.simps by code_simp
qed

lemma ih_small_get:
  "\<exists>h x. inode_get 0 ih_small 100 mem_small 0 2 = Inr (100, h) \<and> inode_inv h [] \<and> ih_inodes h 100 = Some x \<and> ci_ref_count x = 1 \<and>
     in_device (ci_inode x) = 0 \<and> in_n (ci_inode x) = 2 \<and> lock_free (ci_mutex x) \<and> ih_fs h = ext2_sample2 \<and> fs_itfs h = fs_itfs ih_small \<and>
     refs h (inode_key 0 2) = Some 1 \<and> ci_inode x = inode_sample"
proof -
  have "in_device inode_sample = 0" "in_n inode_sample = 2"
    by (simp_all add: inode_sample_def)
  then have i: "inode_sample\<lparr>in_device := 0, in_n := 2\<rparr> = inode_sample"
    by simp
  obtain h x where h: "inode_get 0 ih_small 100 mem_small 0 2 = Inr (100, h)" "inode_inv h []" "refs h = (refs ih_small)(inode_key 0 2 \<mapsto> 1)"
      "ih_fs h = ih_fs ih_small" "fs_itfs h = fs_itfs ih_small" "ih_inodes h = (ih_inodes ih_small)(100 \<mapsto> x)"
      "in_device (ci_inode x) = 0" "in_n (ci_inode x) = 2" "ci_ref_count x = 1" "lock_free (ci_mutex x)"
    using inode_get_new [OF ih_small_inv, of 0 2 100 0 mem_small] ih_small_facts by (auto simp: ih_small_def)
  moreover have "ci_inode x = inode_sample"
  proof -
    have "ht_get ino_str ht_sample (inode_key 0 2) = Inr NULL"
      using ih_small_facts(3) by (simp add: ih_small_def)
    then show ?thesis
      using h(1,6) i by (auto simp: inode_get_def rbind_eq_Inr Let_def inode_alloc_def ihead_lock_def ihead_unlock_def ih_small_def mem_small_def
          fun_eq_iff split: if_splits dest!: spec [of _ "100 :: ptr"])
  qed
  ultimately show ?thesis
    by (auto simp: ih_small_def)
qed

theorem inode_get_counts_witness:
  "\<exists>p h L x. inode_get 0 ih_small 100 mem_small 0 2 = Inr (p, h) \<and> inode_inv h L \<and> refs h (inode_key 0 2) = Some 1 \<and>
     ih_inodes h p = Some x \<and> ikey x = inode_key 0 2"
proof -
  have "ih_inodes ih_small 100 = None"
    by (simp add: ih_small_def)
  then have "\<exists>p h' L' x. inode_get 0 ih_small 100 mem_small 0 2 = Inr (p, h') \<and> inode_inv h' L' \<and> ih_fs h' = ih_fs ih_small \<and>
     refs h' = (refs ih_small)(inode_key 0 2 \<mapsto> 1 + (case refs ih_small (inode_key 0 2) of None \<Rightarrow> 0 | Some c \<Rightarrow> c)) \<and>
     ih_inodes h' p = Some x \<and> ikey x = inode_key 0 2"
    by (intro inode_get_counts [OF ih_small_inv]) (simp add: ih_small_facts)
  then show ?thesis
    using ih_small_facts(1) by auto
qed

theorem inode_release_counts_witness:
  "\<exists>h h' L. inode_get 0 ih_small 100 mem_small 0 2 = Inr (100, h) \<and> inode_release h 100 = Inr h' \<and> inode_inv h' L \<and>
     refs h' (inode_key 0 2) = Some 0 \<and> 100 \<in> set L"
proof -
  obtain h x where h: "inode_get 0 ih_small 100 mem_small 0 2 = Inr (100, h)" "inode_inv h []" "ih_inodes h 100 = Some x"
      "ci_ref_count x = 1" "in_device (ci_inode x) = 0" "in_n (ci_inode x) = 2"
    using ih_small_get by blast
  have "ikey x = inode_key 0 2"
    by (simp add: ikey_def h)
  then obtain h' L where "inode_release h 100 = Inr h'" "inode_inv h' L" "refs h' (inode_key 0 2) = Some 0" "100 \<in> set L"
    using inode_release_counts [OF h(2,3)] h(4) by auto
  then show ?thesis
    using h(1) by blast
qed

lemma ext2_sample2_idx: "ext2_inode_idx ext2_sample2 2 = Inr \<lparr>ix_block = 5, ix_idx = 2\<rparr>"
  by (simp add: ext2_inode_idx_def ext2_sample2_def ext2_sample_def INODES_PER_BLOCK_def BLOCK_SIZE_def)

theorem inode_lock_reloads_witness:
  "\<exists>(h :: ext2 ihead) x h1 h2 h3 x'. inode_inv h [] \<and> ih_inodes h 100 = Some x \<and> ci_inode x = inode_sample \<and> inode_update h 100 = Inr h1 \<and>
     inode_unlock h1 100 = Inr h2 \<and> inode_lock h2 100 = Inr h3 \<and> ih_inodes h3 100 = Some x' \<and> ci_inode x' = inode_sample"
proof -
  obtain h x where h: "inode_inv h []" "ih_inodes h 100 = Some x" "ci_ref_count x = 1" "lock_free (ci_mutex x)"
      "ih_fs h = ext2_sample2" "fs_itfs h = fs_itfs ih_small" "ci_inode x = inode_sample"
    using ih_small_get by blast
  define y where "y = x\<lparr>ci_mutex := (ci_mutex x)\<lparr>current_count := 1\<rparr>\<rparr>"
  define g where "g = h\<lparr>ih_inodes := (ih_inodes h)(100 \<mapsto> y)\<rparr>"
  have y: "ih_inodes g 100 = Some y" "0 < ci_ref_count y" "lock_held (ci_mutex y)" "ci_inode y = inode_sample"
    using h lock_acquire_free [OF h(4)] by (simp_all add: g_def y_def)
  have "inode_inv g []"
    by (rule inode_inv_upd [OF h(1,2), of y]) (use h(3) in \<open>auto simp: g_def y_def same_place_def ikey_def\<close>)
  moreover have "itf_of g (in_device (ci_inode y)) = Inr (ext2_itf 1)"
    using h(6) y(4) by (simp add: itf_of_def g_def ih_small_def inode_sample_def)
  moreover have "ext2_inode_idx (ih_fs g) (in_n (ci_inode y)) = Inr \<lparr>ix_block = 5, ix_idx = 2\<rparr>"
    using h(5) y(4) ext2_sample2_idx by (simp add: g_def inode_sample_def)
  moreover have "5 \<notin> set (held (ih_fs g))" "128 * unat (2 :: u32) + 128 \<le> length (dev (ih_fs g) 5)" "length (in_blocks (ci_inode y)) = 15"
    using h(5) y(4) by (simp_all add: g_def ext2_sample2_def ext2_sample_def inode_sample_def)
  ultimately obtain h1 h2 h3 x' where "inode_inv g []" "inode_update g 100 = Inr h1" "inode_unlock h1 100 = Inr h2" "inode_lock h2 100 = Inr h3"
      "ih_inodes h3 100 = Some x'" "ci_inode x' = ci_inode y"
    using inode_lock_reloads [OF _ y(1-3)] by blast
  then show ?thesis
    using y(1,4) by (intro exI [of _ g] exI [of _ y] exI [of _ h1] exI [of _ h2] exI [of _ h3] exI [of _ x']) simp
qed

theorem inode_read_advances_witness:
  "\<exists>t1 t2. let f = file_zero\<lparr>fi_object := 100, fi_offset := 1023\<rparr>; t = file_init\<lparr>fh_files := [7 \<mapsto> f]\<rparr>;
       h = ih_small\<lparr>ih_inodes := [100 \<mapsto> mem_small\<lparr>ci_ops := Some (ext2_ops 1)\<rparr>]\<rparr> in
     inode_read h t 7 1 = Inr ([1], h, t1) \<and> inode_read h t1 7 2 = Inr ([2, 2], h, t2)"
proof -
  let ?f = "file_zero\<lparr>fi_object := 100, fi_offset := 1023\<rparr>"
  let ?t = "file_init\<lparr>fh_files := [7 \<mapsto> ?f]\<rparr>"
  let ?x = "mem_small\<lparr>ci_ops := Some (ext2_ops 1)\<rparr>"
  let ?h = "ih_small\<lparr>ih_inodes := [100 \<mapsto> ?x]\<rparr>"
  have i: "ci_inode ?x = inode_sample" "ih_fs ?h = ext2_sample2" "in_size inode_sample = 2000"
    by (simp_all add: mem_small_def ih_small_def inode_sample_def)
  have "replicate 1024 (1 :: u8) = replicate 1023 1 @ [1]" "replicate 1024 (2 :: u8) = [2, 2] @ replicate 1022 2"
    by (simp_all add: replicate_app_Cons_same [symmetric] numeral_eq_Suc)
  then have bytes: "file_bytes ext2_sample2 inode_sample 2 = replicate 1023 1 @ [1] @ [2, 2] @ replicate 1022 2"
    by (simp add: ext2_sample2_bytes)
  have "\<exists>t1 t2 f2. let rest = drop (unat (fi_offset ?f)) (take (unat (in_size (ci_inode ?x))) (file_bytes (ih_fs ?h) (ci_inode ?x) 2)) in
     inode_read ?h ?t 7 1 = Inr (take (unat (1 :: u32)) rest, ?h, t1) \<and>
     inode_read ?h t1 7 2 = Inr (take (unat (2 :: u32)) (drop (unat (1 :: u32)) rest), ?h, t2) \<and>
     fh_files t2 7 = Some f2 \<and> unat (fi_offset f2) = unat (fi_offset ?f) + length (take (unat (1 :: u32) + unat (2 :: u32)) rest)"
    by (rule inode_read_advances) (use ext2_sample2_ok i in \<open>auto\<close>)
  moreover have rest: "drop (unat (fi_offset ?f)) (take (unat (in_size (ci_inode ?x))) (file_bytes (ih_fs ?h) (ci_inode ?x) 2)) = 1 # 2 # 2 # replicate 974 2"
    unfolding i bytes by simp
  ultimately have "\<exists>t1 t2 f2. inode_read ?h ?t 7 1 = Inr (take (unat (1 :: u32)) (1 # 2 # 2 # replicate 974 2), ?h, t1) \<and>
     inode_read ?h t1 7 2 = Inr (take (unat (2 :: u32)) (drop (unat (1 :: u32)) (1 # 2 # 2 # replicate 974 2)), ?h, t2)"
    unfolding Let_def rest by blast
  then show ?thesis
    by (simp add: Let_def)
qed

end
