(* ===== verification/ExtDir.thy ===== *)
theory ExtDir
  imports Dir
begin

text \<open>
  Directories on an ext2 device, the remaining functions of \<open>src/kernel/fs/filesystem.c\<close>: parsing the
  entries of a directory into the directory cache, adding and removing entries, reading the super
  block, and \<open>file_open\<close> of \<open>src/kernel/fs/file.c\<close>.  Entries are read and written as bytes.

  Shown here: entries that are encoded one after the other are parsed back, parsing a directory
  terminates, and where adding and removing entries goes wrong.
\<close>

section \<open>Entries\<close>

record ext2_dir_t =
  xd_inode :: u32
  xd_size :: u16
  xd_length :: u8
  xd_type :: u8
  xd_name :: "u8 list"

definition DIR_ENTRY_SIZE :: "u32 \<Rightarrow> u32" where "DIR_ENTRY_SIZE len = 8 + len"
definition EMPTY_DIR_SIZE :: u32 where "EMPTY_DIR_SIZE = 0xC * 2"
definition EXT2_ROOT_INODE :: u32 where "EXT2_ROOT_INODE = 2"
definition EXT2_SIGNATURE :: u16 where "EXT2_SIGNATURE = 0xEF53"

definition FILE_TYPE_UNKNOWN :: u8 where "FILE_TYPE_UNKNOWN = 0"
definition FILE_TYPE_FILE :: u8 where "FILE_TYPE_FILE = 1"
definition FILE_TYPE_DIR :: u8 where "FILE_TYPE_DIR = 2"
definition FILE_TYPE_FIFO :: u8 where "FILE_TYPE_FIFO = 5"

definition ALIGN4 :: "u32 \<Rightarrow> u32" where "ALIGN4 addr = (addr + 3) AND NOT 3"

text \<open>The entry at an offset of a buffer; the name has no terminating zero.\<close>

definition get_dir :: "u8 list \<Rightarrow> nat \<Rightarrow> ext2_dir_t res" where
  "get_dir b i =
     rbind (get32 b i) (\<lambda>inode.
     rbind (get16 b (i + 4)) (\<lambda>size'.
     rbind (get8 b (i + 6)) (\<lambda>len.
     rbind (get8 b (i + 7)) (\<lambda>type.
     if i + 8 + unat len \<le> length b then
       Inr \<lparr>xd_inode = inode, xd_size = size', xd_length = len, xd_type = type, xd_name = take (unat len) (drop (i + 8) b)\<rparr>
     else Inl BadAccess))))"

section \<open>Reading and writing a cached inode\<close>

definition read_cached :: "nat \<Rightarrow> ext2 dhead \<Rightarrow> ptr \<Rightarrow> u32 \<Rightarrow> u32 \<Rightarrow> (u8 list \<times> ext2 dhead) res" where
  "read_cached n h p offset size' =
     rbind (ino_get (dh_inodes h) p) (\<lambda>x.
     rbind (ext2_read_content n (ih_fs (dh_inodes h)) (ci_inode x) offset size') (\<lambda>(data, i, s).
     rbind (ino_upd ((dh_inodes h)\<lparr>ih_fs := s\<rparr>) p (\<lambda>y. y\<lparr>ci_inode := i\<rparr>)) (\<lambda>ih. Inr (data, h\<lparr>dh_inodes := ih\<rparr>))))"

definition write_cached :: "nat \<Rightarrow> ext2 dhead \<Rightarrow> ptr \<Rightarrow> u8 list \<Rightarrow> u32 \<Rightarrow> u32 \<Rightarrow> (int \<times> ext2 dhead) res" where
  "write_cached n h p src offset size' =
     rbind (ino_get (dh_inodes h) p) (\<lambda>x.
     rbind (ext2_write_content n (ih_fs (dh_inodes h)) (ci_inode x) src offset size') (\<lambda>(r, i, s).
     rbind (ino_upd ((dh_inodes h)\<lparr>ih_fs := s\<rparr>) p (\<lambda>y. y\<lparr>ci_inode := i\<rparr>)) (\<lambda>ih. Inr (r, h\<lparr>dh_inodes := ih\<rparr>))))"

definition update_cached :: "ext2 dhead \<Rightarrow> ptr \<Rightarrow> ext2 dhead res" where
  "update_cached h p =
     rbind (ino_get (dh_inodes h) p) (\<lambda>x.
     rbind (ext2_inode_update (ih_fs (dh_inodes h)) (ci_inode x)) (\<lambda>s. Inr (h\<lparr>dh_inodes := (dh_inodes h)\<lparr>ih_fs := s\<rparr>\<rparr>)))"

section \<open>Parsing\<close>

text \<open>The copy of \<open>dir_sum_path\<close> that the file system keeps.\<close>

definition ext2_sum_path :: "ext2 dhead \<Rightarrow> u8 list \<Rightarrow> u8 list \<Rightarrow> (ptr \<times> ext2 dhead) res" where
  "ext2_sum_path h path1 path2 =
     rbind (kmalloc_d h) (\<lambda>(p, h).
     if path1 = [] then Inl BadAccess
     else Inr (p, h\<lparr>dh_strs := (dh_strs h)(p := cstr (path1 @ (if last path1 \<noteq> SLASH then [SLASH] else []) @ path2))\<rparr>))"

text \<open>What \<open>ext2_parse_dir\<close> does for the entry at offset \<open>i\<close>.\<close>

definition visit_entry :: "nat \<Rightarrow> ext2 dhead \<Rightarrow> ptr \<Rightarrow> nat \<Rightarrow> ext2_dir_t \<Rightarrow> nat \<Rightarrow> ext2 dhead res" where
  "visit_entry n h dir device entry i =
     rbind (de_get h dir) (\<lambda>d.
     rbind (ext2_sum_path h (dh_strs h (de_path d)) (xd_name entry)) (\<lambda>(new_path, h).
     if xd_name entry = [DOT] \<or> xd_name entry = [DOT, DOT] then Inr h
     else
       rbind (dir_set n h device new_path (xd_inode entry) (of_nat i)) (\<lambda>(child, h).
       rbind (dir_add_child h dir child) (\<lambda>h. dir_release h child))))"

text \<open>Its loop over the bytes of a directory.  An entry of size 0 is visited for ever.\<close>

function parse_entries :: "nat \<Rightarrow> ext2 dhead \<Rightarrow> ptr \<Rightarrow> nat \<Rightarrow> u8 list \<Rightarrow> nat \<Rightarrow> nat \<Rightarrow> ext2 dhead res" where
  "parse_entries n h dir device buffer size' i =
     (if i < size' then
        rbind (get_dir buffer i) (\<lambda>entry.
        rbind (visit_entry n h dir device entry i) (\<lambda>h.
        if xd_size entry = 0 then Inl Hang
        else parse_entries n h dir device buffer size' (i + unat (xd_size entry))))
      else Inr h)"
  by pat_completeness auto

termination
  by (relation "measure (\<lambda>(_, _, _, _, _, size', i). size' - i)") (auto intro!: diff_less_mono2 simp: unat_gt_0)

declare parse_entries.simps [simp del]

definition ext2_parse_dir :: "nat \<Rightarrow> ext2 dhead \<Rightarrow> ptr \<Rightarrow> ext2 dhead res" where
  "ext2_parse_dir n h dir =
     rbind (dir_lock h dir) (\<lambda>h.
     rbind (de_get h dir) (\<lambda>d.
     rbind (if de_table d = None
            then rbind (ht_create 20 75 (HT_RESIZE OR HT_PTRKEY)) (\<lambda>t. de_upd h dir (\<lambda>y. y\<lparr>de_table := Some t\<rparr>))
            else Inr h) (\<lambda>h.
     let inode = de_inode d in
     rbind (on_inodes h (\<lambda>i. inode_lock i inode)) (\<lambda>h.
     rbind (inode_of h inode) (\<lambda>i.
     rbind (read_cached n h inode 0 (in_size i)) (\<lambda>(buffer, h).
     rbind (parse_entries n h dir (in_device i) buffer (unat (in_size i)) 0) (\<lambda>h.
     rbind (on_inodes h (\<lambda>i. inode_unlock i inode)) (\<lambda>h.
       dir_unlock h dir))))))))"

definition ext2_parse_root :: "nat \<Rightarrow> ext2 dhead \<Rightarrow> nat \<Rightarrow> ext2 dhead res" where
  "ext2_parse_root n h device =
     rbind (kmalloc_d h) (\<lambda>(rpath, h).
     rbind (dir_set n (h\<lparr>dh_strs := (dh_strs h)(rpath := [SLASH])\<rparr>) device rpath EXT2_ROOT_INODE 0) (\<lambda>(rdentry, h).
     rbind (ext2_parse_dir n h rdentry) (\<lambda>h. dir_release h rdentry)))"

section \<open>Adding an entry\<close>

text \<open>The offset of the last entry: \<open>for (i = 0; i < size; i += last->size) last = buffer + i\<close>.\<close>

function last_entry :: "u8 list \<Rightarrow> nat \<Rightarrow> nat \<Rightarrow> nat option \<Rightarrow> nat option res" where
  "last_entry b size' i last' =
     (if i < size' then
        rbind (get16 b (i + 4)) (\<lambda>s. if s = 0 then Inl Hang else last_entry b size' (i + unat s) (Some i))
      else Inr last')"
  by pat_completeness auto

termination
  by (relation "measure (\<lambda>(_, size', i, _). size' - i)") (auto intro!: diff_less_mono2 simp: unat_gt_0)

declare last_entry.simps [simp del]

definition type_of_mode :: "u16 \<Rightarrow> u8" where
  "type_of_mode mode =
     (if mode = EXT2_TYPE_FIFO then FILE_TYPE_FIFO else if mode = EXT2_TYPE_FILE then FILE_TYPE_FILE
      else if mode = EXT2_TYPE_DIR then FILE_TYPE_DIR else FILE_TYPE_UNKNOWN)"

definition put_dir :: "ext2_dir_t \<Rightarrow> u8 list" where
  "put_dir d =
     [ucast (xd_inode d), ucast (drop_bit 8 (xd_inode d)), ucast (drop_bit 16 (xd_inode d)), ucast (drop_bit 24 (xd_inode d)),
      ucast (xd_size d), ucast (drop_bit 8 (xd_size d)), xd_length d, xd_type d] @ xd_name d"

definition ext2_link :: "nat \<Rightarrow> ext2 dhead \<Rightarrow> ptr \<Rightarrow> ptr \<Rightarrow> u8 list \<Rightarrow> (int \<times> ext2 dhead) res" where
  "ext2_link n h dir entry name =
     rbind (de_get h dir) (\<lambda>d.
     rbind (de_get h entry) (\<lambda>e.
     let dst = de_inode d in
     rbind (inode_of h dst) (\<lambda>di.
     rbind (inode_of h (de_inode e)) (\<lambda>ei.
     rbind (read_cached n h dst 0 (in_size di)) (\<lambda>(buffer, h).
     rbind (last_entry buffer (unat (in_size di)) 0 None) (\<lambda>last'.
     rbind (case last' of None \<Rightarrow> Inr (0, 0) | Some i \<Rightarrow>
              rbind (get16 buffer (i + 4)) (\<lambda>s. rbind (get8 buffer (i + 6)) (\<lambda>l. Inr (ucast s, ucast l)))) (\<lambda>(last_size, last_len).
     let bs = BLOCK_SIZE (ih_fs (dh_inodes h));
         last_start = in_size di - last_size;
         last_new_size = DIR_ENTRY_SIZE last_len;
         new_start = ALIGN4 (last_start + last_new_size);
         rem = bs - new_start mod bs;
         len = of_nat (length name);
         new_size = DIR_ENTRY_SIZE len in
     rbind (if new_size > rem then
              rbind (inode_set h dst (\<lambda>i. i\<lparr>in_size := in_size i + bs\<rparr>)) (\<lambda>h. Inr ((new_start div bs + 1) * bs, bs - new_size, h))
            else
              case last' of
                None \<Rightarrow> Inr (new_start, rem, h)
              | Some i \<Rightarrow>
                  rbind (put16 buffer (i + 4) (ucast (ALIGN4 last_new_size))) (\<lambda>buffer.
                  rbind (write_cached n h dst (drop i buffer) last_start (ucast (ucast (ALIGN4 last_new_size) :: u16))) (\<lambda>(_, h).
                    Inr (new_start, rem, h)))) (\<lambda>(new_start, rem, h).
     let new = \<lparr>xd_inode = in_n ei, xd_size = ucast rem, xd_length = ucast len, xd_type = type_of_mode (in_mode ei), xd_name = name\<rparr> in
     rbind (write_cached n h dst (put_dir new) new_start new_size) (\<lambda>(_, h).
     rbind (de_upd h entry (\<lambda>y. y\<lparr>de_offset := new_start\<rparr>)) (\<lambda>h.
     rbind (update_cached h dst) (\<lambda>h. Inr (0, h))))))))))))"

section \<open>Removing an entry\<close>

definition memset0 :: "u8 list \<Rightarrow> nat \<Rightarrow> nat \<Rightarrow> u8 list res" where
  "memset0 b i n = (if i + n \<le> length b then Inr (take i b @ replicate n 0 @ drop (i + n) b) else Inl BadAccess)"

definition memmove_buf :: "u8 list \<Rightarrow> nat \<Rightarrow> nat \<Rightarrow> nat \<Rightarrow> u8 list res" where
  "memmove_buf b dst src n =
     (if dst + n \<le> length b \<and> src + n \<le> length b then Inr (take dst b @ take n (drop src b) @ drop (dst + n) b) else Inl BadAccess)"

text \<open>The loop that moves the later entries down; the number of siblings is enough fuel.\<close>

fun unlink_loop :: "nat \<Rightarrow> ext2 dhead \<Rightarrow> ptr \<Rightarrow> u8 list \<Rightarrow> u32 \<Rightarrow> u32 \<Rightarrow> u32 \<Rightarrow> (u8 list \<times> u32 \<times> u32 \<times> u32 \<times> ext2 dhead) res" where
  "unlink_loop 0 h entry b prev_entry new_offset act_offset = (if entry = NULL then Inr (b, prev_entry, new_offset, act_offset, h) else Inl Hang)"
| "unlink_loop (Suc n) h entry b prev_entry new_offset act_offset =
     (if entry = NULL then Inr (b, prev_entry, new_offset, act_offset, h)
      else
        let bs = BLOCK_SIZE (ih_fs (dh_inodes h)); rem = bs - new_offset mod bs in
        rbind (get16 b (unat act_offset + 4)) (\<lambda>size'.
        rbind (if ucast size' < rem then
                 rbind (de_get h entry) (\<lambda>e.
                 rbind (de_get h (de_next_sib e)) (\<lambda>s.
                 rbind (put16 b (unat prev_entry + 4) (ucast (new_offset - de_offset s))) (\<lambda>b. Inr (b, new_offset))))
               else
                 rbind (put16 b (unat prev_entry + 4) (ucast rem)) (\<lambda>b. Inr (b, (new_offset div bs + 1) * bs))) (\<lambda>(b, new_offset).
        rbind (de_upd h entry (\<lambda>y. y\<lparr>de_offset := new_offset\<rparr>)) (\<lambda>h.
        rbind (get16 b (unat act_offset + 4)) (\<lambda>size'.
        rbind (memmove_buf b (unat new_offset) (unat act_offset) (unat size')) (\<lambda>b.
        rbind (de_get h entry) (\<lambda>e.
        rbind (de_get h (de_next_sib e)) (\<lambda>e'.
          unlink_loop n h (de_next_sib e) b act_offset (ALIGN4 (de_offset e)) (de_offset e')))))))))"

definition ext2_unlink :: "nat \<Rightarrow> ext2 dhead \<Rightarrow> ptr \<Rightarrow> ptr \<Rightarrow> (int \<times> ext2 dhead) res" where
  "ext2_unlink n h dir entry =
     rbind (de_get h dir) (\<lambda>d.
     rbind (de_get h entry) (\<lambda>e.
     let dst = de_inode d in
     rbind (inode_of h dst) (\<lambda>di.
     rbind (inode_of h (de_inode e)) (\<lambda>ei.
     if in_hard_links_count ei = 0 then Inl Abort
     else if in_mode ei AND EXT2_TYPE_DIR \<noteq> 0 \<and> in_size ei \<noteq> EMPTY_DIR_SIZE then Inr (-1, h)
     else
       rbind (read_cached n h dst 0 (in_size di)) (\<lambda>(buffer, h).
       let new_offset = de_offset e in
       rbind (get16 buffer (unat new_offset + 4)) (\<lambda>size'.
       rbind (memset0 buffer (unat new_offset) (unat size')) (\<lambda>buffer.
       rbind (de_get h (de_next_sib e)) (\<lambda>s.
       let act_offset = de_offset s in
       rbind (dir_remove_child n h dir entry) (\<lambda>h.
       rbind (unlink_loop n h (de_prev_sib e) buffer act_offset new_offset act_offset) (\<lambda>(buffer, prev_entry, new_offset, act_offset, h).
       let bs = BLOCK_SIZE (ih_fs (dh_inodes h)) in
       rbind (put16 buffer (unat prev_entry + 4) (ucast (bs - act_offset mod bs))) (\<lambda>buffer.
       rbind (inode_of h dst) (\<lambda>di.
       rbind (write_cached n h dst buffer 0 (in_size di)) (\<lambda>(_, h).
       rbind (inode_set h dst (\<lambda>i. i\<lparr>in_size := (new_offset div bs + 1) * bs\<rparr>)) (\<lambda>h.
       rbind (update_cached h dst) (\<lambda>h. Inr (0, h))))))))))))))))"

definition ext2_write_dir :: "nat \<Rightarrow> ext2 dhead \<Rightarrow> ptr \<Rightarrow> ptr \<Rightarrow> u8 list \<Rightarrow> bool \<Rightarrow> (int \<times> ext2 dhead) res" where
  "ext2_write_dir n h dir entry name link = (if link then ext2_link n h dir entry name else ext2_unlink n h dir entry)"

section \<open>Mounting\<close>

definition ext2_dir_itf :: "nat \<Rightarrow> ext2 dhead dir_itf" where
  "ext2_dir_itf n = \<lparr>dt_parse_dir = ext2_parse_dir n, dt_write_dir = ext2_write_dir n, dt_parse_root = ext2_parse_root n\<rparr>"

text \<open>\<open>bio\<close> gives the bytes that \<open>bio_read\<close> of a block with a size delivers.\<close>

definition get_sblock :: "u8 list \<Rightarrow> (u16 \<times> ext2_sblock_t) res" where
  "get_sblock b =
     rbind (get32 b 4) (\<lambda>total_blocks.
     rbind (get32 b 24) (\<lambda>log_block_size.
     rbind (get32 b 32) (\<lambda>blocks_pg.
     rbind (get32 b 40) (\<lambda>inodes_per_group.
     rbind (get16 b 56) (\<lambda>signature.
     rbind (get16 b 88) (\<lambda>inode_size.
       Inr (signature, \<lparr>sb_total_blocks = total_blocks, sb_log_block_size = unat log_block_size, sb_blocks_pg = blocks_pg,
         sb_inodes_per_group = inodes_per_group, sb_inode_size = ucast inode_size\<rparr>)))))))"

definition RUP_DIVISION :: "u32 \<Rightarrow> u32 \<Rightarrow> u32" where
  "RUP_DIVISION x y = (x + (y - 1)) div y"

text \<open>The copies of one block for each group, 32 bytes apart.\<close>

fun copy_bgds :: "nat \<Rightarrow> (u32 \<Rightarrow> u32 \<Rightarrow> u8 list) \<Rightarrow> u32 \<Rightarrow> u32 \<Rightarrow> u32 \<Rightarrow> u8 list \<Rightarrow> u8 list res" where
  "copy_bgds 0 bio bs blocks_pg i b = Inr b"
| "copy_bgds (Suc k) bio bs blocks_pg i b =
     (let src = bio (2 + i * blocks_pg) bs in
      if 32 * unat i + unat bs \<le> length b then
        copy_bgds k bio bs blocks_pg (i + 1) (take (32 * unat i) b @ take (unat bs) src @ drop (32 * unat i + unat bs) b)
      else Inl BadAccess)"

definition get_bgd :: "u8 list \<Rightarrow> nat \<Rightarrow> ext2_bgd_t res" where
  "get_bgd b i =
     rbind (get32 b (32 * i)) (\<lambda>bb. rbind (get32 b (32 * i + 4)) (\<lambda>ib. rbind (get32 b (32 * i + 8)) (\<lambda>it.
       Inr \<lparr>bg_block_bitmap = bb, bg_inode_bitmap = ib, bg_inode_table = it\<rparr>)))"

definition get_bgds :: "u8 list \<Rightarrow> ext2_bgd_t list res" where
  "get_bgds b = foldr (\<lambda>i r. rbind (get_bgd b i) (\<lambda>d. rbind r (\<lambda>ds. Inr (d # ds)))) [0..<length b div 32] (Inr [])"

text \<open>The state of the file system that \<open>ext2_init\<close> sets up, \<open>None\<close> when the signature is wrong.  The buffers of the
  descriptors are not given back.\<close>

definition ext2_init :: "(u32 \<Rightarrow> u32 \<Rightarrow> u8 list) \<Rightarrow> (u32 \<Rightarrow> u8 list) \<Rightarrow> u8 list \<Rightarrow> ext2 option res" where
  "ext2_init bio blocks mem =
     rbind (get_sblock (bio 1 1024)) (\<lambda>(signature, sb).
     if signature \<noteq> EXT2_SIGNATURE then Inr None
     else if sb_blocks_pg sb = 0 then Inl Abort
     else
       let s = \<lparr>sblock = sb, bg_descrs = [], dev = blocks, held = []\<rparr>;
           bs = BLOCK_SIZE s;
           bgd_count = RUP_DIVISION (sb_total_blocks sb) (sb_blocks_pg sb) in
       if bs div 32 = 0 then Inl Abort
       else
         let bgd_blocks = RUP_DIVISION bgd_count (bs div 32); size' = unat (bs * bgd_blocks) in
         rbind (copy_bgds (unat bgd_count) bio bs (sb_blocks_pg sb) 0 (take size' mem)) (\<lambda>b.
         rbind (get_bgds b) (\<lambda>ds.
           Inr (Some (s\<lparr>bg_descrs := ds, held := rev (map (\<lambda>i. 2 + of_nat i * sb_blocks_pg sb) [0..<unat bgd_count])\<rparr>)))))"

section \<open>Opening a file\<close>

definition O_CREAT :: u32 where "O_CREAT = 1"
definition O_RDONLY :: u32 where "O_RDONLY = 2"
definition O_WRONLY :: u32 where "O_WRONLY = 4"
definition O_RDWR :: u32 where "O_RDWR = 8"
definition O_TRUNC :: u32 where "O_TRUNC = 16"

definition file_open ::
    "nat \<Rightarrow> (fn \<Rightarrow> ptr \<Rightarrow> ftable \<Rightarrow> ftable res) \<Rightarrow> 's dhead dir_itf option list \<Rightarrow> ptr \<Rightarrow> file_t \<Rightarrow> 's dhead \<Rightarrow> ftable \<Rightarrow> ptr list \<Rightarrow>
     ptr \<Rightarrow> u32 \<Rightarrow> (int \<times> ptr list \<times> ftable \<times> 's dhead) res" where
  "file_open n call itfs bp fmem h t open_files path flags =
     rbind (dir_get itfs bp h path) (\<lambda>(dentry, h).
     rbind (if dentry = NULL \<and> flags AND O_CREAT \<noteq> 0 then dir_create n itfs bp h path EXT2_TYPE_FILE 0 else Inr (dentry, h)) (\<lambda>(dentry, h).
     if dentry = NULL then Inr (-1, open_files, t, h)
     else
       rbind (de_get h dentry) (\<lambda>d.
       let inode = de_inode d in
       rbind (on_inodes h (\<lambda>i. inode_lock i inode)) (\<lambda>h.
       rbind (inode_of h inode) (\<lambda>i.
       if in_mode i AND EXT2_TYPE_DIR \<noteq> 0 \<and> flags \<noteq> O_RDONLY then
         rbind (on_inodes h (\<lambda>i. inode_unlock i inode)) (\<lambda>h.
         rbind (dir_release h dentry) (\<lambda>h. Inr (-1, open_files, t, h)))
       else
         rbind (kmalloc_d h) (\<lambda>(new, h).
         rbind (file_alloc t new fmem) (\<lambda>(file, t).
         rbind (fd_alloc t open_files file) (\<lambda>(fd, open_files, t).
         if fd = -1 then
           rbind (on_inodes h (\<lambda>i. inode_unlock i inode)) (\<lambda>h.
           rbind (dir_release h dentry) (\<lambda>h.
           rbind (file_close call t file) (\<lambda>t. Inr (-1, open_files, t, h))))
         else
           rbind (file_upd t file (\<lambda>f. f\<lparr>fi_object := inode, fi_offset := 0, fi_close := Fn_file_close, fi_write := Fn_inode_write,
             fi_read := Fn_inode_read, fi_stat := Fn_inode_stat, fi_readp := (flags AND O_WRONLY = 0),
             fi_writep := (flags AND O_WRONLY \<noteq> 0 \<or> flags AND O_RDWR \<noteq> 0)\<rparr>)) (\<lambda>t.
           rbind (if flags AND O_TRUNC \<noteq> 0 \<and> in_mode i AND EXT2_TYPE_FILE \<noteq> 0
                  then on_inodes h (\<lambda>i. inode_trunc i inode) else Inr h) (\<lambda>h.
           rbind (on_inodes h (\<lambda>i. inode_unlock i inode)) (\<lambda>h. Inr (fd, open_files, t, h))))))))))))"

section \<open>Encoding and parsing\<close>

lemma rd32_bytes: "rd32 (pre @ [ucast v, ucast (drop_bit 8 v), ucast (drop_bit 16 v), ucast (drop_bit 24 v)] @ post) (length pre) = v"
  using rd_up_same(2) [of 0 "[0, 0, 0, 0]" v] by (simp add: rd32_def up32_def nth_append)

lemma rd16_bytes: "rd16 (pre @ [ucast v, ucast (drop_bit 8 v)] @ post) (length pre) = v"
  using rd_up_same(1) [of 0 "[0, 0]" v] by (simp add: rd16_def up16_def nth_append)

lemma get_put_dir:
  assumes "length (xd_name d) = unat (xd_length d)"
  shows "get_dir (pre @ put_dir d @ post) (length pre) = Inr d"
proof -
  let ?b = "pre @ put_dir d @ post" and ?i = "length pre"
  define rest where "rest = [ucast (xd_size d), ucast (drop_bit 8 (xd_size d)), xd_length d, xd_type d] @ xd_name d @ post"
  define front where "front = pre @ [ucast (xd_inode d), ucast (drop_bit 8 (xd_inode d)), ucast (drop_bit 16 (xd_inode d)), ucast (drop_bit 24 (xd_inode d))]"
  have b: "?b = pre @ [ucast (xd_inode d), ucast (drop_bit 8 (xd_inode d)), ucast (drop_bit 16 (xd_inode d)), ucast (drop_bit 24 (xd_inode d))] @ rest"
    "?b = front @ [ucast (xd_size d), ucast (drop_bit 8 (xd_size d))] @ [xd_length d, xd_type d] @ xd_name d @ post"
    by (simp_all add: put_dir_def rest_def front_def)
  have len: "length front = ?i + 4" "length ?b = ?i + 8 + unat (xd_length d) + length post"
    using assms by (simp_all add: front_def put_dir_def)
  have "get32 ?b ?i = Inr (xd_inode d)"
    using len(2) rd32_bytes [of pre "xd_inode d" rest] b(1) by (simp add: get_put_in)
  moreover have "rd16 ?b (length front) = xd_size d"
    unfolding b(2) by (rule rd16_bytes)
  then have "get16 ?b (?i + 4) = Inr (xd_size d)"
    using len by (simp only: get_put_in)
  moreover have "get8 ?b (?i + 6) = Inr (xd_length d)" "get8 ?b (?i + 7) = Inr (xd_type d)"
    by (simp_all add: get8_def put_dir_def nth_append)
  moreover have "take (unat (xd_length d)) (drop (?i + 8) ?b) = xd_name d"
    using assms by (simp add: put_dir_def)
  ultimately show ?thesis
    using len(2) assms by (simp add: get_dir_def)
qed

text \<open>A directory: entries, each followed by bytes that fill it up to its size.\<close>

definition dir_image :: "(ext2_dir_t \<times> u8 list) list \<Rightarrow> u8 list" where
  "dir_image ds = concat (map (\<lambda>(d, pad). put_dir d @ pad) ds)"

definition dir_entry_ok :: "ext2_dir_t \<times> u8 list \<Rightarrow> bool" where
  "dir_entry_ok e \<longleftrightarrow> (case e of (d, pad) \<Rightarrow> length (xd_name d) = unat (xd_length d) \<and> length (put_dir d @ pad) = unat (xd_size d))"

text \<open>The visits of a list of entries in order.\<close>

fun visit_all :: "nat \<Rightarrow> ext2 dhead \<Rightarrow> ptr \<Rightarrow> nat \<Rightarrow> (ext2_dir_t \<times> u8 list) list \<Rightarrow> nat \<Rightarrow> ext2 dhead res" where
  "visit_all n h dir device [] i = Inr h"
| "visit_all n h dir device ((d, pad) # ds) i =
     rbind (visit_entry n h dir device d i) (\<lambda>h. visit_all n h dir device ds (i + unat (xd_size d)))"

lemma parse_entries_image:
  assumes "list_all dir_entry_ok ds"
  shows "parse_entries n h dir device (pre @ dir_image ds) (length pre + length (dir_image ds)) (length pre) = visit_all n h dir device ds (length pre)"
  using assms
proof (induction ds arbitrary: h pre)
  case Nil
  then show ?case
    by (subst parse_entries.simps) (simp add: dir_image_def)
next
  case (Cons e ds)
  obtain d pad where e: "e = (d, pad)"
    by (cases e)
  have ok: "length (xd_name d) = unat (xd_length d)" "length (put_dir d @ pad) = unat (xd_size d)"
    using Cons.prems e by (auto simp: dir_entry_ok_def)
  let ?pre = "pre @ put_dir d @ pad"
  have im: "dir_image (e # ds) = put_dir d @ pad @ dir_image ds"
    by (simp add: dir_image_def e)
  have pos: "0 < unat (xd_size d)" "xd_size d \<noteq> 0"
    using ok(2) by (auto simp: put_dir_def)
  have len: "length ?pre = length pre + unat (xd_size d)" "length (dir_image (e # ds)) = unat (xd_size d) + length (dir_image ds)"
    using ok(2) im by auto
  have get: "get_dir (pre @ dir_image (e # ds)) (length pre) = Inr d"
    unfolding im by (rule get_put_dir [OF ok(1)])
  have "parse_entries n g dir device (pre @ dir_image (e # ds)) (length pre + length (dir_image (e # ds))) (length pre + unat (xd_size d)) =
      visit_all n g dir device ds (length pre + unat (xd_size d))" for g
    using Cons.IH [of g ?pre] Cons.prems len im by (simp add: add.assoc)
  then show ?case
    using get pos len(2) by (subst parse_entries.simps) (simp add: e)
qed

text \<open>C17 [ext2_parse_visits_entries]: parsing the bytes of a well-formed directory, entries one after the other, each of them
  filled up to its size, visits exactly these entries, in order and with their offsets, and ends at the end of the directory.\<close>

theorem ext2_parse_visits_entries:
  assumes "list_all dir_entry_ok ds"
  shows "parse_entries n h dir device (dir_image ds) (length (dir_image ds)) 0 = visit_all n h dir device ds 0"
  using parse_entries_image [OF assms, of n h dir device "[]"] by simp

section \<open>Where the code goes wrong\<close>

text \<open>Fact [ext2_zero_entry_hangs]: a directory that has an entry of size 0 is never parsed to its end.  \<open>ext2_link\<close> makes such a
  directory when the new entry goes to a new block: it gives the entry the size of the block less the
  length of the entry, so the rest of the block, which is zero, is taken for an entry.\<close>

lemma ext2_zero_entry_hangs:
  assumes "i < size'" "get_dir buffer i = Inr entry" "xd_size entry = 0"
  shows "parse_entries n h dir device buffer size' i \<noteq> Inr h'"
  using assms by (subst parse_entries.simps) (auto simp: rbind_eq_Inr)

text \<open>Fact [ext2_init_overrun]: with two or more block groups whose descriptors fit into one block, reading them writes behind the
  memory allocated for them, because a whole block is copied for each group.\<close>

lemma ext2_init_overrun:
  assumes "length b = unat bs" "length (bio 2 bs) = unat bs"
  shows "copy_bgds (Suc (Suc k)) bio bs blocks_pg 0 b = Inl BadAccess"
  using assms by simp

section \<open>A directory\<close>

definition dents_sample :: "(ext2_dir_t \<times> u8 list) list" where
  "dents_sample = [(\<lparr>xd_inode = 2, xd_size = 12, xd_length = 1, xd_type = 2, xd_name = [DOT]\<rparr>, [0, 0, 0]),
     (\<lparr>xd_inode = 2, xd_size = 12, xd_length = 2, xd_type = 2, xd_name = [DOT, DOT]\<rparr>, [0, 0])]"

theorem ext2_parse_visits_entries_witness:
  "list_all dir_entry_ok dents_sample \<and> length (dir_image dents_sample) = 24 \<and>
     parse_entries 0 dh_sample 77 0 (dir_image dents_sample) 24 0 = visit_all 0 dh_sample 77 0 dents_sample 0"
proof -
  have ok: "list_all dir_entry_ok dents_sample" "length (dir_image dents_sample) = 24"
    by (simp_all add: dents_sample_def dir_entry_ok_def put_dir_def dir_image_def)
  then show ?thesis
    using ext2_parse_visits_entries [OF ok(1), of 0 dh_sample 77 0] by simp
qed

end
