(* ===== verification/Pipe.thy ===== *)
theory Pipe
  imports File
begin

text \<open>
  Pipes, \<open>src/kernel/fs/pipe.c\<close>, and the system calls of \<open>src/kernel/usr/syscall.c\<close> on descriptors.
  A pipe is a ring of bytes with free-running 32-bit counters.  A task that has to wait gives the
  pipe's mutex back and is resumed, after a signal, at the point where it waited; one run of an
  operation therefore ends with \<open>Returned\<close> or with \<open>Waiting\<close> and the loop index at which it goes on.
  The memory at the caller's address is a list of bytes.

  Shown here: under every interleaving of readers and writers the bytes read are those written, in
  order, no byte is lost or repeated and nobody sleeps while there is something to do; and where the
  pipes that user programs get are smaller than the ring the writer assumes.
\<close>

section \<open>Data\<close>

record pipe_t =
  pp_mutex :: semaphore_t
  pp_size :: u32
  pp_type :: u32
  pp_b_read :: u32
  pp_b_write :: u32
  pp_read_open :: bool
  pp_write_open :: bool
  pp_buffer :: "u8 list"

definition PIPE_SIZE :: u32 where "PIPE_SIZE = 1024 * 4"

definition PIPE_TYPE_UNBUFFERED :: u32 where "PIPE_TYPE_UNBUFFERED = 0"
definition PIPE_TYPE_BUF_BLOCK :: u32 where "PIPE_TYPE_BUF_BLOCK = 1"
definition PIPE_TYPE_BUF_CHAR :: u32 where "PIPE_TYPE_BUF_CHAR = 2"

text \<open>The two condition variables of a pipe are the addresses of its counters.\<close>

datatype pcond = B_READ | B_WRITE

datatype outcome = Returned int | Waiting nat

type_synonym prun = "(pipe_t \<times> u8 list \<times> pcond list \<times> outcome) res"

section \<open>Operations\<close>

text \<open>The first half of \<open>condvar_wait\<close>: the mutex is given back.  The second half, taking it again, is
  the start of the resumed run.\<close>

definition pipe_wait :: "pipe_t \<Rightarrow> u8 list \<Rightarrow> pcond list \<Rightarrow> nat \<Rightarrow> prun" where
  "pipe_wait pipe addr sig i =
     rbind (lock_release (pp_mutex pipe)) (\<lambda>m. Inr (pipe\<lparr>pp_mutex := m\<rparr>, addr, sig, Waiting i))"

definition pipe_buf_write :: "pipe_t \<Rightarrow> u8 list \<Rightarrow> u32 \<Rightarrow> bool \<Rightarrow> prun" where
  "pipe_buf_write pipe addr size' resumed =
     (if \<not> resumed \<and> pp_b_read pipe \<noteq> pp_b_write pipe then pipe_wait pipe addr [] 0
      else if pp_size pipe = 0 then Inl Abort
      else
        let room = pp_size pipe - pp_b_write pipe mod pp_size pipe;
            remaining = (if size' > room then room else size') in
        if unat remaining \<le> length (pp_buffer pipe) \<and> unat remaining \<le> length addr then
          Inr (pipe\<lparr>pp_b_write := pp_b_write pipe + remaining\<rparr>,
               take (unat remaining) (pp_buffer pipe) @ drop (unat remaining) addr, [], Returned (sint remaining))
        else Inl BadAccess)"

function pipe_unbuf_write :: "pipe_t \<Rightarrow> u8 list \<Rightarrow> u32 \<Rightarrow> nat \<Rightarrow> pcond list \<Rightarrow> prun" where
  "pipe_unbuf_write pipe addr size' i sig =
     (if i < unat size' then
        if pp_b_write pipe = pp_b_read pipe + PIPE_SIZE then
          if \<not> pp_read_open pipe then
            rbind (lock_release (pp_mutex pipe)) (\<lambda>m. Inr (pipe\<lparr>pp_mutex := m\<rparr>, addr, sig, Returned (-1)))
          else pipe_wait pipe addr (sig @ [B_READ]) i
        else
          rbind (array_get addr i) (\<lambda>c.
          rbind (array_set (pp_buffer pipe) (unat (pp_b_write pipe mod PIPE_SIZE)) c) (\<lambda>buffer.
            pipe_unbuf_write (pipe\<lparr>pp_buffer := buffer, pp_b_write := pp_b_write pipe + 1\<rparr>) addr size' (i + 1) sig))
      else Inr (pipe, addr, sig, Returned (sint size')))"
  by pat_completeness auto

termination
  by (relation "measure (\<lambda>(_, _, size', i, _). unat size' - i)") auto

declare pipe_unbuf_write.simps [simp del]

text \<open>\<open>start\<close> is the loop index of a resumed run.\<close>

definition pipe_write :: "pipe_t \<Rightarrow> u8 list \<Rightarrow> u32 \<Rightarrow> nat option \<Rightarrow> prun" where
  "pipe_write pipe addr size' start =
     rbind (lock_acquire (pp_mutex pipe)) (\<lambda>m.
     let pipe = pipe\<lparr>pp_mutex := m\<rparr>; ty = pp_type pipe in
     rbind (if ty = PIPE_TYPE_BUF_CHAR \<or> ty = PIPE_TYPE_UNBUFFERED
              then pipe_unbuf_write pipe addr size' (case start of None \<Rightarrow> 0 | Some i \<Rightarrow> i) []
            else if ty = PIPE_TYPE_BUF_BLOCK then pipe_buf_write pipe addr size' (start \<noteq> None)
            else Inr (pipe, addr, [], Returned (-1))) (\<lambda>(pipe, addr, sig, out).
     case out of
       Waiting i \<Rightarrow> Inr (pipe, addr, sig, Waiting i)
     | Returned ret \<Rightarrow>
         if ty = PIPE_TYPE_BUF_BLOCK \<and> pp_size pipe = 0 then Inl Abort
         else
           let sig = (if ty \<noteq> PIPE_TYPE_BUF_BLOCK \<or> pp_b_write pipe mod pp_size pipe = 0 then sig @ [B_READ] else sig) in
           rbind (lock_release (pp_mutex pipe)) (\<lambda>m. Inr (pipe\<lparr>pp_mutex := m\<rparr>, addr, sig, Returned ret))))"

definition pipe_bufblock_read :: "pipe_t \<Rightarrow> u32 \<Rightarrow> bool \<Rightarrow> prun" where
  "pipe_bufblock_read pipe size' resumed =
     (if size' \<noteq> pp_size pipe then Inr (pipe, [], [], Returned (-1))
      else if \<not> resumed \<and> pp_b_read pipe + size' \<noteq> pp_b_write pipe \<and> pp_write_open pipe then pipe_wait pipe [] [] 0
      else if unat size' \<le> length (pp_buffer pipe) then
        Inr (pipe\<lparr>pp_b_read := pp_b_read pipe + size'\<rparr>, take (unat size') (pp_buffer pipe), [], Returned (sint size'))
      else Inl BadAccess)"

lemma unat_dec_less [termination_simp]:
  assumes "(a :: u32) \<noteq> b"
  shows "unat (b - (a + 1)) < unat (b - a)"
proof -
  have "b - a \<noteq> 0"
    using assms by simp
  then have "unat (b - a - 1) < unat (b - a)"
    by (metis unat_minus_one diff_less unat_eq_zero not_gr0 zero_less_one)
  then show ?thesis
    by (simp add: diff_diff_eq)
qed

function pipe_bufchar_loop :: "pipe_t \<Rightarrow> u8 \<Rightarrow> u8 list \<Rightarrow> (pipe_t \<times> u8 list) res" where
  "pipe_bufchar_loop pipe c out =
     (if pp_b_read pipe = pp_b_write pipe then Inr (pipe, out)
      else if pp_size pipe = 0 then Inl Abort
      else
        rbind (array_get (pp_buffer pipe) (unat (pp_b_read pipe mod pp_size pipe))) (\<lambda>v.
        let pipe = pipe\<lparr>pp_b_read := pp_b_read pipe + 1\<rparr> in
        if uint v = sint c then Inr (pipe, out @ [v]) else pipe_bufchar_loop pipe c (out @ [v])))"
  by pat_completeness auto

termination
  by (relation "measure (\<lambda>(pipe, _, _). unat (pp_b_write pipe - pp_b_read pipe))") (auto simp: unat_dec_less)

function pipe_unbuf_loop :: "pipe_t \<Rightarrow> u32 \<Rightarrow> nat \<Rightarrow> u8 list \<Rightarrow> (pipe_t \<times> u8 list) res" where
  "pipe_unbuf_loop pipe size' i out =
     (if i < unat size' \<and> pp_b_read pipe \<noteq> pp_b_write pipe then
        if pp_size pipe = 0 then Inl Abort
        else
          rbind (array_get (pp_buffer pipe) (unat (pp_b_read pipe mod pp_size pipe))) (\<lambda>v.
            pipe_unbuf_loop (pipe\<lparr>pp_b_read := pp_b_read pipe + 1\<rparr>) size' (i + 1) (out @ [v]))
      else Inr (pipe, out))"
  by pat_completeness auto

termination
  by (relation "measure (\<lambda>(_, size', i, _). unat size' - i)") auto

declare pipe_bufchar_loop.simps [simp del] pipe_unbuf_loop.simps [simp del]

definition pipe_bufchar_read :: "pipe_t \<Rightarrow> u8 \<Rightarrow> bool \<Rightarrow> prun" where
  "pipe_bufchar_read pipe c resumed =
     (if \<not> resumed \<and> pp_b_read pipe = pp_b_write pipe \<and> pp_write_open pipe then pipe_wait pipe [] [] 0
      else rbind (pipe_bufchar_loop pipe c []) (\<lambda>(pipe, out). Inr (pipe, out, [], Returned (int (length out)))))"

definition pipe_unbuf_read :: "pipe_t \<Rightarrow> u32 \<Rightarrow> bool \<Rightarrow> prun" where
  "pipe_unbuf_read pipe size' resumed =
     (if \<not> resumed \<and> pp_b_read pipe = pp_b_write pipe \<and> pp_write_open pipe then pipe_wait pipe [] [] 0
      else rbind (pipe_unbuf_loop pipe size' 0 []) (\<lambda>(pipe, out). Inr (pipe, out, [], Returned (int (length out)))))"

definition pipe_read :: "pipe_t \<Rightarrow> u32 \<Rightarrow> bool \<Rightarrow> prun" where
  "pipe_read pipe size' resumed =
     rbind (lock_acquire (pp_mutex pipe)) (\<lambda>m.
     let pipe = pipe\<lparr>pp_mutex := m\<rparr>; ty = pp_type pipe in
     if \<not> resumed \<and> \<not> pp_write_open pipe then
       rbind (lock_release (pp_mutex pipe)) (\<lambda>m. Inr (pipe\<lparr>pp_mutex := m\<rparr>, [], [], Returned (-1)))
     else
       rbind (if ty = PIPE_TYPE_UNBUFFERED then pipe_unbuf_read pipe size' resumed
              else if ty = PIPE_TYPE_BUF_BLOCK then pipe_bufblock_read pipe size' resumed
              else if ty = PIPE_TYPE_BUF_CHAR then pipe_bufchar_read pipe (ucast size') resumed
              else Inr (pipe, [], [], Returned (-1))) (\<lambda>(pipe, out, sig, outcome).
       case outcome of
         Waiting i \<Rightarrow> Inr (pipe, out, sig, Waiting i)
       | Returned ret \<Rightarrow>
           rbind (lock_release (pp_mutex pipe)) (\<lambda>m. Inr (pipe\<lparr>pp_mutex := m\<rparr>, out, sig @ [B_WRITE], Returned ret))))"

text \<open>When both ends are closed the pipe is gone, and its condition variables, found by the addresses
  of the counters, are freed.\<close>

definition pipe_close :: "nat \<Rightarrow> ksync \<Rightarrow> ptr \<Rightarrow> pipe_t \<Rightarrow> bool \<Rightarrow> (ksync \<times> pipe_t option \<times> pcond list) res" where
  "pipe_close n k p pipe writep =
     rbind (lock_acquire (pp_mutex pipe)) (\<lambda>m.
     let pipe = pipe\<lparr>pp_mutex := m\<rparr>;
         (pipe, sig) = (if writep then (pipe\<lparr>pp_write_open := False\<rparr>, [B_READ]) else (pipe\<lparr>pp_read_open := False\<rparr>, [])) in
     rbind (lock_release (pp_mutex pipe)) (\<lambda>m.
     let pipe = pipe\<lparr>pp_mutex := m\<rparr> in
     if \<not> pp_write_open pipe \<and> \<not> pp_read_open pipe then
       rbind (condvar_free n k (p + 8)) (\<lambda>k.
       rbind (condvar_free n k (p + 12)) (\<lambda>k. Inr (k, None, sig)))
     else Inr (k, Some pipe, sig)))"

definition pipe_new :: "u32 \<Rightarrow> u32 \<Rightarrow> u8 list \<Rightarrow> pipe_t" where
  "pipe_new size' ty mem = \<lparr>pp_mutex = mutex_create, pp_size = take_bit 30 size', pp_type = take_bit 2 ty, pp_b_read = 0, pp_b_write = 0,
     pp_read_open = True, pp_write_open = True, pp_buffer = mem\<rparr>"

text \<open>The addresses of the new files and of the pipe, and what new memory holds, are parameters; the
  result is -1, or 0 with the two files and the pipe.\<close>

definition pipe_alloc :: "(fn \<Rightarrow> ptr \<Rightarrow> ftable \<Rightarrow> ftable res) \<Rightarrow> ftable \<Rightarrow> ptr \<Rightarrow> ptr \<Rightarrow> file_t \<Rightarrow> ptr \<Rightarrow> u8 list \<Rightarrow> u32 \<Rightarrow> u32 \<Rightarrow>
    (int \<times> ptr \<times> ptr \<times> pipe_t option \<times> ftable) res" where
  "pipe_alloc call t new1 new2 fmem p mem size' ty =
     rbind (file_alloc t new1 fmem) (\<lambda>(f_read, t).
     if f_read = NULL then Inr (-1, f_read, NULL, None, t)
     else
       rbind (file_alloc t new2 fmem) (\<lambda>(f_write, t).
       if f_write = NULL then rbind (file_close call t f_read) (\<lambda>t. Inr (-1, f_read, f_write, None, t))
       else
         rbind (file_upd t f_read (\<lambda>f. f\<lparr>fi_readp := True, fi_writep := False, fi_object := p,
           fi_read := Fn_pipe_read, fi_close := Fn_pipe_close\<rparr>)) (\<lambda>t.
         rbind (file_upd t f_write (\<lambda>f. f\<lparr>fi_readp := False, fi_writep := True, fi_object := p,
           fi_write := Fn_pipe_write, fi_close := Fn_pipe_close\<rparr>)) (\<lambda>t.
           Inr (0, f_read, f_write, Some (pipe_new size' ty mem), t)))))"

section \<open>System calls\<close>

definition syscall_dup :: "ftable \<Rightarrow> ptr list \<Rightarrow> int \<Rightarrow> (int \<times> ptr list \<times> ftable) res" where
  "syscall_dup t open_files old_fd =
     (if old_fd < 0 then Inl BadAccess else rbind (array_get open_files (nat old_fd)) (fd_alloc t open_files))"

definition syscall_close :: "(fn \<Rightarrow> ptr \<Rightarrow> ftable \<Rightarrow> ftable res) \<Rightarrow> ftable \<Rightarrow> ptr list \<Rightarrow> int \<Rightarrow> (int \<times> ptr list \<times> ftable) res" where
  "syscall_close call t open_files fd =
     (if fd < 0 then Inl BadAccess
      else
        rbind (array_get open_files (nat fd)) (\<lambda>file.
        rbind (file_close call t file) (\<lambda>t.
        rbind (array_seti open_files fd NULL) (\<lambda>open_files. Inr (1, open_files, t)))))"

text \<open>The two descriptors are the contents of \<open>pipefd\<close> on success.\<close>

definition syscall_pipe :: "(fn \<Rightarrow> ptr \<Rightarrow> ftable \<Rightarrow> ftable res) \<Rightarrow> ftable \<Rightarrow> ptr list \<Rightarrow> ptr \<Rightarrow> ptr \<Rightarrow> file_t \<Rightarrow> ptr \<Rightarrow> u8 list \<Rightarrow>
    (int \<times> (int \<times> int) option \<times> ptr list \<times> pipe_t option \<times> ftable) res" where
  "syscall_pipe call t open_files new1 new2 fmem p mem =
     rbind (pipe_alloc call t new1 new2 fmem p mem 1024 PIPE_TYPE_UNBUFFERED) (\<lambda>(ret, read, write, pipe, t).
     if ret \<noteq> 0 then Inr (-1, None, open_files, pipe, t)
     else
       rbind (fd_alloc t open_files read) (\<lambda>(rfd, open_files, t).
       if rfd = -1 then
         rbind (file_close call t read) (\<lambda>t.
         rbind (file_close call t write) (\<lambda>t. Inr (-1, None, open_files, pipe, t)))
       else
         rbind (fd_alloc t open_files write) (\<lambda>(wfd, open_files, t).
         if wfd = -1 then
           rbind (array_seti open_files rfd NULL) (\<lambda>open_files.
           rbind (file_close call t read) (\<lambda>t.
           rbind (file_close call t write) (\<lambda>t. Inr (-1, None, open_files, pipe, t))))
         else Inr (0, Some (rfd, wfd), open_files, pipe, t))))"

section \<open>The bytes in a pipe\<close>

definition pbuf :: "pipe_t \<Rightarrow> u8 list \<Rightarrow> bool" where
  "pbuf p C \<longleftrightarrow> length (pp_buffer p) = 4096 \<and> unat (pp_b_write p - pp_b_read p) \<le> 4096 \<and>
     C = ring_list (pp_buffer p) (unat (pp_b_read p)) (unat (pp_b_write p - pp_b_read p))"

lemma pbuf_length: "pbuf p C \<Longrightarrow> length C = unat (pp_b_write p - pp_b_read p) \<and> length C \<le> 4096"
  by (simp add: pbuf_def)

lemma pbuf_full: "pbuf p C \<Longrightarrow> pp_b_write p = pp_b_read p + PIPE_SIZE \<longleftrightarrow> length C = 4096"
proof -
  have "pp_b_write p = pp_b_read p + PIPE_SIZE \<longleftrightarrow> pp_b_write p - pp_b_read p = PIPE_SIZE"
    by (metis add.commute diff_add_cancel add_diff_cancel_left')
  then show "pbuf p C \<Longrightarrow> pp_b_write p = pp_b_read p + PIPE_SIZE \<longleftrightarrow> length C = 4096"
    by (simp add: pbuf_length word_unat_eq_iff PIPE_SIZE_def)
qed

lemma pbuf_empty: "pbuf p C \<Longrightarrow> pp_b_read p = pp_b_write p \<longleftrightarrow> C = []"
proof -
  assume "pbuf p C"
  moreover have "pp_b_read p = pp_b_write p \<longleftrightarrow> unat (pp_b_write p - pp_b_read p) = 0"
    by (auto simp: unat_eq_zero)
  ultimately show ?thesis
    using pbuf_length [of p C] by auto
qed

lemma pbuf_slot:
  "unat (pp_b_write p mod PIPE_SIZE) = (unat (pp_b_read p) + unat (pp_b_write p - pp_b_read p)) mod 4096"
proof -
  have "unat (pp_b_write p) = (unat (pp_b_read p) + unat (pp_b_write p - pp_b_read p)) mod 4294967296"
    using unat_u32_plus_mod [of "pp_b_read p" "pp_b_write p - pp_b_read p"] by simp
  then show ?thesis
    by (simp add: unat_u32_mod PIPE_SIZE_def mod_mod_cancel)
qed

lemma pbuf_push:
  assumes p: "pbuf p C" and "length C < 4096"
  shows "pbuf (p\<lparr>pp_buffer := (pp_buffer p)[unat (pp_b_write p mod PIPE_SIZE) := v], pp_b_write := pp_b_write p + 1\<rparr>) (C @ [v])"
proof -
  let ?n = "unat (pp_b_write p - pp_b_read p)"
  have n: "length (pp_buffer p) = 4096" "C = ring_list (pp_buffer p) (unat (pp_b_read p)) ?n" "?n < 4096"
    using p assms(2) pbuf_length [OF p] by (auto simp: pbuf_def)
  have "unat ((pp_b_write p - pp_b_read p) + 1) = Suc ?n"
    by (rule unat_u32_Suc) (use n(3) in simp)
  moreover have "pp_b_write p + 1 - pp_b_read p = (pp_b_write p - pp_b_read p) + 1"
    by simp
  ultimately have "unat (pp_b_write p + 1 - pp_b_read p) = Suc ?n"
    by presburger
  then show ?thesis
    using n ring_list_push [of ?n "pp_buffer p" "unat (pp_b_read p)" v] by (simp add: pbuf_def pbuf_slot)
qed

lemma pbuf_pop:
  assumes p: "pbuf p (v # C)"
  shows "pbuf (p\<lparr>pp_b_read := pp_b_read p + 1\<rparr>) C" "pp_buffer p ! (unat (pp_b_read p mod PIPE_SIZE)) = v"
proof -
  let ?n = "unat (pp_b_write p - pp_b_read p)"
  have n: "length (pp_buffer p) = 4096" "v # C = ring_list (pp_buffer p) (unat (pp_b_read p)) ?n" "?n \<le> 4096"
    using p by (simp_all add: pbuf_def)
  have len: "?n = Suc (length C)"
    using pbuf_length [OF p] by simp
  have rl: "v # C = pp_buffer p ! (unat (pp_b_read p) mod 4096) # ring_list (pp_buffer p) (Suc (unat (pp_b_read p))) (length C)"
    using n(2) unfolding len ring_list_Suc n(1) .
  then show "pp_buffer p ! (unat (pp_b_read p mod PIPE_SIZE)) = v"
    by (simp add: unat_u32_mod PIPE_SIZE_def)
  have "pp_b_write p - pp_b_read p \<noteq> 0"
    using len by auto
  then have "unat ((pp_b_write p - pp_b_read p) - 1) = length C"
    using len unat_minus_one [of "pp_b_write p - pp_b_read p"] by linarith
  moreover have "pp_b_write p - (pp_b_read p + 1) = (pp_b_write p - pp_b_read p) - 1"
    by simp
  ultimately have less: "unat (pp_b_write p - (pp_b_read p + 1)) = length C"
    by presburger
  have "ring_list (pp_buffer p) (unat (pp_b_read p + 1)) (length C) = ring_list (pp_buffer p) (Suc (unat (pp_b_read p))) (length C)"
    using ring_list_mod_start [of "pp_buffer p" "unat (pp_b_read p + 1)" "length C"]
      ring_list_mod_start [of "pp_buffer p" "Suc (unat (pp_b_read p))" "length C"] n(1)
    by (simp add: unat_u32_plus_mod mod_mod_cancel)
  then show "pbuf (p\<lparr>pp_b_read := pp_b_read p + 1\<rparr>) C"
    using n(1,3) list.inject [THEN iffD1, OF rl] len less by (simp add: pbuf_def)
qed

text \<open>Two pipes that differ in their bytes and counters alone.\<close>

definition same_pipe :: "pipe_t \<Rightarrow> pipe_t \<Rightarrow> bool" where
  "same_pipe p q \<longleftrightarrow> pp_mutex q = pp_mutex p \<and> pp_size q = pp_size p \<and> pp_type q = pp_type p \<and>
     pp_read_open q = pp_read_open p \<and> pp_write_open q = pp_write_open p"

lemma same_pipe_trans: "same_pipe p q \<Longrightarrow> same_pipe q r \<Longrightarrow> same_pipe p r"
  by (simp add: same_pipe_def)

lemma same_pipe_refl [simp]: "same_pipe p p"
  by (simp add: same_pipe_def)

text \<open>The writer's loop stores bytes until all are stored or the pipe is full.\<close>

lemma pipe_unbuf_write_run:
  assumes "pbuf p C" "unat size' \<le> length addr" "i \<le> unat size'" "pp_read_open p"
  defines "j \<equiv> min (unat size') (i + (4096 - length C))"
  shows "\<exists>p'. pbuf p' (C @ take (j - i) (drop i addr)) \<and> same_pipe p p' \<and> pp_b_read p' = pp_b_read p \<and>
           pipe_unbuf_write p addr size' i sig =
             (if j = unat size' then Inr (p', addr, sig, Returned (sint size')) else pipe_wait p' addr (sig @ [B_READ]) j)"
  using assms(1,3,4) unfolding j_def
proof (induction "unat size' - i" arbitrary: p C i)
  case 0
  then show ?case
    by (intro exI [of _ p]) (simp add: pipe_unbuf_write.simps)
next
  case (Suc k)
  then have i: "i < unat size'" "i < length addr"
    using assms(2) by auto
  show ?case
  proof (cases "length C = 4096")
    case True
    then show ?thesis
      using Suc.prems i pbuf_full [OF Suc.prems(1)]
      by (intro exI [of _ p]) (simp add: pipe_unbuf_write.simps min_absorb2)
  next
    case False
    then have lt: "length C < 4096" and nfull: "pp_b_write p \<noteq> pp_b_read p + PIPE_SIZE"
      using pbuf_length [OF Suc.prems(1)] pbuf_full [OF Suc.prems(1)] by auto
    let ?q = "p\<lparr>pp_buffer := (pp_buffer p)[unat (pp_b_write p mod PIPE_SIZE) := addr ! i], pp_b_write := pp_b_write p + 1\<rparr>"
    have slot: "unat (pp_b_write p mod PIPE_SIZE) < length (pp_buffer p)"
      using Suc.prems(1) by (simp add: pbuf_def pbuf_slot)
    have step: "pipe_unbuf_write p addr size' i sig = pipe_unbuf_write ?q addr size' (Suc i) sig"
      using i nfull slot by (subst pipe_unbuf_write.simps) simp
    have same: "same_pipe p ?q" "pp_b_read ?q = pp_b_read p" "pp_read_open ?q"
      using Suc.prems(3) by (simp_all add: same_pipe_def)
    have bound: "min (unat size') (Suc i + (4096 - length (C @ [addr ! i]))) = min (unat size') (i + (4096 - length C))"
      using lt by simp
    have tail: "addr ! i # take (min (unat size') (i + (4096 - length C)) - Suc i) (drop (Suc i) addr) =
        take (min (unat size') (i + (4096 - length C)) - i) (drop i addr)"
    proof -
      have "min (unat size') (i + (4096 - length C)) - i = Suc (min (unat size') (i + (4096 - length C)) - Suc i)"
        using lt i by simp
      then show ?thesis
        unfolding Cons_nth_drop_Suc [OF i(2), symmetric] by (simp only: take_Suc_Cons)
    qed
    obtain p' where "pbuf p' ((C @ [addr ! i]) @ take (min (unat size') (i + (4096 - length C)) - Suc i) (drop (Suc i) addr))"
        "same_pipe ?q p'" "pp_b_read p' = pp_b_read ?q"
        "pipe_unbuf_write ?q addr size' (Suc i) sig = (if min (unat size') (i + (4096 - length C)) = unat size'
           then Inr (p', addr, sig, Returned (sint size')) else pipe_wait p' addr (sig @ [B_READ]) (min (unat size') (i + (4096 - length C))))"
      using Suc.hyps(1) [of "Suc i" ?q "C @ [addr ! i]"] Suc.hyps(2) i same pbuf_push [OF Suc.prems(1) lt] unfolding bound by fastforce
    then show ?thesis
      using step same tail same_pipe_trans by (intro exI [of _ p']) auto
  qed
qed

text \<open>The reader's loop takes the oldest bytes, as many as asked for and there are.\<close>

lemma pipe_unbuf_loop_run:
  assumes "pbuf p C" "pp_size p = PIPE_SIZE" "i \<le> unat size'"
  defines "k \<equiv> min (unat size' - i) (length C)"
  shows "\<exists>p'. pbuf p' (drop k C) \<and> same_pipe p p' \<and> pipe_unbuf_loop p size' i out = Inr (p', out @ take k C)"
  using assms(1-3) unfolding k_def
proof (induction C arbitrary: p i out)
  case Nil
  then show ?case
    using pbuf_empty [of p "[]"] by (intro exI [of _ p]) (simp add: pipe_unbuf_loop.simps)
next
  case (Cons v C)
  show ?case
  proof (cases "i < unat size'")
    case True
    let ?q = "p\<lparr>pp_b_read := pp_b_read p + 1\<rparr>"
    have get: "array_get (pp_buffer p) (unat (pp_b_read p mod pp_size p)) = Inr v" and "PIPE_SIZE \<noteq> 0"
      using Cons.prems(1,2) pbuf_pop(2) [OF Cons.prems(1)]
      by (simp_all add: array_get_def pbuf_def unat_u32_mod PIPE_SIZE_def)
    then have step: "pipe_unbuf_loop p size' i out = pipe_unbuf_loop ?q size' (Suc i) (out @ [v])"
      using True pbuf_empty [OF Cons.prems(1)] Cons.prems(2) by (subst pipe_unbuf_loop.simps) simp
    obtain p' where "pbuf p' (drop (min (unat size' - Suc i) (length C)) C)" "same_pipe ?q p'"
        "pipe_unbuf_loop ?q size' (Suc i) (out @ [v]) = Inr (p', (out @ [v]) @ take (min (unat size' - Suc i) (length C)) C)"
      using Cons.IH [OF pbuf_pop(1) [OF Cons.prems(1)], of "Suc i" "out @ [v]"] Cons.prems(2) True by auto
    moreover have "same_pipe p ?q"
      by (simp add: same_pipe_def)
    moreover have "min (unat size' - i) (length (v # C)) = Suc (min (unat size' - Suc i) (length C))"
      using True by simp
    ultimately show ?thesis
      using step same_pipe_trans by (intro exI [of _ p']) auto
  next
    case False
    then show ?thesis
      using Cons.prems by (intro exI [of _ p]) (simp add: pipe_unbuf_loop.simps)
  qed
qed

section \<open>Whole runs\<close>

definition pipe_ok :: "pipe_t \<Rightarrow> u8 list \<Rightarrow> bool" where
  "pipe_ok p C \<longleftrightarrow> pbuf p C \<and> lock_free (pp_mutex p) \<and> pp_size p = PIPE_SIZE \<and> pp_type p = PIPE_TYPE_UNBUFFERED \<and>
     pp_read_open p \<and> pp_write_open p"

lemma pbuf_mutex [simp]: "pbuf (p\<lparr>pp_mutex := m\<rparr>) C = pbuf p C"
  by (simp add: pbuf_def)

lemma pipe_ok_relock:
  assumes "pipe_ok p C" "same_pipe (p\<lparr>pp_mutex := m\<rparr>) q" "pbuf q D" "lock_free m'"
  shows "pipe_ok (q\<lparr>pp_mutex := m'\<rparr>) D"
  using assms by (simp add: pipe_ok_def same_pipe_def)

lemma pipe_write_run:
  assumes p: "pipe_ok p C" and "unat size' \<le> length addr" "(case start of None \<Rightarrow> 0 | Some i \<Rightarrow> i) \<le> unat size'"
  defines "i \<equiv> (case start of None \<Rightarrow> 0 | Some i \<Rightarrow> i)"
  defines "j \<equiv> min (unat size') (i + (4096 - length C))"
  shows "\<exists>p'. pipe_ok p' (C @ take (j - i) (drop i addr)) \<and> pp_b_read p' = pp_b_read p \<and>
     pipe_write p addr size' start = Inr (p', addr, [B_READ], if j = unat size' then Returned (sint size') else Waiting j)"
proof -
  let ?m = "pp_mutex p" and ?q = "p\<lparr>pp_mutex := (pp_mutex p)\<lparr>current_count := 1\<rparr>\<rparr>"
  have free: "lock_free ?m" and q: "pbuf ?q C" "pp_read_open ?q"
    using p by (simp_all add: pipe_ok_def)
  obtain p1 where p1: "pbuf p1 (C @ take (j - i) (drop i addr))" "same_pipe ?q p1" "pp_b_read p1 = pp_b_read ?q"
      "pipe_unbuf_write ?q addr size' i [] = (if j = unat size' then Inr (p1, addr, [], Returned (sint size')) else pipe_wait p1 addr ([] @ [B_READ]) j)"
    using pipe_unbuf_write_run [OF q(1) assms(2) _ q(2), of i "[]"] assms(3) unfolding j_def i_def by blast
  have rel: "lock_release (pp_mutex p1) = Inr ?m"
    using free p1(2) by (simp add: same_pipe_def lock_release_def lock_free_def)
  have ty: "pp_type p = PIPE_TYPE_UNBUFFERED"
    using p by (simp add: pipe_ok_def)
  have "pipe_write p addr size' start = Inr (p1\<lparr>pp_mutex := ?m\<rparr>, addr, [B_READ], if j = unat size' then Returned (sint size') else Waiting j)"
    using lock_acquire_free [OF free] p1(4) rel
    by (simp add: pipe_write_def Let_def ty i_def [symmetric] pipe_wait_def PIPE_TYPE_UNBUFFERED_def PIPE_TYPE_BUF_BLOCK_def)
  moreover have "pipe_ok (p1\<lparr>pp_mutex := ?m\<rparr>) (C @ take (j - i) (drop i addr))"
    by (rule pipe_ok_relock [OF p p1(2,1) free])
  ultimately show ?thesis
    using p1(3) by (intro exI [of _ "p1\<lparr>pp_mutex := ?m\<rparr>"]) simp
qed

lemma pipe_read_run:
  fixes size' :: u32
  assumes p: "pipe_ok p C" "resumed \<or> C \<noteq> []"
  defines "k \<equiv> min (unat size') (length C)"
  shows "\<exists>p'. pipe_ok p' (drop k C) \<and> pipe_read p size' resumed = Inr (p', take k C, [B_WRITE], Returned (int k))"
proof -
  let ?m = "pp_mutex p" and ?q = "p\<lparr>pp_mutex := (pp_mutex p)\<lparr>current_count := 1\<rparr>\<rparr>"
  have free: "lock_free ?m" and q: "pbuf ?q C" "pp_size ?q = PIPE_SIZE" and ty: "pp_type p = PIPE_TYPE_UNBUFFERED" "pp_write_open p"
    using p by (simp_all add: pipe_ok_def)
  obtain p1 where p1: "pbuf p1 (drop k C)" "same_pipe ?q p1" "pipe_unbuf_loop ?q size' 0 [] = Inr (p1, take k C)"
    using pipe_unbuf_loop_run [OF q, of 0 size' "[]"] unfolding k_def by auto
  have rel: "lock_release (pp_mutex p1) = Inr ?m"
    using free p1(2) by (simp add: same_pipe_def lock_release_def lock_free_def)
  have "resumed \<or> pp_b_read p \<noteq> pp_b_write p"
    using assms(2) pbuf_empty [of p C] p(1) by (auto simp: pipe_ok_def)
  then have "pipe_read p size' resumed = Inr (p1\<lparr>pp_mutex := ?m\<rparr>, take k C, [B_WRITE], Returned (int k))"
    using lock_acquire_free [OF free] p1(3) rel ty by (auto simp: pipe_read_def Let_def pipe_unbuf_read_def k_def)
  moreover have "pipe_ok (p1\<lparr>pp_mutex := ?m\<rparr>) (drop k C)"
    by (rule pipe_ok_relock [OF p(1) p1(2,1) free])
  ultimately show ?thesis
    by (intro exI [of _ "p1\<lparr>pp_mutex := ?m\<rparr>"]) simp
qed

lemma pipe_read_empty:
  assumes p: "pipe_ok p []"
  shows "pipe_read p size' False = Inr (p, [], [], Waiting 0)"
proof -
  have "lock_free (pp_mutex p)" "pp_type p = PIPE_TYPE_UNBUFFERED" "pp_write_open p" "pp_b_read p = pp_b_write p"
    using p pbuf_empty [of p "[]"] by (simp_all add: pipe_ok_def)
  then show ?thesis
    using lock_acquire_free [of "pp_mutex p"]
    by (simp add: pipe_read_def Let_def pipe_unbuf_read_def pipe_wait_def lock_release_def lock_free_def)
qed

section \<open>Readers and writers\<close>

text \<open>
  Tasks that use one pipe.  The mutex makes a run of an operation, up to its return or its wait,
  one step; a signal makes every task that waits for that condition ready, and a ready task may go
  on at any time.  The state also records the bytes stored into the pipe and the bytes handed to
  readers so far.
\<close>

datatype ptask = Idle | Write_wait "u8 list" u32 nat | Write_ready "u8 list" u32 nat | Read_wait u32 | Read_ready u32

fun wake :: "pcond list \<Rightarrow> ptask \<Rightarrow> ptask" where
  "wake sig (Read_wait n) = (if B_READ \<in> set sig then Read_ready n else Read_wait n)"
| "wake sig (Write_wait a n i) = (if B_WRITE \<in> set sig then Write_ready a n i else Write_wait a n i)"
| "wake sig Idle = Idle"
| "wake sig (Write_ready a n i) = Write_ready a n i"
| "wake sig (Read_ready n) = Read_ready n"

record psys =
  ps_pipe :: pipe_t
  ps_tasks :: "nat \<Rightarrow> ptask"
  ps_sent :: "u8 list"
  ps_got :: "u8 list"

definition after :: "psys \<Rightarrow> nat \<Rightarrow> pcond list \<Rightarrow> ptask \<Rightarrow> nat \<Rightarrow> ptask" where
  "after s t sig st = (\<lambda>u. if u = t then st else wake sig (ps_tasks s u))"

definition write_start :: "ptask \<Rightarrow> u8 list \<Rightarrow> u32 \<Rightarrow> nat option \<Rightarrow> bool" where
  "write_start st a n start \<longleftrightarrow> unat n \<le> length a \<and>
     (st = Idle \<and> start = None \<or> (\<exists>i. st = Write_ready a n i \<and> start = Some i))"

definition read_start :: "ptask \<Rightarrow> u32 \<Rightarrow> bool \<Rightarrow> bool" where
  "read_start st n resumed \<longleftrightarrow> st = (if resumed then Read_ready n else Idle)"

inductive pstep :: "psys \<Rightarrow> psys \<Rightarrow> bool" where
  do_write: "write_start (ps_tasks s t) a n start \<Longrightarrow> pipe_write (ps_pipe s) a n start = Inr (p, a', sig, out) \<Longrightarrow>
    pstep s (s\<lparr>ps_pipe := p,
      ps_tasks := after s t sig (case out of Returned _ \<Rightarrow> Idle | Waiting i \<Rightarrow> Write_wait a n i),
      ps_sent := ps_sent s @ take (unat (pp_b_write p - pp_b_write (ps_pipe s))) (drop (case start of None \<Rightarrow> 0 | Some i \<Rightarrow> i) a)\<rparr>)"
| do_read: "read_start (ps_tasks s t) n resumed \<Longrightarrow> pipe_read (ps_pipe s) n resumed = Inr (p, bytes, sig, out) \<Longrightarrow>
    pstep s (s\<lparr>ps_pipe := p,
      ps_tasks := after s t sig (case out of Returned _ \<Rightarrow> Idle | Waiting _ \<Rightarrow> Read_wait n),
      ps_got := ps_got s @ bytes\<rparr>)"

lemma pstep_read_returned:
  "read_start (ps_tasks s t) n resumed \<Longrightarrow> pipe_read (ps_pipe s) n resumed = Inr (p, bytes, sig, Returned r) \<Longrightarrow>
    pstep s (s\<lparr>ps_pipe := p, ps_tasks := after s t sig Idle, ps_got := ps_got s @ bytes\<rparr>)"
  using pstep.do_read [of s t n resumed p bytes sig "Returned r"] by simp

lemma pstep_read_waits:
  "read_start (ps_tasks s t) n resumed \<Longrightarrow> pipe_read (ps_pipe s) n resumed = Inr (p, bytes, sig, Waiting i) \<Longrightarrow>
    pstep s (s\<lparr>ps_pipe := p, ps_tasks := after s t sig (Read_wait n), ps_got := ps_got s @ bytes\<rparr>)"
  using pstep.do_read [of s t n resumed p bytes sig "Waiting i"] by simp

definition psys_new :: "pipe_t \<Rightarrow> psys" where
  "psys_new p = \<lparr>ps_pipe = p, ps_tasks = (\<lambda>_. Idle), ps_sent = [], ps_got = []\<rparr>"

definition task_ok :: "u8 list \<Rightarrow> ptask \<Rightarrow> bool" where
  "task_ok C st \<longleftrightarrow> (case st of Idle \<Rightarrow> True | Write_wait a n i \<Rightarrow> i < unat n \<and> unat n \<le> length a \<and> length C = 4096
     | Write_ready a n i \<Rightarrow> i < unat n \<and> unat n \<le> length a | Read_wait n \<Rightarrow> C = [] | Read_ready n \<Rightarrow> True)"

definition psys_inv :: "psys \<Rightarrow> bool" where
  "psys_inv s \<longleftrightarrow> (\<exists>C. pipe_ok (ps_pipe s) C \<and> ps_sent s = ps_got s @ C \<and> (\<forall>t. task_ok C (ps_tasks s t)))"

lemma task_ok_wake_read: "task_ok C st \<Longrightarrow> length C \<le> length D \<Longrightarrow> length D \<le> 4096 \<Longrightarrow> task_ok D (wake [B_READ] st)"
  by (cases st) (auto simp: task_ok_def)

lemma task_ok_wake_write: "task_ok C st \<Longrightarrow> C = [] \<longrightarrow> D = [] \<Longrightarrow> task_ok D (wake [B_WRITE] st)"
  by (cases st) (auto simp: task_ok_def)

lemma pstep_write_inv:
  assumes inv: "psys_inv s" and start: "write_start (ps_tasks s t) a n start"
    and run: "pipe_write (ps_pipe s) a n start = Inr (p, a', sig, out)"
  shows "psys_inv (s\<lparr>ps_pipe := p, ps_tasks := after s t sig (case out of Returned _ \<Rightarrow> Idle | Waiting i \<Rightarrow> Write_wait a n i),
      ps_sent := ps_sent s @ take (unat (pp_b_write p - pp_b_write (ps_pipe s))) (drop (case start of None \<Rightarrow> 0 | Some i \<Rightarrow> i) a)\<rparr>)"
proof -
  obtain C where C: "pipe_ok (ps_pipe s) C" "ps_sent s = ps_got s @ C" "\<And>u. task_ok C (ps_tasks s u)"
    using inv by (auto simp: psys_inv_def)
  define i where "i = (case start of None \<Rightarrow> 0 | Some i \<Rightarrow> i)"
  define j where "j = min (unat n) (i + (4096 - length C))"
  have i: "i \<le> unat n" "unat n \<le> length a"
    using start C(3) [of t] by (auto simp: write_start_def i_def task_ok_def)
  obtain p' where p': "pipe_ok p' (C @ take (j - i) (drop i a))" "pp_b_read p' = pp_b_read (ps_pipe s)"
      "pipe_write (ps_pipe s) a n start = Inr (p', a, [B_READ], if j = unat n then Returned (sint n) else Waiting j)"
    using pipe_write_run [OF C(1) i(2), of start] i unfolding j_def i_def by blast
  then have eq: "p = p'" "sig = [B_READ]" "out = (if j = unat n then Returned (sint n) else Waiting j)"
    using run by auto
  have len: "length C \<le> 4096" "length C = unat (pp_b_write (ps_pipe s) - pp_b_read (ps_pipe s))"
      "length (C @ take (j - i) (drop i a)) = unat (pp_b_write p' - pp_b_read p')" "length (C @ take (j - i) (drop i a)) \<le> 4096"
    using pbuf_length C(1) p'(1) by (auto simp: pipe_ok_def dest!: pbuf_length)
  have stored: "take (unat (pp_b_write p - pp_b_write (ps_pipe s))) (drop i a) = take (j - i) (drop i a)"
  proof -
    have "pp_b_write p' - pp_b_write (ps_pipe s) = (pp_b_write p' - pp_b_read p') - (pp_b_write (ps_pipe s) - pp_b_read (ps_pipe s))"
      using p'(2) by simp
    moreover have "unat ((pp_b_write p' - pp_b_read p') - (pp_b_write (ps_pipe s) - pp_b_read (ps_pipe s))) =
        unat (pp_b_write p' - pp_b_read p') - unat (pp_b_write (ps_pipe s) - pp_b_read (ps_pipe s))"
      using len by (intro unat_sub) (simp add: word_le_nat_alt)
    ultimately have "unat (pp_b_write p' - pp_b_write (ps_pipe s)) = j - i"
      using len i by (simp add: j_def)
    then show ?thesis
      using eq(1) by simp
  qed
  let ?D = "C @ take (j - i) (drop i a)"
  have "task_ok ?D (after s t sig (case out of Returned _ \<Rightarrow> Idle | Waiting i \<Rightarrow> Write_wait a n i) u)" for u
  proof (cases "u = t")
    case True
    then show ?thesis
      using eq(3) i len by (auto simp: after_def task_ok_def j_def)
  next
    case False
    then show ?thesis
      using task_ok_wake_read [OF C(3) _ len(4)] eq(2) by (simp add: after_def)
  qed
  then show ?thesis
    using p'(1) C(2) eq(1) stored unfolding psys_inv_def i_def by (intro exI [of _ ?D]) (simp add: i_def)
qed

lemma pstep_read_inv:
  assumes inv: "psys_inv s" and start: "read_start (ps_tasks s t) n resumed"
    and run: "pipe_read (ps_pipe s) n resumed = Inr (p, bytes, sig, out)"
  shows "psys_inv (s\<lparr>ps_pipe := p, ps_tasks := after s t sig (case out of Returned _ \<Rightarrow> Idle | Waiting _ \<Rightarrow> Read_wait n),
      ps_got := ps_got s @ bytes\<rparr>)"
proof -
  obtain C where C: "pipe_ok (ps_pipe s) C" "ps_sent s = ps_got s @ C" "\<And>u. task_ok C (ps_tasks s u)"
    using inv by (auto simp: psys_inv_def)
  show ?thesis
  proof (cases "resumed \<or> C \<noteq> []")
    case True
    define k where "k = min (unat n) (length C)"
    obtain p' where p': "pipe_ok p' (drop k C)" "pipe_read (ps_pipe s) n resumed = Inr (p', take k C, [B_WRITE], Returned (int k))"
      using pipe_read_run [OF C(1) True, of n] unfolding k_def by blast
    have "task_ok (drop k C) (after s t [B_WRITE] Idle u)" for u
      using task_ok_wake_write [OF C(3)] by (auto simp: after_def task_ok_def)
    then show ?thesis
      using p' run C(2) unfolding psys_inv_def by (intro exI [of _ "drop k C"]) auto
  next
    case False
    have "wake [] st = st" for st
      by (cases st) auto
    then have "task_ok [] (after s t [] (Read_wait n) u)" for u
      using C(3) False by (auto simp: after_def task_ok_def)
    then show ?thesis
      using run pipe_read_empty [of "ps_pipe s" n] C False unfolding psys_inv_def by auto
  qed
qed

lemma pstep_inv: "pstep s s' \<Longrightarrow> psys_inv s \<Longrightarrow> psys_inv s'"
  by (cases s s' rule: pstep.cases) (simp_all add: pstep_write_inv pstep_read_inv)

lemma psteps_inv: "pstep\<^sup>*\<^sup>* s s' \<Longrightarrow> psys_inv s \<Longrightarrow> psys_inv s'"
  by (induction rule: rtranclp_induct) (auto intro: pstep_inv)

lemma psys_new_inv: "length mem = 4096 \<Longrightarrow> psys_inv (psys_new (pipe_new PIPE_SIZE PIPE_TYPE_UNBUFFERED mem))"
  unfolding psys_inv_def
  by (intro exI [of _ "[]"]) (simp add: psys_new_def pipe_new_def pipe_ok_def pbuf_def task_ok_def PIPE_SIZE_def PIPE_TYPE_UNBUFFERED_def)




text \<open>A run: three bytes are written, two are read, a second reader asks for more than there is and
  gets the last one, and a third reader waits.\<close>

definition pipe_zero :: pipe_t where
  "pipe_zero = pipe_new PIPE_SIZE PIPE_TYPE_UNBUFFERED (replicate 4096 0)"

lemma pipe_demo:
  "\<exists>s. pstep\<^sup>*\<^sup>* (psys_new pipe_zero) s \<and> ps_sent s = [1, 2, 3] \<and> ps_got s = [1, 2, 3] \<and> ps_tasks s 0 = Read_wait 5 \<and> ps_tasks s 1 = Idle"
proof -
  have ok0: "pipe_ok pipe_zero []"
    by (simp add: pipe_zero_def pipe_new_def pipe_ok_def pbuf_def PIPE_SIZE_def PIPE_TYPE_UNBUFFERED_def)
  obtain p1 where p1: "pipe_ok p1 [1, 2, 3]" "pp_b_read p1 = 0" "pipe_write pipe_zero [1, 2, 3] 3 None = Inr (p1, [1, 2, 3], [B_READ], Returned 3)"
    using pipe_write_run [OF ok0, of 3 "[1, 2, 3]" None] by (auto simp: pipe_zero_def pipe_new_def)
  then obtain p2 where p2: "pipe_ok p2 [3]" "pipe_read p1 2 False = Inr (p2, [1, 2], [B_WRITE], Returned 2)"
    using pipe_read_run [OF p1(1), of False 2] by auto
  then obtain p3 where p3: "pipe_ok p3 []" "pipe_read p2 5 False = Inr (p3, [3], [B_WRITE], Returned 1)"
    using pipe_read_run [OF p2(1), of False 5] by auto
  have stored: "pp_b_write p1 - pp_b_write pipe_zero = 3"
  proof -
    have "unat (pp_b_write p1) = 3"
      using p1(1,2) pbuf_length [of p1 "[1, 2, 3]"] by (simp add: pipe_ok_def)
    then show ?thesis
      by (simp add: pipe_zero_def pipe_new_def word_unat_eq_iff)
  qed
  let ?s0 = "psys_new pipe_zero"
  let ?s1 = "?s0\<lparr>ps_pipe := p1, ps_tasks := after ?s0 0 [B_READ] Idle, ps_sent := [1, 2, 3]\<rparr>"
  let ?s2 = "?s1\<lparr>ps_pipe := p2, ps_tasks := after ?s1 0 [B_WRITE] Idle, ps_got := ps_got ?s1 @ [1, 2]\<rparr>"
  let ?s3 = "?s2\<lparr>ps_pipe := p3, ps_tasks := after ?s2 0 [B_WRITE] Idle, ps_got := ps_got ?s2 @ [3]\<rparr>"
  let ?s4 = "?s3\<lparr>ps_pipe := p3, ps_tasks := after ?s3 0 [] (Read_wait 5), ps_got := ps_got ?s3 @ []\<rparr>"
  have "pstep ?s0 ?s1"
    using pstep.do_write [of ?s0 0 "[1, 2, 3]" 3 None p1] p1(3) stored by (simp add: psys_new_def write_start_def)
  moreover have "pstep ?s1 ?s2"
    by (rule pstep_read_returned [of _ _ 2 False]) (simp_all add: read_start_def after_def p2(2))
  moreover have "pstep ?s2 ?s3"
    by (rule pstep_read_returned [of _ _ 5 False]) (simp_all add: read_start_def after_def p3(2))
  moreover have "pstep ?s3 ?s4"
    by (rule pstep_read_waits [of _ _ 5 False]) (simp_all add: read_start_def after_def pipe_read_empty [OF p3(1)])
  ultimately have "pstep\<^sup>*\<^sup>* ?s0 ?s4"
    by (meson rtranclp.rtrancl_into_rtrancl rtranclp.rtrancl_refl)
  moreover have "ps_sent ?s4 = [1, 2, 3]" "ps_got ?s4 = [1, 2, 3]" "ps_tasks ?s4 0 = Read_wait 5" "ps_tasks ?s4 1 = Idle"
    by (simp_all add: after_def psys_new_def)
  ultimately show ?thesis
    by blast
qed




section \<open>Smaller pipes, and closing\<close>

lemma pipe_small_loop:
  assumes "pp_b_read p = 0" "pp_b_write p = of_nat i" "length (pp_buffer p) = L" "L < 4096" "i \<le> L" "L < unat n" "unat n \<le> length a"
  shows "pipe_unbuf_write p a n i sig = Inl BadAccess"
  using assms
proof (induction "L - i" arbitrary: p i)
  case 0
  then have "unat (of_nat i mod PIPE_SIZE :: u32) = L" "(of_nat i :: u32) \<noteq> PIPE_SIZE"
    by (simp_all add: unat_u32_mod unat_u32_of_nat PIPE_SIZE_def word_unat_eq_iff)
  then show ?case
    using 0 by (subst pipe_unbuf_write.simps) simp
next
  case (Suc k)
  then have "unat (of_nat i mod PIPE_SIZE :: u32) = i" "(of_nat i :: u32) \<noteq> PIPE_SIZE"
    by (simp_all add: unat_u32_mod unat_u32_of_nat PIPE_SIZE_def word_unat_eq_iff)
  then have "pipe_unbuf_write p a n i sig = pipe_unbuf_write (p\<lparr>pp_buffer := (pp_buffer p)[i := a ! i], pp_b_write := pp_b_write p + 1\<rparr>) a n (Suc i) sig"
    using Suc by (subst pipe_unbuf_write.simps) simp
  also have "\<dots> = Inl BadAccess"
    using Suc.hyps(2) Suc.prems by (intro Suc.hyps(1)) auto
  finally show ?case .
qed

text \<open>Fact [pipe_user_overrun]: the pipes that the system call creates have room for 1024 bytes, but the writer
  wraps at 4096: writing more than 1024 bytes stores past the end of the buffer.\<close>

theorem pipe_user_overrun:
  assumes "length mem = 1024" "1024 < unat n" "unat n \<le> length a"
  shows "pipe_write (pipe_new 1024 PIPE_TYPE_UNBUFFERED mem) a n None = Inl BadAccess"
proof -
  have "pipe_unbuf_write (pipe_new 1024 PIPE_TYPE_UNBUFFERED mem\<lparr>pp_mutex := mutex_create\<lparr>current_count := 1\<rparr>\<rparr>) a n 0 [] = Inl BadAccess"
    using assms by (intro pipe_small_loop [where L = 1024]) (simp_all add: pipe_new_def)
  then show ?thesis
    using lock_acquire_free [OF lock_free_create] by (simp add: pipe_write_def Let_def pipe_new_def PIPE_TYPE_UNBUFFERED_def)
qed

theorem pipe_user_overrun_witness:
  "pipe_write (pipe_new 1024 PIPE_TYPE_UNBUFFERED (replicate 1024 0)) (replicate 2000 7) 2000 None = Inl BadAccess"
  by (rule pipe_user_overrun) simp_all

text \<open>Fact [pipe_closed_reader_blocks_pipe]: a write to a full pipe whose reader is gone answers -1 but gives the mutex back
  twice, so its counter wraps around and every later operation on the pipe, the close included, waits
  for ever.\<close>

theorem pipe_closed_reader_blocks_pipe:
  assumes "pbuf p C" "length C = 4096" "lock_free (pp_mutex p)" "\<not> pp_read_open p" "pp_type p = PIPE_TYPE_UNBUFFERED" "0 < unat n"
  shows "\<exists>p'. pipe_write p a n None = Inr (p', a, [B_READ], Returned (-1)) \<and>
           pipe_write p' a' n' None = Inl Hang \<and> pipe_close m k q p' True = Inl Hang"
proof -
  let ?p = "p\<lparr>pp_mutex := (pp_mutex p)\<lparr>current_count := 1\<rparr>\<rparr>"
  have "pipe_unbuf_write ?p a n 0 [] = Inr (?p\<lparr>pp_mutex := pp_mutex p\<rparr>, a, [], Returned (-1))"
    using assms pbuf_full [OF assms(1)] by (subst pipe_unbuf_write.simps) (simp add: lock_release_def lock_free_def)
  then have "pipe_write p a n None = Inr (p\<lparr>pp_mutex := (pp_mutex p)\<lparr>current_count := -1\<rparr>\<rparr>, a, [B_READ], Returned (-1))"
    using assms(3,5) lock_acquire_free [OF assms(3)]
    by (simp add: pipe_write_def Let_def PIPE_TYPE_UNBUFFERED_def PIPE_TYPE_BUF_BLOCK_def lock_release_def lock_free_def)
  moreover have "lock_acquire ((pp_mutex p)\<lparr>current_count := -1\<rparr>) = Inl Hang"
    using assms(3) by (simp add: lock_acquire_def lock_free_def word_less_nat_alt unat_u32_minus_1)
  ultimately show ?thesis
    by (simp add: pipe_write_def pipe_close_def)
qed

definition pipe_full :: pipe_t where
  "pipe_full = pipe_zero\<lparr>pp_b_write := PIPE_SIZE, pp_read_open := False\<rparr>"

theorem pipe_closed_reader_blocks_pipe_witness:
  "\<exists>p'. pipe_write pipe_full [7] 1 None = Inr (p', [7], [B_READ], Returned (-1)) \<and> pipe_write p' [7] 1 None = Inl Hang"
proof -
  have "pbuf pipe_full (ring_list (replicate 4096 0) 0 4096)"
    by (simp add: pbuf_def pipe_full_def pipe_zero_def pipe_new_def PIPE_SIZE_def)
  then show ?thesis
    using pipe_closed_reader_blocks_pipe [of pipe_full "ring_list (replicate 4096 0) 0 4096" 1 "[7]" "[7]" 1 0
        "\<lparr>ks_sched = sched_sample, ks_condvar = (\<lambda>_. None), ks_condvars = NULL\<rparr>" 0]
    by (auto simp: pipe_full_def pipe_zero_def pipe_new_def PIPE_TYPE_UNBUFFERED_def)
qed

text \<open>Fact [pipe_close_aborts]: closing both ends of a pipe on which nobody ever waited aborts the kernel: its
  condition variables do not exist and freeing them is treated as an error.\<close>

theorem pipe_close_aborts:
  assumes "lock_free (pp_mutex p)" "\<not> pp_read_open p" "condvar_find n k (q + 8) (ks_condvars k) = Inr None"
  shows "pipe_close n k q p True = Inl Abort"
  using assms lock_acquire_free [OF assms(1)]
  by (simp add: pipe_close_def Let_def lock_release_def lock_free_def condvar_free_def)

theorem pipe_close_aborts_witness:
  "pipe_close 1 \<lparr>ks_sched = sched_sample, ks_condvar = (\<lambda>_. None), ks_condvars = NULL\<rparr> 0x100 pipe_full True = Inl Abort"
  by (rule pipe_close_aborts) (simp_all add: pipe_full_def pipe_zero_def pipe_new_def)

section \<open>Pipes and descriptors\<close>

text \<open>Fact [syscall_close_dup]: closing a descriptor made by \<open>dup\<close> gives back the descriptors and the file table as they
  were before the \<open>dup\<close>.\<close>

theorem syscall_close_dup:
  assumes inv: "file_inv t L" and fs: "length fs = OPEN_FILES_COUNT" "i < OPEN_FILES_COUNT" "fs ! i = p" "NULL \<in> set fs"
    and f: "fh_files t p = Some f" "fi_ref_count f \<noteq> 0" "fi_ref_count f + 1 \<noteq> 0"
  shows "\<exists>fd fs' t'. syscall_dup t fs (int i) = Inr (fd, fs', t') \<and> 0 \<le> fd \<and> syscall_close call t' fs' fd = Inr (1, fs, t)"
proof -
  let ?j = "LEAST j. fs ! j = NULL" and ?t = "t\<lparr>fh_files := (fh_files t)(p \<mapsto> f\<lparr>fi_ref_count := fi_ref_count f + 1\<rparr>)\<rparr>"
  obtain j where j: "j < length fs" "fs ! j = NULL"
    using fs(4) by (auto simp: in_set_conv_nth)
  then have least: "?j < length fs" "fs ! ?j = NULL"
    using Least_le [of "\<lambda>j. fs ! j = NULL" j] LeastI [of "\<lambda>j. fs ! j = NULL" j] by auto
  have free: "lock_free (fh_mutex t)"
    using inv by (simp add: file_inv_def)
  have "syscall_dup t fs (int i) = Inr (int ?j, fs[?j := p], ?t)"
    using fd_alloc_from_spec [OF free f(1), of 0 OPEN_FILES_COUNT fs] fs j
    by (auto simp: syscall_dup_def fd_alloc_def Let_def)
  moreover have "file_close call ?t p = Inr t"
    using f free by (simp add: file_close_def file_lock_free file_upd_def file_get_def file_unlock_held [OF _ free]
        fun_upd_idem word_greater_zero_iff)
  then have "syscall_close call ?t (fs[?j := p]) (int ?j) = Inr (1, fs, t)"
    using least by (simp add: syscall_close_def) (metis list_update_id)
  ultimately show ?thesis
    by fastforce
qed

theorem syscall_close_dup_witness:
  "\<exists>fd fs' t'. syscall_dup file_sample (0x10 # replicate 15 0) (int 0) = Inr (fd, fs', t') \<and>
     syscall_close (\<lambda>_ _ t. Inr t) t' fs' fd = Inr (1, 0x10 # replicate 15 0, file_sample)"
  using syscall_close_dup [OF file_sample_inv, of "0x10 # replicate 15 0" 0 "0x10"
      "file_zero\<lparr>fi_ref_count := 1, fi_close := Fn_pipe_close, fi_next := 0x30\<rparr>" "\<lambda>_ _ t. Inr t"]
  by (fastforce simp: file_sample_def file_zero_def OPEN_FILES_COUNT_def)

end
