(* ===== verification/Printf.thy ===== *)
theory Printf
  imports LibcString
begin

text \<open>
  Formatted output, \<open>libc-src/stdio/printf.c\<close>, \<open>putchar.c\<close> and \<open>puts.c\<close>.  A format is the list of its
  bytes before the terminator and \<open>format++\<close> drops the first; the variable arguments are a list.  The
  terminal and the serial port are the bytes sent to them.

  Shown here: for every format made of ordinary characters and the conversions c, s, d and x the output is the text
  that the format describes and the result its length; what the alternate form and a doubled percent sign
  do instead of what they should.
\<close>

section \<open>Characters\<close>

definition TERMINAL_OUT :: int where "TERMINAL_OUT = 0"
definition SERIALPORT_OUT :: int where "SERIALPORT_OUT = 1"

record stdout =
  so_mode :: int
  so_terminal :: "u8 list"
  so_serial :: "u8 list"

definition setoutput :: "int \<Rightarrow> stdout \<Rightarrow> stdout" where
  "setoutput mode s = s\<lparr>so_mode := mode\<rparr>"

definition getoutput :: "stdout \<Rightarrow> int" where
  "getoutput s = so_mode s"

definition putchar :: "int \<Rightarrow> stdout \<Rightarrow> int \<times> stdout" where
  "putchar ic s =
     (ic, if so_mode s = TERMINAL_OUT then s\<lparr>so_terminal := so_terminal s @ [word_of_int ic]\<rparr>
          else if so_mode s = SERIALPORT_OUT then s\<lparr>so_serial := so_serial s @ [word_of_int ic]\<rparr>
          else s)"

definition EOF :: int where "EOF = -1"
definition INT_MAX :: int where "INT_MAX = 2147483647"

section \<open>printf\<close>

abbreviation "percent \<equiv> (0x25 :: u8)"

definition ALTERNATE_FORM :: nat where "ALTERNATE_FORM = 0"
definition ZERO_PADDED :: nat where "ZERO_PADDED = 1"

datatype va = Va_int u32 | Va_str "u8 list"

text \<open>The local state of a call: the output, the number of characters written and the arguments left.\<close>

record pf =
  pf_out :: stdout
  pf_written :: int
  pf_args :: "va list"

fun print :: "u8 list \<Rightarrow> stdout \<Rightarrow> bool \<times> stdout" where
  "print [] s = (True, s)"
| "print (c # cs) s = (let (r, s) = putchar (uint c) s in if r = EOF then (False, s) else print cs s)"

definition emit :: "u8 list \<Rightarrow> pf \<Rightarrow> int \<times> pf" where
  "emit data st =
     (let (ok, s) = print data (pf_out st); st = st\<lparr>pf_out := s\<rparr> in
      if \<not> ok then (1, st) else (0, st\<lparr>pf_written := pf_written st + int (length data)\<rparr>))"

text \<open>For a percent sign the pointer to the format, not the format, is advanced.\<close>

definition no_format_case :: "u8 list \<Rightarrow> nat \<Rightarrow> pf \<Rightarrow> (int \<times> u8 list \<times> pf) res" where
  "no_format_case format maxrem st =
     (if hd format = percent then Inl BadAccess
      else
        let amount = Suc (length (takeWhile (\<lambda>c. c \<noteq> percent) (tl format))) in
        if maxrem < amount then Inr (1, format, st)
        else
          let (ret, st) = emit (take amount format) st in
          if ret = 1 then Inr (1, format, st) else Inr (0, drop amount format, st))"

definition c_format_case :: "u8 list \<Rightarrow> u8 \<Rightarrow> nat \<Rightarrow> pf \<Rightarrow> int \<times> u8 list \<times> pf" where
  "c_format_case format c maxrem st =
     (let format = tl format in
      if maxrem = 0 then (1, format, st) else let (ret, st) = emit [c] st in (ret, format, st))"

definition s_format_case :: "u8 list \<Rightarrow> u8 list \<Rightarrow> nat \<Rightarrow> pf \<Rightarrow> int \<times> u8 list \<times> pf" where
  "s_format_case format str maxrem st =
     (let format = tl format in
      if maxrem < length str then (1, format, st) else let (ret, st) = emit str st in (ret, format, st))"

text \<open>\<open>buffer\<close> is what the 30 bytes on the stack hold.\<close>

definition num_format_case :: "u8 list \<Rightarrow> u8 list \<Rightarrow> u32 \<Rightarrow> nat \<Rightarrow> pf \<Rightarrow> u32 \<Rightarrow> u8 \<Rightarrow> (int \<times> u8 list \<times> pf) res" where
  "num_format_case buffer format value maxrem st base flags =
     (let format = tl format;
          prefix = (if base = 16 \<and> bit flags ALTERNATE_FORM then [0x30, 0x78] else []) in
      rbind (uitoa value (drop (length prefix) buffer) base) (\<lambda>(len, digits).
      let buffer = prefix @ digits in
      if maxrem < len then Inr (1, format, st)
      else let (ret, st) = emit (take len buffer) st in Inr (ret, format, st)))"

fun skip_flags :: "u8 list \<Rightarrow> u8 \<Rightarrow> u8 list \<times> u8" where
  "skip_flags [] flags = ([], flags)"
| "skip_flags (c # format) flags =
     (if c = 0x30 then skip_flags format (flags OR push_bit ZERO_PADDED 1)
      else if c = 0x23 then skip_flags format (flags OR push_bit ALTERNATE_FORM 1)
      else (c # format, flags))"

fun va_int :: "pf \<Rightarrow> (u32 \<times> pf) res" where
  "va_int st = (case pf_args st of Va_int v # args \<Rightarrow> Inr (v, st\<lparr>pf_args := args\<rparr>) | _ \<Rightarrow> Inl BadAccess)"

fun va_str :: "pf \<Rightarrow> (u8 list \<times> pf) res" where
  "va_str st = (case pf_args st of Va_str s # args \<Rightarrow> Inr (s, st\<lparr>pf_args := args\<rparr>) | _ \<Rightarrow> Inl BadAccess)"

text \<open>One conversion: the switch on the character after the flags.  \<open>begun\<close> is the format from the
  percent sign on.\<close>

definition conversion :: "u8 list \<Rightarrow> u8 list \<Rightarrow> u8 list \<Rightarrow> u8 \<Rightarrow> nat \<Rightarrow> pf \<Rightarrow> (int \<times> u8 list \<times> pf) res" where
  "conversion buffer begun format flags maxrem st =
     (if format \<noteq> [] \<and> hd format = 0x63 then
        rbind (va_int st) (\<lambda>(v, st). Inr (c_format_case format (ucast v) maxrem st))
      else if format \<noteq> [] \<and> hd format = 0x73 then
        rbind (va_str st) (\<lambda>(s, st). Inr (s_format_case format s maxrem st))
      else if format \<noteq> [] \<and> hd format = 0x64 then
        rbind (va_int st) (\<lambda>(v, st). num_format_case buffer format v maxrem st 10 flags)
      else if format \<noteq> [] \<and> hd format = 0x78 then
        rbind (va_int st) (\<lambda>(v, st). num_format_case buffer format v maxrem st 16 flags)
      else if maxrem < length begun then Inr (1, begun, st)
      else let (ret, st) = emit begun st in Inr (ret, [], st))"

lemma no_format_shorter: "no_format_case format maxrem st = Inr (0, format', st') \<Longrightarrow> format \<noteq> [] \<Longrightarrow> length format' < length format"
  by (auto simp: no_format_case_def Let_def split: if_splits prod.splits)

lemma skip_flags_length: "length (fst (skip_flags format flags)) \<le> length format"
  by (induction format flags rule: skip_flags.induct) auto

lemma conversion_shorter:
  assumes "conversion buffer (percent # f) (fst (skip_flags f 0)) flags maxrem st = Inr (r, f', st')"
  shows "r \<noteq> 1 \<Longrightarrow> length f' < Suc (length f)"
  using assms skip_flags_length [of f 0]
  by (auto simp: conversion_def c_format_case_def s_format_case_def num_format_case_def Let_def rbind_eq_Inr
      split: if_splits prod.splits)

function vprintf :: "u8 list \<Rightarrow> u8 list \<Rightarrow> pf \<Rightarrow> (int \<times> pf) res" where
  "vprintf buffer [] st = Inr (pf_written st, st)"
| "vprintf buffer (c # f) st =
     (let maxrem = nat (INT_MAX - pf_written st) in
      if c \<noteq> percent \<or> f \<noteq> [] \<and> hd f = percent then
        rbind (no_format_case (c # f) maxrem st) (\<lambda>(ret, format, st).
          if ret \<noteq> 0 then Inr (-1, st) else vprintf buffer format st)
      else
        rbind (conversion buffer (percent # f) (fst (skip_flags f 0)) (snd (skip_flags f 0)) maxrem st) (\<lambda>(ret, format, st).
          if ret = 1 then Inr (-1, st) else vprintf buffer format st))"
  by pat_completeness auto

termination
proof (relation "measure (\<lambda>(_, f, _). length f)", goal_cases)
  case (2 buffer c f st maxrem x)
  then show ?case
    using no_format_shorter [of "c # f" maxrem st] by (cases x) auto
next
  case (3 buffer c f st maxrem x)
  then show ?case
    using conversion_shorter by (cases x) auto
qed simp

declare vprintf.simps [simp del]

definition printf :: "u8 list \<Rightarrow> u8 list \<Rightarrow> va list \<Rightarrow> stdout \<Rightarrow> (int \<times> stdout) res" where
  "printf buffer format args s =
     rbind (vprintf buffer format \<lparr>pf_out = setoutput TERMINAL_OUT s, pf_written = 0, pf_args = args\<rparr>) (\<lambda>(ret, st).
       Inr (ret, pf_out st))"

definition kprintf :: "u8 list \<Rightarrow> u8 list \<Rightarrow> va list \<Rightarrow> stdout \<Rightarrow> (int \<times> stdout) res" where
  "kprintf buffer format args s =
     rbind (vprintf buffer format \<lparr>pf_out = setoutput SERIALPORT_OUT s, pf_written = 0, pf_args = args\<rparr>) (\<lambda>(ret, st).
       Inr (ret, setoutput TERMINAL_OUT (pf_out st)))"

definition puts :: "u8 list \<Rightarrow> u8 list \<Rightarrow> stdout \<Rightarrow> (int \<times> stdout) res" where
  "puts buffer str s = printf buffer [percent, 0x73, 0xA] [Va_str str] s"

section \<open>What a format describes\<close>

datatype piece = Lit u8 | Chr u32 | Str "u8 list" | Dec u32 | Hex u32

fun fmt_of :: "piece \<Rightarrow> u8 list" where
  "fmt_of (Lit c) = [c]"
| "fmt_of (Chr v) = [percent, 0x63]"
| "fmt_of (Str s) = [percent, 0x73]"
| "fmt_of (Dec v) = [percent, 0x64]"
| "fmt_of (Hex v) = [percent, 0x78]"

fun arg_of :: "piece \<Rightarrow> va list" where
  "arg_of (Lit c) = []"
| "arg_of (Chr v) = [Va_int v]"
| "arg_of (Str s) = [Va_str s]"
| "arg_of (Dec v) = [Va_int v]"
| "arg_of (Hex v) = [Va_int v]"

definition numeral_text :: "nat \<Rightarrow> u32 \<Rightarrow> u8 list" where
  "numeral_text b v = (if v = 0 then [0x30] else map (\<lambda>d. digit_char (of_nat d)) (digits_of b (unat v)))"

fun text_of :: "piece \<Rightarrow> u8 list" where
  "text_of (Lit c) = [c]"
| "text_of (Chr v) = [ucast v]"
| "text_of (Str s) = s"
| "text_of (Dec v) = numeral_text 10 v"
| "text_of (Hex v) = numeral_text 16 v"

definition format_of :: "piece list \<Rightarrow> u8 list" where "format_of ps = concat (map fmt_of ps)"
definition args_of :: "piece list \<Rightarrow> va list" where "args_of ps = concat (map arg_of ps)"
definition render :: "piece list \<Rightarrow> u8 list" where "render ps = concat (map text_of ps)"

lemma piece_lists [simp]:
  "format_of [] = []" "format_of (p # ps) = fmt_of p @ format_of ps"
  "args_of [] = []" "args_of (p # ps) = arg_of p @ args_of ps"
  "render [] = []" "render (p # ps) = text_of p @ render ps"
  by (simp_all add: format_of_def args_of_def render_def)

text \<open>Sending bytes to the selected device.\<close>

definition send :: "u8 list \<Rightarrow> stdout \<Rightarrow> stdout" where
  "send cs s = (if so_mode s = TERMINAL_OUT then s\<lparr>so_terminal := so_terminal s @ cs\<rparr>
     else if so_mode s = SERIALPORT_OUT then s\<lparr>so_serial := so_serial s @ cs\<rparr> else s)"

lemma send_Nil [simp]: "send [] s = s"
  by (simp add: send_def)

lemma send_append [simp]: "send ys (send xs s) = send (xs @ ys) s"
  by (simp add: send_def)

lemma putchar_send: "putchar (uint c) s = (uint c, send [c] s)"
  by (simp add: putchar_def send_def)

lemma print_send [simp]: "print cs s = (True, send cs s)"
proof (induction cs arbitrary: s)
  case (Cons c cs)
  have "uint c \<noteq> EOF"
    using uint_nonnegative [of c] unfolding EOF_def by linarith
  then show ?case
    using Cons by (simp add: putchar_send)
qed simp

definition sent :: "u8 list \<Rightarrow> pf \<Rightarrow> pf" where
  "sent cs st = st\<lparr>pf_out := send cs (pf_out st), pf_written := pf_written st + int (length cs)\<rparr>"

lemma emit_sent [simp]: "emit cs st = (0, sent cs st)"
  by (simp add: emit_def sent_def)

lemma sent_simps [simp]:
  "pf_written (sent cs st) = pf_written st + int (length cs)" "pf_args (sent cs st) = pf_args st"
  "sent ys (sent xs st) = sent (xs @ ys) st" "sent [] st = st" "(sent cs st)\<lparr>pf_args := a\<rparr> = sent cs (st\<lparr>pf_args := a\<rparr>)"
  by (simp_all add: sent_def)

lemma uitoa_text:
  assumes "base = 10 \<or> base = 16" "length buffer = 30"
  shows "\<exists>rest. uitoa v buffer base = Inr (length (numeral_text (unat base) v), numeral_text (unat base) v @ rest)"
proof (cases "v = 0")
  case True
  then show ?thesis
    using assms(2) by (cases buffer; cases "tl buffer") (auto simp: uitoa_def numeral_text_def)
next
  case False
  have "unat v < unat base ^ 10"
    using unat_u32_lt [of v] assms(1) by auto
  then show ?thesis
    using uitoa_digits(1) [of base v 10 buffer] assms False by (auto simp: numeral_text_def)
qed

text \<open>Ordinary characters may be sent one by one.\<close>

lemma vprintf_lit:
  assumes "c \<noteq> percent" "pf_written st + 1 + int (length (takeWhile (\<lambda>c. c \<noteq> percent) f)) \<le> INT_MAX"
  shows "vprintf buffer (c # f) st = vprintf buffer f (sent [c] st)"
proof -
  let ?n = "length (takeWhile (\<lambda>c. c \<noteq> percent) f)"
  have "\<not> nat (INT_MAX - pf_written st) < Suc ?n"
    using assms(2) by linarith
  then have first: "vprintf buffer (c # f) st = vprintf buffer (drop ?n f) (sent (c # take ?n f) st)"
    using assms(1) by (simp add: vprintf.simps no_format_case_def Let_def)
  show ?thesis
  proof (cases "f \<noteq> [] \<and> hd f \<noteq> percent")
    case True
    then obtain d g where f: "f = d # g" "d \<noteq> percent"
      by (cases f) auto
    have "\<not> nat (INT_MAX - (pf_written st + 1)) < Suc (length (takeWhile (\<lambda>c. c \<noteq> percent) g))"
      using assms(2) f by simp
    then have "vprintf buffer f (sent [c] st) = vprintf buffer (drop (length (takeWhile (\<lambda>c. c \<noteq> percent) g)) g)
        (sent (d # take (length (takeWhile (\<lambda>c. c \<noteq> percent) g)) g) (sent [c] st))"
      using f by (simp add: vprintf.simps no_format_case_def Let_def)
    then show ?thesis
      using first f by simp
  next
    case False
    then have "?n = 0"
      by (cases f) auto
    then show ?thesis
      using first by simp
  qed
qed

lemma conversion_number:
  assumes "length buffer = 30" "base = 10 \<or> base = 16" "length (numeral_text (unat base) v) \<le> maxrem"
  shows "num_format_case buffer (d # f) v maxrem st base 0 = Inr (0, f, sent (numeral_text (unat base) v) st)"
proof -
  obtain rest where "uitoa v buffer base = Inr (length (numeral_text (unat base) v), numeral_text (unat base) v @ rest)"
    using uitoa_text [OF assms(2,1)] by blast
  then show ?thesis
    using assms(3) by (simp add: num_format_case_def Let_def ALTERNATE_FORM_def)
qed

text \<open>One conversion without flags.\<close>

lemma vprintf_conv:
  assumes "length buffer = 30" "pf_args st = arg_of p @ args" "pf_written st + int (length (text_of p)) \<le> INT_MAX" "\<forall>c. p \<noteq> Lit c"
  shows "vprintf buffer (fmt_of p @ f) st = vprintf buffer f (sent (text_of p) (st\<lparr>pf_args := args\<rparr>))"
proof -
  let ?max = "nat (INT_MAX - pf_written st)"
  have max: "length (text_of p) \<le> ?max"
    using assms(3) by linarith
  show ?thesis
  proof (cases p)
    case (Dec v)
    then show ?thesis
      using max assms conversion_number [OF assms(1), of 10 v ?max "0x64" f "st\<lparr>pf_args := args\<rparr>"]
      by (simp add: vprintf.simps conversion_def)
  next
    case (Hex v)
    then show ?thesis
      using max assms conversion_number [OF assms(1), of 16 v ?max "0x78" f "st\<lparr>pf_args := args\<rparr>"]
      by (simp add: vprintf.simps conversion_def)
  qed (use max assms in \<open>auto simp: vprintf.simps conversion_def c_format_case_def s_format_case_def Let_def\<close>)
qed

lemma lit_prefix: "\<forall>c. Lit c \<in> set ps \<longrightarrow> c \<noteq> percent \<Longrightarrow> length (takeWhile (\<lambda>c. c \<noteq> percent) (format_of ps)) \<le> length (render ps)"
proof (induction ps)
  case (Cons p ps)
  then show ?case
    by (cases p) auto
qed simp

lemma vprintf_run:
  assumes "length buffer = 30" "\<forall>c. Lit c \<in> set ps \<longrightarrow> c \<noteq> percent"
    and "pf_args st = args_of ps @ rest" "pf_written st + int (length (render ps)) \<le> INT_MAX"
  shows "vprintf buffer (format_of ps) st =
           Inr (pf_written st + int (length (render ps)), sent (render ps) (st\<lparr>pf_args := rest\<rparr>))"
  using assms(2-4)
proof (induction ps arbitrary: st)
  case Nil
  then show ?case
    by (simp add: vprintf.simps)
next
  case (Cons p ps)
  have "vprintf buffer (format_of (p # ps)) st = vprintf buffer (format_of ps) (sent (text_of p) (st\<lparr>pf_args := args_of ps @ rest\<rparr>))"
  proof (cases "\<exists>c. p = Lit c")
    case True
    then obtain c where c: "p = Lit c" "c \<noteq> percent"
      using Cons.prems(1) by auto
    have "pf_written st + 1 + int (length (takeWhile (\<lambda>c. c \<noteq> percent) (format_of ps))) \<le> INT_MAX"
      using lit_prefix [of ps] Cons.prems c by simp
    moreover have "st\<lparr>pf_args := args_of ps @ rest\<rparr> = st"
      using Cons.prems(2) c by simp
    ultimately show ?thesis
      using vprintf_lit [OF c(2), of st "format_of ps" buffer] c by simp
  next
    case False
    then show ?thesis
      using vprintf_conv [OF assms(1), of st p "args_of ps @ rest" "format_of ps"] Cons.prems by simp
  qed
  then show ?case
    using Cons.IH [of "sent (text_of p) (st\<lparr>pf_args := args_of ps @ rest\<rparr>)"] Cons.prems by simp
qed

text \<open>C29 [printf_renders]: for every format made of ordinary characters and of the conversions for a character,
  a string, a decimal and a hexadecimal number, with matching arguments, \<open>printf\<close> sends exactly the
  described text to the terminal and returns its length.\<close>

theorem printf_renders:
  assumes "length buffer = 30" "\<forall>c. Lit c \<in> set ps \<longrightarrow> c \<noteq> percent" "int (length (render ps)) \<le> INT_MAX"
  shows "printf buffer (format_of ps) (args_of ps) s =
           Inr (int (length (render ps)), s\<lparr>so_mode := TERMINAL_OUT, so_terminal := so_terminal s @ render ps\<rparr>)"
  using vprintf_run [OF assms(1,2), of "\<lparr>pf_out = setoutput TERMINAL_OUT s, pf_written = 0, pf_args = args_of ps\<rparr>" "[]"] assms(3)
  by (simp add: printf_def setoutput_def sent_def send_def)

theorem printf_renders_witness:
  "\<exists>s'. printf (replicate 30 0) [0x61, percent, 0x64, 0x3A, percent, 0x78] [Va_int 42, Va_int 255] \<lparr>so_mode = 1, so_terminal = [], so_serial = []\<rparr> =
     Inr (6, s') \<and> so_terminal s' = [0x61, 0x34, 0x32, 0x3A, 0x66, 0x66]"
proof -
  let ?ps = "[Lit 0x61, Dec 42, Lit 0x3A, Hex 255]"
  have "render ?ps = [0x61, 0x34, 0x32, 0x3A, 0x66, 0x66]"
    by code_simp
  then show ?thesis
    using printf_renders [of "replicate 30 0" ?ps "\<lparr>so_mode = 1, so_terminal = [], so_serial = []\<rparr>"]
    by (simp add: INT_MAX_def)
qed

text \<open>Fact [printf_alternate_form]: the alternate form of a hexadecimal number loses its last two digits: the prefix
  is counted neither in the length nor in the text that is sent.\<close>

theorem printf_alternate_form:
  assumes "length buffer = 30" "v \<noteq> 0"
  shows "printf buffer [percent, 0x23, 0x78] [Va_int v] s =
           Inr (int (length (numeral_text 16 v)), s\<lparr>so_mode := TERMINAL_OUT,
             so_terminal := so_terminal s @ take (length (numeral_text 16 v)) ([0x30, 0x78] @ numeral_text 16 v)\<rparr>)"
proof -
  have "unat v < 16 ^ 10"
    using unat_u32_lt [of v] by simp
  then obtain rest where u: "uitoa v (drop (Suc (Suc 0)) buffer) 16 = Inr (length (numeral_text 16 v), numeral_text 16 v @ rest)"
      and le: "length (numeral_text 16 v) \<le> 10"
    using uitoa_digits [of 16 v 10 "drop (Suc (Suc 0)) buffer"] assms by (auto simp: numeral_text_def)
  moreover have "take (length (numeral_text 16 v)) (0x30 # 0x78 # numeral_text 16 v @ rest) =
      take (length (numeral_text 16 v)) (0x30 # 0x78 # numeral_text 16 v)"
    using take_append [of "length (numeral_text 16 v)" "0x30 # 0x78 # numeral_text 16 v" rest] by simp
  ultimately show ?thesis
    by (simp add: printf_def vprintf.simps conversion_def num_format_case_def Let_def ALTERNATE_FORM_def INT_MAX_def
        setoutput_def sent_def send_def)
qed

theorem printf_alternate_form_witness:
  "\<exists>s'. printf (replicate 30 0) [percent, 0x23, 0x78] [Va_int 0xABCD] \<lparr>so_mode = 0, so_terminal = [], so_serial = []\<rparr> = Inr (4, s') \<and>
     so_terminal s' = [0x30, 0x78, 0x61, 0x62]"
proof -
  have "numeral_text 16 0xABCD = [0x61, 0x62, 0x63, 0x64]"
    by (simp add: numeral_text_def digits_of.simps digit_char_def)
  then show ?thesis
    using printf_alternate_form [of "replicate 30 0" "0xABCD" "\<lparr>so_mode = 0, so_terminal = [], so_serial = []\<rparr>"] by simp
qed

text \<open>Fact [printf_percent_faults]: when the format goes on with a doubled percent sign, the pointer to the format is
  advanced instead of the format, and the next character is read through a stray pointer.\<close>

theorem printf_percent_faults:
  "vprintf buffer (percent # percent # f) st = Inl BadAccess"
  by (simp add: vprintf.simps no_format_case_def Let_def)

end
