(* ===== verification/HeapUse.thy ===== *)
theory HeapUse
  imports Vmm LibcString HashTable
begin

text \<open>
  Two functions that do nothing but use the heap: \<open>ht_free\<close> of \<open>src/utils/hashtable.c\<close> and
  \<open>load_new_page_dir\<close> of \<open>src/kernel/proc/loader.c\<close>.  They are composed from \<open>kmalloc\<close>, \<open>kfree\<close> and \<open>memcpy\<close>.

  Shown here: freeing a table gives exactly the bytes of its two blocks back, and a new page directory is a copy of
  the old one.
\<close>

section \<open>Operations\<close>

text \<open>\<open>entries\<close> is the pointer stored in the table at \<open>tab\<close>; \<open>frame\<close> is the address of the local node of \<open>kfree\<close>.\<close>

definition ht_free :: "ptr \<Rightarrow> vmm \<Rightarrow> ptr \<Rightarrow> ptr \<Rightarrow> vmm res" where
  "ht_free frame s tab entries = rbind (kfree frame s entries) (\<lambda>s. kfree frame s tab)"

definition load_new_page_dir :: "ptr \<Rightarrow> vmm \<Rightarrow> ptr \<Rightarrow> (ptr \<times> vmm) res" where
  "load_new_page_dir frame s page_directory =
     rbind (kmalloc frame s PAGE_FRAME_SIZE) (\<lambda>(new_dir, s).
       Inr (new_dir, s\<lparr>vmm_mem := memcpy (vmm_mem s) new_dir page_directory PAGE_FRAME_SIZE\<rparr>))"

section \<open>Properties\<close>

text \<open>A block keeps its header as long as only bytes outside of it are written.\<close>

lemma heap_block_frame:
  assumes "heap_block s p t" and "4 \<le> t" and "\<forall>b. unat b \<in> block_bytes p t \<longrightarrow> m' b = vmm_mem s b"
  shows "heap_block (s\<lparr>vmm_mem := m'\<rparr>) p t"
proof -
  have "4 \<le> unat p" "unat p - 4 + t < 4294967296"
    using assms(1) unat_u32_lt [of "kheap_end s"] by (auto simp: heap_block_def)
  then have "unat (p - 4) = unat p - 4"
    using unat_minus_4 [of p] by simp
  moreover have "unat (p - 4 + of_nat i) = unat p - 4 + i" if "i < 4" for i
    using that \<open>unat p - 4 + t < 4294967296\<close> assms(2) calculation
    by (simp add: unat_word_ariths unat_of_nat take_bit_nat_eq_self)
  ultimately have "m' (p - 4 + of_nat i) = vmm_mem s (p - 4 + of_nat i)" if "i < 4" for i
    using assms(2,3) that by (auto simp: block_bytes_def)
  from this [of 0] this [of 1] this [of 2] this [of 3] have "ld32 m' (p - 4) = ld32 (vmm_mem s) (p - 4)"
    by (simp add: ld32_def)
  then show ?thesis
    using assms(1) by (simp add: heap_block_def)
qed

text \<open>Fact [ht_free_gives_back]: freeing a table whose two blocks lie apart in the list heap succeeds, gives exactly the bytes of both blocks back and
  writes nothing outside of the free bytes.\<close>

theorem ht_free_gives_back:
  assumes ok: "heap_ok s xs" and e: "heap_block s entries t1" "8 \<le> t1" and t: "heap_block s tab t2" "8 \<le> t2"
    and apart: "block_bytes entries t1 \<inter> free_bytes xs = {}" "block_bytes tab t2 \<inter> free_bytes xs = {}"
      "block_bytes entries t1 \<inter> block_bytes tab t2 = {}"
    and stack: "kheap_end s < kheap_stack_start s"
  shows "\<exists>m' ys. ht_free frame s tab entries = Inr (s\<lparr>vmm_mem := m'\<rparr>) \<and> heap_ok (s\<lparr>vmm_mem := m'\<rparr>) ys \<and>
    free_bytes ys = free_bytes xs \<union> block_bytes entries t1 \<union> block_bytes tab t2 \<and>
    (\<forall>b. unat b \<notin> free_bytes ys \<longrightarrow> m' b = vmm_mem s b)"
proof -
  from kfree_list [OF ok e apart(1) stack] obtain m1 xs1 where
    k1: "kfree frame s entries = Inr (s\<lparr>vmm_mem := m1\<rparr>)" "heap_ok (s\<lparr>vmm_mem := m1\<rparr>) xs1"
      "free_bytes xs1 = free_bytes xs \<union> block_bytes entries t1" "\<forall>b. unat b \<notin> free_bytes xs1 \<longrightarrow> m1 b = vmm_mem s b"
    by blast
  have "heap_block (s\<lparr>vmm_mem := m1\<rparr>) tab t2"
  proof (rule heap_block_frame [OF t(1)])
    show "\<forall>b. unat b \<in> block_bytes tab t2 \<longrightarrow> m1 b = vmm_mem s b"
      using k1(3,4) apart(2,3) by auto
  qed (use t(2) in simp)
  moreover have "block_bytes tab t2 \<inter> free_bytes xs1 = {}"
    using k1(3) apart(2,3) by blast
  ultimately obtain m2 xs2 where
    k2: "kfree frame (s\<lparr>vmm_mem := m1\<rparr>) tab = Inr (s\<lparr>vmm_mem := m2\<rparr>)" "heap_ok (s\<lparr>vmm_mem := m2\<rparr>) xs2"
      "free_bytes xs2 = free_bytes xs1 \<union> block_bytes tab t2" "\<forall>b. unat b \<notin> free_bytes xs2 \<longrightarrow> m2 b = m1 b"
    using kfree_list [OF k1(2) _ t(2), of tab frame] stack by auto
  have "ht_free frame s tab entries = Inr (s\<lparr>vmm_mem := m2\<rparr>)"
    using k1(1) k2(1) by (simp add: ht_free_def)
  then show ?thesis
    using k1(3,4) k2(2-4) by (intro exI [of _ m2] exI [of _ xs2]) auto
qed

text \<open>Fact [load_new_page_dir_copies]: when the allocator gives a page that does not overlap the page directory, every byte of the new directory is
  that of the old one and no byte outside of the new page changes with respect to the memory the allocator left.\<close>

theorem load_new_page_dir_copies:
  assumes "kmalloc frame s PAGE_FRAME_SIZE = Inr (p, s1)" and "fits p 4096" and "fits pd 4096"
    and "unat pd + 4096 \<le> unat p \<or> unat p + 4096 \<le> unat pd"
  shows "\<exists>s'. load_new_page_dir frame s pd = Inr (p, s') \<and>
    (\<forall>a. vmm_mem s' a = (if in_region p 4096 a then vmm_mem s1 (pd + (a - p)) else vmm_mem s1 a))"
  using assms memcpy_disjoint [of p PAGE_FRAME_SIZE pd "vmm_mem s1"]
  by (simp add: load_new_page_dir_def PAGE_FRAME_SIZE_def)

end
