(* ===== verification/Descr.thy ===== *)
theory Descr
  imports Task
begin

text \<open>
  The descriptor tables of the processor: \<open>src/kernel/boot/gdt.c\<close>, \<open>src/kernel/boot/tss.c\<close>,
  \<open>src/kernel/int/idt.c\<close> and the exception handlers of \<open>src/kernel/int/isrs.c\<close>.  A descriptor is a
  record of the fields the code fills; \<open>seg_base\<close>, \<open>seg_limit\<close> and \<open>gate_offset\<close> are how the processor
  puts them together again.  The instructions that load the tables have no effect here.  The address of a
  handler is a parameter, and what a handler prints and acknowledges is a list of events.

  Shown here: the processor reads back the base and limit that were encoded, the segments that the
  kernel sets up, which handler every exception reaches, and that the handlers take an error code for exactly the
  exceptions that push one.
\<close>

section \<open>Segment descriptors\<close>

definition GDT_ACCESS :: u32 where "GDT_ACCESS = 1"
definition GDT_RW :: u32 where "GDT_RW = 2"
definition GDT_EXEC :: u32 where "GDT_EXEC = 8"
definition GDT_TYPE :: u32 where "GDT_TYPE = 16"
definition GDT_DPL0 :: u32 where "GDT_DPL0 = 0"
definition GDT_DPL3 :: u32 where "GDT_DPL3 = 96"
definition GDT_PRESENT :: u32 where "GDT_PRESENT = 128"
definition GDT_SIZE :: u8 where "GDT_SIZE = 4"
definition GDT_GRAN :: u8 where "GDT_GRAN = 8"

lemmas gdt_access_bits = GDT_ACCESS_def GDT_RW_def GDT_EXEC_def GDT_TYPE_def GDT_DPL0_def GDT_DPL3_def GDT_PRESENT_def

record gdt_entry_t =
  ge_limit :: u16
  ge_base_1 :: u16
  ge_base_2 :: u8
  ge_access :: u8
  ge_flags_limit :: u8
  ge_base_3 :: u8

record gdt_ptr_t =
  gp_size :: u16
  gp_offset :: u32

definition GDT_ENTRIES :: nat where "GDT_ENTRIES = 6"

text \<open>Every field of the descriptor is assigned, so its old contents do not matter.\<close>

definition gdt_create :: "u32 \<Rightarrow> u32 \<Rightarrow> u8 \<Rightarrow> u32 \<Rightarrow> gdt_entry_t" where
  "gdt_create base limit flags access =
     (let flags_limit = ucast (drop_bit 16 limit) in
      \<lparr>ge_limit = ucast (limit AND 0xFFFF),
       ge_base_1 = ucast (base AND 0xFFFF),
       ge_base_2 = ucast (drop_bit 16 base AND 0xFF),
       ge_access = ucast access,
       ge_flags_limit = flags_limit OR ucast (push_bit 4 (ucast flags :: u32)),
       ge_base_3 = ucast (drop_bit 24 base AND 0xFF)\<rparr>)"

text \<open>The task state segment, field by field.\<close>

record tss_t =
  tss_link :: u16
  tss_reserved_link :: u16
  tss_esp0 :: u32
  tss_ss0 :: u16
  tss_reserved_ss0 :: u16
  tss_esp1 :: u32
  tss_ss1 :: u16
  tss_reserved_ss1 :: u16
  tss_esp2 :: u32
  tss_ss2 :: u16
  tss_reserved_ss2 :: u16
  tss_cr3 :: u32
  tss_eip :: u32
  tss_eflags :: u32
  tss_eax :: u32
  tss_ecx :: u32
  tss_edx :: u32
  tss_ebx :: u32
  tss_esp :: u32
  tss_ebp :: u32
  tss_esi :: u32
  tss_edi :: u32
  tss_es :: u16
  tss_reserved_es :: u16
  tss_cs :: u16
  tss_reserved_cs :: u16
  tss_ss :: u16
  tss_reserved_ss :: u16
  tss_ds :: u16
  tss_reserved_ds :: u16
  tss_fs :: u16
  tss_reserved_fs :: u16
  tss_gs :: u16
  tss_reserved_gs :: u16
  tss_ldtr :: u16
  tss_reserved_ldtr :: u16
  tss_reserved_iopb :: u16
  tss_iopb :: u16

definition sizeof_tss_t :: u32 where "sizeof_tss_t = 104"

definition gdt_access_table :: "u32 list" where
  "gdt_access_table =
     [GDT_RW OR GDT_EXEC OR GDT_TYPE OR GDT_DPL0 OR GDT_PRESENT,
      GDT_RW OR GDT_TYPE OR GDT_DPL0 OR GDT_PRESENT,
      GDT_RW OR GDT_EXEC OR GDT_TYPE OR GDT_DPL3 OR GDT_PRESENT,
      GDT_RW OR GDT_TYPE OR GDT_DPL3 OR GDT_PRESENT]"

text \<open>The addresses of the table and of the task state segment come from the allocator.\<close>

definition gdt_init :: "ptr \<Rightarrow> ptr \<Rightarrow> gdt_entry_t list \<times> gdt_ptr_t" where
  "gdt_init gdt_entries tss =
     (let gdt_size = 8 * GDT_ENTRIES;
          flag = GDT_SIZE OR GDT_GRAN;
          tss_access = GDT_ACCESS OR GDT_EXEC OR GDT_DPL0 OR GDT_PRESENT in
      (gdt_create 0 0 0 0 #
       map (\<lambda>i. gdt_create 0 0xFFFFF flag (gdt_access_table ! (i - 1))) [1..<5] @
       [gdt_create tss (sizeof_tss_t - 1) 0 tss_access],
       \<lparr>gp_size = of_nat (gdt_size - 1), gp_offset = gdt_entries\<rparr>))"


definition tss_zero :: tss_t where
  "tss_zero = \<lparr>tss_link = 0, tss_reserved_link = 0, tss_esp0 = 0, tss_ss0 = 0, tss_reserved_ss0 = 0, tss_esp1 = 0,
     tss_ss1 = 0, tss_reserved_ss1 = 0, tss_esp2 = 0, tss_ss2 = 0, tss_reserved_ss2 = 0, tss_cr3 = 0, tss_eip = 0,
     tss_eflags = 0, tss_eax = 0, tss_ecx = 0, tss_edx = 0, tss_ebx = 0, tss_esp = 0, tss_ebp = 0, tss_esi = 0,
     tss_edi = 0, tss_es = 0, tss_reserved_es = 0, tss_cs = 0, tss_reserved_cs = 0, tss_ss = 0, tss_reserved_ss = 0,
     tss_ds = 0, tss_reserved_ds = 0, tss_fs = 0, tss_reserved_fs = 0, tss_gs = 0, tss_reserved_gs = 0, tss_ldtr = 0,
     tss_reserved_ldtr = 0, tss_reserved_iopb = 0, tss_iopb = 0\<rparr>"

definition tss_init :: "ptr \<Rightarrow> tss_t" where
  "tss_init stack = tss_zero\<lparr>tss_ss0 := 0x10, tss_esp0 := stack + PAGE_LAST_DWORD, tss_iopb := ucast sizeof_tss_t\<rparr>"

section \<open>Interrupt gates\<close>

definition IDT_32B_INT :: u32 where "IDT_32B_INT = 0xE"
definition IDT_PRESENT :: u32 where "IDT_PRESENT = 128"

definition IDT_ENTRIES :: nat where "IDT_ENTRIES = 256"
definition N_OF_EXCEPTIONS :: nat where "N_OF_EXCEPTIONS = 32"
definition IRQ_OFFSET :: nat where "IRQ_OFFSET = N_OF_EXCEPTIONS"
definition LEGACY_PIC_OFFSET :: nat where "LEGACY_PIC_OFFSET = 16"

record idt_entry_t =
  ie_offset_1 :: u16
  ie_segment_selector :: u16
  ie_reserved :: u8
  ie_flags :: u8
  ie_offset_2 :: u16

record idt_ptr_t =
  ip_limit :: u16
  ip_base :: u32

definition idt_create :: "idt_entry_t list \<Rightarrow> nat \<Rightarrow> u32 \<Rightarrow> u32 \<Rightarrow> idt_entry_t list res" where
  "idt_create entries descriptor offset flags =
     rbind (array_get entries descriptor) (\<lambda>d.
       array_set entries descriptor
         (d\<lparr>ie_offset_1 := ucast (offset AND 0xFFFF), ie_offset_2 := ucast (drop_bit 16 offset AND 0xFFFF),
            ie_segment_selector := 0x8, ie_flags := ucast (flags AND 0xFF)\<rparr>))"

definition idt_init :: "ptr \<Rightarrow> idt_entry_t list \<times> idt_ptr_t" where
  "idt_init idt_entries =
     (let idt_size = 8 * IDT_ENTRIES in
      (replicate IDT_ENTRIES \<lparr>ie_offset_1 = 0, ie_segment_selector = 0, ie_reserved = 0, ie_flags = 0, ie_offset_2 = 0\<rparr>,
       \<lparr>ip_limit = of_nat (idt_size - 1), ip_base = idt_entries\<rparr>))"

section \<open>Exception handlers\<close>

record interrupt_frame_t =
  fr_eip :: u32
  fr_cs :: u32
  fr_eflags :: u32
  fr_esp :: u32
  fr_ss :: u32

definition error_messages :: "string list" where
  "error_messages =
     [''divide-by-zero'', ''debug'', ''non-maskable interrupt'', ''breakpoint'', ''overflow'', ''bound range exceeded'',
      ''invalid opcode'', ''device not available'', ''double fault'', ''coprocessor segment overrun (LEGACY)'',
      ''invalid tss'', ''segment not present'', ''stack-segment fault'', ''general protection fault'', ''page fault'',
      ''reserved, shouldn't never be called'', ''x87 floating point exception'', ''alignment check'', ''machine check'',
      ''SIMD floating-point exception'', ''virtualization exception'', ''control protection exception'',
      ''hypervisor injection exception'', ''VMM comunication exception'', ''Security exception'']"

text \<open>What a handler does before it returns or stops the kernel: its two outputs and the acknowledgement.\<close>

datatype isr_event =
    Report string string u32 u32  \<comment> \<open>the class, the message, \<open>cs\<close> and \<open>eip\<close>, on the screen and on the serial port\<close>
  | ReportCode u32
  | ReportAddr u32
  | EOI

type_synonym isr_run = "isr_event list \<times> unit res"

definition trap_handler :: "string \<Rightarrow> interrupt_frame_t \<Rightarrow> isr_run" where
  "trap_handler message frame = ([Report ''TRAP'' message (fr_cs frame) (fr_eip frame)], Inr ())"

definition fault_handler :: "string \<Rightarrow> interrupt_frame_t \<Rightarrow> isr_run" where
  "fault_handler message frame = ([Report ''FAULT'' message (fr_cs frame) (fr_eip frame)], Inl Abort)"

definition code_fault_handler :: "string \<Rightarrow> interrupt_frame_t \<Rightarrow> u32 \<Rightarrow> isr_run" where
  "code_fault_handler message frame error_code =
     (let (out, r) = fault_handler message frame in (ReportCode error_code # out, r))"

definition abort_handler :: "string \<Rightarrow> interrupt_frame_t \<Rightarrow> isr_run" where
  "abort_handler message frame = ([Report ''ABORT'' message (fr_cs frame) (fr_eip frame)], Inl Abort)"

definition code_abort_handler :: "string \<Rightarrow> interrupt_frame_t \<Rightarrow> u32 \<Rightarrow> isr_run" where
  "code_abort_handler message frame error_code =
     (let (out, r) = abort_handler message frame in (ReportCode error_code # out, r))"

datatype isr =
    isrDE | isrDB | isrNMI | isrBP | isrOF | isrBR | isrUD | isrNM | isrDF | isrCSO | isrTS | isrNP | isrSS | isrGP
  | isrPF | isrRS | isrMF | isrAC | isrMC | isrXM | isrVE | isrCP | isrHV | isrVC | isrSX

text \<open>The expansions of the two macros: the handler of a class followed by the acknowledgement, which is
  reached only when the handler returns.\<close>

definition then_eoi :: "isr_run \<Rightarrow> isr_run" where
  "then_eoi run = (case run of (out, Inr _) \<Rightarrow> (out @ [EOI], Inr ()) | (out, Inl e) \<Rightarrow> (out, Inl e))"

definition INT_HANDLER :: "(string \<Rightarrow> interrupt_frame_t \<Rightarrow> isr_run) \<Rightarrow> nat \<Rightarrow> interrupt_frame_t \<Rightarrow> isr_run" where
  "INT_HANDLER handler message frame = then_eoi (handler (error_messages ! message) frame)"

definition INT_CODE_HANDLER ::
    "(string \<Rightarrow> interrupt_frame_t \<Rightarrow> u32 \<Rightarrow> isr_run) \<Rightarrow> nat \<Rightarrow> interrupt_frame_t \<Rightarrow> u32 \<Rightarrow> isr_run" where
  "INT_CODE_HANDLER handler message frame error_code = then_eoi (handler (error_messages ! message) frame error_code)"

text \<open>The page fault handler also reports the address in the register \<open>cr2\<close>.\<close>

definition page_fault :: "u32 \<Rightarrow> interrupt_frame_t \<Rightarrow> u32 \<Rightarrow> isr_run" where
  "page_fault cr2 frame error_code =
     (let (out, r) = code_fault_handler (error_messages ! 14) frame error_code in then_eoi (ReportAddr cr2 # out, r))"

text \<open>A handler as it is declared: without an error code (\<open>Plain\<close>) or with one (\<open>Coded\<close>).\<close>

datatype handler = Plain "interrupt_frame_t \<Rightarrow> isr_run" | Coded "interrupt_frame_t \<Rightarrow> u32 \<Rightarrow> isr_run"

fun handler_of :: "u32 \<Rightarrow> isr \<Rightarrow> handler" where
  "handler_of cr2 isrDE = Plain (INT_HANDLER fault_handler 0)"
| "handler_of cr2 isrDB = Plain (INT_HANDLER trap_handler 1)"
| "handler_of cr2 isrNMI = Plain (INT_HANDLER fault_handler 2)"
| "handler_of cr2 isrBP = Plain (INT_HANDLER trap_handler 3)"
| "handler_of cr2 isrOF = Plain (INT_HANDLER trap_handler 4)"
| "handler_of cr2 isrBR = Plain (INT_HANDLER fault_handler 5)"
| "handler_of cr2 isrUD = Plain (INT_HANDLER fault_handler 6)"
| "handler_of cr2 isrNM = Plain (INT_HANDLER fault_handler 7)"
| "handler_of cr2 isrDF = Coded (INT_CODE_HANDLER code_abort_handler 8)"
| "handler_of cr2 isrCSO = Plain (INT_HANDLER fault_handler 9)"
| "handler_of cr2 isrTS = Coded (INT_CODE_HANDLER code_fault_handler 10)"
| "handler_of cr2 isrNP = Coded (INT_CODE_HANDLER code_fault_handler 11)"
| "handler_of cr2 isrSS = Coded (INT_CODE_HANDLER code_fault_handler 12)"
| "handler_of cr2 isrGP = Coded (INT_CODE_HANDLER code_fault_handler 13)"
| "handler_of cr2 isrPF = Coded (page_fault cr2)"
| "handler_of cr2 isrRS = Plain (INT_HANDLER fault_handler 15)"
| "handler_of cr2 isrMF = Plain (INT_HANDLER fault_handler 16)"
| "handler_of cr2 isrAC = Coded (INT_CODE_HANDLER code_fault_handler 17)"
| "handler_of cr2 isrMC = Plain (INT_HANDLER abort_handler 18)"
| "handler_of cr2 isrXM = Plain (INT_HANDLER fault_handler 19)"
| "handler_of cr2 isrVE = Plain (INT_HANDLER fault_handler 20)"
| "handler_of cr2 isrCP = Coded (INT_CODE_HANDLER code_fault_handler 21)"
| "handler_of cr2 isrHV = Plain (INT_HANDLER fault_handler 22)"
| "handler_of cr2 isrVC = Coded (INT_CODE_HANDLER code_fault_handler 23)"
| "handler_of cr2 isrSX = Coded (INT_CODE_HANDLER code_fault_handler 24)"

definition int_handlers :: "isr list" where
  "int_handlers =
     [isrDE, isrDB, isrNMI, isrBP, isrOF, isrBR, isrUD,
      isrNM, isrDF, isrCSO, isrTS, isrNP, isrSS, isrGP,
      isrPF, isrRS, isrMF, isrAC, isrMC, isrXM, isrVE,
      isrCP, isrRS, isrRS, isrRS, isrRS, isrRS, isrRS,
      isrHV, isrVC, isrSX, isrRS]"

text \<open>The loop of \<open>isrs_init\<close>: one gate per exception.\<close>

fun isrs_loop :: "(isr \<Rightarrow> u32) \<Rightarrow> isr list \<Rightarrow> nat \<Rightarrow> idt_entry_t list \<Rightarrow> idt_entry_t list res" where
  "isrs_loop addr [] i entries = Inr entries"
| "isrs_loop addr (f # fs) i entries =
     rbind (idt_create entries i (addr f) (IDT_PRESENT OR IDT_32B_INT)) (isrs_loop addr fs (Suc i))"

definition isrs_init :: "(isr \<Rightarrow> u32) \<Rightarrow> idt_entry_t list \<Rightarrow> idt_entry_t list res" where
  "isrs_init addr entries = isrs_loop addr (take N_OF_EXCEPTIONS int_handlers) 0 entries"

section \<open>How the processor reads the tables\<close>

definition seg_base :: "gdt_entry_t \<Rightarrow> u32" where
  "seg_base e = ucast (ge_base_1 e) OR push_bit 16 (ucast (ge_base_2 e)) OR push_bit 24 (ucast (ge_base_3 e))"

text \<open>The last byte of a segment: with the granularity flag the limit counts pages.\<close>

definition seg_limit :: "gdt_entry_t \<Rightarrow> u32" where
  "seg_limit e =
     (let l = ucast (ge_limit e) OR push_bit 16 (ucast (ge_flags_limit e AND 0xF)) in
      if bit (ge_flags_limit e) 7 then push_bit 12 l OR 0xFFF else l)"

definition seg_dpl :: "gdt_entry_t \<Rightarrow> u8" where
  "seg_dpl e = drop_bit 5 (ge_access e) AND 3"

definition gate_offset :: "idt_entry_t \<Rightarrow> u32" where
  "gate_offset e = ucast (ie_offset_1 e) OR push_bit 16 (ucast (ie_offset_2 e))"

lemma u32_parts:
  "ucast (ucast (x AND 0xFFFF :: u32) :: u16) OR push_bit 16 (ucast (ucast (drop_bit 16 x AND 0xFF) :: u8))
     OR push_bit 24 (ucast (ucast (drop_bit 24 x AND 0xFF) :: u8)) = x"
proof (rule bit_word_eqI)
  fix n :: nat
  assume n: "n < LENGTH(32)"
  have m16: "(0xFFFF :: u32) = mask 16" and m8: "(0xFF :: u32) = mask 8"
    by (simp_all add: mask_eq_exp_minus_1)
  show "bit (ucast (ucast (x AND 0xFFFF) :: u16) OR push_bit 16 (ucast (ucast (drop_bit 16 x AND 0xFF) :: u8))
     OR push_bit 24 (ucast (ucast (drop_bit 24 x AND 0xFF) :: u8)) :: u32) n = bit x n"
    using n by (cases "n < 24") (auto simp: m16 m8 bit_simps)
qed

lemma u32_halves:
  "ucast (ucast (x AND 0xFFFF :: u32) :: u16) OR push_bit 16 (ucast (ucast (drop_bit 16 x AND 0xFFFF) :: u16)) = x"
proof (rule bit_word_eqI)
  fix n :: nat
  assume n: "n < LENGTH(32)"
  have m16: "(0xFFFF :: u32) = mask 16"
    by (simp add: mask_eq_exp_minus_1)
  show "bit (ucast (ucast (x AND 0xFFFF) :: u16) OR push_bit 16 (ucast (ucast (drop_bit 16 x AND 0xFFFF) :: u16)) :: u32) n
    = bit x n"
    using n by (auto simp: m16 bit_simps)
qed

lemma seg_base_create [simp]: "seg_base (gdt_create base limit flags access) = base"
  by (simp add: seg_base_def gdt_create_def Let_def u32_parts)

lemma limit_nibble:
  assumes "limit < 0x100000"
  shows "ucast (ucast (limit AND 0xFFFF :: u32) :: u16) OR push_bit 16 (ucast ((ucast (drop_bit 16 limit)
      OR ucast (push_bit 4 (ucast (flags :: u8) :: u32)) :: u8) AND 0xF)) = limit"
proof (rule bit_word_eqI)
  fix n :: nat
  assume n: "n < LENGTH(32)"
  have m16: "(0xFFFF :: u32) = mask 16" and m4: "(0xF :: u8) = mask 4"
    by (simp_all add: mask_eq_exp_minus_1)
  have "drop_bit 20 limit = 0"
    using assms by (simp add: word_unat_eq_iff unat_drop_bit_eq drop_bit_eq_div word_less_nat_alt unat_div)
  then have hi: "20 \<le> n \<Longrightarrow> \<not> bit limit n"
    by (rule bit_above)
  show "bit (ucast (ucast (limit AND 0xFFFF :: u32) :: u16) OR push_bit 16 (ucast ((ucast (drop_bit 16 limit)
      OR ucast (push_bit 4 (ucast flags :: u32)) :: u8) AND 0xF)) :: u32) n = bit limit n"
    using n hi by (cases "20 \<le> n") (auto simp: m16 m4 bit_simps)
qed


lemma flags_nibble:
  assumes "limit < 0x100000" and "flags < (16 :: u8)"
  shows "drop_bit 4 (ucast (drop_bit 16 (limit :: u32)) OR ucast (push_bit 4 (ucast flags :: u32)) :: u8) = flags"
proof (rule bit_word_eqI)
  fix n :: nat
  assume n: "n < LENGTH(8)"
  have "drop_bit 20 limit = 0" and "drop_bit 4 flags = 0"
    using assms by (simp_all add: word_unat_eq_iff unat_drop_bit_eq drop_bit_eq_div word_less_nat_alt unat_div)
  then have "\<not> bit limit (20 + n)" and "4 \<le> n \<longrightarrow> \<not> bit flags n"
    by (simp_all add: bit_above)
  then show "bit (drop_bit 4 (ucast (drop_bit 16 limit) OR ucast (push_bit 4 (ucast flags :: u32)) :: u8)) n = bit flags n"
    using n by (auto simp: bit_simps not_le add.commute)
qed

lemma flags_gran:
  assumes "limit < 0x100000" and "flags < (16 :: u8)"
  shows "bit (ucast (drop_bit 16 (limit :: u32)) OR ucast (push_bit 4 (ucast flags :: u32)) :: u8) 7 = bit flags 3"
proof -
  have "bit (drop_bit 4 x) 3 = bit x 7" for x :: u8
    by (simp add: bit_simps)
  then show ?thesis
    using flags_nibble [OF assms] by metis
qed

lemma seg_limit_create:
  assumes "limit < 0x100000" and "flags < 16"
  shows "seg_limit (gdt_create base limit flags access) = (if bit flags 3 then push_bit 12 limit OR 0xFFF else limit)"
  unfolding seg_limit_def gdt_create_def Let_def
  by (simp only: gdt_entry_t.simps limit_nibble [OF assms(1)] flags_gran [OF assms])

lemma ge_access_create [simp]: "ge_access (gdt_create base limit flags access) = ucast access"
  by (simp add: gdt_create_def Let_def)

section \<open>Properties of the tables\<close>

text \<open>Fact [gdt_create_roundtrip]: From a descriptor that \<open>gdt_create\<close> fills, the processor reads back the base, the limit (in pages
  when the granularity flag is set), the flags and the access byte that were given, for every limit of 20 bits and
  flags of 4 bits: flags and limit share a byte without disturbing each other.\<close>
theorem gdt_create_roundtrip:
  assumes "limit < 0x100000" and "flags < 16"
  shows "seg_base (gdt_create base limit flags access) = base \<and>
    seg_limit (gdt_create base limit flags access) = (if bit flags 3 then push_bit 12 limit OR 0xFFF else limit) \<and>
    drop_bit 4 (ge_flags_limit (gdt_create base limit flags access)) = flags \<and>
    ge_access (gdt_create base limit flags access) = ucast access"
proof -
  have "drop_bit 4 (ge_flags_limit (gdt_create base limit flags access)) = flags"
    using flags_nibble [OF assms] by (simp only: gdt_create_def Let_def gdt_entry_t.simps)
  then show ?thesis
    using seg_limit_create [OF assms] by simp
qed

theorem gdt_create_roundtrip_witness:
  "seg_base (gdt_create 0xC0012345 0x67 0 0x89) = 0xC0012345 \<and> seg_limit (gdt_create 0 0xFFFFF 12 0x9A) = 0xFFFFFFFF"
  using gdt_create_roundtrip [of "0x67" 0 "0xC0012345" "0x89"] gdt_create_roundtrip [of "0xFFFFF" 12 0 "0x9A"]
  by (simp add: bit_iff_odd push_bit_eq_mult)

lemma idt_create_gate:
  assumes "i < length entries"
  shows "\<exists>e. idt_create entries i offset flags = Inr (entries[i := e]) \<and> gate_offset e = offset \<and>
    ie_segment_selector e = 0x8 \<and> ie_flags e = ucast (flags AND 0xFF)"
  using assms
  by (intro exI [of _ "(entries ! i)\<lparr>ie_offset_1 := ucast (offset AND 0xFFFF),
      ie_offset_2 := ucast (drop_bit 16 offset AND 0xFFFF), ie_segment_selector := 0x8, ie_flags := ucast (flags AND 0xFF)\<rparr>"])
    (simp add: idt_create_def gate_offset_def u32_halves)

lemma isrs_loop_run:
  "i + length fs \<le> length entries \<Longrightarrow>
   \<exists>es. isrs_loop addr fs i entries = Inr es \<and> length es = length entries \<and>
     (\<forall>j < length entries. if i \<le> j \<and> j < i + length fs
        then gate_offset (es ! j) = addr (fs ! (j - i)) \<and> ie_segment_selector (es ! j) = 0x8 \<and> ie_flags (es ! j) = 0x8E
        else es ! j = entries ! j)"
proof (induction fs arbitrary: i entries)
  case (Cons f fs)
  obtain e where e: "idt_create entries i (addr f) (IDT_PRESENT OR IDT_32B_INT) = Inr (entries[i := e])"
      "gate_offset e = addr f" "ie_segment_selector e = 0x8" "ie_flags e = 0x8E"
    using idt_create_gate [of i entries "addr f" "IDT_PRESENT OR IDT_32B_INT"] Cons.prems
    by (auto simp: IDT_PRESENT_def IDT_32B_INT_def)
  obtain es where es: "isrs_loop addr fs (Suc i) (entries[i := e]) = Inr es" "length es = length entries"
     "\<forall>j < length entries. if Suc i \<le> j \<and> j < Suc i + length fs
        then gate_offset (es ! j) = addr (fs ! (j - Suc i)) \<and> ie_segment_selector (es ! j) = 0x8 \<and> ie_flags (es ! j) = 0x8E
        else es ! j = entries[i := e] ! j"
    using Cons.IH [of "Suc i" "entries[i := e]"] Cons.prems by auto
  have "if i \<le> j \<and> j < i + length (f # fs)
        then gate_offset (es ! j) = addr ((f # fs) ! (j - i)) \<and> ie_segment_selector (es ! j) = 0x8 \<and> ie_flags (es ! j) = 0x8E
        else es ! j = entries ! j" if j: "j < length entries" for j
  proof (cases "j = i")
    case True
    then show ?thesis
      using e es(3) j by simp
  next
    case False
    then show ?thesis
      using es(3) j by (auto simp: nth_Cons' split: if_splits)
  qed
  then show ?case
    using e(1) es(1,2) by simp
qed auto

text \<open>Fact [isrs_init_installs]: \<open>isrs_init\<close> makes each of the first 32 gates a present 32-bit interrupt gate into the kernel's code segment
  whose offset, as the processor puts it together, is the address of the handler in the same place of the table, and
  it leaves all other gates as they are.\<close>
theorem isrs_init_installs:
  assumes "32 \<le> length entries"
  shows "\<exists>es. isrs_init addr entries = Inr es \<and> length es = length entries \<and>
    (\<forall>i < length entries. if i < 32
       then gate_offset (es ! i) = addr (int_handlers ! i) \<and> ie_segment_selector (es ! i) = 0x8 \<and> ie_flags (es ! i) = 0x8E
       else es ! i = entries ! i)"
proof -
  have len: "take N_OF_EXCEPTIONS int_handlers = int_handlers" "length int_handlers = 32"
    by (simp_all add: N_OF_EXCEPTIONS_def int_handlers_def)
  then show ?thesis
    using isrs_loop_run [of 0 int_handlers entries addr] assms by (simp only: isrs_init_def len add_0 le0 simp_thms diff_zero)
qed

theorem isrs_init_installs_witness:
  "\<exists>es. isrs_init (\<lambda>f. if f = isrPF then 0xC0101234 else 0xC0100000) (fst (idt_init 0xD0000000)) = Inr es \<and>
     length es = 256 \<and> gate_offset (es ! 14) = 0xC0101234 \<and> ie_flags (es ! 14) = 0x8E"
proof -
  have len: "length (fst (idt_init 0xD0000000)) = 256"
    by (simp add: idt_init_def Let_def IDT_ENTRIES_def)
  then obtain es where es: "isrs_init (\<lambda>f. if f = isrPF then 0xC0101234 else 0xC0100000) (fst (idt_init 0xD0000000)) = Inr es"
      "length es = 256"
      "\<forall>i < 256. if i < 32
       then gate_offset (es ! i) = (\<lambda>f. if f = isrPF then 0xC0101234 else 0xC0100000) (int_handlers ! i) \<and>
         ie_segment_selector (es ! i) = 0x8 \<and> ie_flags (es ! i) = 0x8E
       else es ! i = fst (idt_init 0xD0000000) ! i"
    using isrs_init_installs [of "fst (idt_init 0xD0000000)" "\<lambda>f. if f = isrPF then 0xC0101234 else 0xC0100000"] by auto
  moreover from es(3) [rule_format, of 14] have "gate_offset (es ! 14) = 0xC0101234" "ie_flags (es ! 14) = 0x8E"
    by (simp_all add: int_handlers_def)
  ultimately show ?thesis
    by auto
qed

text \<open>The exceptions for which the processor pushes an error code.\<close>

definition pushes_code :: "nat set" where
  "pushes_code = {8, 10, 11, 12, 13, 14, 17, 21, 29, 30}"

lemmas isr_defs = INT_HANDLER_def INT_CODE_HANDLER_def then_eoi_def trap_handler_def fault_handler_def abort_handler_def
  code_fault_handler_def code_abort_handler_def page_fault_def

lemma all_less_32: "(\<forall>i < (32 :: nat). P i) \<longleftrightarrow> list_all P [0..<32]"
  by (auto simp: list_all_iff)

text \<open>C35 [isr_dispatch]: For every exception the handler in the table takes an error code from the stack exactly when the processor
  pushes one; only the handlers of debug exceptions, breakpoints and overflows return to the interrupted code, after an
  acknowledgement, and all others stop the kernel.\<close>
theorem isr_dispatch:
  "\<forall>i < 32. case handler_of cr2 (int_handlers ! i) of
     Plain h \<Rightarrow> i \<notin> pushes_code \<and> snd (h frame) = (if i \<in> {1, 3, 4} then Inr () else Inl Abort) \<and>
       (EOI \<in> set (fst (h frame)) \<longleftrightarrow> i \<in> {1, 3, 4})
   | Coded h \<Rightarrow> i \<in> pushes_code \<and> snd (h frame code) = Inl Abort \<and> ReportCode code \<in> set (fst (h frame code))"
  unfolding all_less_32 by (simp add: upt_rec int_handlers_def pushes_code_def isr_defs)

theorem isr_dispatch_witness:
  "snd (page_fault 0xDEADBEEF \<lparr>fr_eip = 0x1000, fr_cs = 8, fr_eflags = 2, fr_esp = 0, fr_ss = 0\<rparr> 2) = Inl Abort"
  using isr_dispatch [of "\<lparr>fr_eip = 0x1000, fr_cs = 8, fr_eflags = 2, fr_esp = 0, fr_ss = 0\<rparr>" 2 "0xDEADBEEF", THEN spec, of 14]
  by (simp add: int_handlers_def)

text \<open>C34 [gdt_init_segments]: The table that \<open>gdt_init\<close> builds is well formed: a null descriptor, the four code and data segments of kernel and
  user, each of 4 GiB from 0 with the privilege 0 or 3 and the type its place means, and the segment of the task state, whose
  104 bytes it covers exactly; the table's pointer covers its six entries.\<close>
theorem gdt_init_segments:
  "(case gdt_init addr tss of (es, p) \<Rightarrow>
     length es = 6 \<and> gp_offset p = addr \<and> unat (gp_size p) + 1 = 8 * length es \<and>
     es ! 0 = \<lparr>ge_limit = 0, ge_base_1 = 0, ge_base_2 = 0, ge_access = 0, ge_flags_limit = 0, ge_base_3 = 0\<rparr> \<and>
     map seg_base (take 4 (drop 1 es)) = [0, 0, 0, 0] \<and>
     map seg_limit (take 4 (drop 1 es)) = [0xFFFFFFFF, 0xFFFFFFFF, 0xFFFFFFFF, 0xFFFFFFFF] \<and>
     map seg_dpl (take 4 (drop 1 es)) = [0, 0, 3, 3] \<and>
     map ge_access (take 4 (drop 1 es)) = [0x9A, 0x92, 0xFA, 0xF2] \<and>
     seg_base (es ! 5) = tss \<and> seg_limit (es ! 5) = sizeof_tss_t - 1 \<and> ge_access (es ! 5) = 0x89)"
proof -
  have small: "(0xFFFFF :: u32) < 0x100000" "GDT_SIZE OR GDT_GRAN < 16" "bit (GDT_SIZE OR GDT_GRAN) 3"
    by (simp_all add: GDT_SIZE_def GDT_GRAN_def bit_iff_odd)
  have flat: "seg_limit (gdt_create 0 0xFFFFF (GDT_SIZE OR GDT_GRAN) access) = 0xFFFFFFFF" for access
    using seg_limit_create [OF small(1,2)] small(3) by (simp add: push_bit_eq_mult)
  have tss: "seg_limit (gdt_create tss (sizeof_tss_t - 1) 0 access) = sizeof_tss_t - 1" for access
    using seg_limit_create [of "sizeof_tss_t - 1" 0] by (simp add: sizeof_tss_t_def)
  have null: "gdt_create 0 0 0 0 = \<lparr>ge_limit = 0, ge_base_1 = 0, ge_base_2 = 0, ge_access = 0, ge_flags_limit = 0, ge_base_3 = 0\<rparr>"
    by (simp add: gdt_create_def Let_def)
  have access: "map ucast gdt_access_table = [0x9A, 0x92, 0xFA, 0xF2 :: u8]"
    "ucast (GDT_ACCESS OR GDT_EXEC OR GDT_DPL0 OR GDT_PRESENT) = (0x89 :: u8)"
    by (simp_all add: gdt_access_table_def gdt_access_bits)
  then have accs: "ucast (gdt_access_table ! 0) = (0x9A :: u8)" "ucast (gdt_access_table ! 1) = (0x92 :: u8)"
    "ucast (gdt_access_table ! 2) = (0xFA :: u8)" "ucast (gdt_access_table ! 3) = (0xF2 :: u8)"
    by (simp_all add: gdt_access_table_def)
  have four: "[Suc 0..<5] = [Suc 0, 2, 3, 4]"
    by (simp add: upt_rec)
  show ?thesis
    by (simp add: gdt_init_def Let_def GDT_ENTRIES_def four flat tss null seg_dpl_def accs [simplified] access(2))
qed

text \<open>Fact [tss_stack_in_page]: The stack on which the kernel is entered from user mode starts 1023 bytes into the page allocated for it, at an odd
  address, and not at the last double word of the page.\<close>
theorem tss_stack_in_page:
  "tss_esp0 (tss_init stack) = stack + 1023 \<and> tss_esp0 (tss_init stack) \<noteq> stack + 4092"
  by (simp add: tss_init_def PAGE_LAST_DWORD_def)

end
