(* ===== verification/Acpi.thy ===== *)
theory Acpi
  imports LibcString
begin

text \<open>
  The search of the firmware's tables, \<open>src/kernel/drivers/rsdt.c\<close>.  Physical memory is a function from
  addresses to bytes; the pages that the code asks to be mapped onto themselves are a list of requests.  A pointer
  that runs over the end of the address space is a \<open>BadAccess\<close>.

  Shown here: the search of a range returns the first candidate with the signature, a lookup returns the first table
  with the signature, and where the search and the checksum differ from what the comments say.
\<close>

section \<open>Memory\<close>

definition mem_bytes :: "mem \<Rightarrow> ptr \<Rightarrow> nat \<Rightarrow> u8 list" where
  "mem_bytes m a n = map (\<lambda>i. m (a + of_nat i)) [0..<n]"

definition rd8m :: "mem \<Rightarrow> ptr \<Rightarrow> u8" where
  "rd8m m a = m a"

definition rd32m :: "mem \<Rightarrow> ptr \<Rightarrow> u32" where
  "rd32m m a = ucast (m a) OR push_bit 8 (ucast (m (a + 1))) OR push_bit 16 (ucast (m (a + 2))) OR push_bit 24 (ucast (m (a + 3)))"

lemma length_mem_bytes [simp]: "length (mem_bytes m a n) = n"
  by (simp add: mem_bytes_def)

section \<open>Tables\<close>

text \<open>"RSD PTR " with its eight characters.\<close>

definition RSDP_SIGNATURE :: "u8 list" where "RSDP_SIGNATURE = [82, 83, 68, 32, 80, 84, 82, 32]"
definition RSDP_SIGNATURE_SIZE :: nat where "RSDP_SIGNATURE_SIZE = 8"
definition RSDT_SIGNATURE_SIZE :: nat where "RSDT_SIGNATURE_SIZE = 4"
definition EBDA_START :: u32 where "EBDA_START = 0x40E"
definition MAIN_BIOS_START :: u32 where "MAIN_BIOS_START = 0xE0000"
definition MAIN_BIOS_END :: u32 where "MAIN_BIOS_END = 0xFFFFF"

text \<open>The fields of the packed descriptor that the code reads, by their offsets.\<close>

definition rsdp_revision :: "mem \<Rightarrow> ptr \<Rightarrow> u8" where "rsdp_revision m p = rd8m m (p + 15)"
definition rsdp_rsdt_addr :: "mem \<Rightarrow> ptr \<Rightarrow> u32" where "rsdp_rsdt_addr m p = rd32m m (p + 16)"

text \<open>The 64-bit address is cut to 32 bits.\<close>

definition rsdp_xsdt_addr :: "mem \<Rightarrow> ptr \<Rightarrow> u32" where "rsdp_xsdt_addr m p = rd32m m (p + 24)"

definition header_length :: "mem \<Rightarrow> ptr \<Rightarrow> u32" where "header_length m p = rd32m m (p + 4)"

definition sizeof_rsdp :: nat where "sizeof_rsdp = 20"
definition sizeof_rsdp20 :: nat where "sizeof_rsdp20 = 36"
definition sizeof_std_header :: u32 where "sizeof_std_header = 36"
definition sizeof_rsdt :: u32 where "sizeof_rsdt = 40"

record acpi =
  ac_rsdt :: ptr
  ac_maps :: "(u32 \<times> u32) list"

section \<open>Operations\<close>

lemma unat_plus16: "\<not> start + 16 < (start :: u32) \<Longrightarrow> unat (start + 16) = unat start + 16"
  using unat_u32_lt [of start] by (auto simp: word_less_nat_alt unat_word_ariths mod_if split: if_splits)

function rsdp_check :: "mem \<Rightarrow> ptr \<Rightarrow> ptr \<Rightarrow> ptr res" where
  "rsdp_check m start end' =
     (if start < end' then
        rbind (memcmp (mem_bytes m start RSDP_SIGNATURE_SIZE) RSDP_SIGNATURE RSDP_SIGNATURE_SIZE) (\<lambda>c.
        if c = 0 then Inr start
        else if start + 16 < start then Inl BadAccess
        else rsdp_check m (start + 16) end')
      else Inr NULL)"
  by pat_completeness auto

termination
  by (relation "measure (\<lambda>(_, start, end'). unat end' - unat start)")
    (auto simp: unat_plus16 word_less_nat_alt)

declare rsdp_check.simps [simp del]

definition rsdp_find :: "mem \<Rightarrow> ptr res" where
  "rsdp_find m =
     rbind (rsdp_check m EBDA_START (EBDA_START + 1024)) (\<lambda>descriptor.
     if descriptor \<noteq> NULL then Inr descriptor
     else rbind (rsdp_check m MAIN_BIOS_START MAIN_BIOS_END) (\<lambda>descriptor.
       if descriptor \<noteq> NULL then Inr descriptor else Inr NULL))"

fun sum_bytes :: "mem \<Rightarrow> ptr \<Rightarrow> nat \<Rightarrow> u8 \<Rightarrow> u8" where
  "sum_bytes m start 0 acc = acc"
| "sum_bytes m start (Suc n) acc = sum_bytes m (start + 1) n (acc + m start)"

definition rsdp_checksum :: "mem \<Rightarrow> ptr \<Rightarrow> u8 \<Rightarrow> u32" where
  "rsdp_checksum m p version =
     (let acc = sum_bytes m p sizeof_rsdp 0 in
      if version = 0 \<or> acc AND 1 \<noteq> 0 then NOT (ucast acc) AND 1
      else
        let acc = sum_bytes m (p + of_nat sizeof_rsdp) (sizeof_rsdp20 - sizeof_rsdp) 0 in
        NOT (ucast acc) AND 1)"

text \<open>The end of the table is a pointer: when it wraps around, the loop does not run.\<close>

definition rsdt_checksum :: "mem \<Rightarrow> ptr \<Rightarrow> bool" where
  "rsdt_checksum m rsdt =
     (let end' = rsdt + header_length m rsdt in
      sum_bytes m rsdt (if rsdt < end' then unat (header_length m rsdt) else 0) 0 = 0)"

text \<open>The loop over the \<open>n\<close> pointers that follow the header.\<close>

fun rsdt_search :: "mem \<Rightarrow> ptr \<Rightarrow> u8 list \<Rightarrow> nat \<Rightarrow> ptr res" where
  "rsdt_search m entry signature 0 = Inr NULL"
| "rsdt_search m entry signature (Suc n) =
     rbind (memcmp (mem_bytes m (rd32m m entry) RSDT_SIGNATURE_SIZE) signature RSDT_SIGNATURE_SIZE) (\<lambda>c.
     if c = 0 then Inr (rd32m m entry) else rsdt_search m (entry + 4) signature n)"

definition rsdt_entries :: "mem \<Rightarrow> ptr \<Rightarrow> nat" where
  "rsdt_entries m rsdt = unat ((header_length m rsdt - sizeof_std_header) div 4)"

definition rsdt_get_entry :: "mem \<Rightarrow> ptr \<Rightarrow> u8 list \<Rightarrow> ptr res" where
  "rsdt_get_entry m rsdt signature =
     (if rsdt = NULL then Inl BadAccess
      else
        let entry = rsdt + sizeof_std_header; entries = rsdt_entries m rsdt; last' = entry + 4 * of_nat entries in
        rsdt_search m entry signature (if entry < last' then entries else 0))"

text \<open>The result says whether the set-up was reported as complete; a wrong checksum of the table changes nothing else.\<close>

definition rsdt_init :: "mem \<Rightarrow> acpi \<Rightarrow> (bool \<times> acpi) res" where
  "rsdt_init m s =
     rbind (rsdp_find m) (\<lambda>d.
     if d = NULL then Inr (False, s)
     else if rsdp_checksum m d (rsdp_revision m d) = 0 then Inr (False, s)
     else
       let rsdt_addr = (if rsdp_revision m d \<noteq> 0 then rsdp_xsdt_addr m d else rsdp_rsdt_addr m d);
           s = s\<lparr>ac_rsdt := rsdt_addr, ac_maps := ac_maps s @ [(rsdt_addr, sizeof_rsdt)]\<rparr> in
       Inr (rsdt_checksum m rsdt_addr, s))"

section \<open>Properties\<close>

lemma memcmp_mem:
  assumes "length sig = n"
  shows "\<exists>c. memcmp (mem_bytes m a n) sig n = Inr c \<and> (c = 0 \<longleftrightarrow> mem_bytes m a n = sig)"
  using memcmp_take [of n "mem_bytes m a n" sig] assms by simp

lemma length_RSDP_SIGNATURE [simp]: "length RSDP_SIGNATURE = RSDP_SIGNATURE_SIZE"
  by (simp add: RSDP_SIGNATURE_def RSDP_SIGNATURE_SIZE_def)

definition rsdp_at :: "mem \<Rightarrow> ptr \<Rightarrow> bool" where
  "rsdp_at m a \<longleftrightarrow> mem_bytes m a RSDP_SIGNATURE_SIZE = RSDP_SIGNATURE"

text \<open>The candidates of the search from \<open>start\<close>, 16 bytes apart.\<close>

definition cand :: "ptr \<Rightarrow> nat \<Rightarrow> ptr" where
  "cand start k = start + of_nat (16 * k)"

lemma cand_Suc: "cand start (Suc k) = cand (start + 16) k"
  by (simp add: cand_def algebra_simps)

lemma cand_0 [simp]: "cand start 0 = start"
  by (simp add: cand_def)

lemma all_nat_split: "(\<forall>k. P k) \<longleftrightarrow> P 0 \<and> (\<forall>k. P (Suc k))"
  by (metis not0_implies_Suc)

lemma rsdp_check_step:
  "rsdp_check m start end' =
     (if start < end' then
        if rsdp_at m start then Inr start
        else if start + 16 < start then Inl BadAccess
        else rsdp_check m (start + 16) end'
      else Inr NULL)"
proof -
  obtain c where "memcmp (mem_bytes m start RSDP_SIGNATURE_SIZE) RSDP_SIGNATURE RSDP_SIGNATURE_SIZE = Inr c"
      "c = 0 \<longleftrightarrow> rsdp_at m start"
    using memcmp_mem [OF length_RSDP_SIGNATURE] unfolding rsdp_at_def by blast
  then show ?thesis
    by (subst rsdp_check.simps) simp
qed

lemma no_wrap16: "unat end' \<le> 0xFFFFFFF0 \<Longrightarrow> start < end' \<Longrightarrow> \<not> start + 16 < (start :: u32)"
  by (simp add: word_less_nat_alt unat_word_ariths take_bit_nat_eq_self)

text \<open>Fact [rsdp_check_first]: The search for the root descriptor always ends.  It returns the first of the addresses, 16 bytes apart from the start of the
  range, at which the eight bytes of the signature stand, or a null pointer when none of those in the range has it; the
  range may be anything that ends 16 bytes before the end of memory.\<close>
theorem rsdp_check_first:
  assumes "unat end' \<le> 0xFFFFFFF0"
  shows "\<exists>p. rsdp_check m start end' = Inr p \<and>
    ((\<exists>k. p = cand start k \<and> unat start + 16 * k < unat end' \<and> rsdp_at m p \<and> (\<forall>j < k. \<not> rsdp_at m (cand start j))) \<or>
     (p = NULL \<and> (\<forall>k. unat start + 16 * k < unat end' \<longrightarrow> \<not> rsdp_at m (cand start k))))"
  using assms
proof (induction m start end' rule: rsdp_check.induct)
  case (1 m start end')
  show ?case
  proof (cases "start < end' \<and> \<not> rsdp_at m start")
    case True
    then have nw: "\<not> start + 16 < start" and u: "unat (start + 16) = unat start + 16"
      using no_wrap16 [OF 1(2)] unat_plus16 by blast+
    obtain c where c: "memcmp (mem_bytes m start RSDP_SIGNATURE_SIZE) RSDP_SIGNATURE RSDP_SIGNATURE_SIZE = Inr c" "c \<noteq> 0"
      using memcmp_mem [OF length_RSDP_SIGNATURE, of m start] True unfolding rsdp_at_def by auto
    obtain p where p: "rsdp_check m (start + 16) end' = Inr p"
      "(\<exists>k. p = cand (start + 16) k \<and> unat (start + 16) + 16 * k < unat end' \<and> rsdp_at m p \<and>
          (\<forall>j < k. \<not> rsdp_at m (cand (start + 16) j))) \<or>
       (p = NULL \<and> (\<forall>k. unat (start + 16) + 16 * k < unat end' \<longrightarrow> \<not> rsdp_at m (cand (start + 16) k)))"
      using 1(1) [OF _ c nw 1(2)] True by blast
    have run: "rsdp_check m start end' = Inr p"
      using True nw p(1) by (subst rsdp_check_step) simp
    from p(2) show ?thesis
    proof
      assume "\<exists>k. p = cand (start + 16) k \<and> unat (start + 16) + 16 * k < unat end' \<and> rsdp_at m p \<and>
          (\<forall>j < k. \<not> rsdp_at m (cand (start + 16) j))"
      then obtain k where "p = cand start (Suc k)" "unat start + 16 * Suc k < unat end'" "rsdp_at m p"
          "\<forall>j < k. \<not> rsdp_at m (cand start (Suc j))"
        by (auto simp: u cand_Suc)
      then show ?thesis
        using run True by (metis cand_0 less_Suc_eq_0_disj)
    next
      assume "p = NULL \<and> (\<forall>k. unat (start + 16) + 16 * k < unat end' \<longrightarrow> \<not> rsdp_at m (cand (start + 16) k))"
      then have "p = NULL" "\<forall>k. unat start + 16 * k < unat end' \<longrightarrow> \<not> rsdp_at m (cand start k)"
        using True by (auto simp: u all_nat_split [of "\<lambda>k. unat start + 16 * k < unat end' \<longrightarrow> _ k"] cand_Suc)
      then show ?thesis
        using run by blast
    qed
  next
    case False
    then show ?thesis
      by (subst rsdp_check_step) (auto simp: word_less_nat_alt intro!: exI [of _ "0 :: nat"])
  qed
qed

lemma rsdt_search_find:
  assumes "length sig = RSDT_SIGNATURE_SIZE"
  shows "rsdt_search m entry sig n =
    Inr (case find (\<lambda>p. mem_bytes m p RSDT_SIGNATURE_SIZE = sig) (map (\<lambda>i. rd32m m (entry + 4 * of_nat i)) [0..<n]) of
      None \<Rightarrow> NULL | Some p \<Rightarrow> p)"
proof (induction n arbitrary: entry)
  case (Suc n)
  have shift: "map (\<lambda>i. rd32m m (entry + 4 * of_nat i)) [0..<Suc n] =
    rd32m m entry # map (\<lambda>i. rd32m m (entry + 4 + 4 * of_nat i)) [0..<n]"
    by (simp add: upt_conv_Cons map_Suc_upt [symmetric] algebra_simps del: upt_Suc)
  obtain c where "memcmp (mem_bytes m (rd32m m entry) RSDT_SIGNATURE_SIZE) sig RSDT_SIGNATURE_SIZE = Inr c"
      "c = 0 \<longleftrightarrow> mem_bytes m (rd32m m entry) RSDT_SIGNATURE_SIZE = sig"
    using memcmp_mem [OF assms] by blast
  then show ?case
    unfolding shift by (simp add: Suc.IH)
qed simp

text \<open>The table pointers behind the header of a root table.\<close>

definition root_tables :: "mem \<Rightarrow> ptr \<Rightarrow> ptr list" where
  "root_tables m rsdt = map (\<lambda>i. rd32m m (rsdt + 36 + 4 * of_nat i)) [0..<rsdt_entries m rsdt]"

text \<open>C36 [rsdt_get_entry_first]: For a root table that does not run over the end of memory, \<open>rsdt_get_entry\<close> returns the first of the pointers behind its
  header at which a table with the given signature stands, and a null pointer when there is none.\<close>
theorem rsdt_get_entry_first:
  assumes "rsdt \<noteq> NULL" and "unat rsdt + 36 + 4 * rsdt_entries m rsdt < 2 ^ 32" and "length sig = RSDT_SIGNATURE_SIZE"
  shows "rsdt_get_entry m rsdt sig =
    Inr (case find (\<lambda>p. mem_bytes m p RSDT_SIGNATURE_SIZE = sig) (root_tables m rsdt) of None \<Rightarrow> NULL | Some p \<Rightarrow> p)"
proof -
  have u: "unat (rsdt + 36) = unat rsdt + 36"
    using assms(2) by (simp add: unat_word_ariths take_bit_nat_eq_self)
  have "unat (4 * of_nat (rsdt_entries m rsdt) :: u32) = 4 * rsdt_entries m rsdt"
    using assms(2) by (simp add: unat_word_ariths take_bit_nat_eq_self unat_of_nat)
  then have "unat (rsdt + 36 + 4 * of_nat (rsdt_entries m rsdt)) = unat rsdt + 36 + 4 * rsdt_entries m rsdt"
    using u assms(2) by (simp add: unat_word_ariths(1) [of "rsdt + 36"] take_bit_nat_eq_self)
  then have "(if rsdt + 36 < rsdt + 36 + 4 * of_nat (rsdt_entries m rsdt) then rsdt_entries m rsdt else 0) = rsdt_entries m rsdt"
    using u by (simp add: word_less_nat_alt)
  then show ?thesis
    using assms(1,3) by (simp add: rsdt_get_entry_def Let_def sizeof_std_header_def rsdt_search_find root_tables_def)
qed

section \<open>A firmware image\<close>

definition put_bytes :: "ptr \<Rightarrow> u8 list \<Rightarrow> mem \<Rightarrow> mem" where
  "put_bytes a bs m = (\<lambda>x. if unat (x - a) < length bs then bs ! unat (x - a) else m x)"

text \<open>A root descriptor at \<open>0xE0010\<close>, a root table at \<open>0x1000\<close> and the two tables it lists.\<close>

definition firmware :: mem where
  "firmware =
     put_bytes 0xE0010 (RSDP_SIGNATURE @ [0, 0, 0, 0, 0, 0, 0, 0, 0, 0x10, 0, 0])
    (put_bytes 0x1000 ([82, 83, 68, 84, 44, 0, 0, 0] @ replicate 28 0 @ [0, 0x20, 0, 0, 0, 0x30, 0, 0])
    (put_bytes 0x2000 [72, 80, 69, 84] (put_bytes 0x3000 [65, 80, 73, 67] (\<lambda>_. 0))))"

lemmas firmware_defs = firmware_def put_bytes_def mem_bytes_def RSDP_SIGNATURE_def RSDP_SIGNATURE_SIZE_def
  RSDT_SIGNATURE_SIZE_def rd32m_def header_length_def

theorem rsdp_check_first_witness:
  "\<exists>k. rsdp_check firmware 0xE0000 0xFFFFF = Inr (cand 0xE0000 k) \<and> k \<le> 1"
proof -
  have at: "rsdp_at firmware (cand 0xE0000 1)"
    by (simp add: rsdp_at_def cand_def firmware_defs upt_rec)
  obtain p where p: "rsdp_check firmware 0xE0000 0xFFFFF = Inr p"
    "(\<exists>k. p = cand 0xE0000 k \<and> unat (0xE0000 :: u32) + 16 * k < unat (0xFFFFF :: u32) \<and> rsdp_at firmware p \<and>
        (\<forall>j < k. \<not> rsdp_at firmware (cand 0xE0000 j))) \<or>
     (p = NULL \<and> (\<forall>k. unat (0xE0000 :: u32) + 16 * k < unat (0xFFFFF :: u32) \<longrightarrow> \<not> rsdp_at firmware (cand 0xE0000 k)))"
    using rsdp_check_first [of "0xFFFFF" firmware "0xE0000"] by auto
  from p(2) have "\<exists>k. p = cand 0xE0000 k \<and> (\<forall>j < k. \<not> rsdp_at firmware (cand 0xE0000 j))"
    using at by (auto dest: spec [of _ "1 :: nat"])
  then show ?thesis
    using p(1) at by (metis not_le)
qed

theorem rsdt_get_entry_first_witness:
  "rsdt_get_entry firmware 0x1000 [65, 80, 73, 67] = Inr 0x3000"
proof -
  have n: "rsdt_entries firmware 0x1000 = 2"
    by (simp add: rsdt_entries_def sizeof_std_header_def firmware_defs)
  have t: "root_tables firmware 0x1000 = [0x2000, 0x3000]"
    by (simp add: root_tables_def n upt_rec) (simp add: firmware_defs nth_append)
  have hpet: "mem_bytes firmware 0x2000 RSDT_SIGNATURE_SIZE = [72, 80, 69, 84]"
    by (simp add: firmware_defs upt_rec)
  have apic: "mem_bytes firmware 0x3000 RSDT_SIGNATURE_SIZE = [65, 80, 73, 67]"
    by (simp add: firmware_defs upt_rec)
  show ?thesis
    using rsdt_get_entry_first [of "0x1000" firmware "[65, 80, 73, 67]"]
    by (simp add: n t hpet [unfolded RSDT_SIGNATURE_SIZE_def] apic [unfolded RSDT_SIGNATURE_SIZE_def] RSDT_SIGNATURE_SIZE_def)
qed

section \<open>Departures\<close>

text \<open>Fact [rsdp_checksum_parity]: The checksum of the root descriptor is accepted whenever the sum of its bytes is even, where a valid descriptor has
  the sum 0.\<close>
theorem rsdp_checksum_parity:
  "rsdp_checksum m p 0 \<noteq> 0 \<longleftrightarrow> even (unat (sum_bytes m p sizeof_rsdp 0))"
proof -
  have "(NOT (ucast (x :: u8)) AND 1 :: u32) \<noteq> 0 \<longleftrightarrow> even (unat x)" for x
  proof -
    have "odd (unat x) \<longleftrightarrow> odd x"
      using unat_mod [of x 2] by (simp add: even_iff_mod_2_eq_zero word_unat_eq_iff)
    moreover have "odd (NOT (ucast x) :: u32) \<longleftrightarrow> even x"
      by (simp add: bit_0 [symmetric] bit_simps) (simp add: bit_0)
    ultimately show ?thesis
      by (metis and_one_eq even_iff_mod_2_eq_zero)
  qed
  then show ?thesis
    by (simp add: rsdp_checksum_def Let_def)
qed

text \<open>Fact [rsdp_ebda_unaligned]: None of the addresses that are searched in the extended BIOS data area is a multiple of 16, where the descriptor
  always stands.\<close>
theorem rsdp_ebda_unaligned: "k < 64 \<Longrightarrow> unat (cand EBDA_START k) mod 16 = 14"
  by (simp add: cand_def EBDA_START_def unat_word_ariths unat_of_nat take_bit_nat_eq_self)

end
