(* ===== verification/Ports.thy ===== *)
theory Ports
  imports BulbPrelude
begin

text \<open>
  Devices behind input and output ports: the legacy interrupt controller (\<open>src/kernel/int/pic.c\<close>), the PS/2 controller
  (\<open>src/kernel/drivers/ps2controller.c\<close>) and the serial port (\<open>src/kernel/io/serialport.c\<close>).  What a port
  delivers is a list, taken in order; a port from which nothing more comes makes the code wait for ever.  What is sent is a
  log of ports and bytes in the order of the writes.

  Shown here: what is sent over the serial line for a text, and that sending ends as soon as the line was ready
  often enough; the registers that the set-up of the serial port programs; the configuration that the set-up of the PS/2
  controller leaves; the lines that the interrupt controller masks.
\<close>

section \<open>Ports\<close>

record ports =
  pt_in :: "u16 \<Rightarrow> u8 list"
  pt_log :: "(u16 \<times> u8) list"

definition outb :: "ports \<Rightarrow> u8 \<Rightarrow> u16 \<Rightarrow> ports" where
  "outb s value port = s\<lparr>pt_log := pt_log s @ [(port, value)]\<rparr>"

definition inb :: "ports \<Rightarrow> u16 \<Rightarrow> (u8 \<times> ports) res" where
  "inb s port =
     (case pt_in s port of
        [] \<Rightarrow> Inl Hang
      | v # vs \<Rightarrow> Inr (v, s\<lparr>pt_in := (pt_in s)(port := vs)\<rparr>))"

definition io_wait :: "ports \<Rightarrow> ports" where
  "io_wait s = outb s 0 0x80"

section \<open>The legacy interrupt controller\<close>

definition PIC_ICW1_ICW4 :: u8 where "PIC_ICW1_ICW4 = 0x01"
definition PIC_ICW1_INIT :: u8 where "PIC_ICW1_INIT = 0x10"
definition PIC_ICW4_8086 :: u8 where "PIC_ICW4_8086 = 0x01"
definition PIC1 :: u16 where "PIC1 = 0x20"
definition PIC2 :: u16 where "PIC2 = 0xA0"
definition PIC1_COMMAND :: u16 where "PIC1_COMMAND = PIC1"
definition PIC2_COMMAND :: u16 where "PIC2_COMMAND = PIC2"
definition PIC1_DATA :: u16 where "PIC1_DATA = PIC1 + 1"
definition PIC2_DATA :: u16 where "PIC2_DATA = PIC2 + 1"
definition NEW_MAIN_OFFSET :: u8 where "NEW_MAIN_OFFSET = 0x20"
definition NEW_SECONDARY_OFFSET :: u8 where "NEW_SECONDARY_OFFSET = 0x28"

lemmas pic_consts = PIC_ICW1_ICW4_def PIC_ICW1_INIT_def PIC_ICW4_8086_def PIC1_def PIC2_def PIC1_COMMAND_def
  PIC2_COMMAND_def PIC1_DATA_def PIC2_DATA_def NEW_MAIN_OFFSET_def NEW_SECONDARY_OFFSET_def

text \<open>The port of a line and its place there, chosen the same way in both functions.\<close>

definition pic_line :: "u8 \<Rightarrow> u16 \<times> u8" where
  "pic_line index = (if index < 8 then (PIC1_DATA, index) else (PIC2_DATA, index - 8))"

definition pic_setmask :: "ports \<Rightarrow> u8 \<Rightarrow> ports res" where
  "pic_setmask s index =
     (let (port, index) = pic_line index in
      rbind (inb s port) (\<lambda>(v, s).
        Inr (outb s (v OR ucast (push_bit (unat index) 1 :: u32)) port)))"

definition pic_clearmask :: "ports \<Rightarrow> u8 \<Rightarrow> ports res" where
  "pic_clearmask s index =
     (let (port, index) = pic_line index in
      rbind (inb s port) (\<lambda>(v, s).
        Inr (outb s (v AND ucast (NOT (push_bit (unat index) 1) :: u32)) port)))"

definition pic_init :: "ports \<Rightarrow> ports" where
  "pic_init s =
     (let s = outb s (PIC_ICW1_INIT OR PIC_ICW1_ICW4) PIC1_COMMAND; s = io_wait s;
          s = outb s (PIC_ICW1_INIT OR PIC_ICW1_ICW4) PIC2_COMMAND; s = io_wait s;
          s = outb s NEW_MAIN_OFFSET PIC1_DATA; s = io_wait s;
          s = outb s NEW_SECONDARY_OFFSET PIC2_DATA; s = io_wait s;
          s = outb s 4 PIC1_DATA; s = io_wait s;
          s = outb s 2 PIC2_DATA; s = io_wait s;
          s = outb s PIC_ICW4_8086 PIC1_DATA; s = io_wait s;
          s = outb s PIC_ICW4_8086 PIC2_DATA; s = io_wait s;
          s = outb s 0xFF PIC1_DATA;
          s = outb s 0xFF PIC2_DATA in s)"

definition pic_sendEOI :: "ports \<Rightarrow> u8 \<Rightarrow> ports" where
  "pic_sendEOI s irq =
     (let s = (if 8 \<le> irq then outb s 0x20 PIC2_COMMAND else s) in outb s 0x20 PIC1_COMMAND)"

section \<open>The PS/2 controller\<close>

definition PS2_CMD_READ_BYTE :: u8 where "PS2_CMD_READ_BYTE = 0x20"
definition PS2_CMD_WRITE_BYTE :: u8 where "PS2_CMD_WRITE_BYTE = 0x60"
definition PS2_CMD_DISABLE2 :: u8 where "PS2_CMD_DISABLE2 = 0xA7"
definition PS2_CMD_ENABLE2 :: u8 where "PS2_CMD_ENABLE2 = 0xA8"
definition PS2_CMD_TEST2 :: u8 where "PS2_CMD_TEST2 = 0xA9"
definition PS2_CMD_TEST_CTRL :: u8 where "PS2_CMD_TEST_CTRL = 0xAA"
definition PS2_CMD_TEST1 :: u8 where "PS2_CMD_TEST1 = 0xAB"
definition PS2_CMD_DISABLE1 :: u8 where "PS2_CMD_DISABLE1 = 0xAD"
definition PS2_CMD_ENABLE1 :: u8 where "PS2_CMD_ENABLE1 = 0xAE"
definition PS2_REG_INT1 :: u8 where "PS2_REG_INT1 = 1"
definition PS2_REG_TRANSLAT :: u8 where "PS2_REG_TRANSLAT = 64"
definition PS2_DATAPORT :: u16 where "PS2_DATAPORT = 0x60"
definition PS2_STATUSREG :: u16 where "PS2_STATUSREG = 0x64"
definition PS2_COMMANDREG :: u16 where "PS2_COMMANDREG = 0x64"

lemmas ps2_consts = PS2_CMD_READ_BYTE_def PS2_CMD_WRITE_BYTE_def PS2_CMD_DISABLE2_def PS2_CMD_ENABLE2_def PS2_CMD_TEST2_def
  PS2_CMD_TEST_CTRL_def PS2_CMD_TEST1_def PS2_CMD_DISABLE1_def PS2_CMD_ENABLE1_def PS2_REG_INT1_def PS2_REG_TRANSLAT_def
  PS2_DATAPORT_def PS2_STATUSREG_def PS2_COMMANDREG_def

text \<open>Polling: read the port until the test holds.  Every round takes one value.\<close>

fun poll_in :: "(u8 \<Rightarrow> bool) \<Rightarrow> u8 list \<Rightarrow> (u8 \<times> u8 list) option" where
  "poll_in ready [] = None"
| "poll_in ready (v # vs) = (if ready v then Some (v, vs) else poll_in ready vs)"

definition poll :: "ports \<Rightarrow> u16 \<Rightarrow> (u8 \<Rightarrow> bool) \<Rightarrow> ports res" where
  "poll s port ready =
     (case poll_in ready (pt_in s port) of
        None \<Rightarrow> Inl Hang
      | Some (v, vs) \<Rightarrow> Inr (s\<lparr>pt_in := (pt_in s)(port := vs)\<rparr>))"

definition ps2_getresponse :: "ports \<Rightarrow> (u8 \<times> ports) res" where
  "ps2_getresponse s =
     rbind (poll s PS2_STATUSREG (\<lambda>v. v AND 0x1 \<noteq> 0)) (\<lambda>s. inb s PS2_DATAPORT)"

definition ps2_sendnextbyte :: "ports \<Rightarrow> u8 \<Rightarrow> ports res" where
  "ps2_sendnextbyte s byte =
     rbind (poll s PS2_STATUSREG (\<lambda>v. v AND 0x2 = 0)) (\<lambda>s. Inr (outb s byte PS2_DATAPORT))"

text \<open>An unexpected answer is only printed; the second component says whether it was the expected one.\<close>

definition ps2_sendcommand :: "ports \<Rightarrow> u8 \<Rightarrow> u8 \<Rightarrow> (bool \<times> ports) res" where
  "ps2_sendcommand s command expected_res =
     rbind (ps2_getresponse (outb s command PS2_COMMANDREG)) (\<lambda>(ret, s). Inr (ret = expected_res, s))"

function ps2_flushbuffer :: "ports \<Rightarrow> ports res" where
  "ps2_flushbuffer s =
     rbind (inb s PS2_STATUSREG) (\<lambda>(v, s).
     if v AND 0x1 \<noteq> 0 then rbind (inb s PS2_DATAPORT) (\<lambda>(_, s). ps2_flushbuffer s) else Inr s)"
  by pat_completeness auto

termination
  by (relation "measure (\<lambda>s. length (pt_in s PS2_STATUSREG))")
    (auto simp: inb_def ps2_consts split: list.splits)

declare ps2_flushbuffer.simps [simp del]

definition ps2_setconfigbyte :: "ports \<Rightarrow> ports res" where
  "ps2_setconfigbyte s =
     rbind (ps2_getresponse (outb s (PS2_CMD_READ_BYTE + 0) PS2_COMMANDREG)) (\<lambda>(config_byte, s).
     let config_byte = config_byte OR PS2_REG_INT1;
         config_byte = config_byte AND NOT PS2_REG_TRANSLAT in
     ps2_sendnextbyte (outb s (PS2_CMD_WRITE_BYTE + 0) PS2_COMMANDREG) config_byte)"

definition ps2_init :: "ports \<Rightarrow> ports res" where
  "ps2_init s =
     (let s = outb s PS2_CMD_DISABLE1 PS2_COMMANDREG; s = outb s PS2_CMD_DISABLE2 PS2_COMMANDREG in
      rbind (ps2_flushbuffer s) (\<lambda>s.
      rbind (ps2_sendcommand s PS2_CMD_TEST_CTRL 0x55) (\<lambda>(_, s).
      rbind (ps2_setconfigbyte s) (\<lambda>s.
      rbind (ps2_sendcommand s PS2_CMD_TEST1 0) (\<lambda>(_, s).
      rbind (ps2_sendcommand s PS2_CMD_TEST2 0) (\<lambda>(_, s).
      let s = outb s PS2_CMD_ENABLE1 PS2_COMMANDREG in
      Inr (outb s PS2_CMD_ENABLE2 PS2_COMMANDREG)))))))"

section \<open>The serial port\<close>

definition SERIAL_COM1 :: u32 where "SERIAL_COM1 = 0x3F8"
definition SERIAL_REG_DATA :: nat where "SERIAL_REG_DATA = 0"
definition SERIAL_REG_INT :: nat where "SERIAL_REG_INT = 1"
definition SERIAL_REG_FIFO_CTRL :: nat where "SERIAL_REG_FIFO_CTRL = 2"
definition SERIAL_REG_LINE_CTRL :: nat where "SERIAL_REG_LINE_CTRL = 3"
definition SERIAL_REG_MOD_CTRL :: nat where "SERIAL_REG_MOD_CTRL = 4"
definition SERIAL_REG_LINE_STAT :: nat where "SERIAL_REG_LINE_STAT = 5"
definition SERIAL_REG_BAUD_LEAST :: nat where "SERIAL_REG_BAUD_LEAST = 8"
definition SERIAL_REG_BAUD_MOST :: nat where "SERIAL_REG_BAUD_MOST = 9"
definition SERIAL_NO_INT :: u8 where "SERIAL_NO_INT = 0"
definition SERIAL_ENABLE_FIFO :: u8 where "SERIAL_ENABLE_FIFO = 1"
definition SERIAL_CL_RECEIVE :: u8 where "SERIAL_CL_RECEIVE = 2"
definition SERIAL_CL_TRANSMIT :: u8 where "SERIAL_CL_TRANSMIT = 4"
definition SERIAL_14_BYTES_INT :: u8 where "SERIAL_14_BYTES_INT = 0xC0"
definition SERIAL_8_BIT :: u8 where "SERIAL_8_BIT = 3"
definition SERIAL_1_STOP :: u8 where "SERIAL_1_STOP = 0"
definition SERIAL_NO_PAR :: u8 where "SERIAL_NO_PAR = 0"
definition SERIAL_DLAB :: u8 where "SERIAL_DLAB = 0x80"
definition SERIAL_DTR :: u8 where "SERIAL_DTR = 1"
definition SERIAL_RTS :: u8 where "SERIAL_RTS = 2"
definition SERIAL_OUT1 :: u8 where "SERIAL_OUT1 = 4"
definition SERIAL_OUT2 :: u8 where "SERIAL_OUT2 = 8"
definition SERIAL_LOOP :: u8 where "SERIAL_LOOP = 16"
definition SERIAL_DATA_READY :: u8 where "SERIAL_DATA_READY = 1"
definition SERIAL_BUFFER_EMPTY :: u8 where "SERIAL_BUFFER_EMPTY = 32"

lemmas serial_consts = SERIAL_COM1_def SERIAL_REG_DATA_def SERIAL_REG_INT_def SERIAL_REG_FIFO_CTRL_def
  SERIAL_REG_LINE_CTRL_def SERIAL_REG_MOD_CTRL_def SERIAL_REG_LINE_STAT_def SERIAL_REG_BAUD_LEAST_def
  SERIAL_REG_BAUD_MOST_def SERIAL_NO_INT_def SERIAL_ENABLE_FIFO_def SERIAL_CL_RECEIVE_def SERIAL_CL_TRANSMIT_def
  SERIAL_14_BYTES_INT_def SERIAL_8_BIT_def SERIAL_1_STOP_def SERIAL_NO_PAR_def SERIAL_DLAB_def SERIAL_DTR_def
  SERIAL_RTS_def SERIAL_OUT1_def SERIAL_OUT2_def SERIAL_LOOP_def SERIAL_DATA_READY_def SERIAL_BUFFER_EMPTY_def

text \<open>
  Reading and writing a register.  The baud rate registers are behind a bit of the line control register,
  which both functions set through each other; the register number is decreased before it is tested for
  clearing the bit again.
\<close>

function serial_read_reg :: "ports \<Rightarrow> u32 \<Rightarrow> nat \<Rightarrow> (u8 \<times> ports) res"
  and serial_write_reg :: "ports \<Rightarrow> u32 \<Rightarrow> nat \<Rightarrow> u8 \<Rightarrow> ports res" where
  "serial_read_reg s port reg =
     rbind (if SERIAL_REG_BAUD_LEAST \<le> reg then
              rbind (serial_read_reg s port SERIAL_REG_LINE_CTRL) (\<lambda>(line_control_reg, s).
              rbind (serial_write_reg s port SERIAL_REG_LINE_CTRL (line_control_reg OR SERIAL_DLAB)) (\<lambda>s.
                Inr (line_control_reg, reg - SERIAL_REG_BAUD_LEAST, s)))
            else Inr (0, reg, s)) (\<lambda>(line_control_reg, reg, s).
     rbind (inb s (ucast (port + of_nat reg))) (\<lambda>(data, s).
     rbind (if SERIAL_REG_BAUD_LEAST \<le> reg
            then serial_write_reg s port SERIAL_REG_LINE_CTRL (line_control_reg AND NOT SERIAL_DLAB) else Inr s) (\<lambda>s.
       Inr (data, s))))"
| "serial_write_reg s port reg data =
     rbind (if SERIAL_REG_BAUD_LEAST \<le> reg then
              rbind (serial_read_reg s port SERIAL_REG_LINE_CTRL) (\<lambda>(line_control_reg, s).
              rbind (serial_write_reg s port SERIAL_REG_LINE_CTRL (line_control_reg OR SERIAL_DLAB)) (\<lambda>s.
                Inr (line_control_reg, reg - SERIAL_REG_BAUD_LEAST, s)))
            else Inr (0, reg, s)) (\<lambda>(line_control_reg, reg, s).
     let s = outb s data (ucast (port + of_nat reg)) in
     if SERIAL_REG_BAUD_LEAST \<le> reg
     then serial_write_reg s port SERIAL_REG_LINE_CTRL (line_control_reg AND NOT SERIAL_DLAB) else Inr s)"
  by pat_completeness auto

termination
  by (relation "measure (\<lambda>x. case x of Inl (_, _, reg) \<Rightarrow> reg | Inr (_, _, reg, _) \<Rightarrow> reg)")
    (auto simp: serial_consts rbind_eq_Inr split: if_splits)

declare serial_read_reg.simps [simp del] serial_write_reg.simps [simp del]

definition serial_initialize :: "ports \<Rightarrow> (u32 \<times> ports) res" where
  "serial_initialize s =
     rbind (serial_write_reg s SERIAL_COM1 SERIAL_REG_INT SERIAL_NO_INT) (\<lambda>s.
     rbind (serial_write_reg s SERIAL_COM1 SERIAL_REG_BAUD_LEAST 3) (\<lambda>s.
     rbind (serial_write_reg s SERIAL_COM1 SERIAL_REG_BAUD_MOST 0) (\<lambda>s.
     let data = SERIAL_8_BIT OR SERIAL_1_STOP OR SERIAL_NO_PAR in
     rbind (serial_write_reg s SERIAL_COM1 SERIAL_REG_LINE_CTRL data) (\<lambda>s.
     let data = SERIAL_ENABLE_FIFO OR SERIAL_CL_TRANSMIT OR SERIAL_CL_RECEIVE;
         data = data OR SERIAL_14_BYTES_INT in
     rbind (serial_write_reg s SERIAL_COM1 SERIAL_REG_FIFO_CTRL data) (\<lambda>s.
     let data = SERIAL_LOOP OR SERIAL_OUT2 OR SERIAL_OUT1 OR SERIAL_RTS in
     rbind (serial_write_reg s SERIAL_COM1 SERIAL_REG_MOD_CTRL data) (\<lambda>s.
     rbind (serial_write_reg s SERIAL_COM1 SERIAL_REG_DATA 0xAE) (\<lambda>s.
     rbind (serial_read_reg s SERIAL_COM1 SERIAL_REG_DATA) (\<lambda>(v, s).
     if v \<noteq> 0xAE then Inr (1, s)
     else
       let data = SERIAL_OUT1 OR SERIAL_OUT2 OR SERIAL_DTR OR SERIAL_RTS in
       rbind (serial_write_reg s SERIAL_COM1 SERIAL_REG_MOD_CTRL data) (\<lambda>s.
         Inr (0, s))))))))))"

definition serial_received :: "ports \<Rightarrow> (bool \<times> ports) res" where
  "serial_received s =
     rbind (serial_read_reg s SERIAL_COM1 SERIAL_REG_LINE_STAT) (\<lambda>(data, s). Inr (data AND SERIAL_DATA_READY \<noteq> 0, s))"

definition serial_isempty :: "ports \<Rightarrow> (bool \<times> ports) res" where
  "serial_isempty s =
     rbind (serial_read_reg s SERIAL_COM1 SERIAL_REG_LINE_STAT) (\<lambda>(data, s). Inr (data AND SERIAL_BUFFER_EMPTY \<noteq> 0, s))"

lemma serial_read_reg_low: "reg < 8 \<Longrightarrow> serial_read_reg s port reg = inb s (ucast (port + of_nat reg))"
  by (subst serial_read_reg.simps) (cases "inb s (ucast (port + of_nat reg))", auto simp: SERIAL_REG_BAUD_LEAST_def)

lemma serial_write_reg_low: "reg < 8 \<Longrightarrow> serial_write_reg s port reg data = Inr (outb s data (ucast (port + of_nat reg)))"
  by (subst serial_write_reg.simps) (simp add: SERIAL_REG_BAUD_LEAST_def)

lemma serial_write_reg_baud:
  assumes "8 \<le> reg" "reg < 16"
  shows "serial_write_reg s port reg data =
    rbind (inb s (ucast (port + 3))) (\<lambda>(l, s).
      Inr (outb (outb s (l OR SERIAL_DLAB) (ucast (port + 3))) data (ucast (port + of_nat (reg - 8)))))"
  using assms
  by (subst serial_write_reg.simps, cases "inb s (ucast (port + 3))")
    (auto simp: serial_read_reg_low serial_write_reg_low SERIAL_REG_BAUD_LEAST_def SERIAL_REG_LINE_CTRL_def Let_def)

text \<open>The waiting loops: every round reads the status once, so that the values it delivers bound the rounds.\<close>

lemma read_stat_shrinks:
  "serial_read_reg s SERIAL_COM1 SERIAL_REG_LINE_STAT = Inr (v, s') \<Longrightarrow> length (pt_in s' 0x3FD) < length (pt_in s 0x3FD)"
  by (auto simp: serial_read_reg_low SERIAL_REG_LINE_STAT_def SERIAL_COM1_def inb_def split: list.splits)

function wait_received :: "ports \<Rightarrow> ports res" where
  "wait_received s = rbind (serial_received s) (\<lambda>(r, s). if r then Inr s else wait_received s)"
  by pat_completeness auto

termination
  by (relation "measure (\<lambda>s. length (pt_in s 0x3FD))") (auto simp: serial_received_def rbind_eq_Inr dest: read_stat_shrinks)

function wait_empty :: "ports \<Rightarrow> ports res" where
  "wait_empty s = rbind (serial_isempty s) (\<lambda>(r, s). if r then Inr s else wait_empty s)"
  by pat_completeness auto

termination
  by (relation "measure (\<lambda>s. length (pt_in s 0x3FD))") (auto simp: serial_isempty_def rbind_eq_Inr dest: read_stat_shrinks)

declare wait_received.simps [simp del] wait_empty.simps [simp del]

definition serial_readb :: "ports \<Rightarrow> (u8 \<times> ports) res" where
  "serial_readb s = rbind (wait_received s) (\<lambda>s. serial_read_reg s SERIAL_COM1 SERIAL_REG_DATA)"

definition serial_writeb :: "ports \<Rightarrow> u8 \<Rightarrow> ports res" where
  "serial_writeb s byte = rbind (wait_empty s) (\<lambda>s. serial_write_reg s SERIAL_COM1 SERIAL_REG_DATA byte)"

text \<open>The loop of \<open>serial_write\<close> over the bytes of a text.\<close>

fun serial_write :: "ports \<Rightarrow> u8 list \<Rightarrow> ports res" where
  "serial_write s [] = Inr s"
| "serial_write s (entry # rest) =
     rbind (serial_writeb s entry) (\<lambda>s.
     rbind (if entry = 10 then serial_writeb s 13 else Inr s) (\<lambda>s.
       serial_write s rest))"

definition serial_writestring :: "ports \<Rightarrow> u8 list \<Rightarrow> ports res" where
  "serial_writestring s data = serial_write s (takeWhile (\<lambda>b. b \<noteq> 0) data)"

text \<open>\<open>serial_read\<close> stores the bytes it reads one after the other; the result is what it stored.\<close>

fun serial_read :: "ports \<Rightarrow> nat \<Rightarrow> (u8 list \<times> ports) res" where
  "serial_read s 0 = Inr ([], s)"
| "serial_read s (Suc size') =
     rbind (serial_readb s) (\<lambda>(b, s). rbind (serial_read s size') (\<lambda>(bs, s). Inr (b # bs, s)))"

section \<open>Sending text\<close>

abbreviation "line_ready \<equiv> (\<lambda>v :: u8. v AND SERIAL_BUFFER_EMPTY \<noteq> 0)"

lemma wait_empty_poll: "wait_empty s = poll s 0x3FD line_ready"
proof (induction "pt_in s 0x3FD" arbitrary: s)
  case Nil
  then show ?case
    by (subst wait_empty.simps)
      (simp add: serial_isempty_def serial_read_reg_low SERIAL_REG_LINE_STAT_def SERIAL_COM1_def inb_def poll_def flip: Nil)
next
  case (Cons v vs)
  have "wait_empty s = (if line_ready v then Inr (s\<lparr>pt_in := (pt_in s)(0x3FD := vs)\<rparr>)
      else wait_empty (s\<lparr>pt_in := (pt_in s)(0x3FD := vs)\<rparr>))"
    by (subst wait_empty.simps)
      (simp add: serial_isempty_def serial_read_reg_low SERIAL_REG_LINE_STAT_def SERIAL_COM1_def inb_def Cons(2) [symmetric])
  then show ?case
    using Cons(1) [of "s\<lparr>pt_in := (pt_in s)(0x3FD := vs)\<rparr>"] by (simp add: poll_def Cons(2) [symmetric] split: option.splits)
qed

lemma poll_in_None: "poll_in r vs = None \<longleftrightarrow> filter r vs = []"
  by (induction vs) auto

lemma poll_in_Some: "poll_in r vs = Some (v, ws) \<Longrightarrow> length (filter r vs) = Suc (length (filter r ws))"
  by (induction vs) (auto split: if_splits)

text \<open>How often the line will still be reported as ready.\<close>

definition readies :: "ports \<Rightarrow> nat" where
  "readies s = length (filter line_ready (pt_in s 0x3FD))"

lemma serial_writeb_run:
  "serial_writeb s b = (if readies s = 0 then Inl Hang else serial_writeb s b)"
  "0 < readies s \<Longrightarrow> \<exists>s'. serial_writeb s b = Inr s' \<and> pt_log s' = pt_log s @ [(0x3F8, b)] \<and> readies s = Suc (readies s')"
proof -
  show "serial_writeb s b = (if readies s = 0 then Inl Hang else serial_writeb s b)"
    using poll_in_None [of line_ready "pt_in s 0x3FD"]
    by (auto simp: serial_writeb_def wait_empty_poll poll_def readies_def split: option.splits)
  show "\<exists>s'. serial_writeb s b = Inr s' \<and> pt_log s' = pt_log s @ [(0x3F8, b)] \<and> readies s = Suc (readies s')" if "0 < readies s"
  proof -
    have "poll_in line_ready (pt_in s 0x3FD) \<noteq> None"
      using that poll_in_None [of line_ready "pt_in s 0x3FD"] by (simp add: readies_def)
    then obtain v ws where p: "poll_in line_ready (pt_in s 0x3FD) = Some (v, ws)"
      by auto
    then show ?thesis
      using poll_in_Some [OF p]
      by (simp add: serial_writeb_def wait_empty_poll poll_def readies_def serial_write_reg_low SERIAL_REG_DATA_def
          SERIAL_COM1_def outb_def)
  qed
qed

text \<open>What arrives at the other end of the line for a text: a carriage return after every line feed.\<close>

definition crlf :: "u8 list \<Rightarrow> u8 list" where
  "crlf bs = concat (map (\<lambda>b. if b = 10 then [10, 13] else [b]) bs)"

lemma crlf_Cons [simp]: "crlf (b # bs) = (if b = 10 then [10, 13] else [b]) @ crlf bs" "crlf [] = []"
  by (simp_all add: crlf_def)

lemma serial_write_sent:
  "length (crlf bs) \<le> readies s \<Longrightarrow>
   \<exists>s'. serial_write s bs = Inr s' \<and> pt_log s' = pt_log s @ map (Pair 0x3F8) (crlf bs)"
proof (induction bs arbitrary: s)
  case (Cons b bs)
  obtain s1 where s1: "serial_writeb s b = Inr s1" "pt_log s1 = pt_log s @ [(0x3F8, b)]" "readies s = Suc (readies s1)"
    using serial_writeb_run(2) [of s b] Cons.prems by (auto split: if_splits)
  show ?case
  proof (cases "b = 10")
    case True
    then obtain s2 where "serial_writeb s1 13 = Inr s2" "pt_log s2 = pt_log s1 @ [(0x3F8, 13)]" "readies s1 = Suc (readies s2)"
      using serial_writeb_run(2) [of s1 13] Cons.prems s1(3) by auto
    then show ?thesis
      using True s1 Cons.IH [of s2] Cons.prems by auto
  next
    case False
    then show ?thesis
      using s1 Cons.IH [of s1] Cons.prems by auto
  qed
qed simp

lemma serial_write_waits: "readies s < length (crlf bs) \<Longrightarrow> serial_write s bs = Inl Hang"
proof (induction bs arbitrary: s)
  case (Cons b bs)
  show ?case
  proof (cases "readies s")
    case 0
    then show ?thesis
      using serial_writeb_run(1) [of s b] by simp
  next
    case (Suc n)
    then obtain s1 where s1: "serial_writeb s b = Inr s1" "readies s1 = n"
      using serial_writeb_run(2) [of s b] by auto
    show ?thesis
    proof (cases "b = 10")
      case True
      show ?thesis
      proof (cases n)
        case 0
        then show ?thesis
          using True s1 serial_writeb_run(1) [of s1 13] by simp
      next
        case (Suc k)
        then obtain s2 where "serial_writeb s1 13 = Inr s2" "readies s2 = k"
          using serial_writeb_run(2) [of s1 13] s1(2) by auto
        then show ?thesis
          using True s1 Cons.IH [of s2] Cons.prems \<open>readies s = Suc n\<close> Suc by simp
      qed
    next
      case False
      then show ?thesis
        using s1 Cons.IH [of s1] Cons.prems Suc by simp
    qed
  qed
qed simp

text \<open>C37 [serial_write_sends]: \<open>serial_write\<close> sends the bytes of a text in order, each line feed followed by a carriage return, and nothing else; it returns
  exactly when the line reports often enough that it is ready, once per byte sent, and waits for ever otherwise.\<close>
theorem serial_write_sends:
  "if length (crlf bs) \<le> readies s
   then \<exists>s'. serial_write s bs = Inr s' \<and> pt_log s' = pt_log s @ map (Pair 0x3F8) (crlf bs)
   else serial_write s bs = Inl Hang"
  using serial_write_sent serial_write_waits [of s bs] by auto

section \<open>Setting the line up\<close>

text \<open>The registers of the chip as its writes select them: with the divisor latch bit of the line control register set, the
  first two ports reach the divisor.\<close>

record uart =
  u_divisor_low :: u8
  u_divisor_high :: u8
  u_int :: u8
  u_fifo :: u8
  u_line :: u8
  u_modem :: u8
  u_sent :: "u8 list"

fun uart_step :: "uart \<Rightarrow> u16 \<times> u8 \<Rightarrow> uart" where
  "uart_step u (port, v) =
     (let latch = u_line u AND SERIAL_DLAB \<noteq> 0 in
      if port = 0x3F8 then if latch then u\<lparr>u_divisor_low := v\<rparr> else u\<lparr>u_sent := u_sent u @ [v]\<rparr>
      else if port = 0x3F9 then if latch then u\<lparr>u_divisor_high := v\<rparr> else u\<lparr>u_int := v\<rparr>
      else if port = 0x3FA then u\<lparr>u_fifo := v\<rparr>
      else if port = 0x3FB then u\<lparr>u_line := v\<rparr>
      else if port = 0x3FC then u\<lparr>u_modem := v\<rparr>
      else u)"

lemma dlab_set: "((l :: u8) OR 0x80) AND 0x80 \<noteq> 0"
proof
  assume "(l OR 0x80) AND 0x80 = 0"
  then have "bit ((l OR 0x80) AND 0x80) 7 = bit (0 :: u8) 7"
    by simp
  then show False
    by (simp add: bit_simps)
qed

text \<open>Fact [serial_initialize_programs]: When the chip echoes the test byte, \<open>serial_initialize\<close> returns 0 and leaves the chip, whatever its registers held
  before except for the divisor latch bit, with the divisor 3, without interrupts, with eight bits, no parity, one
  stop bit and the divisor latch closed, its queues enabled and out of the loopback mode; only the test byte was sent.
  When the echo differs it returns 1.\<close>
theorem serial_initialize_programs:
  assumes "pt_in s 0x3FB = l1 # l2 # ls" and "pt_in s 0x3F8 = v # vs" and "u_line u AND SERIAL_DLAB = 0"
  shows "\<exists>s' log. serial_initialize s = Inr (if v = 0xAE then 0 else 1, s') \<and> pt_log s' = pt_log s @ log \<and>
    foldl uart_step u log = u\<lparr>u_divisor_low := 3, u_divisor_high := 0, u_int := 0, u_fifo := 0xC7, u_line := 3,
      u_modem := (if v = 0xAE then 0x0F else 0x1E), u_sent := u_sent u @ [0xAE]\<rparr>"
proof -
  let ?log = "[(0x3F9, 0), (0x3FB, l1 OR 0x80), (0x3F8, 3), (0x3FB, l2 OR 0x80), (0x3F9, 0), (0x3FB, 3), (0x3FA, 0xC7),
      (0x3FC, 0x1E), (0x3F8, 0xAE)] @ (if v = 0xAE then [(0x3FC, 0x0F)] else [])"
  have "\<exists>s'. serial_initialize s = Inr (if v = 0xAE then 0 else 1, s') \<and> pt_log s' = pt_log s @ ?log"
    using assms(1,2)
    by (simp add: serial_initialize_def serial_write_reg_low serial_write_reg_baud serial_read_reg_low serial_consts inb_def
        outb_def Let_def)
  moreover have "foldl uart_step u ?log = u\<lparr>u_divisor_low := 3, u_divisor_high := 0, u_int := 0, u_fifo := 0xC7, u_line := 3,
      u_modem := (if v = 0xAE then 0x0F else 0x1E), u_sent := u_sent u @ [0xAE]\<rparr>"
    using assms(3) dlab_set by (simp add: SERIAL_DLAB_def)
  ultimately show ?thesis
    by blast
qed

definition fresh_uart :: uart where
  "fresh_uart = \<lparr>u_divisor_low = 1, u_divisor_high = 0, u_int = 0, u_fifo = 0, u_line = 0x1B, u_modem = 0, u_sent = []\<rparr>"

theorem serial_initialize_programs_witness:
  "\<exists>s' log. serial_initialize \<lparr>pt_in = (\<lambda>_. [])(0x3FB := [0x1B, 0x9B], 0x3F8 := [0xAE]), pt_log = []\<rparr> = Inr (0, s') \<and>
     pt_log s' = log \<and> u_divisor_low (foldl uart_step fresh_uart log) = 3 \<and> u_line (foldl uart_step fresh_uart log) = 3"
  using serial_initialize_programs [of "\<lparr>pt_in = (\<lambda>_. [])(0x3FB := [0x1B, 0x9B], 0x3F8 := [0xAE]), pt_log = []\<rparr>"
      "0x1B" "0x9B" "[]" "0xAE" "[]" fresh_uart]
  by (auto simp: fresh_uart_def SERIAL_DLAB_def)

text \<open>Fact [serial_divisor_latch_stays]: After a baud rate register was written the divisor latch bit stays set: the test that should clear it looks at the
  register number after it was decreased.\<close>
theorem serial_divisor_latch_stays:
  assumes "pt_in s 0x3FB = l # ls"
  shows "\<exists>s' log. serial_write_reg s SERIAL_COM1 SERIAL_REG_BAUD_LEAST v = Inr s' \<and> pt_log s' = pt_log s @ log \<and>
    u_line (foldl uart_step u log) AND SERIAL_DLAB \<noteq> 0"
  using assms dlab_set [of l]
  by (simp add: serial_write_reg_baud SERIAL_REG_BAUD_LEAST_def SERIAL_COM1_def SERIAL_DLAB_def inb_def outb_def)

section \<open>Facts about the other controllers\<close>

lemma inb_log: "inb s port = Inr (v, s') \<Longrightarrow> pt_log s' = pt_log s"
  by (auto simp: inb_def split: list.splits)

lemma poll_log: "poll s port ready = Inr s' \<Longrightarrow> pt_log s' = pt_log s"
  by (auto simp: poll_def split: option.splits)

text \<open>Fact [pic_mask_lines]: Masking and unmasking one of the sixteen lines changes the bit of that line in the mask that was read, and no other.\<close>
theorem pic_mask_lines:
  assumes "index < 16" and "pt_in s port = v # vs" and "port = (if index < 8 then 0x21 else 0xA1)"
  shows "\<exists>s' s'' w w'. pic_setmask s index = Inr s' \<and> pt_log s' = pt_log s @ [(port, w)] \<and>
    pic_clearmask s index = Inr s'' \<and> pt_log s'' = pt_log s @ [(port, w')] \<and>
    (\<forall>n < 8. bit w n = (n = unat index mod 8 \<or> bit v n) \<and> bit w' n = (n \<noteq> unat index mod 8 \<and> bit v n))"
proof -
  have line: "pic_line index = (port, of_nat (unat index mod 8))" and small: "unat (of_nat (unat index mod 8) :: u8) = unat index mod 8"
    using assms(1,3)
    by (auto simp: pic_line_def pic_consts word_less_nat_alt unat_of_nat word_unat_eq_iff unat_sub_if' mod_if split: if_splits)
  have b: "bit (v OR ucast (push_bit k 1 :: u32)) n = (n = k \<or> bit v n)"
      "bit (v AND ucast (NOT (push_bit k 1) :: u32)) n = (n \<noteq> k \<and> bit v n)" if "n < 8" "k < 8" for n k
    using that by (auto simp: bit_simps)
  show ?thesis
    using assms(2) by (simp add: pic_setmask_def pic_clearmask_def line small inb_def outb_def b [simplified])
qed

text \<open>Fact [ps2_init_configures]: When the set-up of the PS/2 controller returns, the only byte it sent to the data port is a configuration with the interrupt of the
  first port enabled and without translation; before it the ports were disabled and at the end they are enabled.\<close>
theorem ps2_init_configures:
  assumes "ps2_init s = Inr s'"
  shows "\<exists>c. pt_log s' = pt_log s @ map (Pair 0x64) [0xAD, 0xA7, 0xAA, 0x20, 0x60] @ [(0x60, c)] @
      map (Pair 0x64) [0xAB, 0xA9, 0xAE, 0xA8] \<and> bit c 0 \<and> \<not> bit c 6"
proof -
  have fl: "ps2_flushbuffer t = Inr t' \<Longrightarrow> pt_log t' = pt_log t" for t t'
  proof (induction t rule: ps2_flushbuffer.induct)
    case (1 t)
    from 1(2) show ?case
      by (subst (asm) ps2_flushbuffer.simps)
        (auto simp: rbind_eq_Inr inb_def split: list.splits if_splits dest!: 1(1) [rotated -1])
  qed
  have gr: "ps2_getresponse t = Inr (v, t') \<Longrightarrow> pt_log t' = pt_log t" for t t' v
    by (auto simp: ps2_getresponse_def rbind_eq_Inr dest!: inb_log poll_log)
  have sc: "ps2_sendcommand t c e = Inr (b, t') \<Longrightarrow> pt_log t' = pt_log t @ [(0x64, c)]" for t t' b c e
    by (auto simp: ps2_sendcommand_def rbind_eq_Inr outb_def PS2_COMMANDREG_def dest!: gr)
  have cf: "\<exists>c. pt_log t' = pt_log t @ [(0x64, 0x20), (0x64, 0x60), (0x60, c)] \<and> bit c 0 \<and> \<not> bit c 6"
    if "ps2_setconfigbyte t = Inr t'" for t t'
    using that
    by (auto simp: ps2_setconfigbyte_def ps2_sendnextbyte_def rbind_eq_Inr outb_def ps2_consts bit_simps dest!: gr poll_log)
  obtain s1 s2 s3 s4 s5 b1 b2 b3 where run:
    "ps2_flushbuffer (outb (outb s PS2_CMD_DISABLE1 PS2_COMMANDREG) PS2_CMD_DISABLE2 PS2_COMMANDREG) = Inr s1"
    "ps2_sendcommand s1 PS2_CMD_TEST_CTRL 0x55 = Inr (b1, s2)" "ps2_setconfigbyte s2 = Inr s3"
    "ps2_sendcommand s3 PS2_CMD_TEST1 0 = Inr (b2, s4)" "ps2_sendcommand s4 PS2_CMD_TEST2 0 = Inr (b3, s5)"
    "s' = outb (outb s5 PS2_CMD_ENABLE1 PS2_COMMANDREG) PS2_CMD_ENABLE2 PS2_COMMANDREG"
    using assms by (auto simp: ps2_init_def Let_def rbind_eq_Inr)
  then show ?thesis
    using fl [OF run(1)] sc [OF run(2)] cf [OF run(3)] sc [OF run(4)] sc [OF run(5)]
    by (auto simp: outb_def ps2_consts)
qed

end
