(* ===== verification/Apic.thy ===== *)
theory Apic
  imports Acpi Descr Ports Task
begin

text \<open>
  The interrupt controllers and the timers: \<open>src/kernel/int/apic.c\<close>, \<open>src/kernel/drivers/hpet.c\<close> and
  \<open>src/kernel/drivers/pit.c\<close>, with the sleeping functions of \<open>libc-src/stdlib/nano_sleep.c\<close>.  The registers of the I/O controller are reached through an index and a data register
  and are kept as a register file; writes to the local controller are a log, and its counter delivers a value that
  is a parameter.  The registers of the event timer are 64-bit memory at their addresses, with the counter's value at
  the time of the call.  The gates of the interrupt table are those of theory \<open>Descr\<close>, the firmware's tables those of
  theory \<open>Acpi\<close>, and requests to map pages are a list.

  Shown here: parsing the controller table visits exactly its records; masking changes one bit of one
  redirection entry; which entries a legacy line programs; how long the event timer waits; which line it uses; where the
  code differs from what it says.
\<close>

section \<open>State\<close>

definition MADT_TYPE_LAPIC :: u8 where "MADT_TYPE_LAPIC = 0"
definition MADT_TYPE_IOAPIC :: u8 where "MADT_TYPE_IOAPIC = 1"
definition MADT_TYPE_IOAPIC_OVERRIDE :: u8 where "MADT_TYPE_IOAPIC_OVERRIDE = 2"
definition LAPIC_TASK_PRIO_REG :: u32 where "LAPIC_TASK_PRIO_REG = 0x80"
definition LAPIC_EOI_REG :: u32 where "LAPIC_EOI_REG = 0xB0"
definition LAPIC_SIV_REG :: u32 where "LAPIC_SIV_REG = 0xF0"
definition LAPIC_ERROR_STATUS_REG :: u32 where "LAPIC_ERROR_STATUS_REG = 0x280"
definition LAPIC_TIMER_REG :: u32 where "LAPIC_TIMER_REG = 0x320"
definition LAPIC_LINT0_REG :: u32 where "LAPIC_LINT0_REG = 0x350"
definition LAPIC_LINT1_REG :: u32 where "LAPIC_LINT1_REG = 0x360"
definition LAPIC_ERROR_REG :: u32 where "LAPIC_ERROR_REG = 0x370"
definition LAPIC_INIT_COUNTER_REG :: u32 where "LAPIC_INIT_COUNTER_REG = 0x380"
definition LAPIC_CURR_COUNTER_REG :: u32 where "LAPIC_CURR_COUNTER_REG = 0x390"
definition LAPIC_TIMER_DIV_REG :: u32 where "LAPIC_TIMER_DIV_REG = 0x3E0"
definition LAPIC_SIZE :: u32 where "LAPIC_SIZE = 0x3F0"
definition LAPIC_ENABLE :: u32 where "LAPIC_ENABLE = 0x100"
definition LAPIC_MASK :: u32 where "LAPIC_MASK = 0x10000"
definition LAPIC_TIMER_MASK :: u32 where "LAPIC_TIMER_MASK = push_bit 16 1"
definition LAPIC_TIMER_PERIODIC :: u32 where "LAPIC_TIMER_PERIODIC = push_bit 17 1"
definition LAPIC_TIMER_DIVISION_X16 :: u32 where "LAPIC_TIMER_DIVISION_X16 = 3"
definition IOAPIC_VER_REG :: u32 where "IOAPIC_VER_REG = 1"
definition IOAPIC_IRQ_REG :: u32 where "IOAPIC_IRQ_REG = 0x10"
definition IOAPIC_SIZE :: u32 where "IOAPIC_SIZE = 0x10"
definition IOAPIC_MASK :: u32 where "IOAPIC_MASK = push_bit 16 1"

definition HPET_REG_CAPAB :: u32 where "HPET_REG_CAPAB = 0x0"
definition HPET_REG_CONFIG :: u32 where "HPET_REG_CONFIG = 0x10"
definition HPET_REG_COUNTER :: u32 where "HPET_REG_COUNTER = 0xF0"
definition HPET_TIMER_REG_CAP :: u32 where "HPET_TIMER_REG_CAP = 0x0"
definition HPET_TIMER_REG_COMP :: u32 where "HPET_TIMER_REG_COMP = 0x8"
definition HPET_REGS_SIZE :: u32 where "HPET_REGS_SIZE = 0xF7"
definition HPET_TIMER_ADDR_OFFSET :: u32 where "HPET_TIMER_ADDR_OFFSET = 0x100"
definition HPET_TIMER_SIZE :: u32 where "HPET_TIMER_SIZE = 0x18"
definition HPET_TIMER_OFFSET :: u32 where "HPET_TIMER_OFFSET = 0x20"
definition HPET_LEGACY_REPL :: u32 where "HPET_LEGACY_REPL = 2"
definition HPET_ENABLE :: u32 where "HPET_ENABLE = 1"
definition HPET_LEVEL_TRIG :: u32 where "HPET_LEVEL_TRIG = 2"
definition HPET_INT_ENABLED :: u32 where "HPET_INT_ENABLED = 4"
definition HPET_PERIODIC :: u32 where "HPET_PERIODIC = 8"
definition HPET_IRQ_ROUTING :: u32 where "HPET_IRQ_ROUTING = push_bit 9 0x1F"
definition HPET_FSB_MAPPING :: u32 where "HPET_FSB_MAPPING = push_bit 14 1"

text \<open>\<open>ap_ioapic\<close> is the register file of the I/O controller, \<open>ap_lapic\<close> the log of the local one, \<open>hp_regs\<close> the registers of
  the event timer by address; the numbers of the mapping are the \<open>int32_t\<close> of the code as words.\<close>

record apic =
  ap_processor_id :: u8
  ap_ioapic_addr :: u32
  ap_lapic_addr :: u32
  ap_max_irqs :: u32
  ap_mapping :: "u32 list"
  ap_ioapic :: "u32 \<Rightarrow> u32"
  ap_lapic :: "(u32 \<times> u32) list"
  ap_maps :: "(u32 \<times> u32) list"
  ap_idt :: "idt_entry_t list"
  ap_done :: bool
  hp_timers :: u32
  hp_period_ns :: u32
  hp_addr :: u32
  hp_regs :: "u32 \<Rightarrow> u64"

section \<open>The controllers' registers\<close>

definition lapic_write_reg :: "apic \<Rightarrow> u32 \<Rightarrow> u32 \<Rightarrow> apic" where
  "lapic_write_reg s reg data = s\<lparr>ap_lapic := ap_lapic s @ [(reg, data)]\<rparr>"

definition ioapic_write_reg :: "apic \<Rightarrow> u32 \<Rightarrow> u32 \<Rightarrow> apic" where
  "ioapic_write_reg s index reg = s\<lparr>ap_ioapic := (ap_ioapic s)(index := reg)\<rparr>"

definition ioapic_read_reg :: "apic \<Rightarrow> u32 \<Rightarrow> u32" where
  "ioapic_read_reg s index = ap_ioapic s index"

text \<open>What the parser does with a record at the address \<open>a\<close>.  The name of its type is looked up in a list of ten.\<close>

definition madt_record :: "mem \<Rightarrow> apic \<Rightarrow> ptr \<Rightarrow> apic res" where
  "madt_record m s a =
     (let type' = rd8m m a in
      if 10 \<le> type' then Inl BadAccess
      else if type' = MADT_TYPE_LAPIC then Inr (s\<lparr>ap_processor_id := rd8m m (a + 2)\<rparr>)
      else if type' = MADT_TYPE_IOAPIC then
        let ioapic_addr = rd32m m (a + 4);
            s = s\<lparr>ap_ioapic_addr := ioapic_addr, ap_maps := ap_maps s @ [(ioapic_addr, IOAPIC_SIZE)]\<rparr>;
            max_irqs = drop_bit 16 (ioapic_read_reg s IOAPIC_VER_REG) + 1 in
        Inr (s\<lparr>ap_max_irqs := max_irqs, ap_mapping := replicate (unat max_irqs) (- 1)\<rparr>)
      else if type' = MADT_TYPE_IOAPIC_OVERRIDE then
        rbind (array_set (ap_mapping s) (unat (rd8m m (a + 3))) (rd32m m (a + 4))) (\<lambda>mapping.
          Inr (s\<lparr>ap_mapping := mapping\<rparr>))
      else Inr s)"

text \<open>The loop over the records.  A record of length 0 is visited for ever.\<close>

function madt_loop :: "mem \<Rightarrow> apic \<Rightarrow> ptr \<Rightarrow> ptr \<Rightarrow> apic res" where
  "madt_loop m s madt_entry madt_end =
     (if madt_entry < madt_end then
        rbind (madt_record m s madt_entry) (\<lambda>s.
        let next' = madt_entry + ucast (rd8m m (madt_entry + 1)) in
        if next' = madt_entry then Inl Hang
        else if next' < madt_entry then Inl BadAccess
        else madt_loop m s next' madt_end)
      else Inr s)"
  by pat_completeness auto

termination
  by (relation "measure (\<lambda>(_, _, madt_entry, madt_end). unat madt_end - unat madt_entry)")
    (auto simp: word_less_nat_alt not_less word_unat_eq_iff intro!: diff_less_mono2)

declare madt_loop.simps [simp del]

text \<open>"APIC", then "HPET".\<close>

definition sig_APIC :: "u8 list" where "sig_APIC = [65, 80, 73, 67]"
definition sig_HPET :: "u8 list" where "sig_HPET = [72, 80, 69, 84]"

definition madt_parse :: "mem \<Rightarrow> acpi \<Rightarrow> apic \<Rightarrow> apic res" where
  "madt_parse m a s =
     rbind (rsdt_get_entry m (ac_rsdt a) sig_APIC) (\<lambda>madt_header.
     if madt_header = NULL then Inl BadAccess
     else
       let lapic_addr = rd32m m (madt_header + 36);
           s = s\<lparr>ap_lapic_addr := lapic_addr, ap_maps := ap_maps s @ [(lapic_addr, LAPIC_SIZE)]\<rparr> in
       madt_loop m s (madt_header + 44) (madt_header + header_length m madt_header))"

definition ioapic_get_irq :: "u8 \<Rightarrow> u32 \<Rightarrow> u32" where
  "ioapic_get_irq irq is_low = IOAPIC_IRQ_REG + 2 * ucast irq + is_low"

definition lapic_sendEOI :: "apic \<Rightarrow> apic" where
  "lapic_sendEOI s = lapic_write_reg s LAPIC_EOI_REG 0"

definition lapic_mask_int :: "apic \<Rightarrow> apic" where
  "lapic_mask_int s =
     (let s = lapic_write_reg s LAPIC_TIMER_REG LAPIC_TIMER_MASK;
          s = lapic_write_reg s LAPIC_LINT0_REG LAPIC_MASK in
      lapic_write_reg s LAPIC_LINT1_REG LAPIC_MASK)"

text \<open>The vectors of the interrupts.\<close>

abbreviation "vec_base \<equiv> (of_nat (IRQ_OFFSET + LEGACY_PIC_OFFSET) :: u32)"

definition lapic_init :: "apic \<Rightarrow> apic" where
  "lapic_init s =
     (let s = lapic_mask_int s;
          s = lapic_write_reg s LAPIC_SIV_REG (0xFF OR LAPIC_ENABLE);
          s = lapic_write_reg s LAPIC_ERROR_REG (vec_base + 19);
          s = lapic_write_reg s LAPIC_ERROR_STATUS_REG 0;
          s = lapic_write_reg s LAPIC_ERROR_STATUS_REG 0;
          s = lapic_sendEOI s in
      lapic_write_reg s LAPIC_TASK_PRIO_REG 0)"

text \<open>The loop of \<open>ioapic_init\<close> over \<open>n\<close> lines from \<open>i\<close>.\<close>

fun ioapic_mask_loop :: "nat \<Rightarrow> u32 \<Rightarrow> apic \<Rightarrow> apic" where
  "ioapic_mask_loop 0 i s = s"
| "ioapic_mask_loop (Suc n) i s =
     (let s = ioapic_write_reg s (ioapic_get_irq (ucast i) 0) IOAPIC_MASK;
          s = ioapic_write_reg s (ioapic_get_irq (ucast i) 1) 0 in
      ioapic_mask_loop n (i + 1) s)"

definition ioapic_init :: "apic \<Rightarrow> apic" where
  "ioapic_init s = ioapic_mask_loop (unat (ap_max_irqs s)) 0 s"

definition ioapic_get_mapping :: "apic \<Rightarrow> u32 \<Rightarrow> (u32 \<times> apic) res" where
  "ioapic_get_mapping s irq =
     rbind (array_get (ap_mapping s) (unat irq)) (\<lambda>v.
     if v = - 2 then Inl Abort
     else if ap_max_irqs s \<le> irq \<or> v = - 1 then
       rbind (array_set (ap_mapping s) (unat irq) (- 2)) (\<lambda>mapping. Inr (irq, s\<lparr>ap_mapping := mapping\<rparr>))
     else Inr (v, s))"

definition ioapic_legacy_irq_activate :: "apic \<Rightarrow> u32 \<Rightarrow> apic res" where
  "ioapic_legacy_irq_activate s irq =
     rbind (ioapic_get_mapping s irq) (\<lambda>(irq, s).
     let s = ioapic_write_reg s (ioapic_get_irq (ucast irq) 0) (of_nat IRQ_OFFSET + irq) in
     Inr (ioapic_write_reg s (ioapic_get_irq (ucast irq) 1) (push_bit 24 (ucast (ap_processor_id s)))))"

definition ioapic_irq_activate :: "apic \<Rightarrow> u32 \<Rightarrow> u32 \<Rightarrow> apic" where
  "ioapic_irq_activate s apic_irq irq =
     (let s = ioapic_write_reg s (ioapic_get_irq (ucast apic_irq) 0) (push_bit 16 1 OR (vec_base + irq)) in
      ioapic_write_reg s (ioapic_get_irq (ucast apic_irq) 1) (push_bit 24 (ucast (ap_processor_id s))))"

definition ioapic_irq_set_mask :: "apic \<Rightarrow> u32 \<Rightarrow> apic" where
  "ioapic_irq_set_mask s irq =
     (let reg = ioapic_read_reg s (ioapic_get_irq (ucast irq) 0) in
      ioapic_write_reg s (ioapic_get_irq (ucast irq) 0) (reg OR push_bit 16 1))"

definition ioapic_irq_clear_mask :: "apic \<Rightarrow> u32 \<Rightarrow> apic" where
  "ioapic_irq_clear_mask s irq =
     (let reg = ioapic_read_reg s (ioapic_get_irq (ucast irq) 0) in
      ioapic_write_reg s (ioapic_get_irq (ucast irq) 0) (reg AND NOT (push_bit 16 1)))"

section \<open>The event timer\<close>

definition hpet_get_reg :: "apic \<Rightarrow> u32 \<Rightarrow> u32" where
  "hpet_get_reg s reg = hp_addr s + reg"

definition hpet_get_timer_reg :: "apic \<Rightarrow> u32 \<Rightarrow> u32 \<Rightarrow> u32" where
  "hpet_get_timer_reg s reg timer = hp_addr s + HPET_TIMER_ADDR_OFFSET + HPET_TIMER_OFFSET * timer + reg"

definition hp_write :: "apic \<Rightarrow> u32 \<Rightarrow> u64 \<Rightarrow> apic" where
  "hp_write s a v = s\<lparr>hp_regs := (hp_regs s)(a := v)\<rparr>"

definition hpet_set :: "apic \<Rightarrow> u32 \<Rightarrow> u32 \<Rightarrow> apic" where
  "hpet_set s reg flag = (let p = hpet_get_reg s reg in hp_write s p (hp_regs s p OR ucast flag))"

definition hpet_timer_set :: "apic \<Rightarrow> u32 \<Rightarrow> u32 \<Rightarrow> u32 \<Rightarrow> apic" where
  "hpet_timer_set s reg timer flag =
     (let p = hpet_get_timer_reg s reg timer in hp_write s p (hp_regs s p OR ucast flag))"

text \<open>The complement of a flag is computed in its 32 bits, so clearing a flag also clears the upper half.\<close>

definition hpet_clear :: "apic \<Rightarrow> u32 \<Rightarrow> u32 \<Rightarrow> apic" where
  "hpet_clear s reg bit' = (let p = hpet_get_reg s reg in hp_write s p (hp_regs s p AND ucast (NOT bit')))"

definition hpet_timer_clear :: "apic \<Rightarrow> u32 \<Rightarrow> u32 \<Rightarrow> u32 \<Rightarrow> apic" where
  "hpet_timer_clear s reg timer flag =
     (let p = hpet_get_timer_reg s reg timer in hp_write s p (hp_regs s p AND ucast (NOT flag)))"

definition hpet_enable :: "apic \<Rightarrow> apic" where
  "hpet_enable s = hpet_set s HPET_REG_CONFIG HPET_ENABLE"

definition hpet_disable :: "apic \<Rightarrow> apic" where
  "hpet_disable s = hpet_clear s HPET_REG_CONFIG HPET_ENABLE"

definition HPET_N_OF_TIMERS :: "apic \<Rightarrow> u64" where
  "HPET_N_OF_TIMERS s = drop_bit 8 (hp_regs s (hpet_get_reg s HPET_REG_CAPAB)) AND 0xF"

definition HPET_PERIOD_FS :: "apic \<Rightarrow> u64" where
  "HPET_PERIOD_FS s = drop_bit 32 (hp_regs s (hpet_get_reg s HPET_REG_CAPAB))"

definition HPET_INT_MAP :: "apic \<Rightarrow> u32 \<Rightarrow> u64" where
  "HPET_INT_MAP s timer = drop_bit 32 (hp_regs s (hpet_get_timer_reg s HPET_TIMER_REG_CAP timer))"

text \<open>The loop that maps the registers of \<open>n\<close> timers.\<close>

fun hpet_map_loop :: "nat \<Rightarrow> u32 \<Rightarrow> apic \<Rightarrow> apic" where
  "hpet_map_loop 0 start s = s"
| "hpet_map_loop (Suc n) start s =
     hpet_map_loop n (start + HPET_TIMER_OFFSET) (s\<lparr>ap_maps := ap_maps s @ [(start, HPET_TIMER_SIZE)]\<rparr>)"

definition hpet_parse :: "mem \<Rightarrow> acpi \<Rightarrow> apic \<Rightarrow> apic res" where
  "hpet_parse m a s =
     rbind (rsdt_get_entry m (ac_rsdt a) sig_HPET) (\<lambda>hpet_header.
     if hpet_header = NULL then Inl BadAccess
     else
       let s = s\<lparr>hp_addr := rd32m m (hpet_header + 44)\<rparr>;
           s = s\<lparr>ap_maps := ap_maps s @ [(hp_addr s, HPET_REGS_SIZE)]\<rparr>;
           s = s\<lparr>hp_timers := ucast (HPET_N_OF_TIMERS s + 1)\<rparr>;
           start = hpet_get_timer_reg s HPET_TIMER_REG_CAP 0;
           end' = hpet_get_timer_reg s HPET_TIMER_REG_CAP (hp_timers s) in
       Inr (hpet_map_loop (if start < end' then unat (hp_timers s) else 0) start s))"

text \<open>The search for an allowed line.  The test shifts the \<open>int\<close> 1: from line 31 on it is negative or undefined,
  so that no line is found any more.\<close>

function hpet_find_irq :: "u64 \<Rightarrow> nat \<Rightarrow> u32 res" where
  "hpet_find_irq map' ioapic_irq =
     (if 31 \<le> ioapic_irq then Inl Hang
      else if NOT map' AND push_bit ioapic_irq 1 \<noteq> 0 then hpet_find_irq map' (Suc ioapic_irq)
      else Inr (of_nat ioapic_irq))"
  by pat_completeness auto

termination
  by (relation "measure (\<lambda>(_, i). 31 - i)") auto

declare hpet_find_irq.simps [simp del]

definition hpet_enable_timer :: "apic \<Rightarrow> u32 \<Rightarrow> (u32 \<times> apic) res" where
  "hpet_enable_timer s timer =
     (if hp_timers s \<le> timer then Inr (- 1, s)
      else
        rbind (hpet_find_irq (HPET_INT_MAP s timer) 0) (\<lambda>ioapic_irq.
        let s = hpet_timer_set s HPET_TIMER_REG_CAP timer (HPET_IRQ_ROUTING AND push_bit 9 ioapic_irq);
            s = hpet_timer_clear s HPET_TIMER_REG_CAP timer HPET_FSB_MAPPING;
            s = hpet_timer_clear s HPET_TIMER_REG_CAP timer HPET_PERIODIC;
            s = hpet_timer_set s HPET_TIMER_REG_CAP timer HPET_INT_ENABLED;
            s = hpet_timer_set s HPET_TIMER_REG_CAP timer HPET_LEVEL_TRIG in
        Inr (ioapic_irq, s)))"

definition hpet_set_comparator :: "apic \<Rightarrow> u32 \<Rightarrow> u64 \<Rightarrow> apic res" where
  "hpet_set_comparator s timer ns_100 =
     (let timer_comp_reg = hpet_get_timer_reg s HPET_TIMER_REG_COMP timer;
          counter_reg = hpet_get_reg s HPET_REG_COUNTER in
      if hp_period_ns s = 0 then Inl Abort
      else
        let comparator_value = (ns_100 * 100) div ucast (hp_period_ns s) in
        Inr (hp_write s timer_comp_reg (hp_regs s counter_reg + comparator_value)))"

definition hpet_create_timer :: "apic \<Rightarrow> u32 \<Rightarrow> u32 \<Rightarrow> u32 \<Rightarrow> apic res" where
  "hpet_create_timer s timer irq handler =
     rbind (hpet_enable_timer s timer) (\<lambda>(apic_irq, s).
     let flag = IDT_PRESENT OR IDT_32B_INT in
     rbind (idt_create (ap_idt s) (IRQ_OFFSET + LEGACY_PIC_OFFSET + unat irq) handler flag) (\<lambda>idt.
     let s = s\<lparr>ap_idt := idt\<rparr>;
         s = ioapic_irq_activate s apic_irq irq in
     Inr (ioapic_irq_clear_mask s apic_irq)))"

definition hpet_read_counter :: "apic \<Rightarrow> u64" where
  "hpet_read_counter s = hp_regs s (hpet_get_reg s HPET_REG_COUNTER)"

definition hpet_get_ns :: "apic \<Rightarrow> u64" where
  "hpet_get_ns s = hp_regs s (hpet_get_reg s HPET_REG_COUNTER) * ucast (hp_period_ns s)"

definition hpet_init :: "mem \<Rightarrow> acpi \<Rightarrow> apic \<Rightarrow> apic res" where
  "hpet_init m a s =
     rbind (hpet_parse m a s) (\<lambda>s.
     let s = s\<lparr>hp_period_ns := ucast (HPET_PERIOD_FS s div 1000000)\<rparr>;
         s = hpet_clear s HPET_REG_CONFIG HPET_LEGACY_REPL;
         counter = hpet_get_reg s HPET_REG_COUNTER;
         s = hp_write s counter 0 in
     Inr (hpet_enable s))"

text \<open>Sleeping, over the scheduler of theory \<open>Task\<close>.  \<open>sleep\<close> multiplies in 32 bits.\<close>

definition nano_sleep :: "apic \<Rightarrow> sched \<Rightarrow> u64 \<Rightarrow> sched res" where
  "nano_sleep a s nanoseconds = nano_sleep_until (hpet_read_counter a) (hpet_get_ns a) s (hpet_get_ns a + nanoseconds)"

definition sleep :: "apic \<Rightarrow> sched \<Rightarrow> u32 \<Rightarrow> sched res" where
  "sleep a s milliseconds = nano_sleep a s (ucast (milliseconds * 1000000))"

section \<open>Setting the controllers up\<close>

text \<open>The first part of the timer's set-up, up to the loop that waits for the interrupt.\<close>

definition lapic_timer_init1 :: "apic \<Rightarrow> apic res" where
  "lapic_timer_init1 s =
     (let s = lapic_write_reg s LAPIC_TIMER_REG (vec_base + 0);
          s = lapic_write_reg s LAPIC_TIMER_DIV_REG LAPIC_TIMER_DIVISION_X16;
          s = lapic_write_reg s LAPIC_INIT_COUNTER_REG 0xFFFFFFFF in
      hpet_set_comparator s 0 10000000)"

text \<open>The interrupt handler, with the value \<open>cur\<close> of the counter and the address of \<open>task_time_handler\<close>.\<close>

definition lapic_timer_init2 :: "apic \<Rightarrow> u32 \<Rightarrow> u32 \<Rightarrow> apic res" where
  "lapic_timer_init2 s cur handler =
     (let s = lapic_write_reg s LAPIC_TIMER_REG LAPIC_TIMER_MASK;
          ticks_1ms = 0xFFFFFFFF - cur;
          s = ioapic_irq_set_mask s 2;
          s = lapic_sendEOI s in
      rbind (idt_create (ap_idt s) (IRQ_OFFSET + LEGACY_PIC_OFFSET + 0) handler 0x8E) (\<lambda>idt.
      let s = s\<lparr>ap_idt := idt\<rparr>;
          s = ioapic_irq_clear_mask s 0;
          s = s\<lparr>ap_done := True\<rparr>;
          s = lapic_write_reg s LAPIC_INIT_COUNTER_REG ticks_1ms;
          s = lapic_write_reg s LAPIC_TIMER_REG ((vec_base + 0) OR LAPIC_TIMER_PERIODIC) in
      Inr (lapic_write_reg s LAPIC_TIMER_DIV_REG LAPIC_TIMER_DIVISION_X16)))"

text \<open>The whole set-up, in which the interrupt arrives while the first part waits for it.\<close>

definition apic_init :: "mem \<Rightarrow> acpi \<Rightarrow> apic \<Rightarrow> u32 \<Rightarrow> u32 \<Rightarrow> u32 \<Rightarrow> apic res" where
  "apic_init m a s init2_addr cur handler =
     rbind (madt_parse m a s) (\<lambda>s.
     let s = lapic_init s; s = ioapic_init s in
     rbind (hpet_create_timer s 0 1 init2_addr) (\<lambda>s.
     rbind (lapic_timer_init1 s) (\<lambda>s.
     rbind (lapic_timer_init2 s cur handler) (\<lambda>s.
     if ap_done s then Inr s else Inl Hang))))"

section \<open>The interval timer\<close>

definition PIT_CHANNEL_0 :: u16 where "PIT_CHANNEL_0 = 0x40"
definition PIT_MODREG :: u16 where "PIT_MODREG = 0x43"

definition pit_change_modreg :: "ports \<Rightarrow> u8 \<Rightarrow> ports" where
  "pit_change_modreg s modreg = outb s modreg PIT_MODREG"

definition pit_readcount :: "ports \<Rightarrow> (u16 \<times> ports) res" where
  "pit_readcount s =
     rbind (inb s PIT_CHANNEL_0) (\<lambda>(low, s).
     rbind (inb s PIT_CHANNEL_0) (\<lambda>(high, s).
       Inr (ucast low OR push_bit 8 (ucast high), s)))"

definition pit_setcount :: "ports \<Rightarrow> u16 \<Rightarrow> ports" where
  "pit_setcount s count = outb s (ucast (count AND 0xFF)) PIT_CHANNEL_0"

definition pit_init :: "ports \<Rightarrow> apic \<Rightarrow> (ports \<times> apic) res" where
  "pit_init p s =
     (let pit_modreg = (0 OR push_bit 5 1) OR push_bit 1 1;
          p = pit_change_modreg p pit_modreg;
          p = pit_setcount p 1 in
      rbind (ioapic_legacy_irq_activate s 0) (\<lambda>s. Inr (p, s)))"

definition pit_on :: "ports \<Rightarrow> ports res" where
  "pit_on s = pic_clearmask s 0"

definition pit_off :: "ports \<Rightarrow> ports res" where
  "pit_off s = pic_setmask s 0"

section \<open>Redirection entries\<close>

definition entry_low :: "nat \<Rightarrow> u32" where "entry_low irq = 0x10 + of_nat (2 * irq)"
definition entry_high :: "nat \<Rightarrow> u32" where "entry_high irq = 0x11 + of_nat (2 * irq)"

lemma ioapic_get_irq_entry:
  assumes "unat (irq :: u32) < 120"
  shows "ioapic_get_irq (ucast irq) 0 = entry_low (unat irq)" "ioapic_get_irq (ucast irq) 1 = entry_high (unat irq)"
proof -
  have "ucast (ucast irq :: u8) = irq"
    using assms by (simp add: ucast_u32_of_u8 unat_u8_of_u32)
  then show "ioapic_get_irq (ucast irq) 0 = entry_low (unat irq)" "ioapic_get_irq (ucast irq) 1 = entry_high (unat irq)"
    by (simp_all add: ioapic_get_irq_def IOAPIC_IRQ_REG_def entry_low_def entry_high_def)
qed

lemma bit_mask16:
  "bit (x OR push_bit 16 1 :: u32) n \<longleftrightarrow> n = 16 \<or> bit x n"
  "bit (x AND NOT (push_bit 16 1) :: u32) n \<longleftrightarrow> n \<noteq> 16 \<and> bit x n"
proof -
  have e: "push_bit 16 1 = (2 :: u32) ^ 16"
    by simp
  show "bit (x OR push_bit 16 1 :: u32) n \<longleftrightarrow> n = 16 \<or> bit x n"
    unfolding e bit_or_iff bit_exp_iff by auto
  show "bit (x AND NOT (push_bit 16 1) :: u32) n \<longleftrightarrow> n \<noteq> 16 \<and> bit x n"
    unfolding e bit_and_iff bit_not_iff bit_exp_iff by (auto dest: bit_imp_le_length)
qed

text \<open>Fact [ioapic_mask_one_bit]: Masking and unmasking a line of the I/O controller set and clear the mask bit of the line's redirection entry; every other
  bit of this entry and every other register stay as they are.\<close>
theorem ioapic_mask_one_bit:
  assumes "unat irq < 120"
  shows "bit (ap_ioapic (ioapic_irq_set_mask s irq) j) n = (j = entry_low (unat irq) \<and> n = 16 \<or> bit (ap_ioapic s j) n) \<and>
    bit (ap_ioapic (ioapic_irq_clear_mask s irq) j) n = (\<not> (j = entry_low (unat irq) \<and> n = 16) \<and> bit (ap_ioapic s j) n)"
proof -
  let ?e = "entry_low (unat irq)"
  have "ap_ioapic (ioapic_irq_set_mask s irq) = (ap_ioapic s)(?e := ap_ioapic s ?e OR push_bit 16 1)"
    "ap_ioapic (ioapic_irq_clear_mask s irq) = (ap_ioapic s)(?e := ap_ioapic s ?e AND NOT (push_bit 16 1))"
    using assms by (simp_all add: ioapic_irq_set_mask_def ioapic_irq_clear_mask_def ioapic_get_irq_entry ioapic_read_reg_def
        ioapic_write_reg_def Let_def)
  then show ?thesis
    by (cases "j = ?e") (simp_all only: fun_upd_same fun_upd_other bit_mask16 simp_thms)
qed

section \<open>The delay of the event timer\<close>

text \<open>Fact [hpet_comparator_delay]: When nothing overflows, the comparator is set to the counter plus the largest number of ticks that take no longer than
  the time asked for: the interrupt comes less than one period early and never late.\<close>
theorem hpet_comparator_delay:
  assumes "hp_period_ns s \<noteq> 0" and "unat ns_100 * 100 < 2 ^ 64"
    and "unat (hpet_read_counter s) + unat ns_100 * 100 < 2 ^ 64"
  shows "\<exists>s' d. hpet_set_comparator s timer ns_100 = Inr s' \<and>
    unat (hp_regs s' (hpet_get_timer_reg s HPET_TIMER_REG_COMP timer)) = unat (hpet_read_counter s) + d \<and>
    d * unat (hp_period_ns s) \<le> unat ns_100 * 100 \<and>
    unat ns_100 * 100 < d * unat (hp_period_ns s) + unat (hp_period_ns s)"
proof -
  let ?p = "unat (hp_period_ns s)" and ?d = "unat ns_100 * 100 div unat (hp_period_ns s)"
  have p: "0 < ?p"
    using assms(1) by (simp add: unat_gt_0)
  have mul: "unat (ns_100 * 100) = unat ns_100 * 100"
    using assms(2) by (simp add: unat_word_ariths take_bit_nat_eq_self)
  have d: "unat ((ns_100 * 100) div ucast (hp_period_ns s)) = ?d"
    by (simp add: unat_div mul)
  have "?d \<le> unat ns_100 * 100"
    by (rule div_le_dividend)
  then have lt: "unat (hpet_read_counter s) + ?d < 2 ^ 64"
    using assms(3) by linarith
  then have sum': "unat (hpet_read_counter s + (ns_100 * 100) div ucast (hp_period_ns s)) = unat (hpet_read_counter s) + ?d"
    by (simp add: unat_word_ariths(1) d)
  have bounds: "?d * ?p \<le> unat ns_100 * 100" "unat ns_100 * 100 < ?d * ?p + ?p"
    using p by (simp_all add: dividend_less_div_times add.commute)
  show ?thesis
    using assms(1) sum' bounds
    by (intro exI conjI [OF _ conjI])
      (auto simp: hpet_set_comparator_def Let_def hp_write_def hpet_read_counter_def)
qed

section \<open>The line of the event timer\<close>

lemma not_and_bit: "NOT map' AND (2 :: u64) ^ i = 0 \<longleftrightarrow> \<not> (i < 64 \<and> \<not> bit map' i)"
proof
  assume "NOT map' AND (2 :: u64) ^ i = 0"
  then have "bit (NOT map' AND (2 :: u64) ^ i) i = bit (0 :: u64) i"
    by simp
  then show "\<not> (i < 64 \<and> \<not> bit map' i)"
    by (auto simp: bit_simps)
next
  assume "\<not> (i < 64 \<and> \<not> bit map' i)"
  then show "NOT map' AND (2 :: u64) ^ i = 0"
    by (intro bit_word_eqI) (auto simp: bit_simps)
qed

text \<open>Fact [hpet_line_lowest]: \<open>hpet_enable_timer\<close> finds the lowest of the lines 0 to 30 that the timer may use; when it may use none of them the search
  does not end properly.\<close>
theorem hpet_line_lowest:
  "if \<exists>i < 31. bit map' i then hpet_find_irq map' 0 = Inr (of_nat (LEAST i. bit map' i)) else hpet_find_irq map' 0 = Inl Hang"
proof -
  have run: "hpet_find_irq map' k = (if \<exists>i < 31. k \<le> i \<and> bit map' i then Inr (of_nat (LEAST i. k \<le> i \<and> bit map' i)) else Inl Hang)"
    for k
  proof (induction map' k rule: hpet_find_irq.induct)
    case (1 map' k)
    show ?case
    proof (cases "k < 31 \<and> \<not> bit map' k")
      case True
      then have "hpet_find_irq map' k = hpet_find_irq map' (Suc k)"
        by (subst hpet_find_irq.simps) (simp add: not_and_bit)
      moreover have "(k \<le> i \<and> bit map' i) = (Suc k \<le> i \<and> bit map' i)" for i
        using True by (metis Suc_leD le_antisym not_less_eq_eq)
      ultimately show ?thesis
        using 1 True by (auto simp: not_and_bit)
    next
      case False
      then show ?thesis
        by (subst hpet_find_irq.simps) (auto simp: not_and_bit intro!: arg_cong [where f = of_nat] Least_equality [symmetric])
    qed
  qed
  show ?thesis
    using run [of 0] by simp
qed

section \<open>The records of the controller table\<close>

datatype madt_rec = LocalApic u8 | IoApic u32 | IntOverride u8 u32 | OtherRecord

definition le32 :: "u8 list \<Rightarrow> nat \<Rightarrow> u32" where
  "le32 r i = ucast (r ! i) OR push_bit 8 (ucast (r ! (i + 1))) OR push_bit 16 (ucast (r ! (i + 2))) OR push_bit 24 (ucast (r ! (i + 3)))"

definition decode_rec :: "u8 list \<Rightarrow> madt_rec" where
  "decode_rec r =
     (if r ! 0 = 0 then LocalApic (r ! 2)
      else if r ! 0 = 1 then IoApic (le32 r 4)
      else if r ! 0 = 2 then IntOverride (r ! 3) (le32 r 4)
      else OtherRecord)"

fun apply_rec :: "apic \<Rightarrow> madt_rec \<Rightarrow> apic res" where
  "apply_rec s (LocalApic cpu) = Inr (s\<lparr>ap_processor_id := cpu\<rparr>)"
| "apply_rec s (IoApic addr) =
     (let n = drop_bit 16 (ap_ioapic s 1) + 1 in
      Inr (s\<lparr>ap_ioapic_addr := addr, ap_maps := ap_maps s @ [(addr, 0x10)], ap_max_irqs := n, ap_mapping := replicate (unat n) (- 1)\<rparr>))"
| "apply_rec s (IntOverride irq line) =
     (if unat irq < length (ap_mapping s) then Inr (s\<lparr>ap_mapping := (ap_mapping s)[unat irq := line]\<rparr>) else Inl BadAccess)"
| "apply_rec s OtherRecord = Inr s"

fun apply_recs :: "apic \<Rightarrow> madt_rec list \<Rightarrow> apic res" where
  "apply_recs s [] = Inr s"
| "apply_recs s (r # rs) = rbind (apply_rec s r) (\<lambda>s. apply_recs s rs)"

text \<open>The bytes of a record of one of the ten known types, with its own length in the second byte.\<close>

definition rec_ok :: "u8 list \<Rightarrow> bool" where
  "rec_ok r \<longleftrightarrow> (if r ! 0 \<in> {0, 1, 2} then 8 else 2) \<le> length r \<and> unat (r ! 1) = length r \<and> r ! 0 < 10"

lemma mem_bytes_append: "mem_bytes m a (n + k) = mem_bytes m a n @ mem_bytes m (a + of_nat n) k"
proof -
  have "[0..<n + k] = [0..<n] @ map (\<lambda>i. n + i) [0..<k]"
    by (rule nth_equalityI) (auto simp: nth_append)
  then show ?thesis
    by (simp add: mem_bytes_def comp_def add.assoc)
qed

lemma mem_bytes_nth: "mem_bytes m a n = r \<Longrightarrow> i < n \<Longrightarrow> m (a + of_nat i) = r ! i"
  by (auto simp: mem_bytes_def)

lemma madt_record_decode:
  assumes "mem_bytes m a (length r) = r" and "rec_ok r"
  shows "madt_record m s a = apply_rec s (decode_rec r)"
proof -
  have len: "2 \<le> length r"
    using assms(2) by (auto simp: rec_ok_def split: if_splits)
  then have a0: "m a = r ! 0"
    using mem_bytes_nth [OF assms(1), of 0] by (cases r) simp_all
  show ?thesis
  proof (cases "r ! 0 \<in> {0, 1, 2}")
    case True
    then have n: "8 \<le> length r"
      using assms(2) by (simp add: rec_ok_def)
    have at: "i < 8 \<Longrightarrow> m (a + of_nat i) = r ! i" for i
      using mem_bytes_nth [OF assms(1), of i] n by simp
    have b: "m (a + 2) = r ! 2" "m (a + 3) = r ! 3" "m (a + 4) = r ! 4" "m (a + 5) = r ! 5" "m (a + 6) = r ! 6" "m (a + 7) = r ! 7"
      using at [of 2] at [of 3] at [of 4] at [of 5] at [of 6] at [of 7] by simp_all
    then have "rd32m m (a + 4) = le32 r 4"
      by (simp add: rd32m_def le32_def add.assoc)
    then show ?thesis
      using True b a0
      by (auto simp: madt_record_def decode_rec_def rd8m_def MADT_TYPE_LAPIC_def MADT_TYPE_IOAPIC_def
          MADT_TYPE_IOAPIC_OVERRIDE_def ioapic_read_reg_def IOAPIC_VER_REG_def IOAPIC_SIZE_def Let_def array_set_def
          word_le_nat_alt)
  next
    case False
    then show ?thesis
      using assms(2) a0
      by (simp add: madt_record_def decode_rec_def rec_ok_def rd8m_def MADT_TYPE_LAPIC_def MADT_TYPE_IOAPIC_def
          MADT_TYPE_IOAPIC_OVERRIDE_def Let_def not_le)
  qed
qed

text \<open>C33 [madt_visits_records]: When a controller table holds a sequence of well-formed records, parsing it applies exactly these records in their order: the
  last processor, the last I/O controller with one free mapping per line, and each override of a line; it always ends.\<close>
theorem madt_visits_records:
  assumes "mem_bytes m a (length (concat rs)) = concat rs" and "list_all rec_ok rs"
    and "unat a + length (concat rs) < 2 ^ 32"
  shows "madt_loop m s a (a + of_nat (length (concat rs))) = apply_recs s (map decode_rec rs)"
  using assms
proof (induction rs arbitrary: a s)
  case Nil
  then show ?case
    by (subst madt_loop.simps) simp
next
  case (Cons r rs)
  let ?k = "length (concat rs)" and ?b = "a + of_nat (length r) :: u32"
  have ok: "rec_ok r" and len: "2 \<le> length r"
    using Cons.prems(2) by (auto simp: rec_ok_def split: if_splits)
  have split: "mem_bytes m a (length r) = r" "mem_bytes m ?b ?k = concat rs"
    using Cons.prems(1) mem_bytes_append [of m a "length r" ?k] by simp_all
  have ub: "unat ?b = unat a + length r" and ue: "unat (a + of_nat (length r + ?k)) = unat a + (length r + ?k)"
    using Cons.prems(3) by (simp_all add: unat_word_ariths unat_of_nat take_bit_nat_eq_self)
  have step: "a + ucast (rd8m m (a + 1)) = ?b"
  proof -
    have "m (a + 1) = r ! 1" "unat (r ! 1) = length r"
      using mem_bytes_nth [OF split(1), of 1] len ok by (simp_all only: rec_ok_def of_nat_1)
    then show ?thesis
      by (simp only: rd8m_def ucast_u32_of_u8)
  qed
  have lt: "a < a + of_nat (length r + ?k)" "a < ?b"
    unfolding word_less_nat_alt ub ue using len by linarith+
  then have noloop: "?b \<noteq> a" "\<not> ?b < a"
    by auto
  have "madt_loop m s a (a + of_nat (length r + ?k)) =
      rbind (madt_record m s a) (\<lambda>s. madt_loop m s ?b (?b + of_nat ?k))"
    using lt noloop by (subst madt_loop.simps) (simp add: step Let_def add.assoc)
  moreover have "madt_loop m s' ?b (?b + of_nat ?k) = apply_recs s' (map decode_rec rs)" for s'
    using Cons.IH [OF split(2)] Cons.prems(2,3) ub by simp
  ultimately show ?case
    using madt_record_decode [OF split(1) ok] by simp
qed

section \<open>Examples\<close>

definition apic_blank :: apic where
  "apic_blank = \<lparr>ap_processor_id = 0, ap_ioapic_addr = 0, ap_lapic_addr = 0, ap_max_irqs = 0, ap_mapping = [],
     ap_ioapic = (\<lambda>_. 0)(1 := 0x170020), ap_lapic = [], ap_maps = [], ap_idt = fst (idt_init 0xD0000000), ap_done = False,
     hp_timers = 3, hp_period_ns = 10, hp_addr = 0xFED00000,
     hp_regs = (\<lambda>_. 0)(0xFED000F0 := 500, 0xFED00100 := 0x0000000400000000)\<rparr>"

theorem ioapic_mask_one_bit_witness:
  "bit (ap_ioapic (ioapic_irq_set_mask apic_blank 2) 0x14) 16 \<and> \<not> bit (ap_ioapic (ioapic_irq_clear_mask apic_blank 2) 0x14) 16"
  using ioapic_mask_one_bit [of 2 apic_blank "0x14" 16] by (simp add: entry_low_def)

theorem hpet_comparator_delay_witness:
  "\<exists>s' d. hpet_set_comparator apic_blank 0 10000000 = Inr s' \<and> d * 10 \<le> 1000000000 \<and> 1000000000 < d * 10 + (10 :: nat)"
  using hpet_comparator_delay [of apic_blank 10000000 0]
  by (auto simp: apic_blank_def hpet_read_counter_def hpet_get_reg_def HPET_REG_COUNTER_def)

text \<open>A local controller, an I/O controller and the override of line 0 by line 2.\<close>

definition madt_sample :: "u8 list list" where
  "madt_sample = [[0, 8, 0, 0, 1, 0, 0, 0], [1, 12, 0, 0, 0, 0, 0xC0, 0xFE, 0, 0, 0, 0], [2, 10, 0, 0, 2, 0, 0, 0, 0, 0]]"

theorem madt_visits_records_witness:
  "\<exists>s'. madt_loop (put_bytes 0x3000 (concat madt_sample) (\<lambda>_. 0)) apic_blank 0x3000 (0x3000 + of_nat (length (concat madt_sample))) = Inr s' \<and>
     ap_ioapic_addr s' = 0xFEC00000 \<and> length (ap_mapping s') = 24 \<and> ap_mapping s' ! 0 = 2 \<and> ap_mapping s' ! 1 = - 1"
proof -
  have mem: "mem_bytes (put_bytes 0x3000 (concat madt_sample) (\<lambda>_. 0)) 0x3000 (length (concat madt_sample)) = concat madt_sample"
    by (simp add: mem_bytes_def put_bytes_def madt_sample_def upt_rec)
  have ok: "list_all rec_ok madt_sample"
    by (simp add: madt_sample_def rec_ok_def)
  have "unat (0x3000 :: u32) + length (concat madt_sample) < 2 ^ 32"
    by (simp add: madt_sample_def)
  from madt_visits_records [OF mem ok this, of apic_blank] show ?thesis
    by (simp add: madt_sample_def decode_rec_def le32_def apic_blank_def Let_def drop_bit_eq_div)
qed

section \<open>Departures\<close>

text \<open>Fact [sleep_overflows]: The nanoseconds of \<open>sleep\<close> are computed in 32 bits: sleeping for 4295 milliseconds is sleeping for less than
  one.\<close>
theorem sleep_overflows: "sleep a s 4295 = nano_sleep a s 32704"
  by (simp add: sleep_def)

text \<open>Fact [ioapic_line_twice_aborts]: Activating a legacy line for which the firmware gives no override a second time stops the kernel, because the first
  activation marks the line itself as overwritten.\<close>
theorem ioapic_line_twice_aborts:
  assumes "unat irq < length (ap_mapping s)" and "ap_mapping s ! unat irq = - 1"
  shows "rbind (ioapic_legacy_irq_activate s irq) (\<lambda>s. ioapic_legacy_irq_activate s irq) = Inl Abort"
  using assms by (simp add: ioapic_legacy_irq_activate_def ioapic_get_mapping_def ioapic_write_reg_def Let_def)

text \<open>Fact [lapic_calibrates_one_second]: The calibration of the periodic timer, whose interval is meant to be 10 milliseconds (and is named one millisecond), waits for a
  comparator one second ahead.\<close>
theorem lapic_calibrates_one_second:
  assumes "hp_period_ns s \<noteq> 0"
  shows "\<exists>s'. lapic_timer_init1 s = Inr s' \<and>
    hp_regs s' (hpet_get_timer_reg s HPET_TIMER_REG_COMP 0) = hpet_read_counter s + 1000000000 div ucast (hp_period_ns s)"
  using assms
  by (simp add: lapic_timer_init1_def hpet_set_comparator_def lapic_write_reg_def Let_def hp_write_def hpet_read_counter_def
      hpet_get_timer_reg_def hpet_get_reg_def)

end
