(* ===== verification/Stdio.thy ===== *)
theory Stdio
  imports Keyboard Pipe Printf
begin

text \<open>
  The standard streams, \<open>src/kernel/io/stdio_handler.c\<close>.  A round of each of the two endless tasks is a function: the input
  task turns the last key symbol into a character and writes it to its pipe, the output task prints what it has read.

  Shown here: which character a pressed key becomes on its way from the keyboard driver to the pipe, and that the output
  task sends exactly the bytes it has read.
\<close>

section \<open>The standard streams\<close>

definition SYM_a :: u32 where "SYM_a = 24"
definition SYM_z :: u32 where "SYM_z = 49"
definition SYM_A :: u32 where "SYM_A = 24 + KB_SHIFT_FLAG"
definition SYM_Z :: u32 where "SYM_Z = 49 + KB_SHIFT_FLAG"
definition SYM_SPACE :: u32 where "SYM_SPACE = 55"
definition SYM_PERIOD :: u32 where "SYM_PERIOD = 57"
definition SYM_SLASH :: u32 where "SYM_SLASH = 58"
definition SYM_DASH :: u32 where "SYM_DASH = 60"
definition SYM_ENTER :: u32 where "SYM_ENTER = 64"
definition SYM_BACKSPACE :: u32 where "SYM_BACKSPACE = 67"

lemmas sym_consts = SYM_a_def SYM_z_def SYM_A_def SYM_Z_def SYM_SPACE_def SYM_PERIOD_def SYM_SLASH_def SYM_DASH_def
  SYM_ENTER_def SYM_BACKSPACE_def

definition stdin_keysym_to_char :: "kb_keysym_t \<Rightarrow> kb_keysym_t" where
  "stdin_keysym_to_char last_code =
     (let code_int = push_bit 16 (ucast (ks_flags last_code)) OR ucast (ks_keysym last_code) :: u32 in
      if SYM_a \<le> code_int \<and> code_int \<le> SYM_z then last_code\<lparr>ks_ascii := ucast (97 + code_int - SYM_a)\<rparr>
      else if SYM_A \<le> code_int \<and> code_int \<le> SYM_Z then last_code\<lparr>ks_ascii := ucast (65 + code_int - SYM_A)\<rparr>
      else if code_int = SYM_SLASH then last_code\<lparr>ks_ascii := 47\<rparr>
      else if code_int = SYM_PERIOD then last_code\<lparr>ks_ascii := 46\<rparr>
      else if code_int = SYM_SPACE then last_code\<lparr>ks_ascii := 32\<rparr>
      else if code_int = SYM_DASH then last_code\<lparr>ks_ascii := 45\<rparr>
      else if code_int = SYM_ENTER then last_code\<lparr>ks_ascii := 10\<rparr>
      else if code_int = SYM_BACKSPACE then last_code\<lparr>ks_ascii := 8\<rparr>
      else last_code)"

text \<open>The four bytes of a key symbol as they go through the pipe.\<close>

definition keysym_bytes :: "kb_keysym_t \<Rightarrow> u8 list" where
  "keysym_bytes k = [ks_ascii k, ks_flags k, ucast (ks_keysym k), ucast (drop_bit 8 (ks_keysym k))]"

text \<open>A round of the input task, up to the point where it blocks: the key is written to the pipe of the shell.\<close>

definition stdin_handler :: "pipe_t \<Rightarrow> kb_keysym_t \<Rightarrow> prun" where
  "stdin_handler stdin_write last_code = pipe_write stdin_write (keysym_bytes (stdin_keysym_to_char last_code)) 4 None"

text \<open>A round of the output task with the bytes it has read from its pipe.\<close>

fun stdout_handler :: "stdout \<Rightarrow> u8 list \<Rightarrow> stdout" where
  "stdout_handler s [] = s"
| "stdout_handler s (b # bs) = stdout_handler (snd (putchar (uint b) s)) bs"

section \<open>The two tasks\<close>

text \<open>The variables of the file, with the two pipes they lead to and the parts of the kernel they are created in.\<close>

record stdio =
  stdin_read :: ptr
  stdin_write :: ptr
  stdout_read :: ptr
  stdout_write :: ptr
  stdin_pipe :: "pipe_t option"
  stdout_pipe :: "pipe_t option"
  stdin_task :: ptr
  stdout_task :: ptr
  stdin_buffer :: ptr
  stdout_buffer :: ptr
  last_code :: kb_keysym_t
  so_files :: ftable
  so_sched :: sched

text \<open>
  What the allocator gives for a stream: two files and what they held, a pipe and its buffer, a second buffer, and a task with its
  two stacks; and what creating the task refers to.
\<close>

record stream_blocks =
  sb_read :: ptr
  sb_write :: ptr
  sb_file :: file_t
  sb_pipe :: ptr
  sb_mem :: "u8 list"
  sb_buffer :: ptr
  sb_task :: ptr
  sb_stack :: ptr
  sb_stack0 :: ptr
  sb_open_files :: "ptr list"
  sb_name :: "u8 list"

record kernel_env =
  ke_call :: "fn \<Rightarrow> ptr \<Rightarrow> ftable \<Rightarrow> ftable res"
  ke_terminate :: u32
  ke_init :: u32
  ke_page_dir :: u32

definition stream_task :: "kernel_env \<Rightarrow> stream_blocks \<Rightarrow> sched \<Rightarrow> u32 \<Rightarrow> sched res" where
  "stream_task e b s func = task_kernel_create_new s (sb_task b) (sb_stack b) (sb_stack0 b) (ke_terminate e) (sb_open_files b) func
     (sb_name b) (ke_init e) (ke_page_dir e)"

definition stdin_send_code :: "stdio \<Rightarrow> kb_keysym_t \<Rightarrow> stdio res" where
  "stdin_send_code s keycode =
     rbind (task_force_switch (so_sched s) (stdin_task s)) (\<lambda>sc. Inr (s\<lparr>last_code := keycode, so_sched := sc\<rparr>))"

definition stdin_init :: "kernel_env \<Rightarrow> stream_blocks \<Rightarrow> stdio \<Rightarrow> u32 \<Rightarrow> stdio res" where
  "stdin_init e b s handler =
     rbind (pipe_alloc (ke_call e) (so_files s) (sb_read b) (sb_write b) (sb_file b) (sb_pipe b) (sb_mem b) PIPE_SIZE PIPE_TYPE_UNBUFFERED)
       (\<lambda>(_, r, w, pipe, t).
     rbind (stream_task e b (so_sched s) handler) (\<lambda>sc.
     Inr (s\<lparr>stdin_read := r, stdin_write := w, stdin_pipe := pipe, stdin_buffer := sb_buffer b, stdin_task := sb_task b,
       so_files := t, so_sched := sc\<rparr>)))"

definition stdout_init :: "kernel_env \<Rightarrow> stream_blocks \<Rightarrow> stdio \<Rightarrow> u32 \<Rightarrow> stdio res" where
  "stdout_init e b s handler =
     rbind (pipe_alloc (ke_call e) (so_files s) (sb_read b) (sb_write b) (sb_file b) (sb_pipe b) (sb_mem b) PIPE_SIZE PIPE_TYPE_BUF_CHAR)
       (\<lambda>(_, r, w, pipe, t).
     rbind (stream_task e b (so_sched s) handler) (\<lambda>sc.
     rbind (task_add_node sc (sb_task b)) (\<lambda>sc.
     Inr (s\<lparr>stdout_read := r, stdout_write := w, stdout_pipe := pipe, stdout_buffer := sb_buffer b, stdout_task := sb_task b,
       so_files := t, so_sched := sc\<rparr>))))"

definition stdio_init :: "kernel_env \<Rightarrow> stream_blocks \<Rightarrow> stream_blocks \<Rightarrow> stdio \<Rightarrow> u32 \<Rightarrow> u32 \<Rightarrow> stdio res" where
  "stdio_init e b1 b2 s in_handler out_handler =
     rbind (stdin_init e b1 s in_handler) (\<lambda>s. stdout_init e b2 s out_handler)"

section \<open>Handing over a key\<close>

lemma force_switch_run:
  assumes "tasks s (current_task s) = Some c" and "tasks s x = Some t" and "x \<noteq> current_task s" and "postpone_switch_counter s = 0"
    and "schedule_lock_counter s + 1 \<noteq> 0"
  shows "task_force_switch s x =
    (let s1 = s\<lparr>tasks := (tasks s)(current_task s \<mapsto> c\<lparr>ti_next := schedule_tasks s\<rparr>), schedule_tasks := current_task s\<rparr>;
         s2 = (if current_task s = idle_task s
               then s1\<lparr>tasks := (tasks s1)(current_task s \<mapsto> c\<lparr>ti_state := AVAILABLE, ti_next := current_task s\<rparr>)\<rparr> else s1) in
     Inr (s2\<lparr>tasks := (tasks s2)(x \<mapsto> t\<lparr>ti_next := NULL, ti_state := RUNNING\<rparr>), current_task := x,
       time_slice_remaining := (if x = idle_task s then 0 else TIME_SLICE)\<rparr>))"
  using assms
  by (simp add: task_force_switch_def task_switch_wrapper_def task_switch_def task_add_node_def task_access task_lock_scheduler_def
      task_unlock_scheduler_def Let_def)

text \<open>Fact [stdin_send_code_switches]: A key that arrives while a task other than the idle task runs is stored for the input task, the processor goes to the input task at
  once, and the interrupted task is the first of the ready tasks; the lists of the scheduler stay well-formed and its lock counters as before.\<close>
theorem stdin_send_code_switches:
  assumes "sched_lists (so_sched s) R S D" and "current_task (so_sched s) \<noteq> idle_task (so_sched s)"
    and "current_task (so_sched s) \<notin> set (S @ D)" and "postpone_switch_counter (so_sched s) = 0" and "schedule_lock_counter (so_sched s) + 1 \<noteq> 0"
    and "stdin_task s \<noteq> NULL" and "stdin_task s \<notin> set (R @ S @ D)" and "stdin_task s \<noteq> current_task (so_sched s)"
    and "tasks (so_sched s) (stdin_task s) \<noteq> None"
  shows "\<exists>s'. stdin_send_code s keycode = Inr s' \<and> last_code s' = keycode \<and> current_task (so_sched s') = stdin_task s \<and>
    sched_lists (so_sched s') (current_task (so_sched s) # R) S D \<and> locks (so_sched s') = locks (so_sched s)"
proof -
  let ?s = "so_sched s"
  obtain c t where ct: "tasks ?s (current_task ?s) = Some c" "tasks ?s (stdin_task s) = Some t"
    using assms(1,9) by (auto simp: sched_lists_def)
  note run = force_switch_run [OF ct assms(8,4,5)]
  show ?thesis
    using assms ct by (auto simp: stdin_send_code_def run Let_def sched_lists_def)
qed

definition stdio_sample :: stdio where
  "stdio_sample = \<lparr>stdin_read = 0x10, stdin_write = 0x20, stdout_read = 0x30, stdout_write = 0x40, stdin_pipe = None, stdout_pipe = None,
     stdin_task = 0x400, stdout_task = 0x200, stdin_buffer = 0x50, stdout_buffer = 0x60,
     last_code = \<lparr>ks_ascii = 0, ks_flags = 0, ks_keysym = 0\<rparr>,
     so_files = \<lparr>fh_mutex = mutex_create, fh_flist = NULL, fh_ulist = NULL, fh_files = (\<lambda>_. None)\<rparr>,
     so_sched = sched_sample\<lparr>tasks := (tasks sched_sample)(0x400 \<mapsto> the (tasks sched_sample 0x100))\<rparr>\<rparr>"

theorem stdin_send_code_switches_witness:
  "\<exists>s'. stdin_send_code stdio_sample \<lparr>ks_ascii = 0, ks_flags = 0, ks_keysym = 30\<rparr> = Inr s' \<and> current_task (so_sched s') = 0x400 \<and>
     sched_lists (so_sched s') [0x100, 0x200, 0x300] [] []"
proof -
  have "sched_lists (so_sched stdio_sample) [0x200, 0x300] [] []"
    by (simp add: sched_lists_def sched_sample_def stdio_sample_def)
  from stdin_send_code_switches [OF this, of "\<lparr>ks_ascii = 0, ks_flags = 0, ks_keysym = 30\<rparr>"] show ?thesis
    by (auto simp: stdio_sample_def sched_sample_def)
qed

text \<open>Fact [stdin_send_code_idle_cycle]: A key that arrives while the idle task runs, as it does when every other task waits, puts the idle task twice into the ready
  list: it becomes its own successor, so every other ready task is lost and the list has no end.\<close>
theorem stdin_send_code_idle_cycle:
  assumes "sched_lists (so_sched s) R S D" and "current_task (so_sched s) = idle_task (so_sched s)"
    and "postpone_switch_counter (so_sched s) = 0" and "schedule_lock_counter (so_sched s) + 1 \<noteq> 0"
    and "stdin_task s \<noteq> current_task (so_sched s)" and "tasks (so_sched s) (stdin_task s) \<noteq> None"
  shows "\<exists>s' i. stdin_send_code s keycode = Inr s' \<and> schedule_tasks (so_sched s') = idle_task (so_sched s) \<and>
    tasks (so_sched s') (idle_task (so_sched s)) = Some i \<and> ti_next i = idle_task (so_sched s) \<and> (\<forall>R'. \<not> sched_lists (so_sched s') R' S D)"
proof -
  let ?s = "so_sched s"
  obtain c t where ct: "tasks ?s (current_task ?s) = Some c" "tasks ?s (stdin_task s) = Some t"
    using assms(1,6) by (auto simp: sched_lists_def)
  obtain s' i where s': "stdin_send_code s keycode = Inr s'" "schedule_tasks (so_sched s') = idle_task ?s"
      "tasks (so_sched s') (idle_task ?s) = Some i" "ti_next i = idle_task ?s"
    using assms ct force_switch_run [OF ct assms(5,3,4)] by (auto simp: stdin_send_code_def Let_def)
  have "\<not> (chain (tasks (so_sched s')) (idle_task ?s) R' \<and> distinct R')" for R'
  proof (cases R')
    case Nil
    then show ?thesis
      using assms(1) by (simp add: sched_lists_def)
  next
    case (Cons x xs)
    then show ?thesis
      using s'(3,4) assms(1) by (cases xs) (auto simp: sched_lists_def split: option.splits)
  qed
  then show ?thesis
    using s' by (intro exI [of _ s'] exI [of _ i]) (auto simp: sched_lists_def)
qed

section \<open>From keys to characters\<close>

lemma small_bit: "unat (c :: u32) < 64 \<Longrightarrow> bit c n \<Longrightarrow> n < 6"
proof (rule ccontr)
  assume "unat c < 64" "bit c n" "\<not> n < 6"
  moreover have "drop_bit 6 c = 0"
    using \<open>unat c < 64\<close> by (simp add: word_unat_eq_iff unat_drop_bit_eq drop_bit_eq_div unat_div)
  ultimately show False
    using bit_above [of 6 c n] by simp
qed

lemma bit_flag: "bit (2 ^ i :: u32) n \<longleftrightarrow> n = i \<and> i < 32"
  by (auto simp: bit_exp_iff)

lemma key_flags:
  assumes "unat (c :: u32) < 64"
  shows "c AND NOT KB_RELEASE_FLAG = c" and "drop_bit 31 c = 0"
    and "drop_bit 16 c AND 0xFF = 0" and "c AND 0xFFFF = c" and "(c OR KB_SHIFT_FLAG) AND 0xFFFF = c"
    and "drop_bit 16 (c OR KB_SHIFT_FLAG) AND 0xFF = 32" and "c OR KB_SHIFT_FLAG = c + KB_SHIFT_FLAG"
    and "ucast (ucast c :: u16) = c"
proof -
  note b = small_bit [OF assms]
  have m: "(0xFFFF :: u32) = mask 16" "(0xFF :: u32) = mask 8" "KB_RELEASE_FLAG = 2 ^ 31" "KB_SHIFT_FLAG = 2 ^ 21" "(32 :: u32) = 2 ^ 5"
    by (simp_all add: mask_eq_exp_minus_1 KB_RELEASE_FLAG_def KB_SHIFT_FLAG_def)
  note bs = bit_and_iff bit_or_iff bit_not_iff bit_mask_iff bit_drop_bit_eq bit_flag comp_apply
  show "c AND NOT KB_RELEASE_FLAG = c" "drop_bit 31 c = 0" "drop_bit 16 c AND 0xFF = 0" "c AND 0xFFFF = c"
      "(c OR KB_SHIFT_FLAG) AND 0xFFFF = c" "drop_bit 16 (c OR KB_SHIFT_FLAG) AND 0xFF = 32"
    unfolding m by ((rule bit_word_eqI; unfold bs; auto dest: b)+)
  show "c OR KB_SHIFT_FLAG = c + KB_SHIFT_FLAG"
    unfolding m by (rule disjunctive_add [symmetric]) (auto simp only: bit_flag dest: b)
  show "ucast (ucast c :: u16) = c"
    by (rule bit_word_eqI) (auto simp: bit_simps dest: b)
qed

definition plain_flags :: "keyboard \<Rightarrow> bool" where
  "plain_flags k \<longleftrightarrow> ctrl_flag (kb_flags k) = 0 \<and> alt_flag (kb_flags k) = 0 \<and> altgr_flag (kb_flags k) = 0 \<and> gui_flag (kb_flags k) = 0"

lemma letter_code:
  assumes "i < 26"
  shows "unat (KEY_A + of_nat i :: u32) = 24 + i" and "unat (KEY_A + of_nat i :: u32) < 64"
  using assms by (simp_all add: unat_word_ariths unat_of_nat take_bit_nat_eq_self)

lemma letter_char:
  assumes "i < 26"
  defines "c \<equiv> KEY_A + of_nat i :: u32"
  shows "ks_ascii (stdin_keysym_to_char \<lparr>ks_ascii = 0, ks_flags = 0, ks_keysym = ucast c\<rparr>) = of_nat (97 + i)"
    and "ks_ascii (stdin_keysym_to_char \<lparr>ks_ascii = 0, ks_flags = 32, ks_keysym = ucast c\<rparr>) = of_nat (65 + i)"
proof -
  have u: "unat c = 24 + i" and s: "unat c < 64"
    using letter_code [OF assms(1)] unfolding c_def by blast+
  have lower: "SYM_a \<le> c" "c \<le> SYM_z"
    using u assms(1) by (simp_all add: sym_consts word_le_nat_alt)
  have "unat (c + KB_SHIFT_FLAG) = unat c + 2097152"
    using s by (simp add: KB_SHIFT_FLAG_def unat_word_ariths)
  then have upper: "\<not> c + KB_SHIFT_FLAG \<le> SYM_z" "SYM_A \<le> c + KB_SHIFT_FLAG" "c + KB_SHIFT_FLAG \<le> SYM_Z"
    using u assms(1) by (simp_all add: word_le_nat_alt sym_consts) (simp_all add: KB_SHIFT_FLAG_def)
  have "97 + c - SYM_a = of_nat (97 + i)" "65 + (c + KB_SHIFT_FLAG) - SYM_A = of_nat (65 + i)"
    by (simp_all add: c_def sym_consts)
  then have cast: "ucast (97 + c - SYM_a) = (of_nat (97 + i) :: u8)" "ucast (65 + (c + KB_SHIFT_FLAG) - SYM_A) = (of_nat (65 + i) :: u8)"
    using assms(1) by (simp_all only: unsigned_of_nat) (simp_all add: take_bit_nat_eq_self)
  have flag: "push_bit 16 (ucast (32 :: u8)) OR c = c + KB_SHIFT_FLAG"
    using key_flags(7) [OF s] by (simp add: KB_SHIFT_FLAG_def or.commute)
  show "ks_ascii (stdin_keysym_to_char \<lparr>ks_ascii = 0, ks_flags = 0, ks_keysym = ucast c\<rparr>) = of_nat (97 + i)"
    using lower by (simp add: stdin_keysym_to_char_def Let_def key_flags [OF s] cast del: of_nat_add)
  show "ks_ascii (stdin_keysym_to_char \<lparr>ks_ascii = 0, ks_flags = 32, ks_keysym = ucast c\<rparr>) = of_nat (65 + i)"
    using upper flag by (simp add: stdin_keysym_to_char_def Let_def key_flags [OF s] cast del: of_nat_add)
qed

lemma letter_symbol:
  assumes "plain_flags k" and "i < 26"
  shows "kb_typed (keyboard_handle_keycode k (KEY_A + of_nat i)) = kb_typed k @
    [\<lparr>ks_ascii = 0, ks_flags = (if shift_flag (kb_flags k) \<noteq> 0 then 32 else 0), ks_keysym = ucast (KEY_A + of_nat i :: u32)\<rparr>]"
proof -
  define c :: u32 where "c = KEY_A + of_nat i"
  have u: "unat c = 24 + i" and s: "unat c < 64"
    using letter_code [OF assms(2)] unfolding c_def by blast+
  have "c \<noteq> KEY_LSHIFT" "c \<noteq> KEY_RSHIFT" "c \<noteq> KEY_CAPSLOCK" "c \<noteq> KEY_LCTRL" "c \<noteq> KEY_RCTRL" "c \<noteq> KEY_LALT" "c \<noteq> KEY_RALT"
      "c \<noteq> KEY_LGUI"
    using u assms(2) by (auto simp: word_unat_eq_iff)
  then show ?thesis
    using assms(1) unfolding c_def [symmetric]
    by (simp add: keyboard_handle_keycode_def plain_flags_def kb_send_code_def Let_def key_flags(1-6) [OF s] del: drop_bit_or)
qed

text \<open>C38 [letter_keys_typed]: With no modifier but shift, pressing the key of the n-th letter of the alphabet makes the keyboard driver hand exactly one key symbol to
  the input task, which turns it into the n-th small letter, or the n-th capital letter when shift is on.\<close>
theorem letter_keys_typed:
  assumes "plain_flags k" and "i < 26"
  shows "\<exists>ks. kb_typed (keyboard_handle_keycode k (KEY_A + of_nat i)) = kb_typed k @ [ks] \<and>
    ks_ascii (stdin_keysym_to_char ks) = of_nat ((if shift_flag (kb_flags k) \<noteq> 0 then 65 else 97) + i)"
  using letter_char [OF assms(2)] letter_symbol [OF assms] by (cases "shift_flag (kb_flags k) = 0") (auto simp del: of_nat_add)

theorem letter_keys_typed_witness:
  "\<exists>ks. kb_typed (keyboard_handle_keycode (keyboard_start []) (KEY_A + of_nat 2)) = kb_typed (keyboard_start []) @ [ks] \<and>
     ks_ascii (stdin_keysym_to_char ks) = 99"
  using letter_keys_typed [of "keyboard_start []" 2] by (simp add: plain_flags_def keyboard_start_def)

lemma send_Cons: "send bs (send [b] s) = send (b # bs) s"
  by (simp add: send_def)

text \<open>Fact [stdout_handler_prints]: A round of the output task prints the bytes it has read, in order and unchanged.\<close>
theorem stdout_handler_prints: "stdout_handler s bs = send bs s"
  by (induction bs arbitrary: s) (simp_all add: putchar_send send_Cons)

text \<open>Fact [digit_keys_ignored]: The keys of the digits are not turned into characters: the symbol reaches the shell with the character 0, which it skips.\<close>
theorem digit_keys_ignored:
  assumes "14 \<le> (code :: u16)" and "code \<le> 23"
  shows "stdin_keysym_to_char \<lparr>ks_ascii = 0, ks_flags = 0, ks_keysym = code\<rparr> = \<lparr>ks_ascii = 0, ks_flags = 0, ks_keysym = code\<rparr>"
proof -
  have small: "unat code \<le> 23"
    using assms(2) by (simp add: word_le_nat_alt)
  then have "unat (ucast code :: u32) = unat code"
    by (simp add: unsigned_ucast_eq take_bit_nat_eq_self)
  with small show ?thesis
    by (auto simp: stdin_keysym_to_char_def Let_def word_le_nat_alt word_unat_eq_iff sym_consts KB_SHIFT_FLAG_def)
qed

end
