(* ===== verification/Shell.thy ===== *)
theory Shell
  imports ExtDir Stdio Apic
begin

text \<open>
  The shell (\<open>src/kernel/usr/shell.c\<close>) and the system calls of \<open>src/kernel/usr/syscall.c\<close> that theory \<open>Pipe\<close> does not
  hold.  A round of the endless loop of the shell is a function.  The shell makes its system calls through a parameter \<open>sys\<close>, which takes the state of the kernel and a call to an answer and
  the next state; what the keyboard delivers to it is a list of key symbols, and when that is exhausted it waits for ever.

  The locale \<open>console\<close> is the contract of the output the shell relies on; theory \<open>Console\<close> interprets it on the pipe and the output task.

  Shown here: that, on every console, the line editor leaves the edited line in its buffer and shows every step of it, and what a round of the shell shows; which calls a command line
  leads to; what the table of system calls holds; and where commands overrun their buffers.
\<close>

section \<open>The shell\<close>

datatype call =
    Write "u8 list" | Chdir "u8 list" | Readdir "u8 list" | Open "u8 list" u32 | Fstat int | Read int u32 | Close int

text \<open>The answers: a number, the size that a file's status reports, the bytes read, the names in a directory.\<close>

datatype answer = Ret int | Size u32 | Bytes "u8 list" | Names "u8 list list"

type_synonym 'k sys = "'k \<Rightarrow> call \<Rightarrow> (answer \<times> 'k) res"

definition put_out :: "'k sys \<Rightarrow> 'k \<Rightarrow> u8 list \<Rightarrow> 'k res" where
  "put_out sys k bs = rbind (sys k (Write bs)) (\<lambda>(_, k). Inr k)"

definition ERR_CMD1 :: "u8 list" where
  "ERR_CMD1 = [110, 111, 32, 107, 110, 111, 119, 110, 32, 99, 111, 109, 109, 97, 110, 100, 32, 34]"

definition ERR_CMD2 :: "u8 list" where "ERR_CMD2 = [34, 10]"

text \<open>The line editor: what is left of the keys, the buffer and the state of the kernel.\<close>

fun shell_input_loop :: "'k sys \<Rightarrow> 'k \<Rightarrow> kb_keysym_t list \<Rightarrow> u8 list \<Rightarrow> nat \<Rightarrow> nat \<Rightarrow> (kb_keysym_t list \<times> u8 list \<times> 'k) res" where
  "shell_input_loop sys k [] buffer size' i = (if i < size' then Inl Hang else Inr ([], buffer, k))"
| "shell_input_loop sys k (keysym # keys) buffer size' i =
     (if i < size' then
        if ks_ascii keysym = 0 then shell_input_loop sys k keys buffer size' i
        else if ks_ascii keysym = 10 then
          rbind (array_set buffer i 0) (\<lambda>buffer.
          rbind (put_out sys k [ks_ascii keysym]) (\<lambda>k. Inr (keys, buffer, k)))
        else if ks_ascii keysym = 8 then
          if i = 0 then shell_input_loop sys k keys buffer size' i
          else rbind (put_out sys k [ks_ascii keysym]) (\<lambda>k. shell_input_loop sys k keys buffer size' (i - 1))
        else
          rbind (array_set buffer i (ks_ascii keysym)) (\<lambda>buffer.
          rbind (put_out sys k [ks_ascii keysym]) (\<lambda>k. shell_input_loop sys k keys buffer size' (i + 1)))
      else Inr (keysym # keys, buffer, k))"

definition shell_input :: "'k sys \<Rightarrow> 'k \<Rightarrow> kb_keysym_t list \<Rightarrow> u8 list \<Rightarrow> nat \<Rightarrow> (kb_keysym_t list \<times> u8 list \<times> 'k) res" where
  "shell_input sys k keys buffer size' = shell_input_loop sys k keys buffer size' 0"

text \<open>The text from an index of the buffer, as a function that takes a string reads it.\<close>

definition str_at :: "u8 list \<Rightarrow> nat \<Rightarrow> u8 list" where
  "str_at buffer i = takeWhile (\<lambda>c. c \<noteq> 0) (drop i buffer)"

text \<open>Whether a command is followed by an argument, as the commands test it.\<close>

definition has_arg :: "u8 list \<Rightarrow> nat \<Rightarrow> bool res" where
  "has_arg buffer i =
     rbind (array_get buffer i) (\<lambda>c.
     if c = 0 then Inr False else rbind (array_get buffer (i + 1)) (\<lambda>d. Inr (d \<noteq> 0)))"

definition shell_cd :: "'k sys \<Rightarrow> 'k \<Rightarrow> u8 list \<Rightarrow> 'k res" where
  "shell_cd sys k buffer =
     rbind (has_arg buffer 2) (\<lambda>a.
     if \<not> a then Inr k else rbind (sys k (Chdir (str_at buffer 3))) (\<lambda>(_, k). Inr k))"

fun put_names :: "'k sys \<Rightarrow> 'k \<Rightarrow> u8 list list \<Rightarrow> 'k res" where
  "put_names sys k [] = Inr k"
| "put_names sys k (n # ns) =
     rbind (put_out sys k n) (\<lambda>k. rbind (put_out sys k [10]) (\<lambda>k. put_names sys k ns))"

text \<open>The entries are freed by a loop that reads the link of an entry after it has freed it, which has no effect here.\<close>

definition shell_ls :: "'k sys \<Rightarrow> 'k \<Rightarrow> 'k res" where
  "shell_ls sys k =
     rbind (sys k (Readdir [])) (\<lambda>(a, k).
     rbind (put_out sys k [10]) (\<lambda>k.
     rbind (put_names sys k (case a of Names ns \<Rightarrow> ns | _ \<Rightarrow> [])) (\<lambda>k.
       put_out sys k [10])))"

definition shell_echo :: "'k sys \<Rightarrow> 'k \<Rightarrow> u8 list \<Rightarrow> 'k res" where
  "shell_echo sys k buffer =
     rbind (has_arg buffer 4) (\<lambda>a.
     if \<not> a then Inr k
     else rbind (put_out sys k (str_at buffer 5)) (\<lambda>k. put_out sys k [10]))"

text \<open>"file not found" and a line feed.\<close>

definition NOT_FOUND :: "u8 list" where
  "NOT_FOUND = [102, 105, 108, 101, 32, 110, 111, 116, 32, 102, 111, 117, 110, 100, 10]"

text \<open>The buffer for the contents has the size of the field that holds the size of the file, four bytes.\<close>

definition shell_cat :: "'k sys \<Rightarrow> 'k \<Rightarrow> u8 list \<Rightarrow> 'k res" where
  "shell_cat sys k buffer =
     rbind (has_arg buffer 3) (\<lambda>a.
     if \<not> a then Inr k
     else
       rbind (sys k (Open (str_at buffer 4) O_RDONLY)) (\<lambda>(r, k).
       let fd = (case r of Ret fd \<Rightarrow> fd | _ \<Rightarrow> 0) in
       rbind (if fd = -1 then put_out sys k NOT_FOUND else Inr k) (\<lambda>k.
       rbind (sys k (Fstat fd)) (\<lambda>(r, k).
       let size' = (case r of Size n \<Rightarrow> n | _ \<Rightarrow> 0) in
       rbind (sys k (Read fd size')) (\<lambda>(r, k).
       let bs = (case r of Bytes bs \<Rightarrow> bs | _ \<Rightarrow> []) in
       if 4 < length bs \<or> 4 < size' then Inl BadAccess
       else
         rbind (put_out sys k (take (unat size') (bs @ replicate 4 0))) (\<lambda>k.
         rbind (sys k (Close fd)) (\<lambda>(_, k). Inr k)))))))"

definition shell_input_error :: "'k sys \<Rightarrow> 'k \<Rightarrow> u8 list \<Rightarrow> 'k res" where
  "shell_input_error sys k buffer =
     rbind (put_out sys k ERR_CMD1) (\<lambda>k. rbind (put_out sys k (str_at buffer 0)) (\<lambda>k. put_out sys k ERR_CMD2))"

text \<open>Whether the buffer starts with a name, as \<open>memcmp\<close> finds it.\<close>

definition starts :: "u8 list \<Rightarrow> u8 list \<Rightarrow> bool res" where
  "starts buffer name = rbind (memcmp buffer name (length name)) (\<lambda>c. Inr (c = 0))"

definition shell_parse :: "'k sys \<Rightarrow> 'k \<Rightarrow> u8 list \<Rightarrow> 'k res" where
  "shell_parse sys k buffer =
     rbind (array_get buffer 0) (\<lambda>c.
     if c = 0 then Inr k
     else if c = 108 then
       rbind (starts buffer [108, 115]) (\<lambda>b. if b then shell_ls sys k else shell_input_error sys k buffer)
     else if c = 101 then
       rbind (starts buffer [101, 99, 104, 111]) (\<lambda>b. if b then shell_echo sys k buffer else shell_input_error sys k buffer)
     else if c = 99 then
       rbind (starts buffer [99, 100]) (\<lambda>b.
       if b then shell_cd sys k buffer
       else rbind (starts buffer [99, 97, 116]) (\<lambda>b. if b then shell_cat sys k buffer else shell_input_error sys k buffer))
     else shell_input_error sys k buffer)"

text \<open>A round of the shell: the prompt with the path of the current directory, a line, its command.\<close>

definition shell_main :: "'k sys \<Rightarrow> 'k \<Rightarrow> u8 list \<Rightarrow> kb_keysym_t list \<Rightarrow> u8 list \<Rightarrow> (kb_keysym_t list \<times> u8 list \<times> 'k) res" where
  "shell_main sys k cur_path keys buffer =
     rbind (put_out sys k cur_path) (\<lambda>k.
     rbind (put_out sys k [32, 62, 32]) (\<lambda>k.
     rbind (shell_input sys k keys buffer 512) (\<lambda>(keys, buffer, k).
     rbind (shell_parse sys k buffer) (\<lambda>k. Inr (keys, buffer, k)))))"

section \<open>System calls\<close>

definition fd_file :: "ptr list \<Rightarrow> int \<Rightarrow> ptr res" where
  "fd_file open_files fd = (if fd < 0 then Inl BadAccess else array_get open_files (nat fd))"

definition syscall_read :: "(fn \<Rightarrow> ptr \<Rightarrow> 's \<Rightarrow> (int \<times> 's) res) \<Rightarrow> ftable \<Rightarrow> ptr list \<Rightarrow> int \<Rightarrow> 's \<Rightarrow> (int \<times> 's) res" where
  "syscall_read call t open_files fd s = rbind (fd_file open_files fd) (\<lambda>file. file_read call t file s)"

text \<open>The number of bytes written is not returned: the result is whatever the register holds.\<close>

definition syscall_write ::
    "(fn \<Rightarrow> ptr \<Rightarrow> 's \<Rightarrow> (int \<times> 's) res) \<Rightarrow> apic \<Rightarrow> int \<Rightarrow> sched \<Rightarrow> ftable \<Rightarrow> ptr list \<Rightarrow> int \<Rightarrow> 's \<Rightarrow> (int \<times> sched \<times> 's) res" where
  "syscall_write call a eax sc t open_files fd s =
     rbind (fd_file open_files fd) (\<lambda>file.
     rbind (file_write call t file s) (\<lambda>(ret, s).
     rbind (sleep a sc 1) (\<lambda>sc. Inr (eax, sc, s))))"

definition syscall_fstat :: "(fn \<Rightarrow> ptr \<Rightarrow> 's \<Rightarrow> 's res) \<Rightarrow> ftable \<Rightarrow> ptr list \<Rightarrow> int \<Rightarrow> 's \<Rightarrow> (int \<times> 's) res" where
  "syscall_fstat call t open_files fd s = rbind (fd_file open_files fd) (\<lambda>file. file_stat call t file s)"

definition syscall_link :: "'s dhead dir_itf option list \<Rightarrow> ptr \<Rightarrow> 's dhead \<Rightarrow> ptr \<Rightarrow> ptr \<Rightarrow> (int \<times> 's dhead) res" where
  "syscall_link itfs bp h oldpath newpath = dir_link itfs bp h oldpath newpath"

definition syscall_unlink :: "'s dhead dir_itf option list \<Rightarrow> ptr \<Rightarrow> 's dhead \<Rightarrow> ptr \<Rightarrow> (int \<times> 's dhead) res" where
  "syscall_unlink itfs bp h path = dir_unlink itfs bp h path"

definition syscall_open ::
    "nat \<Rightarrow> (fn \<Rightarrow> ptr \<Rightarrow> ftable \<Rightarrow> ftable res) \<Rightarrow> 's dhead dir_itf option list \<Rightarrow> ptr \<Rightarrow> file_t \<Rightarrow> 's dhead \<Rightarrow> ftable \<Rightarrow> ptr list \<Rightarrow>
     ptr \<Rightarrow> u32 \<Rightarrow> (int \<times> ptr list \<times> ftable \<times> 's dhead) res" where
  "syscall_open n call itfs bp fmem h t open_files path flags = file_open n call itfs bp fmem h t open_files path flags"

definition syscall_mkdir :: "nat \<Rightarrow> 's dhead dir_itf option list \<Rightarrow> ptr \<Rightarrow> 's dhead \<Rightarrow> ptr \<Rightarrow> u32 \<Rightarrow> (int \<times> 's dhead) res" where
  "syscall_mkdir n itfs bp h path mode = dir_make n itfs bp h path mode"

definition syscall_chdir :: "'s dhead dir_itf option list \<Rightarrow> ptr \<Rightarrow> 's dhead \<Rightarrow> ptr \<Rightarrow> (int \<times> 's dhead) res" where
  "syscall_chdir itfs bp h path = dir_change itfs bp h path"

record dirent =
  dn_inode_n :: u32
  dn_name :: "u8 list"
  dn_next :: ptr

text \<open>
  The loop of \<open>syscall_readdir\<close> over the children of a directory, at most \<open>n\<close>.  \<open>old\<close> is what the allocated blocks hold:
  the call that should clear them has its size and its value exchanged and clears nothing.
\<close>

fun readdir_loop :: "nat \<Rightarrow> (ptr \<Rightarrow> dirent) \<Rightarrow> 's dhead \<Rightarrow> (ptr \<Rightarrow> dirent option) \<Rightarrow> ptr \<Rightarrow> ptr \<Rightarrow> ptr \<Rightarrow>
    ((ptr \<Rightarrow> dirent option) \<times> 's dhead) res" where
  "readdir_loop 0 old h ds child tmp prev = (if child = NULL then Inr (ds, h) else Inl Hang)"
| "readdir_loop (Suc n) old h ds child tmp prev =
     (if child = NULL then Inr (ds, h)
      else
        let ds = (if prev \<noteq> NULL then ds(prev := map_option (\<lambda>d. d\<lparr>dn_next := tmp\<rparr>) (ds prev)) else ds) in
        rbind (de_get h child) (\<lambda>c.
        rbind (inode_of h (de_inode c)) (\<lambda>i.
        let path = dh_strs h (de_path c); slen = length path; d = old tmp;
            d = d\<lparr>dn_inode_n := in_n i, dn_name := take 256 path @ drop slen (dn_name d)\<rparr> in
        rbind (kmalloc_d h) (\<lambda>(new, h).
          readdir_loop n old h (ds(tmp \<mapsto> d)) (de_next_sib c) new tmp))))"

text \<open>\<open>None\<close> is the answer -1; otherwise the result of the call is undefined and the first entry is stored.\<close>

definition syscall_readdir :: "nat \<Rightarrow> (ptr \<Rightarrow> dirent) \<Rightarrow> 's dhead dir_itf option list \<Rightarrow> ptr \<Rightarrow> 's dhead \<Rightarrow> ptr \<Rightarrow>
    ((ptr \<times> (ptr \<Rightarrow> dirent option)) option \<times> 's dhead) res" where
  "syscall_readdir n old itfs bp h path =
     rbind (dir_get itfs bp h path) (\<lambda>(dir, h).
     if dir = NULL then Inr (None, h)
     else
       rbind (de_get h dir) (\<lambda>d.
       if de_children d = NULL then Inr (None, h)
       else
         rbind (kmalloc_d h) (\<lambda>(first, h).
         rbind (readdir_loop n old h (\<lambda>_. None) (de_children d) first NULL) (\<lambda>(ds, h).
           Inr (Some (first, ds), h)))))"

text \<open>The table of system calls.\<close>

datatype sysfn =
    Sys_not_impl | Sys_read | Sys_write | Sys_open | Sys_close | Sys_link | Sys_unlink | Sys_chdir | Sys_fstat | Sys_mkdir
  | Sys_dup | Sys_pipe | Sys_readdir

definition SYS_READ :: nat where "SYS_READ = 3"
definition SYS_WRITE :: nat where "SYS_WRITE = 4"
definition SYS_OPEN :: nat where "SYS_OPEN = 5"
definition SYS_CLOSE :: nat where "SYS_CLOSE = 6"
definition SYS_LINK :: nat where "SYS_LINK = 9"
definition SYS_UNLINK :: nat where "SYS_UNLINK = 10"
definition SYS_CHDIR :: nat where "SYS_CHDIR = 12"
definition SYS_FSTAT :: nat where "SYS_FSTAT = 28"
definition SYS_MKDIR :: nat where "SYS_MKDIR = 39"
definition SYS_DUP :: nat where "SYS_DUP = 41"
definition SYS_PIPE :: nat where "SYS_PIPE = 42"
definition SYS_READDIR :: nat where "SYS_READDIR = 460"
definition SYSCALL_COUNT :: nat where "SYSCALL_COUNT = 461"

lemmas sys_consts = SYS_READ_def SYS_WRITE_def SYS_OPEN_def SYS_CLOSE_def SYS_LINK_def SYS_UNLINK_def SYS_CHDIR_def
  SYS_FSTAT_def SYS_MKDIR_def SYS_DUP_def SYS_PIPE_def SYS_READDIR_def SYSCALL_COUNT_def

text \<open>The registers that the entry instruction uses, and the table.\<close>

definition SYSENTER_CS_REG :: u32 where "SYSENTER_CS_REG = 0x174"
definition SYSENTER_ESP_REG :: u32 where "SYSENTER_ESP_REG = 0x175"
definition SYSENTER_EIP_REG :: u32 where "SYSENTER_EIP_REG = 0x176"

definition syscall_init :: "tss_t \<Rightarrow> u32 \<Rightarrow> (u32 \<times> u32) list \<times> sysfn list" where
  "syscall_init tss syscall_handler =
     ([(SYSENTER_CS_REG, 0x8), (SYSENTER_ESP_REG, tss_esp0 tss), (SYSENTER_EIP_REG, syscall_handler)],
      (replicate SYSCALL_COUNT Sys_not_impl)
        [SYS_READ := Sys_read, SYS_WRITE := Sys_write, SYS_OPEN := Sys_open, SYS_CLOSE := Sys_close, SYS_LINK := Sys_link,
         SYS_UNLINK := Sys_unlink, SYS_CHDIR := Sys_chdir, SYS_FSTAT := Sys_fstat, SYS_MKDIR := Sys_mkdir,
         SYS_DUP := Sys_dup, SYS_PIPE := Sys_pipe, SYS_READDIR := Sys_readdir])"

section \<open>The line editor\<close>

text \<open>What is left of a sequence of typed characters: a backspace takes the last one away, keys without a character are
  skipped.\<close>

fun edit :: "u8 list \<Rightarrow> u8 list \<Rightarrow> u8 list" where
  "edit acc [] = acc"
| "edit acc (c # cs) =
     (if c = 0 then edit acc cs else if c = 8 then edit (butlast acc) cs else edit (acc @ [c]) cs)"

text \<open>What the editor shows of them: every character that it stores and every backspace that takes one away.\<close>

fun echoed :: "u8 list \<Rightarrow> u8 list \<Rightarrow> u8 list" where
  "echoed acc [] = []"
| "echoed acc (c # cs) =
     (if c = 0 then echoed acc cs
      else if c = 8 then (if acc = [] then echoed acc cs else 8 # echoed (butlast acc) cs)
      else c # echoed (acc @ [c]) cs)"

lemma edit_length: "length (edit acc cs) \<le> length acc + length cs"
proof (induction cs arbitrary: acc)
  case (Cons c cs)
  show ?case
    using Cons [of acc] Cons [of "butlast acc"] Cons [of "acc @ [c]"] by simp arith
qed simp

lemma take_Suc_update: "i < length xs \<Longrightarrow> take (Suc i) (xs[i := v]) = take i xs @ [v]"
  by (simp add: take_Suc_conv_app_nth)

lemma takeWhile_zero: "0 \<notin> set t \<Longrightarrow> takeWhile (\<lambda>c. c \<noteq> 0) (t @ 0 # rest) = t"
  by (induction t) auto

lemma str_at_cut:
  assumes "i < length buffer" and "take i buffer = acc" and "0 \<notin> set acc"
  shows "str_at (buffer[i := 0]) 0 = acc"
proof -
  have "buffer[i := 0] = acc @ 0 # drop (Suc i) buffer"
    using assms(1,2) by (simp add: upd_conv_take_nth_drop)
  then show ?thesis
    using takeWhile_zero [OF assms(3)] by (simp add: str_at_def)
qed

lemma str_at_split:
  assumes "length (str_at buffer 0) < length buffer"
  shows "buffer = str_at buffer 0 @ 0 # drop (Suc (length (str_at buffer 0))) buffer"
proof -
  have d: "dropWhile (\<lambda>c. c \<noteq> 0) buffer = drop (length (str_at buffer 0)) buffer"
    by (simp add: dropWhile_eq_drop str_at_def)
  then have "dropWhile (\<lambda>c. c \<noteq> 0) buffer \<noteq> []"
    using assms by simp
  then have "hd (dropWhile (\<lambda>c. c \<noteq> 0) buffer) = 0"
    using hd_dropWhile by blast
  then have "drop (length (str_at buffer 0)) buffer = 0 # drop (Suc (length (str_at buffer 0))) buffer"
    using d assms by (metis Cons_nth_drop_Suc list.sel(1))
  then show ?thesis
    by (metis append_take_drop_id str_at_def takeWhile_eq_take drop_0)
qed

lemma str_at_prefix: "0 \<notin> set t \<Longrightarrow> length pre = i \<Longrightarrow> str_at (pre @ t @ 0 # rest) i = t"
  by (simp add: str_at_def takeWhile_zero)

lemma shell_parse_echo:
  assumes "0 \<notin> set t" and "t \<noteq> []"
  shows "shell_parse sys k ([101, 99, 104, 111, 32] @ t @ 0 # rest) = rbind (put_out sys k t) (\<lambda>k. put_out sys k [10])"
proof -
  obtain c cs where t: "t = c # cs" "c \<noteq> 0"
    using assms by (cases t) auto
  then show ?thesis
    using str_at_prefix [OF assms(1), of "[101, 99, 104, 111, 32]" 5 rest]
    by (simp add: shell_parse_def shell_echo_def starts_def has_arg_def array_get_def)
qed

section \<open>What the shell relies on\<close>

text \<open>
  The contract of the output: as long as the console is ready, a write of a text that the output pipe can hold succeeds, shows the
  text behind what has been shown, and leaves the console ready.
\<close>

locale console =
  fixes sys :: "'k sys"
    and shown :: "'k \<Rightarrow> u8 list"
    and ready :: "'k \<Rightarrow> bool"
  assumes shows_text: "ready k \<Longrightarrow> 0 \<notin> set bs \<Longrightarrow> length bs \<le> 4096 \<Longrightarrow>
    \<exists>a k'. sys k (Write bs) = Inr (a, k') \<and> ready k' \<and> shown k' = shown k @ bs"
begin

lemma put_out_shown:
  assumes "ready k" and "0 \<notin> set bs" and "length bs \<le> 4096"
  obtains k' where "put_out sys k bs = Inr k'" "ready k'" "shown k' = shown k @ bs"
  using shows_text [OF assms] that by (auto simp: put_out_def)

text \<open>The line editor leaves the edited line in its buffer and shows every step.\<close>

lemma input_shown:
  assumes "ks_ascii nl = 10"
  shows "\<lbrakk>10 \<notin> ks_ascii ` set ks; length acc + length ks < size'; size' \<le> length buffer; take (length acc) buffer = acc; 0 \<notin> set acc; ready k\<rbrakk> \<Longrightarrow>
    \<exists>buffer' k'. shell_input_loop sys k (ks @ nl # rest) buffer size' (length acc) = Inr (rest, buffer', k') \<and>
      length buffer' = length buffer \<and> str_at buffer' 0 = edit acc (map ks_ascii ks) \<and> ready k' \<and>
      shown k' = shown k @ echoed acc (map ks_ascii ks) @ [10]"
proof (induction ks arbitrary: acc buffer k)
  case Nil
  obtain k' where "put_out sys k [10] = Inr k'" "ready k'" "shown k' = shown k @ [10]"
    by (rule put_out_shown [OF Nil.prems(6), of "[10]"]) auto
  moreover have "str_at (buffer[length acc := 0]) 0 = acc"
    using Nil.prems by (intro str_at_cut) auto
  ultimately show ?case
    using Nil.prems assms by simp
next
  case (Cons x ks)
  let ?c = "ks_ascii x"
  have c10: "?c \<noteq> 10" and lt: "length acc < size'"
    using Cons.prems by auto
  consider "?c = 0" | "?c = 8" "acc = []" | "?c = 8" "acc \<noteq> []" | "?c \<noteq> 0" "?c \<noteq> 8"
    by auto
  then show ?case
  proof cases
    case 1
    then show ?thesis
      using Cons.IH [of acc buffer k] Cons.prems lt by simp
  next
    case 2
    then show ?thesis
      using Cons.IH [of acc buffer k] Cons.prems lt by simp
  next
    case 3
    obtain k' where k': "put_out sys k [8] = Inr k'" "ready k'" "shown k' = shown k @ [8]"
      by (rule put_out_shown [OF Cons.prems(6), of "[8]"]) auto
    have "take (length (butlast acc)) buffer = butlast acc"
      using Cons.prems(4) by (metis butlast_conv_take length_butlast take_take min.idem diff_le_self min_def)
    moreover have "length (butlast acc) + length ks < size'" "0 \<notin> set (butlast acc)"
      using Cons.prems(2,5) by (auto dest: in_set_butlastD)
    ultimately show ?thesis
      using 3 Cons.IH [of "butlast acc" buffer k'] Cons.prems lt k' by simp
  next
    case 4
    obtain k' where k': "put_out sys k [?c] = Inr k'" "ready k'" "shown k' = shown k @ [?c]"
      by (rule put_out_shown [OF Cons.prems(6), of "[?c]"]) (use 4 in auto)
    have "take (length (acc @ [?c])) (buffer[length acc := ?c]) = acc @ [?c]"
      using Cons.prems by (simp add: take_Suc_update)
    then show ?thesis
      using 4 c10 Cons.IH [of "acc @ [?c]" "buffer[length acc := ?c]" k'] Cons.prems lt k' by auto
  qed
qed

lemma echo_round:
  assumes r: "ready k" and path: "0 \<notin> set path" "length path \<le> 4096" and nl: "ks_ascii nl = 10" and ks: "10 \<notin> ks_ascii ` set ks" "length ks < 512"
    and buffer: "length buffer = 512" and t: "edit [] (map ks_ascii ks) = [101, 99, 104, 111, 32] @ t" "t \<noteq> []" "0 \<notin> set t"
  shows "\<exists>buffer' k'. shell_main sys k path (ks @ nl # rest) buffer = Inr (rest, buffer', k') \<and> ready k' \<and>
    shown k' = shown k @ path @ [32, 62, 32] @ echoed [] (map ks_ascii ks) @ [10] @ t @ [10]"
proof -
  obtain k1 where k1: "put_out sys k path = Inr k1" "ready k1" "shown k1 = shown k @ path"
    by (rule put_out_shown [OF r path])
  obtain k2 where k2: "put_out sys k1 [32, 62, 32] = Inr k2" "ready k2" "shown k2 = shown k1 @ [32, 62, 32]"
    by (rule put_out_shown [OF k1(2), of "[32, 62, 32]"]) auto
  obtain buffer' k3 where i: "shell_input_loop sys k2 (ks @ nl # rest) buffer 512 0 = Inr (rest, buffer', k3)"
      "length buffer' = 512" "str_at buffer' 0 = [101, 99, 104, 111, 32] @ t" "ready k3"
      "shown k3 = shown k2 @ echoed [] (map ks_ascii ks) @ [10]"
    using input_shown [OF nl ks(1), of "[]" 512 buffer k2 rest] ks(2) buffer t(1) k2(2) by auto
  have len: "length (str_at buffer' 0) < length buffer'" "length t \<le> 4096"
    using edit_length [of "[]" "map ks_ascii ks"] ks(2) t(1) i(2,3) by simp_all
  then obtain r where "buffer' = [101, 99, 104, 111, 32] @ t @ 0 # r"
    using str_at_split [of buffer'] i(3) by auto
  moreover obtain k4 where k4: "put_out sys k3 t = Inr k4" "ready k4" "shown k4 = shown k3 @ t"
    by (rule put_out_shown [OF i(4) t(3) len(2)])
  moreover obtain k5 where k5: "put_out sys k4 [10] = Inr k5" "ready k5" "shown k5 = shown k4 @ [10]"
    by (rule put_out_shown [OF k4(2), of "[10]"]) auto
  ultimately have "shell_parse sys k3 buffer' = Inr k5"
    using shell_parse_echo [OF t(3,2), of sys k3 r] by simp
  then show ?thesis
    using k1 k2 i k4 k5 by (auto simp: shell_main_def shell_input_def)
qed

text \<open>A line that starts with no letter of a command is repeated in an error message.\<close>

lemma error_round:
  assumes r: "ready k" and path: "0 \<notin> set path" "length path \<le> 4096" and nl: "ks_ascii nl = 10" and ks: "10 \<notin> ks_ascii ` set ks" "length ks < 512"
    and buffer: "length buffer = 512" and t: "edit [] (map ks_ascii ks) = t" "t \<noteq> []" "0 \<notin> set t" "hd t \<notin> {99, 101, 108}"
  shows "\<exists>buffer' k'. shell_main sys k path (ks @ nl # rest) buffer = Inr (rest, buffer', k') \<and> ready k' \<and>
    shown k' = shown k @ path @ [32, 62, 32] @ echoed [] (map ks_ascii ks) @ [10] @ ERR_CMD1 @ t @ ERR_CMD2"
proof -
  obtain k1 where k1: "put_out sys k path = Inr k1" "ready k1" "shown k1 = shown k @ path"
    by (rule put_out_shown [OF r path])
  obtain k2 where k2: "put_out sys k1 [32, 62, 32] = Inr k2" "ready k2" "shown k2 = shown k1 @ [32, 62, 32]"
    by (rule put_out_shown [OF k1(2), of "[32, 62, 32]"]) auto
  obtain buffer' k3 where i: "shell_input_loop sys k2 (ks @ nl # rest) buffer 512 0 = Inr (rest, buffer', k3)"
      "length buffer' = 512" "str_at buffer' 0 = t" "ready k3" "shown k3 = shown k2 @ echoed [] (map ks_ascii ks) @ [10]"
    using input_shown [OF nl ks(1), of "[]" 512 buffer k2 rest] ks(2) buffer t(1) k2(2) by auto
  have len: "length (str_at buffer' 0) < length buffer'" "length t \<le> 4096"
    using edit_length [of "[]" "map ks_ascii ks"] ks(2) t(1) i(2,3) by simp_all
  then obtain r where b: "buffer' = t @ 0 # r"
    using str_at_split [of buffer'] i(3) by auto
  obtain k4 where k4: "put_out sys k3 ERR_CMD1 = Inr k4" "ready k4" "shown k4 = shown k3 @ ERR_CMD1"
    by (rule put_out_shown [OF i(4), of ERR_CMD1]) (auto simp: ERR_CMD1_def)
  obtain k5 where k5: "put_out sys k4 t = Inr k5" "ready k5" "shown k5 = shown k4 @ t"
    by (rule put_out_shown [OF k4(2) t(3) len(2)])
  obtain k6 where k6: "put_out sys k5 ERR_CMD2 = Inr k6" "ready k6" "shown k6 = shown k5 @ ERR_CMD2"
    by (rule put_out_shown [OF k5(2), of ERR_CMD2]) (auto simp: ERR_CMD2_def)
  have "array_get buffer' 0 = Inr (hd t)" "hd t \<noteq> 0"
    using b t(2,3) by (cases t; simp add: array_get_def)+
  then have "shell_parse sys k3 buffer' = Inr k6"
    using t(4) i(3) k4(1) k5(1) k6(1) by (simp add: shell_parse_def shell_input_error_def)
  then show ?thesis
    using k1 k2 i k4 k5 k6 by (auto simp: shell_main_def shell_input_def)
qed

end

section \<open>Commands\<close>

text \<open>Fact [shell_commands]: A line with a text behind \<open>echo\<close> and a space prints the text and a line feed; one with a path behind \<open>cd\<close> asks for the directory
  to be changed to it and nothing else; a line that starts with another letter than those of the commands prints the error with the line.\<close>
theorem shell_commands:
  assumes "0 \<notin> set t" and "t \<noteq> []"
  shows "shell_parse sys k ([101, 99, 104, 111, 32] @ t @ 0 # rest) = rbind (put_out sys k t) (\<lambda>k. put_out sys k [10]) \<and>
    shell_parse sys k ([99, 100, 32] @ t @ 0 # rest) = rbind (sys k (Chdir t)) (\<lambda>(_, k). Inr k) \<and>
    (hd t \<notin> {99, 101, 108} \<longrightarrow> shell_parse sys k (t @ 0 # rest) =
      rbind (put_out sys k ERR_CMD1) (\<lambda>k. rbind (put_out sys k t) (\<lambda>k. put_out sys k ERR_CMD2)))"
proof -
  obtain c cs where t: "t = c # cs" "c \<noteq> 0" "0 \<notin> set cs"
    using assms by (cases t) auto
  have "shell_parse sys k ([99, 100, 32] @ t @ 0 # rest) = rbind (sys k (Chdir t)) (\<lambda>(_, k). Inr k)"
    using t str_at_prefix [OF assms(1), of "[99, 100, 32]" 3 rest]
    by (simp add: shell_parse_def shell_cd_def starts_def has_arg_def array_get_def)
  moreover have "shell_parse sys k (t @ 0 # rest) =
      rbind (put_out sys k ERR_CMD1) (\<lambda>k. rbind (put_out sys k t) (\<lambda>k. put_out sys k ERR_CMD2))" if "hd t \<notin> {99, 101, 108}"
    using that t str_at_prefix [OF assms(1), of "[]" 0 rest]
    by (simp add: shell_parse_def shell_input_error_def array_get_def)
  ultimately show ?thesis
    using shell_parse_echo [OF assms, of sys k rest] by (intro conjI impI)
qed

section \<open>A kernel that records the calls it gets\<close>

definition log_sys :: "call list sys" where
  "log_sys k c = Inr (Ret 0, k @ [c])"

fun written :: "call \<Rightarrow> u8 list" where
  "written (Write bs) = bs"
| "written _ = []"

interpretation lg: console log_sys "\<lambda>k. concat (map written k)" "\<lambda>_. True"
  by unfold_locales (simp add: log_sys_def)

section \<open>Examples and departures\<close>

definition key :: "u8 \<Rightarrow> kb_keysym_t" where
  "key c = \<lparr>ks_ascii = c, ks_flags = 0, ks_keysym = 0\<rparr>"

theorem shell_commands_witness:
  "shell_parse log_sys [] ([99, 100, 32] @ [47] @ 0 # []) = Inr [Chdir [47]]"
  using shell_commands [of "[47]" log_sys "[]" "[]"] by (simp add: log_sys_def)

text \<open>Fact [shell_cat_overruns]: Showing a file of more than four bytes writes behind the buffer, which is allocated with the size of the size field.\<close>
theorem shell_cat_overruns:
  assumes "sys k (Open t O_RDONLY) = Inr (Ret 3, k1)" and "sys k1 (Fstat 3) = Inr (Size n, k2)" and "4 < n"
    and "sys k2 (Read 3 n) = Inr (Bytes bs, k3)" and "0 \<notin> set t" and "t \<noteq> []"
  shows "shell_parse sys k ([99, 97, 116, 32] @ t @ 0 # rest) = Inl BadAccess"
proof -
  obtain c cs where t: "t = c # cs" "c \<noteq> 0"
    using assms(5,6) by (cases t) auto
  then show ?thesis
    using assms str_at_prefix [OF assms(5), of "[99, 97, 116, 32]" 4 rest]
    by (simp add: shell_parse_def shell_cat_def starts_def has_arg_def array_get_def)
qed

text \<open>Fact [syscall_table_complete]: The table of system calls holds each implemented call at its own number and the call that only reports an error everywhere else.\<close>
theorem syscall_table_complete:
  "case syscall_init tss h of (msrs, table) \<Rightarrow>
     length table = 461 \<and> map (\<lambda>i. table ! i) [3, 4, 5, 6, 9, 10, 12, 28, 39, 41, 42, 460] =
       [Sys_read, Sys_write, Sys_open, Sys_close, Sys_link, Sys_unlink, Sys_chdir, Sys_fstat, Sys_mkdir, Sys_dup, Sys_pipe, Sys_readdir] \<and>
     (\<forall>i \<in> {0..<461} - {3, 4, 5, 6, 9, 10, 12, 28, 39, 41, 42, 460}. table ! i = Sys_not_impl)"
  by (auto simp: syscall_init_def sys_consts nth_list_update)

text \<open>Fact [readdir_name_unterminated]: The name of the only child of a directory is stored without a terminator in front of what its block held before, and the link
  of the last entry keeps its old contents too.\<close>
theorem readdir_name_unterminated:
  assumes "child \<noteq> NULL" and "de_get h child = Inr c" and "inode_of h (de_inode c) = Inr i" and "de_next_sib c = NULL"
    and "dh_heap h = p # ps" and "length (dh_strs h (de_path c)) < 256"
  shows "\<exists>ds h'. readdir_loop (Suc 0) old h (\<lambda>_. None) child tmp NULL = Inr (ds, h') \<and>
    ds tmp = Some ((old tmp)\<lparr>dn_inode_n := in_n i,
      dn_name := dh_strs h (de_path c) @ drop (length (dh_strs h (de_path c))) (dn_name (old tmp))\<rparr>)"
  using assms by (simp add: kmalloc_d_def Let_def)

end
