(* ===== verification/Console.thy ===== *)
theory Console
  imports Shell
begin

text \<open>
  The way of a text from the shell to the screen: \<open>syscall_write\<close> puts it into the pipe of the standard output and sleeps, the
  task of \<open>src/kernel/io/stdio_handler.c\<close> takes it out and prints it.  The pipe is of the kind that is read up to a character, here
  the zero byte.

  The way of a key to the shell: the input task writes the four bytes of a symbol into the pipe of the standard input, from which the shell reads four bytes
  at a time.

  Shown here: the first path is a \<open>console\<close>, so what is shown for the shell on every console is shown on the screen; the second delivers the converted
  symbols unchanged and in order.
\<close>

section \<open>The output path\<close>

record console_state =
  co_pipe :: pipe_t
  co_out :: stdout

text \<open>A round of the output task: it reads its pipe up to a zero byte and prints what it has got.\<close>

definition out_round :: "console_state \<Rightarrow> console_state res" where
  "out_round k =
     rbind (pipe_read (co_pipe k) 0 False) (\<lambda>(p, bs, _, out).
     Inr (k\<lparr>co_pipe := p, co_out := (case out of Returned _ \<Rightarrow> stdout_handler (co_out k) bs | Waiting _ \<Rightarrow> co_out k)\<rparr>))"

text \<open>
  A write of the shell: while the writer waits or sleeps the output task runs.  A text that is longer than the pipe takes
  several rounds, each of which makes room.
\<close>

fun console_write :: "nat \<Rightarrow> console_state \<Rightarrow> u8 list \<Rightarrow> nat option \<Rightarrow> console_state res" where
  "console_write 0 k bs start = Inl Hang"
| "console_write (Suc n) k bs start =
     rbind (pipe_write (co_pipe k) bs (of_nat (length bs)) start) (\<lambda>(p, _, _, out).
     rbind (out_round (k\<lparr>co_pipe := p\<rparr>)) (\<lambda>k.
     case out of Returned _ \<Rightarrow> Inr k | Waiting i \<Rightarrow> console_write n k bs (Some i)))"

text \<open>Every other call is answered by the rest of the kernel; \<open>eax\<close> is what \<open>syscall_write\<close> leaves as its result.\<close>

definition console_sys :: "int \<Rightarrow> console_state sys \<Rightarrow> console_state sys" where
  "console_sys eax other k c =
     (case c of
        Write bs \<Rightarrow> rbind (console_write (Suc (length bs)) k bs None) (\<lambda>k. Inr (Ret eax, k))
      | _ \<Rightarrow> other k c)"

section \<open>The pipe of the output\<close>

definition char_pipe :: "pipe_t \<Rightarrow> u8 list \<Rightarrow> bool" where
  "char_pipe p C \<longleftrightarrow> pbuf p C \<and> lock_free (pp_mutex p) \<and> pp_size p = PIPE_SIZE \<and> pp_type p = PIPE_TYPE_BUF_CHAR \<and>
     pp_read_open p \<and> pp_write_open p"

lemma char_pipe_relock:
  assumes "char_pipe p C" "same_pipe (p\<lparr>pp_mutex := m\<rparr>) q" "pbuf q D" "lock_free m'"
  shows "char_pipe (q\<lparr>pp_mutex := m'\<rparr>) D"
  using assms by (simp add: char_pipe_def same_pipe_def)

lemmas pipe_types = PIPE_TYPE_UNBUFFERED_def PIPE_TYPE_BUF_BLOCK_def PIPE_TYPE_BUF_CHAR_def

lemma char_write:
  assumes p: "char_pipe p []" and len: "length bs \<le> 4096"
  obtains p' where "char_pipe p' bs" "pipe_write p bs (of_nat (length bs)) None = Inr (p', bs, [B_READ], Returned (sint (of_nat (length bs) :: u32)))"
proof -
  let ?m = "pp_mutex p" and ?q = "p\<lparr>pp_mutex := (pp_mutex p)\<lparr>current_count := 1\<rparr>\<rparr>" and ?n = "of_nat (length bs) :: u32"
  have n: "unat ?n = length bs"
    using len by (simp add: unat_u32_of_nat)
  have free: "lock_free ?m" and q: "pbuf ?q []" "pp_read_open ?q" and ty: "pp_type p = PIPE_TYPE_BUF_CHAR"
    using p by (simp_all add: char_pipe_def)
  obtain p1 where p1: "pbuf p1 bs" "same_pipe ?q p1" "pipe_unbuf_write ?q bs ?n 0 [] = Inr (p1, bs, [], Returned (sint ?n))"
    using pipe_unbuf_write_run [OF q(1) _ _ q(2), of ?n bs 0 "[]"] n len by auto
  have rel: "lock_release (pp_mutex p1) = Inr ?m"
    using free p1(2) by (simp add: same_pipe_def lock_release_def lock_free_def)
  have "pipe_write p bs ?n None = Inr (p1\<lparr>pp_mutex := ?m\<rparr>, bs, [B_READ], Returned (sint ?n))"
    using lock_acquire_free [OF free] p1(3) rel by (simp add: pipe_write_def Let_def ty pipe_types)
  then show ?thesis
    using that char_pipe_relock [OF p p1(2,1) free] by blast
qed

lemma bufchar_loop_run:
  assumes "pbuf p C" "pp_size p = PIPE_SIZE" "0 \<notin> set C"
  shows "\<exists>p'. pbuf p' [] \<and> same_pipe p p' \<and> pipe_bufchar_loop p 0 out = Inr (p', out @ C)"
  using assms
proof (induction C arbitrary: p out)
  case Nil
  then show ?case
    using pbuf_empty [of p "[]"] by (intro exI [of _ p]) (simp add: pipe_bufchar_loop.simps)
next
  case (Cons v C)
  let ?q = "p\<lparr>pp_b_read := pp_b_read p + 1\<rparr>"
  have get: "array_get (pp_buffer p) (unat (pp_b_read p mod pp_size p)) = Inr v" and "PIPE_SIZE \<noteq> 0"
    using Cons.prems(1,2) pbuf_pop(2) [OF Cons.prems(1)]
    by (simp_all add: array_get_def pbuf_def unat_u32_mod PIPE_SIZE_def)
  moreover have "uint v \<noteq> 0"
    using Cons.prems(3) by (auto simp: uint_0_iff)
  ultimately have step: "pipe_bufchar_loop p 0 out = pipe_bufchar_loop ?q 0 (out @ [v])"
    using pbuf_empty [OF Cons.prems(1)] Cons.prems(2) by (subst pipe_bufchar_loop.simps) (simp add: Let_def)
  moreover have "same_pipe p ?q"
    by (simp add: same_pipe_def)
  ultimately show ?case
    using Cons.IH [OF pbuf_pop(1) [OF Cons.prems(1)], of "out @ [v]"] Cons.prems(2,3) same_pipe_trans by fastforce
qed

lemma char_read:
  assumes p: "char_pipe p bs" and z: "0 \<notin> set bs"
  obtains p' sig where "char_pipe p' []"
    "pipe_read p 0 False = Inr (p', bs, sig, if bs = [] then Waiting 0 else Returned (int (length bs)))"
proof -
  let ?m = "pp_mutex p" and ?q = "p\<lparr>pp_mutex := (pp_mutex p)\<lparr>current_count := 1\<rparr>\<rparr>"
  have free: "lock_free ?m" and q: "pbuf ?q bs" "pp_size ?q = PIPE_SIZE" and ty: "pp_type p = PIPE_TYPE_BUF_CHAR" "pp_write_open p"
    using p by (simp_all add: char_pipe_def)
  have e: "(pp_b_read p = pp_b_write p) = (bs = [])"
    using pbuf_empty [of p bs] p by (simp add: char_pipe_def)
  show ?thesis
  proof (cases "bs = []")
    case True
    have "lock_release (pp_mutex ?q) = Inr ?m"
      using free by (simp add: lock_release_def lock_free_def)
    then have "pipe_read p 0 False = Inr (?q\<lparr>pp_mutex := ?m\<rparr>, [], [], Waiting 0)"
      using lock_acquire_free [OF free] True e ty by (simp add: pipe_read_def Let_def pipe_types pipe_bufchar_read_def pipe_wait_def)
    moreover have "char_pipe (?q\<lparr>pp_mutex := ?m\<rparr>) []"
      using p True by simp
    ultimately show ?thesis
      using that True by simp
  next
    case False
    obtain p1 where p1: "pbuf p1 []" "same_pipe ?q p1" "pipe_bufchar_loop ?q 0 [] = Inr (p1, bs)"
      using bufchar_loop_run [OF q z, of "[]"] by auto
    have rel: "lock_release (pp_mutex p1) = Inr ?m"
      using free p1(2) by (simp add: same_pipe_def lock_release_def lock_free_def)
    then have "pipe_read p 0 False = Inr (p1\<lparr>pp_mutex := ?m\<rparr>, bs, [B_WRITE], Returned (int (length bs)))"
      using lock_acquire_free [OF free] False e ty p1(3) by (simp add: pipe_read_def Let_def pipe_types pipe_bufchar_read_def)
    then show ?thesis
      using that char_pipe_relock [OF p p1(2,1) free] False by simp
  qed
qed

section \<open>The path is a console\<close>

definition screen_ready :: "console_state \<Rightarrow> bool" where
  "screen_ready k \<longleftrightarrow> char_pipe (co_pipe k) [] \<and> so_mode (co_out k) = TERMINAL_OUT"

definition on_screen :: "console_state \<Rightarrow> u8 list" where
  "on_screen k = so_terminal (co_out k)"

lemma console_write_shown:
  assumes k: "screen_ready k" and bs: "0 \<notin> set bs" "length bs \<le> 4096"
  shows "\<exists>k'. console_write (Suc n) k bs None = Inr k' \<and> screen_ready k' \<and> on_screen k' = on_screen k @ bs"
proof -
  obtain p1 ret where p1: "char_pipe p1 bs" "pipe_write (co_pipe k) bs (of_nat (length bs)) None = Inr (p1, bs, [B_READ], Returned ret)"
    using char_write [of "co_pipe k" bs] k bs(2) unfolding screen_ready_def by blast
  obtain p2 sig where p2: "char_pipe p2 []"
      "pipe_read p1 0 False = Inr (p2, bs, sig, if bs = [] then Waiting 0 else Returned (int (length bs)))"
    by (rule char_read [OF p1(1) bs(1)])
  show ?thesis
    using p1(2) p2 k
    by (auto simp: out_round_def screen_ready_def on_screen_def stdout_handler_prints send_def)
qed

interpretation sc: console "console_sys eax other" on_screen screen_ready
proof
  fix k and bs :: "u8 list"
  assume "screen_ready k" "0 \<notin> set bs" "length bs \<le> 4096"
  from console_write_shown [OF this, of "length bs"]
  show "\<exists>a k'. console_sys eax other k (Write bs) = Inr (a, k') \<and> screen_ready k' \<and> on_screen k' = on_screen k @ bs"
    by (auto simp: console_sys_def simp del: console_write.simps)
qed

text \<open>Fact [shell_echo_shown]: When somebody types a line that, after all corrections, is \<open>echo\<close>, a space and a text, then after a round of the shell, whose writes go through the pipe of the
  standard output and the output task, the terminal has got exactly the prompt, the keys as they were typed, a line feed, the text, and a line feed.\<close>
theorem shell_echo_shown:
  assumes "screen_ready k" and "0 \<notin> set path" and "length path \<le> 4096" and "ks_ascii nl = 10" and "10 \<notin> ks_ascii ` set ks" and "length ks < 512"
    and "length buffer = 512" and "edit [] (map ks_ascii ks) = [101, 99, 104, 111, 32] @ t" and "t \<noteq> []" and "0 \<notin> set t"
  shows "\<exists>buffer' k'. shell_main (console_sys eax other) k path (ks @ nl # rest) buffer = Inr (rest, buffer', k') \<and> screen_ready k' \<and>
    on_screen k' = on_screen k @ path @ [32, 62, 32] @ echoed [] (map ks_ascii ks) @ [10] @ t @ [10]"
  by (rule sc.echo_round [OF assms])

text \<open>Fact [shell_error_shown]: A line that starts with no letter of a command is answered with the error message that repeats it.\<close>
theorem shell_error_shown:
  assumes "screen_ready k" and "0 \<notin> set path" and "length path \<le> 4096" and "ks_ascii nl = 10" and "10 \<notin> ks_ascii ` set ks" and "length ks < 512"
    and "length buffer = 512" and "edit [] (map ks_ascii ks) = t" and "t \<noteq> []" and "0 \<notin> set t" and "hd t \<notin> {99, 101, 108}"
  shows "\<exists>buffer' k'. shell_main (console_sys eax other) k path (ks @ nl # rest) buffer = Inr (rest, buffer', k') \<and> screen_ready k' \<and>
    on_screen k' = on_screen k @ path @ [32, 62, 32] @ echoed [] (map ks_ascii ks) @ [10] @ ERR_CMD1 @ t @ ERR_CMD2"
  by (rule sc.error_round [OF assms])

section \<open>The input path\<close>

text \<open>The rounds of the input task for a sequence of keys; in a full pipe it would wait.\<close>

fun type_keys :: "pipe_t \<Rightarrow> kb_keysym_t list \<Rightarrow> pipe_t res" where
  "type_keys p [] = Inr p"
| "type_keys p (k # ks) =
     rbind (stdin_handler p k) (\<lambda>(p, _, _, out).
     case out of Returned _ \<Rightarrow> type_keys p ks | Waiting _ \<Rightarrow> Inl Hang)"

text \<open>The reads of \<open>shell_input\<close>: four bytes are one symbol.\<close>

definition keysym_of :: "u8 list \<Rightarrow> kb_keysym_t" where
  "keysym_of bs = \<lparr>ks_ascii = bs ! 0, ks_flags = bs ! 1, ks_keysym = ucast (bs ! 2) OR push_bit 8 (ucast (bs ! 3))\<rparr>"

fun read_keys :: "nat \<Rightarrow> pipe_t \<Rightarrow> (kb_keysym_t list \<times> pipe_t) res" where
  "read_keys 0 p = Inr ([], p)"
| "read_keys (Suc n) p =
     rbind (pipe_read p 4 False) (\<lambda>(p, bs, _, out).
     case out of
       Returned _ \<Rightarrow> rbind (read_keys n p) (\<lambda>(ks, p). Inr (keysym_of bs # ks, p))
     | Waiting _ \<Rightarrow> Inl Hang)"

lemma length_keysym_bytes [simp]: "length (keysym_bytes k) = 4"
  by (simp add: keysym_bytes_def)

lemma keysym_of_bytes [simp]: "keysym_of (keysym_bytes k) = k"
proof -
  have "ucast (ucast v :: u8) OR push_bit 8 (ucast (ucast (drop_bit 8 v) :: u8)) = v" for v :: u16
    by (rule bit_word_eqI) (auto simp: bit_simps)
  then show ?thesis
    by (cases k) (simp add: keysym_of_def keysym_bytes_def)
qed

abbreviation sym_bytes :: "kb_keysym_t list \<Rightarrow> u8 list" where
  "sym_bytes ks \<equiv> concat (map (\<lambda>k. keysym_bytes (stdin_keysym_to_char k)) ks)"

lemma length_sym_bytes [simp]: "length (sym_bytes ks) = 4 * length ks"
  by (induction ks) auto

lemma type_keys_run:
  "pipe_ok p C \<Longrightarrow> length C + 4 * length ks \<le> 4096 \<Longrightarrow> \<exists>p'. type_keys p ks = Inr p' \<and> pipe_ok p' (C @ sym_bytes ks)"
proof (induction ks arbitrary: p C)
  case (Cons k ks)
  let ?b = "keysym_bytes (stdin_keysym_to_char k)"
  obtain p1 where p1: "pipe_ok p1 (C @ ?b)" "pipe_write p ?b 4 None = Inr (p1, ?b, [B_READ], Returned (sint (4 :: u32)))"
    using pipe_write_run [OF Cons.prems(1), of 4 ?b None] Cons.prems(2) by auto
  then obtain p2 where "type_keys p1 ks = Inr p2" "pipe_ok p2 ((C @ ?b) @ sym_bytes ks)"
    using Cons.IH [OF p1(1)] Cons.prems(2) by auto
  then show ?case
    using p1(2) by (simp add: stdin_handler_def)
qed simp

lemma read_keys_run:
  "pipe_ok p (sym_bytes ks) \<Longrightarrow> \<exists>p'. read_keys (length ks) p = Inr (map stdin_keysym_to_char ks, p') \<and> pipe_ok p' []"
proof (induction ks arbitrary: p)
  case (Cons k ks)
  let ?b = "keysym_bytes (stdin_keysym_to_char k)"
  have "?b \<noteq> []"
    by (simp add: keysym_bytes_def)
  then obtain p1 where p1: "pipe_ok p1 (sym_bytes ks)" "pipe_read p 4 False = Inr (p1, ?b, [B_WRITE], Returned 4)"
    using pipe_read_run [OF Cons.prems, of False 4] by auto
  then show ?case
    using Cons.IH [OF p1(1)] by auto
qed simp

text \<open>Fact [keys_delivered]: At most 1024 keys that the input task gets while its pipe is empty reach the shell in their order, each as the symbol with
  its character, and the pipe is empty again.\<close>
theorem keys_delivered:
  assumes "pipe_ok p []" and "length ks \<le> 1024"
  shows "\<exists>p1 p2. type_keys p ks = Inr p1 \<and> read_keys (length ks) p1 = Inr (map stdin_keysym_to_char ks, p2) \<and> pipe_ok p2 []"
  using type_keys_run [OF assms(1), of ks] read_keys_run assms(2) by fastforce

section \<open>Examples\<close>

definition console_sample :: console_state where
  "console_sample = \<lparr>co_pipe = pipe_new PIPE_SIZE PIPE_TYPE_BUF_CHAR (replicate 4096 0),
     co_out = \<lparr>so_mode = TERMINAL_OUT, so_terminal = [], so_serial = []\<rparr>\<rparr>"

lemma console_sample_ready: "screen_ready console_sample"
  by (simp add: screen_ready_def char_pipe_def pbuf_def console_sample_def pipe_new_def pipe_types PIPE_SIZE_def lock_free_create)

end
