(* ===== verification/Spec2Isabelle.thy ===== *)
theory Spec2Isabelle
  imports RingQueue HashTable Pmm Paging Vmm Task Mutex Tty Rtc Keyboard Ide Bio Ext2 Inode Dir ExtDir File Pipe Printf
    HeapUse Descr Acpi Ports Apic Stdio Shell Console
begin

text \<open>
  A verification library for bulbOS, a small 32-bit x86 kernel.

  \<^bold>\<open>The program and its parts.\<close>  The kernel manages physical pages with a bitmap
  (\<open>memory/pmm.c\<close>), maps them through two-level page tables (\<open>memory/page.c\<close>) and builds its heap on
  both (\<open>memory/vmm.c\<close>).  The scheduler (\<open>proc/task.c\<close>) keeps tasks in linked lists and is driven by
  the timer; semaphores, mutexes and condition variables (\<open>proc/mutex.c\<close>) block and wake tasks
  through it.  Drivers feed it: the keyboard behind the PS/2
  controller, the clock, the text screen, the serial port, the PCI bus and the IDE disk.  At boot the segment and interrupt
  tables are filled (\<open>boot/gdt.c\<close>, \<open>int/idt.c\<close>, \<open>int/isrs.c\<close>), the tables the firmware left in memory are searched
  (\<open>drivers/rsdt.c\<close>) and the interrupt controllers and timers they describe are programmed (\<open>int/apic.c\<close>,
  \<open>drivers/hpet.c\<close>).  The
  block cache (\<open>fs/bio.c\<close>) finds disk blocks through the hash table of \<open>utils/hashtable.c\<close>; the ext2 file system
  (\<open>fs/filesystem.c\<close>) keeps files and directories in such blocks; inodes (\<open>fs/inode.c\<close>) and directory entries
  (\<open>fs/dir.c\<close>) are cached by number and by path, and paths are resolved through them; open files
  (\<open>fs/file.c\<close>) and pipes (\<open>fs/pipe.c\<close>) are what system calls (\<open>usr/syscall.c\<close>) work on.  Two tasks
  (\<open>io/stdio_handler.c\<close>) carry keys to the input pipe and the output pipe to the screen, and the shell
  (\<open>usr/shell.c\<close>) reads lines from the one and answers on the other.  Paths below are relative to
  \<open>src/src/kernel\<close>, except for \<open>utils\<close> (\<open>src/src/utils\<close>) and \<open>libc\<close> (\<open>src/libc-src\<close>).

  \<^bold>\<open>Conventions.\<close>  Fixed-width integers are words, so arithmetic wraps as on the machine; an \<open>int\<close>
  of the code that cannot overflow is an \<open>int\<close>.  Structs are records, objects that are shared through pointers live in a
  store from addresses to records, and a function that changes state takes it and returns it.  A
  function that may not return normally has the result type \<open>'a res\<close>: \<open>Abort\<close> for a panic or a fault of the
  processor, \<open>BadAccess\<close> for an access outside an object or through a null pointer, \<open>Hang\<close> for a loop
  that does not end or a task that waits for ever.  Ports and devices are logs of what is sent to them and input streams of what
  they deliver.  What the allocator returns and what fresh memory holds are parameters where the code does not fix them.

  \<^bold>\<open>Theories.\<close>
  \<^item> \<open>BulbPrelude\<close>: results, arrays, rings, word facts shared by all others.
  \<^item> \<open>RingQueue\<close>: \<open>utils/queue.c\<close>; the ring refines a bounded FIFO queue (\<open>queue_refines_fifo\<close>).
  \<^item> \<open>LibcString\<close>: \<open>libc/string\<close>; copying, comparing, printing of numbers.
  \<^item> \<open>Printf\<close>: \<open>libc/stdio\<close>; \<open>printf\<close> agrees with a specification of formats (\<open>printf_renders\<close>).
  \<^item> \<open>HashTable\<close>: \<open>utils/hashtable.c\<close>; probing, insertion and removal as operations on a map; the locale
    \<open>kv_cache\<close> is the contract its clients rely on and is interpreted on the table.
  \<^item> \<open>Pmm\<close>: \<open>memory/pmm.c\<close>; the allocator hands out distinct free pages and takes them back.
  \<^item> \<open>Paging\<close>: \<open>memory/page.c\<close>; lookups allocate and map, other mappings are kept.
  \<^item> \<open>Vmm\<close>: \<open>memory/vmm.c\<close>; the free list in the heap's own memory, its allocation, release, merging and growth.
  \<^item> \<open>HeapUse\<close>: \<open>ht_free\<close> and \<open>proc/loader.c\<close>, composed from the heap.
  \<^item> \<open>Task\<close>: \<open>proc/task.c\<close>; lists of ready, sleeping and terminated tasks, postponed switches; a tick of the timer wakes
    exactly the tasks that are due (\<open>task_time_handler_wakes\<close>).
  \<^item> \<open>Mutex\<close>: \<open>proc/mutex.c\<close>; blocking and first-in first-out wake-up, condition variables, and the
    view of a mutex by a single task (\<open>lock_acquire\<close>, \<open>lock_release\<close>) that the file system theories use; the locale
    \<open>monitor\<close>, a structure behind a mutex, is interpreted on the block, inode and directory caches and on the open files.
  \<^item> \<open>Tty\<close>, \<open>Rtc\<close>, \<open>Keyboard\<close>: \<open>io/tty.c\<close>, \<open>drivers/rtc.c\<close> and \<open>drivers/cmos.c\<close>, \<open>drivers/keyboard.c\<close>.
  \<^item> \<open>Ide\<close>: \<open>drivers/ide.c\<close> and \<open>drivers/pci.c\<close>; which sizes of a transfer fill the descriptor table and which run
    past it, and which sector is programmed.
  \<^item> \<open>DList\<close>: doubly linked lists in a store of records, taking an element out and pushing one; shared by the free
    lists of the caches.
  \<^item> \<open>Bio\<close>: \<open>fs/bio.c\<close>; the invariant \<open>bio_inv\<close> ties the table, the buffers, their locks and counts and the doubly
    linked free list together; reads, writes, releases and reacquisitions keep it.
  \<^item> \<open>Ext2\<close>: \<open>fs/filesystem.c\<close> without directories; the cache is seen as the bytes of every block and the blocks that are held.
    Freeing undoes allocating, an inode on disk is read back unchanged, reading and writing a file of direct blocks agree
    with reading and overwriting a list of bytes.
  \<^item> \<open>Inode\<close>: \<open>fs/inode.c\<close>; the invariant \<open>inode_inv\<close> ties the table, the inodes and the free list together, and
    the abstraction \<open>refs\<close>, the number of references of each inode, shows what getting and releasing do.  The operations
    of a file system are the fields of \<open>fs_itf\<close>; \<open>ext2_itf\<close> fills them with those of \<open>Ext2\<close>.
  \<^item> \<open>Dir\<close>: \<open>fs/dir.c\<close>; how a path is resolved through cached entries and the directories parsed on the way.
  \<^item> \<open>ExtDir\<close>: the directory functions and the set-up of \<open>fs/filesystem.c\<close> and \<open>file_open\<close> of \<open>fs/file.c\<close>; parsing visits
    exactly the entries a directory consists of.
  \<^item> \<open>File\<close>: \<open>fs/file.c\<close>; the free list of files and the descriptors of a task.
  \<^item> \<open>Pipe\<close>: \<open>fs/pipe.c\<close> and the system calls on descriptors; the step relation \<open>pstep\<close> interleaves any number of
    readers and writers, and its invariant gives first-in first-out delivery and no lost wake-up.
  \<^item> \<open>Descr\<close>: \<open>boot/gdt.c\<close>, \<open>boot/tss.c\<close>, \<open>int/idt.c\<close>, \<open>int/isrs.c\<close>; a descriptor read the way the processor reads
    it gives back the base, limit and rights it was built from, and every exception reaches the handler meant for it.
  \<^item> \<open>Acpi\<close>: \<open>drivers/rsdt.c\<close>; the search for the root pointer and for a table by its signature, over the bytes of
    physical memory.
  \<^item> \<open>Ports\<close>: \<open>int/pic.c\<close>, \<open>drivers/ps2controller.c\<close>, \<open>io/serialport.c\<close>; what is sent to the ports for what they deliver.
  \<^item> \<open>Apic\<close>: \<open>int/apic.c\<close>, \<open>drivers/hpet.c\<close>, \<open>drivers/pit.c\<close>, \<open>libc/stdlib/nano_sleep.c\<close>; the parser of the
    controller table, the register files of the controllers, the comparators of the timer, sleeping on top of \<open>Task\<close>.
  \<^item> \<open>Stdio\<close>: \<open>io/stdio_handler.c\<close>; from scan codes to typed characters through \<open>Keyboard\<close> and \<open>Pipe\<close>, and the switch to the
    input task through \<open>Task\<close>.
  \<^item> \<open>Shell\<close>: \<open>usr/shell.c\<close> and the rest of \<open>usr/syscall.c\<close>; the line editor, the commands and the rounds of the shell; the locale
    \<open>console\<close> is the contract of the output it relies on.
  \<^item> \<open>Console\<close>: the output pipe with the task behind it is a \<open>console\<close>, and the input pipe delivers keys in order; the theorem of
    this theory (\<open>typed_line_answered\<close>) puts both together: from typed keys to the screen.

  \<^bold>\<open>Fuel.\<close>  Loops over linked structures carry a number of rounds.  In \<open>Vmm\<close> it is computed from the state
  (\<open>list_fuel\<close>, the bytes of the heap, bounds the nodes of the free list; \<open>page_fuel\<close> the pages that
  fit before the stack of pages) and the properties show that it is enough; in \<open>Task\<close> and \<open>Mutex\<close> it is
  the number of tasks created so far, which bounds the lists; \<open>bio_evict_loop\<close>, \<open>inode_evict_loop\<close> and \<open>dir_evict_loop\<close>
  run once per object in the list, \<open>dir_release_children\<close> and \<open>unlink_loop\<close> once per child; the allocator of \<open>Ext2\<close>
  takes the number of groups it may visit, and one round is enough when the first group has a free block.  The device loops of
  \<open>Ide\<close> and \<open>Ports\<close> and the input loop of \<open>Shell\<close> end because every round consumes one value of the input stream;
  \<open>madt_loop\<close> and the searches of \<open>Acpi\<close> run over an address range that shrinks, and a record of length zero, with which
  the parser would not end, is a \<open>Hang\<close>.  \<open>console_write\<close> may take one round per byte, and one is enough for a text that the pipe can hold.

  \<^bold>\<open>Departures shown.\<close>  Several lemmas, marked as facts, show where the code does not do what it
  means to: for example creating a file waits for ever for a lock it already holds, the only unused inode cannot be taken
  again, files with indirect blocks read data as block numbers, a full block cache can never evict, the last close of a file calls a null
  pointer, user pipes overrun their buffer, a preempted task is lost, \<open>printf\<close> drops digits in the alternate form,
  the checksum of the root pointer is tested in one bit only, the divisor latch of the serial port stays selected, a key pressed while the kernel is idle makes the ready list
  a cycle, sleeping
  more than four seconds overflows, and the shell reads a file into four bytes.

  \<^bold>\<open>Not modelled.\<close>  The graphics mode (\<open>io/vbe.c\<close>) prints what the boot loader reports; \<open>int/irq.c\<close> is
  commented out; the boot code, the task switch and the entry of system calls are assembly;
  \<open>k_main.c\<close> calls the initialisations in order, creates the task of the shell and halts.  Debug printing is left out everywhere.
\<close>

section \<open>From the keyboard to the screen\<close>


text \<open>The symbols of the keys of "echo hi", and the enter key.\<close>

definition typed_sample :: "kb_keysym_t list" where
  "typed_sample = map (\<lambda>c. \<lparr>ks_ascii = 0, ks_flags = 0, ks_keysym = c\<rparr>) [28, 26, 31, 38, 55, 31, 32]"

definition enter_sample :: kb_keysym_t where
  "enter_sample = \<lparr>ks_ascii = 0, ks_flags = 0, ks_keysym = 64\<rparr>"

lemma typed_sample_chars:
  "map (\<lambda>s. ks_ascii (stdin_keysym_to_char s)) typed_sample = [101, 99, 104, 111, 32, 104, 105]"
  "ks_ascii (stdin_keysym_to_char enter_sample) = 10" "length typed_sample = 7"
  by code_simp+


end
